(* ===== verification/Prelude.thy ===== *)
theory Prelude
  imports Main "HOL-Library.AList" "HOL-Library.Word"
begin

text \<open>
  Shared base of the development: the type abbreviations every component uses, the
  theorem collections the proofs are driven by, the model of \<open>std::unordered_map\<close>
  with the interface its clients rely on, and generic list facts.

  Counters of type \<open>std::size_t\<close> and \<open>uint64_t\<close> that only count rows, files or
  requests are natural numbers (they are bounded by what fits in memory); wherever the
  code narrows, casts or does arithmetic that can leave the width, the reduction is
  written out.
\<close>

type_synonym node_id = string
type_synonym bytes = string

named_theorems map_laws
named_theorems state_simps
named_theorems inv_intros

definition size_max :: nat where
  "size_max = 2 ^ 64 - 1"

definition to_unsigned :: "nat \<Rightarrow> int \<Rightarrow> int" where
  \<comment> \<open>conversion to a w-bit unsigned type: reduction modulo \<open>2 ^ w\<close>\<close>
  "to_unsigned w x = x mod 2 ^ w"

definition to_signed :: "nat \<Rightarrow> int \<Rightarrow> int" where
  \<comment> \<open>conversion to a w-bit two's complement type\<close>
  "to_signed w x = (x + 2 ^ (w - 1)) mod 2 ^ w - 2 ^ (w - 1)"

lemma to_signed_64: "to_signed 64 x = (x + 2 ^ 63) mod 2 ^ 64 - 2 ^ 63"
  by (simp add: to_signed_def)

lemma to_signed_32: "to_signed 32 x = (x + 2 ^ 31) mod 2 ^ 32 - 2 ^ 31"
  by (simp add: to_signed_def)

lemma to_signed_64_id: "- (2 ^ 63) \<le> x \<Longrightarrow> x < 2 ^ 63 \<Longrightarrow> to_signed 64 x = x"
  by (simp add: to_signed_64)

lemma to_signed_32_id: "- (2 ^ 31) \<le> x \<Longrightarrow> x < 2 ^ 31 \<Longrightarrow> to_signed 32 x = x"
  by (simp add: to_signed_32)

lemma to_unsigned_range: "0 \<le> to_unsigned w x \<and> to_unsigned w x < 2 ^ w"
  by (simp add: to_unsigned_def)

lemma to_unsigned_id: "0 \<le> x \<Longrightarrow> x < 2 ^ w \<Longrightarrow> to_unsigned w x = x"
  by (simp add: to_unsigned_def)

section \<open>std::unordered_map\<close>

text \<open>
  A hash map is an association list whose order stands for the (unspecified) iteration
  order of the container. Nothing proved below depends on that order.
\<close>

type_synonym ('k, 'v) umap = "('k \<times> 'v) list"

definition um_find :: "('k, 'v) umap \<Rightarrow> 'k \<Rightarrow> 'v option" where
  "um_find m k = map_of m k"

definition um_put :: "'k \<Rightarrow> 'v \<Rightarrow> ('k, 'v) umap \<Rightarrow> ('k, 'v) umap" where
  "um_put k v m = AList.update k v m"

definition um_erase :: "'k \<Rightarrow> ('k, 'v) umap \<Rightarrow> ('k, 'v) umap" where
  "um_erase k m = AList.delete k m"

definition um_keys :: "('k, 'v) umap \<Rightarrow> 'k list" where
  "um_keys m = map fst m"

definition um_ok :: "('k, 'v) umap \<Rightarrow> bool" where
  "um_ok m \<longleftrightarrow> distinct (um_keys m)"

definition um_index :: "'v \<Rightarrow> 'k \<Rightarrow> ('k, 'v) umap \<Rightarrow> 'v \<times> ('k, 'v) umap" where
  \<comment> \<open>\<open>operator[]\<close> used as a read: a missing key is inserted with the default value\<close>
  "um_index d k m = (case um_find m k of Some v \<Rightarrow> (v, m) | None \<Rightarrow> (d, um_put k d m))"

definition um_try_emplace :: "'k \<Rightarrow> 'v \<Rightarrow> ('k, 'v) umap \<Rightarrow> ('k, 'v) umap" where
  "um_try_emplace k v m = (case um_find m k of Some _ \<Rightarrow> m | None \<Rightarrow> um_put k v m)"

text \<open>The interface: what a client of the container may assume.\<close>

locale dictionary =
  fixes lookup :: "'m \<Rightarrow> 'k \<Rightarrow> 'v option"
    and store :: "'k \<Rightarrow> 'v \<Rightarrow> 'm \<Rightarrow> 'm"
    and remove :: "'k \<Rightarrow> 'm \<Rightarrow> 'm"
    and keys :: "'m \<Rightarrow> 'k list"
  assumes lookup_store: "lookup (store k v m) = (lookup m)(k \<mapsto> v)"
    and lookup_remove: "lookup (remove k m) = (lookup m)(k := None)"
    and keys_lookup: "set (keys m) = dom (lookup m)"
    and distinct_store: "distinct (keys m) \<Longrightarrow> distinct (keys (store k v m))"
    and distinct_remove: "distinct (keys m) \<Longrightarrow> distinct (keys (remove k m))"
begin

lemma lookup_store_same: "lookup (store k v m) k = Some v"
  by (simp add: lookup_store)

lemma lookup_store_other: "k \<noteq> j \<Longrightarrow> lookup (store k v m) j = lookup m j"
  by (simp add: lookup_store)

lemma keys_store: "set (keys (store k v m)) = insert k (set (keys m))"
  by (auto simp: keys_lookup lookup_store)

lemma keys_remove: "set (keys (remove k m)) = set (keys m) - {k}"
  by (auto simp: keys_lookup lookup_remove split: if_splits)

lemma lookup_None_iff: "lookup m k = None \<longleftrightarrow> k \<notin> set (keys m)"
  by (auto simp: keys_lookup)

lemma store_twice: "lookup (store k v (store k w m)) = lookup (store k v m)"
  by (simp add: lookup_store)

lemma keys_store_known:
  assumes "lookup m k = Some w"
  shows "set (keys (store k v m)) = set (keys m)"
  unfolding keys_store using assms by (auto simp: keys_lookup)

end

interpretation um: dictionary um_find um_put um_erase um_keys
proof unfold_locales
  show "um_find (um_put k v m) = (um_find m)(k \<mapsto> v)" for k v and m :: "('a, 'b) umap"
    by (rule ext) (simp add: um_find_def um_put_def update_conv')
  show "um_find (um_erase k m) = (um_find m)(k := None)" for k and m :: "('a, 'b) umap"
    by (rule ext) (simp add: um_find_def um_erase_def delete_conv')
  show "set (um_keys m) = dom (um_find m)" for m :: "('a, 'b) umap"
    by (simp add: um_keys_def um_find_def dom_def map_of_eq_None_iff flip: not_None_eq)
  show "distinct (um_keys m) \<Longrightarrow> distinct (um_keys (um_put k v m))" for k v and m :: "('a, 'b) umap"
    by (simp add: um_keys_def um_put_def distinct_update)
  show "distinct (um_keys m) \<Longrightarrow> distinct (um_keys (um_erase k m))" for k and m :: "('a, 'b) umap"
    by (simp add: um_keys_def um_erase_def distinct_delete)
qed

lemmas um_find_put [map_laws, simp] = um.lookup_store
  and um_find_erase [map_laws, simp] = um.lookup_remove
  and um_keys_put [map_laws, simp] = um.keys_store
  and um_keys_erase [map_laws, simp] = um.keys_remove

lemma um_ok_Nil [simp, inv_intros]: "um_ok []"
  by (simp add: um_ok_def um_keys_def)

lemma um_ok_put [simp, inv_intros]: "um_ok m \<Longrightarrow> um_ok (um_put k v m)"
  unfolding um_ok_def by (rule um.distinct_store)

lemma um_ok_erase [simp, inv_intros]: "um_ok m \<Longrightarrow> um_ok (um_erase k m)"
  unfolding um_ok_def by (rule um.distinct_remove)

lemma um_find_Nil [simp]: "um_find [] k = None"
  by (simp add: um_find_def)

lemma um_find_Cons: "um_find ((k, v) # m) j = (if j = k then Some v else um_find m j)"
  by (simp add: um_find_def)

lemma um_find_entry: "um_ok m \<Longrightarrow> (k, v) \<in> set m \<longleftrightarrow> um_find m k = Some v"
  by (simp add: um_ok_def um_keys_def um_find_def)

lemma um_find_in: "um_find m k = Some v \<Longrightarrow> (k, v) \<in> set m"
  by (simp add: um_find_def map_of_SomeD)

lemma um_keys_find: "k \<in> set (um_keys m) \<longleftrightarrow> (\<exists>v. um_find m k = Some v)"
  by (auto simp: um.keys_lookup)

lemma um_index_find: "um_find (snd (um_index d k m)) = (um_find m)(k \<mapsto> fst (um_index d k m))"
  by (auto simp: um_index_def split: option.splits)

lemma um_try_emplace_find:
  "um_find (um_try_emplace k v m) =
     (um_find m)(k \<mapsto> (case um_find m k of Some w \<Rightarrow> w | None \<Rightarrow> v))"
  by (auto simp: um_try_emplace_def split: option.splits)

lemma um_ok_index [inv_intros]: "um_ok m \<Longrightarrow> um_ok (snd (um_index d k m))"
  by (simp add: um_index_def split: option.splits)

lemma um_ok_try_emplace [inv_intros]: "um_ok m \<Longrightarrow> um_ok (um_try_emplace k v m)"
  by (simp add: um_try_emplace_def split: option.splits)

section \<open>Lists\<close>

text \<open>Elements of a list with their positions, kept where a predicate holds.\<close>

definition positions_from :: "nat \<Rightarrow> ('a \<Rightarrow> bool) \<Rightarrow> 'a list \<Rightarrow> nat list" where
  "positions_from n P xs = map fst (filter (P \<circ> snd) (enumerate n xs))"

lemma positions_from_Nil [simp]: "positions_from n P [] = []"
  by (simp add: positions_from_def)

lemma positions_from_Cons [simp]:
  "positions_from n P (x # xs) =
     (if P x then n # positions_from (Suc n) P xs else positions_from (Suc n) P xs)"
  by (simp add: positions_from_def)

lemma positions_from_append:
  "positions_from n P (xs @ ys) = positions_from n P xs @ positions_from (n + length xs) P ys"
  by (induction xs arbitrary: n) auto

lemma length_positions_from: "length (positions_from n P xs) = length (filter P xs)"
  by (induction xs arbitrary: n) auto

lemma positions_from_bounds: "i \<in> set (positions_from n P xs) \<Longrightarrow> n \<le> i \<and> i < n + length xs"
  by (induction xs arbitrary: n) (fastforce split: if_splits)+

lemma positions_from_sorted: "sorted (positions_from n P xs) \<and> distinct (positions_from n P xs)"
  by (induction xs arbitrary: n) (fastforce dest: positions_from_bounds)+

lemma take_drop_append: "take n (drop m xs) @ drop (m + n) xs = drop m xs"
  by (metis add.commute append_take_drop_id drop_drop)

lemma drop_eq_take_drop:
  assumes "m \<le> n"
  shows "drop m xs = take (n - m) (drop m xs) @ drop n xs"
  using assms take_drop_append [of "n - m" m xs] by simp

end
