(* ===== verification/Cxx_Runtime.thy ===== *)
theory Cxx_Runtime
  imports Prelude
begin

text \<open>
  The parts of the C and C++ standard libraries the source uses, in the classic "C"
  locale: character classes, \<open>std::getline\<close>, \<open>std::to_string\<close>, \<open>std::from_chars\<close>,
  \<open>std::strtof\<close>, \<open>timegm\<close>, and IEEE 754 single precision comparison. A \<open>float\<close> is its
  32-bit pattern; a byte string is a \<open>string\<close>.
\<close>

section \<open>Characters\<close>

definition is_digit :: "char \<Rightarrow> bool" where
  "is_digit c \<longleftrightarrow> 48 \<le> (of_char c :: nat) \<and> of_char c \<le> (57 :: nat)"

definition digit_val :: "char \<Rightarrow> int" where
  "digit_val c = of_char c - 48"

definition digit_char :: "nat \<Rightarrow> char" where
  "digit_char d = char_of (48 + d)"

definition is_space :: "char \<Rightarrow> bool" where
  \<comment> \<open>\<open>std::isspace\<close>: space, \<open>\t\<close>, \<open>\n\<close>, \<open>\v\<close>, \<open>\f\<close>, \<open>\r\<close>\<close>
  "is_space c \<longleftrightarrow> (of_char c :: nat) = 32 \<or> (9 \<le> (of_char c :: nat) \<and> of_char c \<le> (13 :: nat))"

definition to_lower :: "char \<Rightarrow> char" where
  "to_lower c = (if 65 \<le> (of_char c :: nat) \<and> of_char c \<le> (90 :: nat)
                 then char_of ((of_char c :: nat) + 32) else c)"

abbreviation chr_tab :: char where "chr_tab \<equiv> char_of (9 :: nat)"
abbreviation chr_newline :: char where "chr_newline \<equiv> char_of (10 :: nat)"
abbreviation chr_return :: char where "chr_return \<equiv> char_of (13 :: nat)"
abbreviation chr_quote :: char where "chr_quote \<equiv> char_of (34 :: nat)"

lemma is_digit_digit_char [simp]: "d < 10 \<Longrightarrow> is_digit (digit_char d)"
  by (simp add: is_digit_def digit_char_def)

lemma digit_val_digit_char [simp]: "d < 10 \<Longrightarrow> digit_val (digit_char d) = int d"
proof -
  assume "d < 10"
  then have "(of_char (digit_char d) :: nat) = 48 + d" by (simp add: digit_char_def)
  then have "(of_char (digit_char d) :: int) = int (48 + d)"
    by (metis of_nat_of_char)
  then show ?thesis by (simp add: digit_val_def)
qed

lemma digit_val_range: "is_digit c \<Longrightarrow> 0 \<le> digit_val c \<and> digit_val c \<le> 9"
proof -
  assume d: "is_digit c"
  have "(of_char c :: int) = int (of_char c)" by (metis of_nat_of_char)
  with d show ?thesis by (simp add: digit_val_def is_digit_def)
qed

section \<open>Decimal text\<close>

text \<open>The value of a run of decimal digits, accumulated from the left.\<close>

fun dec_val :: "int \<Rightarrow> string \<Rightarrow> int" where
  "dec_val a [] = a"
| "dec_val a (c # cs) = dec_val (a * 10 + digit_val c) cs"

lemma dec_val_append: "dec_val a (xs @ ys) = dec_val (dec_val a xs) ys"
  by (induction xs arbitrary: a) auto

lemma dec_val_ge:
  assumes "list_all is_digit s" and "0 \<le> a"
  shows "a \<le> dec_val a s"
  using assms
proof (induction s arbitrary: a)
  case Nil
  then show ?case by simp
next
  case (Cons c cs)
  from Cons.prems have "0 \<le> digit_val c" by (simp add: digit_val_range)
  with Cons.prems have "a \<le> a * 10 + digit_val c" and "0 \<le> a * 10 + digit_val c" by simp_all
  with Cons.IH [of "a * 10 + digit_val c"] Cons.prems show ?case by simp
qed

lemma dec_val_lt:
  assumes "list_all is_digit s" and "0 \<le> a"
  shows "dec_val a s < (a + 1) * 10 ^ length s"
  using assms
proof (induction s arbitrary: a)
  case Nil
  then show ?case by simp
next
  case (Cons c cs)
  from Cons.prems have d: "0 \<le> digit_val c" "digit_val c \<le> 9" by (simp_all add: digit_val_range)
  with Cons have "dec_val (a * 10 + digit_val c) cs < (a * 10 + digit_val c + 1) * 10 ^ length cs"
    by simp
  also have "\<dots> \<le> ((a + 1) * 10) * 10 ^ length cs"
    using d by (intro mult_right_mono) simp_all
  finally show ?case by (simp add: algebra_simps)
qed

text \<open>\<open>std::to_string\<close> of an unsigned value (also \<open>operator<<\<close> on a stream).\<close>

fun show_nat :: "nat \<Rightarrow> string" where
  "show_nat n = (if n < 10 then [digit_char n] else show_nat (n div 10) @ [digit_char (n mod 10)])"

declare show_nat.simps [simp del]

lemma show_nat_nonempty: "show_nat n \<noteq> []"
  by (subst show_nat.simps) simp

lemma show_nat_digits: "list_all is_digit (show_nat n)"
proof (induction n rule: show_nat.induct)
  case (1 n)
  then show ?case by (subst show_nat.simps) simp
qed

lemma dec_val_show_nat: "dec_val 0 (show_nat n) = int n"
proof (induction n rule: show_nat.induct)
  case (1 n)
  then show ?case
    by (subst show_nat.simps) (simp add: dec_val_append zdiv_int zmod_int)
qed

lemma show_nat_inj: "show_nat m = show_nat n \<Longrightarrow> m = n"
  by (metis dec_val_show_nat of_nat_eq_iff)

text \<open>
  \<open>std::from_chars(first, last, int&)\<close>: an optional minus sign and digits, no leading
  blanks and no plus sign. \<open>None\<close> stands for an error code (nothing to convert, or a value
  outside \<open>int\<close>); \<open>Some (v, n)\<close> for a value and the number of characters consumed.
\<close>

definition from_chars_int :: "string \<Rightarrow> (int \<times> nat) option" where
  "from_chars_int s =
     (let neg = (s \<noteq> [] \<and> hd s = CHR ''-'');
          ds = takeWhile is_digit (if neg then tl s else s);
          v = (if neg then - dec_val 0 ds else dec_val 0 ds)
      in if ds = [] then None
         else if v < - (2 ^ 31) \<or> 2 ^ 31 - 1 < v then None
         else Some (v, length ds + (if neg then 1 else 0)))"

lemma from_chars_int_range:
  "from_chars_int s = Some (v, n) \<Longrightarrow> - (2 ^ 31) \<le> v \<and> v \<le> 2 ^ 31 - 1"
  by (auto simp: from_chars_int_def Let_def split: if_splits)

lemma digit_not_minus: "is_digit c \<Longrightarrow> c \<noteq> CHR ''-''"
  by (auto simp: is_digit_def)

lemma from_chars_int_show:
  assumes "n \<le> 2 ^ 31 - 1"
  shows "from_chars_int (show_nat n) = Some (int n, length (show_nat n))"
proof -
  obtain c cs where s: "show_nat n = c # cs"
    using show_nat_nonempty [of n] by (cases "show_nat n") auto
  have "is_digit c" using show_nat_digits [of n] s by simp
  then have "c \<noteq> CHR ''-''" by (rule digit_not_minus)
  moreover have tw: "takeWhile is_digit cs = cs"
    using show_nat_digits [of n] s by (simp add: takeWhile_eq_all_conv list_all_iff)
  moreover have "int n \<le> 2 ^ 31 - 1" using assms by simp
  moreover have "dec_val (digit_val c) cs = int n"
    using dec_val_show_nat [of n] s by simp
  ultimately show ?thesis
    using s \<open>is_digit c\<close> by (simp add: from_chars_int_def tw)
qed

section \<open>std::getline\<close>

text \<open>
  The successive lines a loop \<open>while (std::getline(in, line))\<close> sees: text up to each
  newline, and a last unterminated line when it is not empty.
\<close>

function getlines :: "string \<Rightarrow> string list" where
  "getlines s =
     (if s = [] then []
      else takeWhile (\<lambda>c. c \<noteq> chr_newline) s
             # getlines (drop 1 (dropWhile (\<lambda>c. c \<noteq> chr_newline) s)))"
  by pat_completeness auto
termination getlines
proof (relation "measure length", goal_cases)
  case (2 s)
  have "length (dropWhile (\<lambda>c. c \<noteq> chr_newline) s) \<le> length s"
    by (rule length_dropWhile_le)
  moreover from 2 have "0 < length s" by simp
  ultimately have "length (dropWhile (\<lambda>c. c \<noteq> chr_newline) s) - 1 < length s" by linarith
  then show ?case by (simp del: dropWhile_eq_drop)
qed simp

declare getlines.simps [simp del]

lemma getlines_no_newline: "l \<in> set (getlines s) \<Longrightarrow> chr_newline \<notin> set l"
proof (induction s rule: getlines.induct)
  case (1 s)
  then show ?case
    by (subst (asm) (2) getlines.simps) (auto split: if_splits dest: set_takeWhileD)
qed

section \<open>Single precision values\<close>

text \<open>
  The order of IEEE 754 single precision on bit patterns: a NaN compares false with
  everything, and the two zeros are equal.
\<close>

type_synonym f32 = "32 word"

definition f32_is_nan :: "f32 \<Rightarrow> bool" where
  "f32_is_nan w \<longleftrightarrow> 2139095040 < uint w mod 2 ^ 31"

definition f32_key :: "f32 \<Rightarrow> int" where
  "f32_key w = (if uint w < 2 ^ 31 then uint w else - (uint w - 2 ^ 31))"

definition f32_lt :: "f32 \<Rightarrow> f32 \<Rightarrow> bool" where
  "f32_lt a b \<longleftrightarrow> \<not> f32_is_nan a \<and> \<not> f32_is_nan b \<and> f32_key a < f32_key b"

definition f32_le :: "f32 \<Rightarrow> f32 \<Rightarrow> bool" where
  "f32_le a b \<longleftrightarrow> \<not> f32_is_nan a \<and> \<not> f32_is_nan b \<and> f32_key a \<le> f32_key b"

lemma f32_lt_irrefl: "\<not> f32_lt a a"
  by (simp add: f32_lt_def)

lemma f32_lt_trans: "f32_lt a b \<Longrightarrow> f32_lt b c \<Longrightarrow> f32_lt a c"
  by (simp add: f32_lt_def)

lemma f32_not_lt_iff:
  "\<not> f32_is_nan a \<Longrightarrow> \<not> f32_is_nan b \<Longrightarrow> \<not> f32_lt a b \<longleftrightarrow> f32_le b a"
  by (auto simp: f32_lt_def f32_le_def)

lemma f32_nan_lt: "f32_is_nan a \<Longrightarrow> \<not> f32_lt a b \<and> \<not> f32_lt b a \<and> \<not> f32_le a b \<and> \<not> f32_le b a"
  by (simp add: f32_lt_def f32_le_def)

text \<open>The single precision value nearest to \<open>n / d\<close>, ties to even, as magnitude bits.\<close>

fun ilog2 :: "int \<Rightarrow> int" where
  "ilog2 n = (if n < 2 then 0 else 1 + ilog2 (n div 2))"

declare ilog2.simps [simp del]

definition f32_floor_log :: "int \<Rightarrow> int \<Rightarrow> int" where
  \<comment> \<open>the floor of the binary logarithm of \<open>n / d\<close>\<close>
  "f32_floor_log n d =
     (let e = ilog2 n - ilog2 d
      in if (if 0 \<le> e then d * 2 ^ nat e \<le> n else d \<le> n * 2 ^ nat (- e)) then e else e - 1)"

definition f32_magnitude :: "int \<Rightarrow> int \<Rightarrow> int" where
  "f32_magnitude n d =
     (if n = 0 then 0
      else let e = max (- 149) (f32_floor_log n d - 23);
               num = (if 0 \<le> e then n else n * 2 ^ nat (- e));
               den = (if 0 \<le> e then d * 2 ^ nat e else d);
               q = num div den;
               r = num mod den;
               q' = (if den < 2 * r \<or> (2 * r = den \<and> odd q) then q + 1 else q)
           in min 2139095040 ((e + 149) * 2 ^ 23 + q'))"

definition f32_make :: "bool \<Rightarrow> int \<Rightarrow> f32" where
  "f32_make neg m = word_of_int (if neg then 2 ^ 31 + m else m)"

section \<open>std::strtof\<close>

definition starts_nocase :: "string \<Rightarrow> string \<Rightarrow> bool" where
  "starts_nocase p s \<longleftrightarrow> map to_lower (take (length p) s) = p"

text \<open>
  An optional signed decimal exponent after the letter \<open>e\<close>: its value and length, or
  \<open>(0, 0)\<close> when the text is not one.
\<close>

definition parse_exponent :: "char \<Rightarrow> string \<Rightarrow> int \<times> nat" where
  "parse_exponent letter s =
     (if s = [] \<or> to_lower (hd s) \<noteq> letter then (0, 0)
      else let t = tl s;
               signed = (t \<noteq> [] \<and> (hd t = CHR ''+'' \<or> hd t = CHR ''-''));
               neg = (signed \<and> hd t = CHR ''-'');
               ds = takeWhile is_digit (if signed then tl t else t);
               v = dec_val 0 ds
           in if ds = [] then (0, 0)
              else (if neg then - v else v, 1 + (if signed then 1 else 0) + length ds))"

definition is_hex_digit :: "char \<Rightarrow> bool" where
  "is_hex_digit c \<longleftrightarrow> is_digit c \<or> (97 \<le> (of_char (to_lower c) :: nat) \<and> of_char (to_lower c) \<le> (102 :: nat))"

definition hex_val :: "char \<Rightarrow> int" where
  "hex_val c = (if is_digit c then digit_val c else of_char (to_lower c) - 87)"

fun hex_acc :: "int \<Rightarrow> string \<Rightarrow> int" where
  "hex_acc a [] = a"
| "hex_acc a (c # cs) = hex_acc (a * 16 + hex_val c) cs"

text \<open>
  A magnitude without sign in the given base: integer digits, an optional point with
  fraction digits, an optional exponent. \<open>None\<close> when there is no digit.
\<close>

definition parse_mantissa :: "(char \<Rightarrow> bool) \<Rightarrow> string \<Rightarrow> string \<times> string \<times> nat" where
  "parse_mantissa P s =
     (let ip = takeWhile P s;
          r = drop (length ip) s;
          fp = (if r \<noteq> [] \<and> hd r = CHR ''.'' then takeWhile P (tl r) else [])
      in (ip, fp, length ip + (if r \<noteq> [] \<and> hd r = CHR ''.'' \<and> (ip \<noteq> [] \<or> fp \<noteq> [])
                               then 1 + length fp else 0)))"

definition parse_decimal :: "string \<Rightarrow> (int \<times> nat) option" where
  "parse_decimal s =
     (case parse_mantissa is_digit s of (ip, fp, n) \<Rightarrow>
        if ip = [] \<and> fp = [] then None
        else case parse_exponent (CHR ''e'') (drop n s) of (x, k) \<Rightarrow>
          let m = dec_val 0 (ip @ fp); e = x - int (length fp)
          in Some (f32_magnitude (if 0 \<le> e then m * 10 ^ nat e else m)
                                 (if 0 \<le> e then 1 else 10 ^ nat (- e)), n + k))"

definition parse_hex :: "string \<Rightarrow> (int \<times> nat) option" where
  "parse_hex s =
     (case parse_mantissa is_hex_digit s of (ip, fp, n) \<Rightarrow>
        if ip = [] \<and> fp = [] then None
        else case parse_exponent (CHR ''p'') (drop n s) of (x, k) \<Rightarrow>
          let m = hex_acc 0 (ip @ fp); e = x - 4 * int (length fp)
          in Some (f32_magnitude (if 0 \<le> e then m * 2 ^ nat e else m)
                                 (if 0 \<le> e then 1 else 2 ^ nat (- e)), n + k))"

text \<open>The value and the number of characters consumed; \<open>0\<close> consumed is "no conversion".\<close>

definition strtof :: "string \<Rightarrow> f32 \<times> nat" where
  "strtof s =
     (let ws = length (takeWhile is_space s);
          t = drop ws s;
          signed = (t \<noteq> [] \<and> (hd t = CHR ''+'' \<or> hd t = CHR ''-''));
          neg = (signed \<and> hd t = CHR ''-'');
          u = (if signed then tl t else t);
          pre = ws + (if signed then 1 else 0)
      in if starts_nocase ''infinity'' u then (f32_make neg 2139095040, pre + 8)
         else if starts_nocase ''inf'' u then (f32_make neg 2139095040, pre + 3)
         else if starts_nocase ''nan'' u then (f32_make neg 2143289344, pre + 3)
         else case (if starts_nocase ''0x'' u then parse_hex (drop 2 u) else None) of
             Some (m, n) \<Rightarrow> (f32_make neg m, pre + 2 + n)
           | None \<Rightarrow>
             (case parse_decimal u of
                Some (m, n) \<Rightarrow> (f32_make neg m, pre + n)
              | None \<Rightarrow> (0, 0)))"

section \<open>timegm\<close>

text \<open>The broken-down time of \<open>struct tm\<close>, and its UTC epoch seconds.\<close>

record tm =
  tm_year :: int
  tm_mon :: int
  tm_mday :: int
  tm_hour :: int
  tm_min :: int
  tm_sec :: int

definition is_leap :: "int \<Rightarrow> bool" where
  "is_leap y \<longleftrightarrow> y mod 4 = 0 \<and> (y mod 100 \<noteq> 0 \<or> y mod 400 = 0)"

definition leaps_through :: "int \<Rightarrow> int" where
  "leaps_through y = y div 4 - y div 100 + y div 400"

definition days_before_year :: "int \<Rightarrow> int" where
  "days_before_year y = 365 * (y - 1970) + leaps_through (y - 1) - leaps_through 1969"

definition days_before_month :: "bool \<Rightarrow> int \<Rightarrow> int" where
  "days_before_month leap m =
     [0, 31, 59, 90, 120, 151, 181, 212, 243, 273, 304, 334] ! nat m + (if leap \<and> 2 \<le> m then 1 else 0)"

definition month_length :: "bool \<Rightarrow> int \<Rightarrow> int" where
  "month_length leap m =
     (if m = 1 then (if leap then 29 else 28) else if m \<in> {3, 5, 8, 10} then 30 else 31)"

definition timegm :: "tm \<Rightarrow> int" where
  \<comment> \<open>months out of range carry into the year; days, hours, minutes, seconds are linear\<close>
  "timegm t =
     (let y = 1900 + tm_year t + tm_mon t div 12;
          m = tm_mon t mod 12;
          days = days_before_year y + days_before_month (is_leap y) m + (tm_mday t - 1)
      in ((days * 24 + tm_hour t) * 60 + tm_min t) * 60 + tm_sec t)"

definition tm_valid :: "tm \<Rightarrow> bool" where
  \<comment> \<open>a real calendar date and time of day\<close>
  "tm_valid t \<longleftrightarrow>
     0 \<le> tm_mon t \<and> tm_mon t < 12 \<and>
     1 \<le> tm_mday t \<and> tm_mday t \<le> month_length (is_leap (1900 + tm_year t)) (tm_mon t) \<and>
     0 \<le> tm_hour t \<and> tm_hour t < 24 \<and> 0 \<le> tm_min t \<and> tm_min t < 60 \<and>
     0 \<le> tm_sec t \<and> tm_sec t < 60"

definition tm_lt :: "tm \<Rightarrow> tm \<Rightarrow> bool" where
  \<comment> \<open>calendar order: year, month, day, hour, minute, second\<close>
  "tm_lt s t \<longleftrightarrow>
     tm_year s < tm_year t \<or> tm_year s = tm_year t \<and>
     (tm_mon s < tm_mon t \<or> tm_mon s = tm_mon t \<and>
     (tm_mday s < tm_mday t \<or> tm_mday s = tm_mday t \<and>
     (tm_hour s < tm_hour t \<or> tm_hour s = tm_hour t \<and>
     (tm_min s < tm_min t \<or> tm_min s = tm_min t \<and> tm_sec s < tm_sec t))))"

definition tm_day :: "tm \<Rightarrow> int" where
  "tm_day t = days_before_year (1900 + tm_year t)
     + days_before_month (is_leap (1900 + tm_year t)) (tm_mon t) + (tm_mday t - 1)"

definition tm_clock :: "tm \<Rightarrow> int" where
  "tm_clock t = (tm_hour t * 60 + tm_min t) * 60 + tm_sec t"

lemma timegm_day_clock:
  "0 \<le> tm_mon t \<Longrightarrow> tm_mon t < 12 \<Longrightarrow> timegm t = tm_day t * 86400 + tm_clock t"
  unfolding timegm_def tm_day_def tm_clock_def Let_def
  by (simp only: div_pos_pos_trivial mod_pos_pos_trivial add_0_right algebra_simps) simp

lemma div_pred:
  fixes y n :: int
  assumes "0 < n"
  shows "y div n = (y - 1) div n + (if n dvd y then 1 else 0)"
proof (cases "n dvd y")
  case True
  then obtain k where "y = n * k" ..
  with assms have "y - 1 = n * (k - 1) + (n - 1)" by (simp add: algebra_simps)
  then have "(y - 1) div n = k - 1" by (rule int_div_pos_eq) (use assms in auto)
  with True \<open>y = n * k\<close> assms show ?thesis by simp
next
  case False
  then have pos: "0 < y mod n" using assms
    by (metis dvd_eq_mod_eq_0 less_le pos_mod_sign)
  have "y - 1 = n * (y div n) + (y mod n - 1)"
    using mult_div_mod_eq [of n y] by linarith
  then have "(y - 1) div n = y div n"
    by (rule int_div_pos_eq) (use pos pos_mod_bound [OF assms, of y] in auto)
  with False show ?thesis by simp
qed

lemma is_leap_dvd: "is_leap y \<longleftrightarrow> 4 dvd y \<and> (\<not> 100 dvd y \<or> 400 dvd y)"
  by (simp add: is_leap_def dvd_eq_mod_eq_0)

lemma leaps_through_step: "leaps_through y = leaps_through (y - 1) + (if is_leap y then 1 else 0)"
proof -
  define a b c where "a = (y - 1) div 4" and "b = (y - 1) div 100" and "c = (y - 1) div 400"
  have "y div 4 = a + (if 4 dvd y then 1 else 0)" and "y div 100 = b + (if 100 dvd y then 1 else 0)"
    and "y div 400 = c + (if 400 dvd y then 1 else 0)"
    unfolding a_def b_def c_def by (rule div_pred, simp)+
  then have "leaps_through y = leaps_through (y - 1)
      + (if 4 dvd y then 1 else 0) - (if 100 dvd y then 1 else 0) + (if 400 dvd y then 1 else 0)"
    unfolding leaps_through_def a_def [symmetric] b_def [symmetric] c_def [symmetric] by simp
  moreover have "400 dvd y \<Longrightarrow> 100 dvd y" and "100 dvd y \<Longrightarrow> 4 dvd y"
    by (erule dvd_trans [rotated], simp)+
  ultimately show ?thesis unfolding is_leap_dvd
    by (cases "400 dvd y"; cases "100 dvd y"; cases "4 dvd y") simp_all
qed

lemma days_before_year_Suc:
  "days_before_year (y + 1) = days_before_year y + (if is_leap y then 366 else 365)"
  using leaps_through_step [of y] by (simp add: days_before_year_def)

lemma days_before_year_mono:
  "y \<le> z \<Longrightarrow> days_before_year y + 365 * (z - y) \<le> days_before_year z"
proof (induction z rule: int_ge_induct)
  case base
  then show ?case by simp
next
  case (step z)
  then show ?case by (simp add: days_before_year_Suc)
qed

lemma month_cases:
  fixes m :: int
  assumes "0 \<le> m" and "m < 12"
  shows "m \<in> {0, 1, 2, 3, 4, 5, 6, 7, 8, 9, 10, 11}"
  using assms by simp presburger

lemma days_before_month_Suc:
  assumes "0 \<le> m" and "m < 11"
  shows "days_before_month l (m + 1) = days_before_month l m + month_length l m"
  using month_cases [of m] assms
  by (auto simp: days_before_month_def month_length_def nat_numeral)

lemma days_before_month_last:
  "days_before_month l 11 + month_length l 11 = (if l then 366 else 365)"
  by (simp add: days_before_month_def month_length_def)

lemma month_length_pos: "28 \<le> month_length l m"
  by (simp add: month_length_def)

lemma days_before_month_mono:
  assumes "m < k" and "0 \<le> m" and "k < 12"
  shows "days_before_month l m + month_length l m \<le> days_before_month l k"
  using assms
proof (induction k rule: int_gr_induct)
  case base
  then show ?case by (simp add: days_before_month_Suc)
next
  case (step k)
  then show ?case
    using days_before_month_Suc [of k l] month_length_pos [of l k] by simp
qed

text \<open>Calendar order is epoch order, for real dates and times.\<close>

lemma tm_clock_range: "tm_valid t \<Longrightarrow> 0 \<le> tm_clock t \<and> tm_clock t < 86400"
  by (auto simp: tm_valid_def tm_clock_def)

lemma tm_day_in_year:
  assumes "tm_valid t"
  shows "days_before_year (1900 + tm_year t) \<le> tm_day t \<and>
         tm_day t < days_before_year (1900 + tm_year t + 1)"
proof -
  let ?l = "is_leap (1900 + tm_year t)"
  have m: "0 \<le> tm_mon t" "tm_mon t < 12" and d: "1 \<le> tm_mday t" "tm_mday t \<le> month_length ?l (tm_mon t)"
    using assms by (auto simp: tm_valid_def)
  have "0 \<le> days_before_month ?l (tm_mon t)"
    using days_before_month_mono [of 0 "tm_mon t" ?l] month_length_pos [of ?l 0] m
    by (cases "tm_mon t = 0") (auto simp: days_before_month_def)
  moreover have "days_before_month ?l (tm_mon t) + month_length ?l (tm_mon t) \<le> (if ?l then 366 else 365)"
    using days_before_month_mono [of "tm_mon t" 11 ?l] days_before_month_last [of ?l] m
      month_length_pos [of ?l 11]
    by (cases "tm_mon t = 11") auto
  ultimately show ?thesis
    using d days_before_year_Suc [of "1900 + tm_year t"] by (simp add: tm_day_def)
qed

lemma tm_day_mono:
  assumes "tm_valid s" and "tm_valid t"
    and "tm_year s < tm_year t \<or> tm_year s = tm_year t \<and>
      (tm_mon s < tm_mon t \<or> tm_mon s = tm_mon t \<and> tm_mday s < tm_mday t)"
  shows "tm_day s < tm_day t"
proof (cases "tm_year s < tm_year t")
  case True
  then show ?thesis
    using tm_day_in_year [OF assms(1)] tm_day_in_year [OF assms(2)]
      days_before_year_mono [of "1900 + tm_year s + 1" "1900 + tm_year t"] by simp
next
  case False
  with assms(3) have y: "tm_year s = tm_year t" by auto
  let ?l = "is_leap (1900 + tm_year t)"
  show ?thesis
  proof (cases "tm_mon s < tm_mon t")
    case True
    then have "days_before_month ?l (tm_mon s) + month_length ?l (tm_mon s) \<le> days_before_month ?l (tm_mon t)"
      using assms(1,2) by (intro days_before_month_mono) (auto simp: tm_valid_def)
    with y assms(1,2) show ?thesis by (auto simp: tm_day_def tm_valid_def)
  next
    case False
    with y assms(3) show ?thesis by (simp add: tm_day_def)
  qed
qed

lemma timegm_mono:
  assumes "tm_valid s" and "tm_valid t" and "tm_lt s t"
  shows "timegm s < timegm t"
proof -
  have eq: "timegm s = tm_day s * 86400 + tm_clock s" "timegm t = tm_day t * 86400 + tm_clock t"
    using assms(1,2) by (auto intro: timegm_day_clock simp: tm_valid_def)
  show ?thesis
  proof (cases "tm_year s = tm_year t \<and> tm_mon s = tm_mon t \<and> tm_mday s = tm_mday t")
    case True
    then have "tm_day s = tm_day t" by (simp add: tm_day_def)
    moreover have "tm_clock s < tm_clock t"
      using assms True by (auto simp: tm_lt_def tm_clock_def tm_valid_def)
    ultimately show ?thesis by (simp add: eq)
  next
    case False
    with assms(3) have "tm_day s < tm_day t"
      by (intro tm_day_mono assms(1,2)) (auto simp: tm_lt_def)
    then show ?thesis
      using tm_clock_range [OF assms(1)] tm_clock_range [OF assms(2)] by (simp add: eq)
  qed
qed

lemma tm_lt_linear: "s = t \<or> tm_lt s t \<or> tm_lt t (s :: tm)"
  by (cases s; cases t) (auto simp: tm_lt_def)

lemma timegm_less_iff:
  assumes "tm_valid s" and "tm_valid t"
  shows "timegm s < timegm t \<longleftrightarrow> tm_lt s t"
  using timegm_mono [OF assms] timegm_mono [OF assms(2,1)] tm_lt_linear [of s t]
  by (auto dest: less_asym)

end
