(* ===== verification/Model_Types.thy ===== *)
theory Model_Types
  imports Cxx_Runtime
begin

text \<open>
  The plain data of the distributed query engine (\<open>src/basic/src/model\<close>): trips, row
  references, query requests and results, node descriptions and shard assignments, with
  their small methods. Field names carry the struct's initials. Integer fields hold the
  mathematical value of the fixed-width field; a \<open>float\<close> is its bit pattern.
\<close>

section \<open>TaxiTrip\<close>

record TaxiTrip =
  tt_pickupEpochMs :: int
  tt_dropoffEpochMs :: int
  tt_vendorId :: int
  tt_passengerCount :: int
  tt_paymentType :: int
  tt_storeAndFwd :: int
  tt_rateCodeId :: int
  tt_pickupLocationId :: int
  tt_dropLocationId :: int
  tt_tripDistance :: f32
  tt_fareAmountCents :: int
  tt_extraCents :: int
  tt_mtaTaxCents :: int
  tt_tipAmountCents :: int
  tt_tollsAmountCents :: int
  tt_improvementSurchargeCents :: int
  tt_totalAmountCents :: int
  tt_congestionSurchargeCents :: int
  tt_airportFeeCents :: int

definition empty_trip :: TaxiTrip where
  "empty_trip = \<lparr> tt_pickupEpochMs = 0, tt_dropoffEpochMs = 0, tt_vendorId = 0,
     tt_passengerCount = 0, tt_paymentType = 0, tt_storeAndFwd = 0, tt_rateCodeId = 0,
     tt_pickupLocationId = 0, tt_dropLocationId = 0, tt_tripDistance = 0,
     tt_fareAmountCents = 0, tt_extraCents = 0, tt_mtaTaxCents = 0, tt_tipAmountCents = 0,
     tt_tollsAmountCents = 0, tt_improvementSurchargeCents = 0, tt_totalAmountCents = 0,
     tt_congestionSurchargeCents = 0, tt_airportFeeCents = 0 \<rparr>"

section \<open>RowRef\<close>

record RowRef =
  rr_nodeId :: node_id
  rr_localRowId :: nat

section \<open>QueryRequest\<close>

record 'a Range =
  range_lo :: 'a
  range_hi :: 'a

datatype QueryType = Count | Execute

record QueryRequest =
  qq_queryId :: string
  qq_queryType :: QueryType
  qq_originNodeId :: node_id
  qq_entryNodeId :: node_id
  qq_targetNodeId :: "node_id option"
  qq_distributedAllowed :: bool
  qq_visitedNodeIds :: "node_id list"
  qq_pickupRange :: "int Range option"
  qq_dropoffRange :: "int Range option"
  qq_tripDistanceRange :: "f32 Range option"
  qq_tipAmountRange :: "int Range option"
  qq_totalAmountRange :: "int Range option"
  qq_paymentType :: "int option"
  qq_offset :: nat
  qq_limit :: nat
  qq_startRow :: nat
  qq_chunkSize :: nat
  qq_scanRowBudget :: nat

definition new_QueryRequest :: "string \<Rightarrow> QueryType \<Rightarrow> QueryRequest" where
  "new_QueryRequest i ty = \<lparr> qq_queryId = i, qq_queryType = ty, qq_originNodeId = [],
     qq_entryNodeId = [], qq_targetNodeId = None, qq_distributedAllowed = True,
     qq_visitedNodeIds = [], qq_pickupRange = None, qq_dropoffRange = None,
     qq_tripDistanceRange = None, qq_tipAmountRange = None, qq_totalAmountRange = None,
     qq_paymentType = None, qq_offset = 0, qq_limit = 0, qq_startRow = 0, qq_chunkSize = 0,
     qq_scanRowBudget = 0 \<rparr>"

definition hasVisitedNode :: "QueryRequest \<Rightarrow> node_id \<Rightarrow> bool" where
  "hasVisitedNode r n \<longleftrightarrow> n \<in> set (qq_visitedNodeIds r)"

definition markVisitedNode :: "node_id \<Rightarrow> QueryRequest \<Rightarrow> QueryRequest" where
  "markVisitedNode n r =
     (if \<not> hasVisitedNode r n then r\<lparr>qq_visitedNodeIds := qq_visitedNodeIds r @ [n]\<rparr> else r)"

lemma markVisitedNode_set [simp]:
  "set (qq_visitedNodeIds (markVisitedNode n r)) = insert n (set (qq_visitedNodeIds r))"
  by (auto simp: markVisitedNode_def hasVisitedNode_def)

lemma markVisitedNode_distinct [inv_intros]:
  "distinct (qq_visitedNodeIds r) \<Longrightarrow> distinct (qq_visitedNodeIds (markVisitedNode n r))"
  by (auto simp: markVisitedNode_def hasVisitedNode_def)

lemma markVisitedNode_idem [simp]: "markVisitedNode n (markVisitedNode n r) = markVisitedNode n r"
  by (simp add: markVisitedNode_def hasVisitedNode_def)

lemma hasVisitedNode_mark [simp]:
  "hasVisitedNode (markVisitedNode n r) m \<longleftrightarrow> m = n \<or> hasVisitedNode r m"
  by (auto simp: hasVisitedNode_def)

lemma markVisitedNode_frame [simp]:
  "qq_queryId (markVisitedNode n r) = qq_queryId r"
  "qq_queryType (markVisitedNode n r) = qq_queryType r"
  "qq_targetNodeId (markVisitedNode n r) = qq_targetNodeId r"
  "qq_distributedAllowed (markVisitedNode n r) = qq_distributedAllowed r"
  "qq_chunkSize (markVisitedNode n r) = qq_chunkSize r"
  "qq_scanRowBudget (markVisitedNode n r) = qq_scanRowBudget r"
  "qq_pickupRange (markVisitedNode n r) = qq_pickupRange r"
  "qq_dropoffRange (markVisitedNode n r) = qq_dropoffRange r"
  "qq_tripDistanceRange (markVisitedNode n r) = qq_tripDistanceRange r"
  "qq_tipAmountRange (markVisitedNode n r) = qq_tipAmountRange r"
  "qq_totalAmountRange (markVisitedNode n r) = qq_totalAmountRange r"
  "qq_paymentType (markVisitedNode n r) = qq_paymentType r"
  by (simp_all add: markVisitedNode_def)

section \<open>QueryResult\<close>

record QueryResult =
  qr_rowsScanned :: nat
  qr_rowsMatched :: nat
  qr_matchedRows :: "RowRef list"
  qr_matchedTrips :: "TaxiTrip list"
  qr_matchedTripSources :: "node_id list"
  qr_rowsSkipped :: nat
  qr_rowsEmitted :: nat
  qr_nextStartRow :: nat
  qr_hasMore :: bool

definition empty_QueryResult :: QueryResult where
  "empty_QueryResult = \<lparr> qr_rowsScanned = 0, qr_rowsMatched = 0, qr_matchedRows = [],
     qr_matchedTrips = [], qr_matchedTripSources = [], qr_rowsSkipped = 0, qr_rowsEmitted = 0,
     qr_nextStartRow = 0, qr_hasMore = False \<rparr>"

definition addMatchedRow :: "node_id \<Rightarrow> nat \<Rightarrow> QueryResult \<Rightarrow> QueryResult" where
  "addMatchedRow n i r =
     r\<lparr>qr_matchedRows := qr_matchedRows r @ [\<lparr>rr_nodeId = n, rr_localRowId = i\<rparr>]\<rparr>"

definition QueryResult_merge :: "QueryResult \<Rightarrow> QueryResult \<Rightarrow> QueryResult" where
  "QueryResult_merge r other =
     \<lparr> qr_rowsScanned = qr_rowsScanned r + qr_rowsScanned other,
       qr_rowsMatched = qr_rowsMatched r + qr_rowsMatched other,
       qr_matchedRows = qr_matchedRows r @ qr_matchedRows other,
       qr_matchedTrips = qr_matchedTrips r @ qr_matchedTrips other,
       qr_matchedTripSources = qr_matchedTripSources r @ qr_matchedTripSources other,
       qr_rowsSkipped = qr_rowsSkipped r + qr_rowsSkipped other,
       qr_rowsEmitted = qr_rowsEmitted r + qr_rowsEmitted other,
       qr_nextStartRow = (if qr_nextStartRow r < qr_nextStartRow other
                          then qr_nextStartRow other else qr_nextStartRow r),
       qr_hasMore = (qr_hasMore r \<or> qr_hasMore other) \<rparr>"

lemma QueryResult_merge_sel [simp]:
  "qr_rowsScanned (QueryResult_merge r s) = qr_rowsScanned r + qr_rowsScanned s"
  "qr_rowsMatched (QueryResult_merge r s) = qr_rowsMatched r + qr_rowsMatched s"
  "qr_matchedRows (QueryResult_merge r s) = qr_matchedRows r @ qr_matchedRows s"
  "qr_matchedTrips (QueryResult_merge r s) = qr_matchedTrips r @ qr_matchedTrips s"
  "qr_matchedTripSources (QueryResult_merge r s) = qr_matchedTripSources r @ qr_matchedTripSources s"
  "qr_rowsEmitted (QueryResult_merge r s) = qr_rowsEmitted r + qr_rowsEmitted s"
  "qr_nextStartRow (QueryResult_merge r s) = max (qr_nextStartRow r) (qr_nextStartRow s)"
  "qr_hasMore (QueryResult_merge r s) = (qr_hasMore r \<or> qr_hasMore s)"
  by (simp_all add: QueryResult_merge_def)

text \<open>Merging is associative with the fresh result as unit: chunk grouping cannot matter.\<close>

lemma QueryResult_merge_assoc:
  "QueryResult_merge (QueryResult_merge a b) c = QueryResult_merge a (QueryResult_merge b c)"
  by (simp add: QueryResult_merge_def)

lemma QueryResult_merge_empty [simp]:
  "QueryResult_merge empty_QueryResult r = r" "QueryResult_merge r empty_QueryResult = r"
  by (simp_all add: QueryResult_merge_def empty_QueryResult_def)

section \<open>LocalQueryResult\<close>

record LocalQueryResult =
  lr_rowsScanned :: nat
  lr_rowsMatched :: nat
  lr_matchedLocalRowIds :: "nat list"
  lr_matchedTrips :: "TaxiTrip list"
  lr_rowsSkipped :: nat
  lr_rowsEmitted :: nat
  lr_nextStartRow :: nat
  lr_hasMore :: bool

definition empty_LocalQueryResult :: LocalQueryResult where
  "empty_LocalQueryResult = \<lparr> lr_rowsScanned = 0, lr_rowsMatched = 0,
     lr_matchedLocalRowIds = [], lr_matchedTrips = [], lr_rowsSkipped = 0, lr_rowsEmitted = 0,
     lr_nextStartRow = 0, lr_hasMore = False \<rparr>"

definition LocalQueryResult_merge :: "LocalQueryResult \<Rightarrow> LocalQueryResult \<Rightarrow> LocalQueryResult" where
  "LocalQueryResult_merge r other =
     r\<lparr> lr_rowsScanned := lr_rowsScanned r + lr_rowsScanned other,
        lr_rowsMatched := lr_rowsMatched r + lr_rowsMatched other,
        lr_matchedLocalRowIds := lr_matchedLocalRowIds r @ lr_matchedLocalRowIds other,
        lr_matchedTrips := lr_matchedTrips r @ lr_matchedTrips other,
        lr_rowsEmitted := length (lr_matchedLocalRowIds r @ lr_matchedLocalRowIds other) \<rparr>"

section \<open>NodeInfo\<close>

record NodeInfo =
  ni_nodeId :: node_id
  ni_host :: string
  ni_port :: int
  ni_isEntryNode :: bool
  ni_ownedFiles :: "string list"

definition new_NodeInfo :: "node_id \<Rightarrow> string \<Rightarrow> int \<Rightarrow> bool \<Rightarrow> NodeInfo" where
  \<comment> \<open>the port parameter is a \<open>uint16_t\<close>\<close>
  "new_NodeInfo i h p e = \<lparr> ni_nodeId = i, ni_host = h, ni_port = to_unsigned 16 p,
     ni_isEntryNode = e, ni_ownedFiles = [] \<rparr>"

definition node_address :: "NodeInfo \<Rightarrow> string" where
  "node_address n = ni_host n @ '':'' @ show_nat (nat (ni_port n))"

section \<open>ShardAssignment\<close>

record ShardAssignment =
  sa_shardId :: nat
  sa_sourceFile :: string
  sa_nodeId :: node_id
  sa_tripCount :: nat
  sa_fileSizeBytes :: nat

definition ShardAssignment_isValid :: "ShardAssignment \<Rightarrow> bool" where
  "ShardAssignment_isValid s \<longleftrightarrow>
     sa_sourceFile s \<noteq> [] \<and> sa_nodeId s \<noteq> [] \<and> 0 < sa_tripCount s"

end
