(* ===== verification/Partition_Csv.thy ===== *)
theory Partition_Csv
  imports Model_Types
begin

text \<open>
  \<open>PartitionCsvParser\<close> (\<open>src/basic/src/dataset/PartitionCsvParser.hpp\<close>): the CSV header
  index, the field scanner with its quote state, the two date formats, the numeric field
  parsers and \<open>parseRow\<close>. A character range \<open>[a, b)\<close> of the source is the string of its
  characters. A \<open>\<not> s\<close> test on a pointer never fires: every pointer is into the line.
\<close>

section \<open>Data\<close>

record ParsedPartitionRow =
  pr_pickupDatetime :: int
  pr_dropoffDatetime :: int
  pr_tripDistance :: f32
  pr_paymentType :: int
  pr_tipAmountCents :: int
  pr_totalAmountCents :: int

definition empty_row :: ParsedPartitionRow where
  "empty_row = \<lparr> pr_pickupDatetime = 0, pr_dropoffDatetime = 0, pr_tripDistance = 0,
     pr_paymentType = 0, pr_tipAmountCents = 0, pr_totalAmountCents = 0 \<rparr>"

record ColumnIndex =
  ci_pickupDatetime :: int
  ci_dropoffDatetime :: int
  ci_tripDistance :: int
  ci_paymentType :: int
  ci_tipAmount :: int
  ci_totalAmount :: int

definition empty_index :: ColumnIndex where
  "empty_index = \<lparr> ci_pickupDatetime = - 1, ci_dropoffDatetime = - 1, ci_tripDistance = - 1,
     ci_paymentType = - 1, ci_tipAmount = - 1, ci_totalAmount = - 1 \<rparr>"

record PartitionCsvParser =
  cp_idx :: ColumnIndex
  cp_hasHeaderIndex :: bool

definition new_parser :: PartitionCsvParser where
  "new_parser = \<lparr> cp_idx = empty_index, cp_hasHeaderIndex = False \<rparr>"

section \<open>Character ranges\<close>

definition is_blank :: "char \<Rightarrow> bool" where
  "is_blank c \<longleftrightarrow> c = CHR '' '' \<or> c = chr_tab \<or> c = chr_return"

definition trimSpaces :: "string \<Rightarrow> string" where
  "trimSpaces s = rev (dropWhile is_blank (rev (dropWhile is_blank s)))"

definition strip_quotes :: "string \<Rightarrow> string" where
  \<comment> \<open>the lone quotation mark, on which the source's pointers would cross, is ruled out by
      \<open>scan_fields_balanced\<close> below\<close>
  "strip_quotes s =
     (if s \<noteq> [] \<and> hd s = chr_quote \<and> last s = chr_quote
      then trimSpaces (butlast (tl s)) else s)"

definition clean_field :: "string \<Rightarrow> string" where
  "clean_field s = strip_quotes (trimSpaces s)"

definition splitHeaderFieldNormalize :: "string \<Rightarrow> string" where
  "splitHeaderFieldNormalize s = map to_lower (strip_quotes (trimSpaces s))"

definition applyHeaderFieldToIndex :: "string \<Rightarrow> int \<Rightarrow> ColumnIndex \<Rightarrow> ColumnIndex" where
  "applyHeaderFieldToIndex key col idx =
     (if key = ''tpep_pickup_datetime'' then idx\<lparr>ci_pickupDatetime := col\<rparr>
      else if key = ''tpep_dropoff_datetime'' then idx\<lparr>ci_dropoffDatetime := col\<rparr>
      else if key = ''trip_distance'' then idx\<lparr>ci_tripDistance := col\<rparr>
      else if key = ''payment_type'' then idx\<lparr>ci_paymentType := col\<rparr>
      else if key = ''tip_amount'' then idx\<lparr>ci_tipAmount := col\<rparr>
      else if key = ''total_amount'' then idx\<lparr>ci_totalAmount := col\<rparr>
      else idx)"

text \<open>
  The scanning loop both entry points run: quote state, column number, the characters
  since \<open>fieldStart\<close>, and the output the field handler updates at each unquoted comma.
\<close>

fun scan_fields ::
  "(int \<Rightarrow> string \<Rightarrow> 'o \<Rightarrow> 'o) \<Rightarrow> bool \<Rightarrow> int \<Rightarrow> string \<Rightarrow> string \<Rightarrow> 'o \<Rightarrow> bool \<times> int \<times> string \<times> 'o"
where
  "scan_fields h inQuotes col field [] out = (inQuotes, col, field, out)"
| "scan_fields h inQuotes col field (c # cs) out =
     (if c = chr_quote then scan_fields h (\<not> inQuotes) col (field @ [c]) cs out
      else if c = CHR '','' \<and> \<not> inQuotes then scan_fields h inQuotes (col + 1) [] cs (h col field out)
      else scan_fields h inQuotes col (field @ [c]) cs out)"

definition handleHeaderField :: "int \<Rightarrow> string \<Rightarrow> ColumnIndex \<Rightarrow> ColumnIndex" where
  "handleHeaderField col s idx = applyHeaderFieldToIndex (splitHeaderFieldNormalize s) col idx"

definition initFromHeader :: "string \<Rightarrow> bool \<times> PartitionCsvParser" where
  "initFromHeader headerLine =
     (case scan_fields handleHeaderField False 0 [] headerLine empty_index of
        (inQuotes, col, field, idx) \<Rightarrow>
          if inQuotes then (False, \<lparr> cp_idx = idx, cp_hasHeaderIndex = False \<rparr>)
          else let idx = handleHeaderField col field idx
               in if ci_pickupDatetime idx < 0 \<or> ci_dropoffDatetime idx < 0 \<or>
                     ci_tripDistance idx < 0 \<or> ci_paymentType idx < 0 \<or>
                     ci_tipAmount idx < 0 \<or> ci_totalAmount idx < 0
                  then (False, \<lparr> cp_idx = idx, cp_hasHeaderIndex = False \<rparr>)
                  else (True, \<lparr> cp_idx = idx, cp_hasHeaderIndex = True \<rparr>))"

section \<open>Dates\<close>

definition two_digits :: "string \<Rightarrow> nat \<Rightarrow> int" where
  "two_digits s i = digit_val (s ! i) * 10 + digit_val (s ! (i + 1))"

definition epoch_ms :: "tm \<Rightarrow> int" where
  \<comment> \<open>the value \<open>-1\<close> of \<open>timegm\<close> is read as an error\<close>
  "epoch_ms t = (if timegm t = - 1 then 0 else timegm t * 1000)"

definition parseEpochMs_YYYYMMDD_HHMMSS_UTC :: "string \<Rightarrow> int" where
  "parseEpochMs_YYYYMMDD_HHMMSS_UTC s =
     (if length s < 19 then 0
      else if \<not> is_digit (s ! 0) \<or> \<not> is_digit (s ! 1) \<or> \<not> is_digit (s ! 2) \<or> \<not> is_digit (s ! 3) \<or>
              s ! 4 \<noteq> CHR ''-'' \<or>
              \<not> is_digit (s ! 5) \<or> \<not> is_digit (s ! 6) \<or>
              s ! 7 \<noteq> CHR ''-'' \<or>
              \<not> is_digit (s ! 8) \<or> \<not> is_digit (s ! 9) \<or>
              s ! 10 \<noteq> CHR '' '' \<or>
              \<not> is_digit (s ! 11) \<or> \<not> is_digit (s ! 12) \<or>
              s ! 13 \<noteq> CHR '':'' \<or>
              \<not> is_digit (s ! 14) \<or> \<not> is_digit (s ! 15) \<or>
              s ! 16 \<noteq> CHR '':'' \<or>
              \<not> is_digit (s ! 17) \<or> \<not> is_digit (s ! 18)
           then 0
      else let year = digit_val (s ! 0) * 1000 + digit_val (s ! 1) * 100
                      + digit_val (s ! 2) * 10 + digit_val (s ! 3);
               mon = two_digits s 5; mday = two_digits s 8;
               hour = two_digits s 11; mi = two_digits s 14; sec = two_digits s 17
           in if mon < 1 \<or> mon > 12 \<or> mday < 1 \<or> mday > 31 \<or> hour < 0 \<or> hour > 23 \<or>
                 mi < 0 \<or> mi > 59 \<or> sec < 0 \<or> sec > 60
              then 0
              else epoch_ms \<lparr> tm_year = year - 1900, tm_mon = mon - 1, tm_mday = mday,
                              tm_hour = hour, tm_min = mi, tm_sec = sec \<rparr>)"

definition month_names :: "string list" where
  "month_names = [''Jan'', ''Feb'', ''Mar'', ''Apr'', ''May'', ''Jun'',
                  ''Jul'', ''Aug'', ''Sep'', ''Oct'', ''Nov'', ''Dec'']"

fun find_month :: "string \<Rightarrow> int \<Rightarrow> string list \<Rightarrow> int" where
  "find_month s i [] = - 1"
| "find_month s i (m # ms) =
     (if s ! 5 = m ! 0 \<and> s ! 6 = m ! 1 \<and> s ! 7 = m ! 2 then i + 1 else find_month s (i + 1) ms)"

definition is_two_digits :: "string \<Rightarrow> nat \<Rightarrow> bool" where
  "is_two_digits s i \<longleftrightarrow> is_digit (s ! i) \<and> is_digit (s ! (i + 1))"

definition hour24 :: "int \<Rightarrow> bool \<Rightarrow> int" where
  "hour24 hour is_pm = (if hour = 12 then (if is_pm then 12 else 0)
                        else if is_pm then hour + 12 else hour)"

definition parseEpochMs_YYYYMonDD_HHMMSS_AMPM_UTC :: "string \<Rightarrow> int" where
  "parseEpochMs_YYYYMonDD_HHMMSS_AMPM_UTC s =
     (if length s < 23 then 0
      else if \<not> list_all is_digit (take 4 s) then 0
      else if s ! 4 \<noteq> CHR '' '' then 0
      else let year = dec_val 0 (take 4 s); mon = find_month s 0 month_names
      in if mon = - 1 then 0
      else if s ! 8 \<noteq> CHR '' '' then 0
      else if \<not> is_digit (s ! 9) \<or> \<not> is_digit (s ! 10) then 0
      else let mday = two_digits s 9
      in if s ! 11 \<noteq> CHR '' '' then 0
      else if \<not> is_two_digits s 12 \<or> s ! 14 \<noteq> CHR '':'' \<or>
              \<not> is_two_digits s 15 \<or> s ! 17 \<noteq> CHR '':'' \<or> \<not> is_two_digits s 18
           then 0
      else let hour = two_digits s 12; mi = two_digits s 15; sec = two_digits s 18
      in if s ! 20 \<noteq> CHR '' '' then 0
      else if \<not> (s ! 21 = CHR ''A'' \<and> s ! 22 = CHR ''M'') \<and>
              \<not> (s ! 21 = CHR ''P'' \<and> s ! 22 = CHR ''M'') then 0
      else let is_pm = (s ! 21 = CHR ''P'')
      in if hour < 1 \<or> hour > 12 then 0
      else if mday < 1 \<or> mday > 31 \<or> mi < 0 \<or> mi > 59 \<or> sec < 0 \<or> sec > 60 then 0
      else epoch_ms \<lparr> tm_year = year - 1900, tm_mon = mon - 1, tm_mday = mday,
                      tm_hour = hour24 hour is_pm, tm_min = mi, tm_sec = sec \<rparr>)"

definition parseEpochMsFlexibleUTC :: "string \<Rightarrow> int" where
  "parseEpochMsFlexibleUTC s =
     (let e = parseEpochMs_YYYYMMDD_HHMMSS_UTC s
      in if e \<noteq> 0 then e else parseEpochMs_YYYYMonDD_HHMMSS_AMPM_UTC s)"

section \<open>Numbers\<close>

definition parseI16 :: "string \<Rightarrow> int" where
  "parseI16 s =
     (if s = [] then 0
      else case from_chars_int s of
        None \<Rightarrow> 0
      | Some (v, n) \<Rightarrow>
          if n \<noteq> length s then 0
          else if v < - (2 ^ 15) \<or> v > 2 ^ 15 - 1 then 0
          else v)"

definition parseFloat :: "string \<Rightarrow> f32" where
  "parseFloat s =
     (if s = [] then 0
      else let buf = take 63 s; (v, n) = strtof buf
           in if n = 0 then 0 else v)"

text \<open>
  \<open>parseMoneyCents\<close>. The accumulator is an \<open>int64_t\<close>; an overflow of it is reduced to 64
  bits, which is what the compiled code computes (the language leaves it undefined).
\<close>

fun money_dollars :: "int \<Rightarrow> bool \<Rightarrow> string \<Rightarrow> int \<times> bool \<times> string" where
  "money_dollars dollars sawDigit [] = (dollars, sawDigit, [])"
| "money_dollars dollars sawDigit (c # cs) =
     (if is_digit c then money_dollars (to_signed 64 (dollars * 10 + digit_val c)) True cs
      else (dollars, sawDigit, c # cs))"

fun money_fraction :: "int \<Rightarrow> nat \<Rightarrow> string \<Rightarrow> int \<times> nat \<times> string" where
  "money_fraction cents fracDigits [] = (cents, fracDigits, [])"
| "money_fraction cents fracDigits (c # cs) =
     (if is_digit c \<and> fracDigits < 2
      then money_fraction (cents * 10 + digit_val c) (fracDigits + 1) cs
      else (cents, fracDigits, c # cs))"

definition clamp_int32 :: "int \<Rightarrow> int" where
  "clamp_int32 amount =
     (if amount > 2 ^ 31 - 1 then 2 ^ 31 - 1 else if amount < - (2 ^ 31) then - (2 ^ 31) else amount)"

definition money_finish :: "bool \<Rightarrow> int \<Rightarrow> int \<Rightarrow> string \<Rightarrow> int" where
  \<comment> \<open>after the digits: trailing blanks, the end of the range, sign and clamp\<close>
  "money_finish neg dollars cents a =
     (if dropWhile is_blank a \<noteq> [] then 0
      else let amount = to_signed 64 (dollars * 100 + cents);
               amount = (if neg then to_signed 64 (- amount) else amount)
           in clamp_int32 amount)"

definition money_amount :: "bool \<Rightarrow> string \<Rightarrow> int" where
  "money_amount neg a =
     (case money_dollars 0 False a of (dollars, sawDigit, a) \<Rightarrow>
        if a \<noteq> [] \<and> hd a = CHR ''.'' then
          (case money_fraction 0 0 (tl a) of (cents, fracDigits, a) \<Rightarrow>
             let cents = (if fracDigits = 1 then cents * 10 else cents);
                 roundUp = (a \<noteq> [] \<and> is_digit (hd a) \<and> 5 \<le> digit_val (hd a));
                 a = dropWhile is_digit a
             in if \<not> sawDigit \<and> fracDigits = 0 then 0
                else if roundUp then
                  (if cents + 1 \<ge> 100 then money_finish neg (to_signed 64 (dollars + 1)) 0 a
                   else money_finish neg dollars (cents + 1) a)
                else money_finish neg dollars cents a)
        else if \<not> sawDigit then 0
        else money_finish neg dollars 0 a)"

definition money_signed :: "string \<Rightarrow> int" where
  "money_signed a =
     (if hd a = CHR ''+'' \<or> hd a = CHR ''-''
      then (if tl a = [] then 0 else money_amount (hd a = CHR ''-'') (tl a))
      else money_amount False a)"

definition parseMoneyCents :: "string \<Rightarrow> int" where
  "parseMoneyCents s =
     (if s = [] then 0
      else let a = trimSpaces s
           in if a = [] then 0
              else let a = strip_quotes a
                   in if a = [] then 0 else money_signed a)"

section \<open>parseRow\<close>

definition handleField :: "ColumnIndex \<Rightarrow> int \<Rightarrow> string \<Rightarrow> ParsedPartitionRow \<Rightarrow> ParsedPartitionRow" where
  "handleField idx col s out =
     (let f = clean_field s in
      if col = ci_pickupDatetime idx then out\<lparr>pr_pickupDatetime := parseEpochMsFlexibleUTC f\<rparr>
      else if col = ci_dropoffDatetime idx then out\<lparr>pr_dropoffDatetime := parseEpochMsFlexibleUTC f\<rparr>
      else if col = ci_tripDistance idx then out\<lparr>pr_tripDistance := parseFloat f\<rparr>
      else if col = ci_paymentType idx then out\<lparr>pr_paymentType := parseI16 f\<rparr>
      else if col = ci_tipAmount idx then out\<lparr>pr_tipAmountCents := parseMoneyCents f\<rparr>
      else if col = ci_totalAmount idx then out\<lparr>pr_totalAmountCents := parseMoneyCents f\<rparr>
      else out)"

definition parseRow :: "PartitionCsvParser \<Rightarrow> string \<Rightarrow> bool \<times> ParsedPartitionRow" where
  "parseRow p line =
     (if \<not> cp_hasHeaderIndex p \<or> line = [] then (False, empty_row)
      else case scan_fields (handleField (cp_idx p)) False 0 [] line empty_row of
        (inQuotes, col, field, out) \<Rightarrow>
          if inQuotes then (False, out)
          else let out = handleField (cp_idx p) col field out
               in if pr_pickupDatetime out = 0 then (False, out) else (True, out))"

end
