(* ===== verification/Csv_Fields.thy ===== *)
theory Csv_Fields
  imports Partition_Csv
begin

text \<open>
  Field splitting and row parsing of \<open>PartitionCsvParser\<close>: the scanner against a splitting
  function, the header index, and \<open>parseRow\<close> against column lookup.
\<close>

section \<open>The scanner\<close>

fun csv_fields :: "bool \<Rightarrow> string \<Rightarrow> string \<Rightarrow> string list" where
  "csv_fields q f [] = [f]"
| "csv_fields q f (c # cs) =
     (if c = chr_quote then csv_fields (\<not> q) (f @ [c]) cs
      else if c = CHR '','' \<and> \<not> q then f # csv_fields q [] cs
      else csv_fields q (f @ [c]) cs)"

definition quotes :: "string \<Rightarrow> nat" where
  "quotes s = length (filter (\<lambda>c. c = chr_quote) s)"

definition fields_of :: "string \<Rightarrow> string list" where
  "fields_of line = csv_fields False [] line"

definition join_fields :: "string list \<Rightarrow> string" where
  "join_fields fs = concat (map (\<lambda>f. f @ '','') (butlast fs)) @ last fs"

lemma chr_quote_neq [simp]:
  "chr_quote \<noteq> CHR '' ''" "chr_quote \<noteq> CHR '',''" "chr_quote \<noteq> chr_tab" "chr_quote \<noteq> chr_return"
  "CHR '' '' \<noteq> chr_quote" "CHR '','' \<noteq> chr_quote" "chr_tab \<noteq> chr_quote" "chr_return \<noteq> chr_quote"
  by (simp_all add: char_of_def)

lemma quotes_append [simp]: "quotes (s @ t) = quotes s + quotes t"
  by (simp add: quotes_def)

lemma quotes_Nil [simp]: "quotes [] = 0"
  by (simp add: quotes_def)

lemma quotes_Cons [simp]: "quotes (c # s) = (if c = chr_quote then Suc (quotes s) else quotes s)"
  by (simp add: quotes_def)

lemma csv_fields_nonempty [simp]: "csv_fields q f s \<noteq> []"
  by (induction q f s rule: csv_fields.induct) auto

lemma scan_fields_split:
  "scan_fields h q (int n) f s out =
     (odd (quotes s + (if q then 1 else 0)),
      int (n + length (csv_fields q f s) - 1), last (csv_fields q f s),
      fold (\<lambda>(i, x). h (int i) x) (enumerate n (butlast (csv_fields q f s))) out)"
proof (induction q f s arbitrary: n out rule: csv_fields.induct)
  case (1 q f)
  then show ?case by simp
next
  case (2 q f c cs)
  show ?case
  proof (cases "c \<noteq> chr_quote \<and> c = CHR '','' \<and> \<not> q")
    case True
    have "int n + 1 = int (Suc n)" by simp
    moreover have "csv_fields q [] cs \<noteq> []" by simp
    ultimately show ?thesis using True 2(2) [of "Suc n" "h (int n) f out"]
      by (simp only: scan_fields.simps csv_fields.simps chr_quote_neq if_True if_False simp_thms) simp
  next
    case False
    with 2(1,3) show ?thesis by (cases "c = chr_quote"; cases q) auto
  qed
qed

lemma scan_fields_all:
  assumes "scan_fields h False 0 [] s out = (q, col, f, out')"
  shows "q \<longleftrightarrow> odd (quotes s)"
    and "h col f out' = fold (\<lambda>(i, x). h (int i) x) (enumerate 0 (fields_of s)) out"
proof -
  let ?fs = "fields_of s"
  have ne: "?fs \<noteq> []" by (simp add: fields_of_def)
  have eq: "q \<longleftrightarrow> odd (quotes s)" "col = int (length ?fs - 1)" "f = last ?fs"
    "out' = fold (\<lambda>(i, x). h (int i) x) (enumerate 0 (butlast ?fs)) out"
    using assms scan_fields_split [of h False 0 "[]" s out] by (auto simp: fields_of_def)
  show "q \<longleftrightarrow> odd (quotes s)" by (rule eq)
  have "enumerate 0 ?fs = enumerate 0 (butlast ?fs) @ [(length ?fs - 1, last ?fs)]"
    using enumerate_append_eq [of 0 "butlast ?fs" "[last ?fs]"] ne by (simp add: enumerate_simps)
  then show "h col f out' = fold (\<lambda>(i, x). h (int i) x) (enumerate 0 ?fs) out"
    by (simp add: eq)
qed

lemma join_fields_csv: "join_fields (csv_fields q f s) = f @ s"
proof (induction q f s rule: csv_fields.induct)
  case (1 q f)
  then show ?case by (simp add: join_fields_def)
next
  case (2 q f c cs)
  then show ?case by (auto simp: join_fields_def)
qed

lemma join_fields_of: "join_fields (fields_of line) = line"
  by (simp add: fields_of_def join_fields_csv)

lemma csv_fields_even:
  "(q \<longleftrightarrow> odd (quotes f)) \<Longrightarrow>
     (\<forall>x \<in> set (butlast (csv_fields q f s)). even (quotes x)) \<and>
     (odd (quotes (last (csv_fields q f s))) \<longleftrightarrow> (odd (quotes s) \<noteq> q))"
proof (induction q f s rule: csv_fields.induct)
  case (1 q f)
  then show ?case by simp
next
  case (2 q f c cs)
  show ?case
  proof (cases "c = chr_quote")
    case True
    then show ?thesis using 2(1) [OF True] 2(4) by simp
  next
    case False
    show ?thesis
    proof (cases "c = CHR '','' \<and> \<not> q")
      case True
      then show ?thesis using 2(2) [OF False True] 2(4) False by simp
    next
      case c: False
      have e: "csv_fields q f (c # cs) = csv_fields q (f @ [c]) cs"
        by (simp only: csv_fields.simps False c if_False)
      have k: "quotes (c # cs) = quotes cs" "quotes (f @ [c]) = quotes f"
        by (simp_all only: quotes_Cons quotes_append quotes_Nil False if_False add_0_right)
      show ?thesis unfolding e k(1) by (rule 2(3) [OF False c, unfolded k(2), OF 2(4)])
    qed
  qed
qed

lemma fields_even:
  assumes "even (quotes line)" and "x \<in> set (fields_of line)"
  shows "even (quotes x)"
proof -
  have "fields_of line \<noteq> []" by (simp add: fields_of_def)
  then have "x \<in> set (butlast (fields_of line) @ [last (fields_of line)])"
    using assms(2) by (simp only: append_butlast_last_id not_False_eq_True)
  then have "x \<in> set (butlast (fields_of line)) \<or> x = last (fields_of line)"
    unfolding set_append by auto
  then show ?thesis
    using csv_fields_even [of False "[]" line] assms(1) by (auto simp: fields_of_def)
qed

lemma quotes_rev [simp]: "quotes (rev s) = quotes s"
  by (simp add: quotes_def flip: rev_filter)

lemma quotes_dropWhile_blank: "quotes (dropWhile is_blank s) = quotes s"
  by (induction s) (auto simp: is_blank_def)

lemma quotes_trim [simp]: "quotes (trimSpaces s) = quotes s"
  by (simp add: trimSpaces_def quotes_dropWhile_blank)

lemma quotes_strip:
  assumes "s \<noteq> [chr_quote]"
  shows "quotes (strip_quotes s) + (if s \<noteq> [] \<and> hd s = chr_quote \<and> last s = chr_quote then 2 else 0) = quotes s"
proof (cases "s \<noteq> [] \<and> hd s = chr_quote \<and> last s = chr_quote")
  case True
  with assms obtain u where "s = chr_quote # u @ [chr_quote]"
    by (metis append_butlast_last_id last_ConsR list.collapse)
  then show ?thesis by (simp add: strip_quotes_def)
qed (auto simp: strip_quotes_def)

text \<open>
  The source never crosses its two pointers: no field that reaches a handler trims to a
  single quotation mark, nor does it after its quotes are stripped.
\<close>

lemma scan_fields_balanced:
  assumes "even (quotes line)" and "x \<in> set (fields_of line)"
  shows "trimSpaces x \<noteq> [chr_quote] \<and> trimSpaces (clean_field x) \<noteq> [chr_quote]"
proof -
  have e: "even (quotes x)" using assms by (rule fields_even)
  have a: "trimSpaces x \<noteq> [chr_quote]"
  proof
    assume "trimSpaces x = [chr_quote]"
    then have "quotes x = 1" using quotes_trim [of x] by simp
    with e show False by simp
  qed
  have "even m \<longleftrightarrow> even n" if "m + (if b then 2 else 0) = n" for m n :: nat and b
    using that by (cases b) auto
  from this [OF quotes_strip [OF a]] have "even (quotes (clean_field x))"
    using e by (simp add: clean_field_def)
  moreover have "quotes (clean_field x) = 1" if "trimSpaces (clean_field x) = [chr_quote]"
    using arg_cong [OF that, of quotes] by simp
  ultimately have "trimSpaces (clean_field x) \<noteq> [chr_quote]" by (metis odd_one)
  with a show ?thesis ..
qed

section \<open>Folding a handler over the fields\<close>

lemma fold_column:
  assumes h: "\<And>c x a. g (h (int c) x a) = (if int c = k then v x else g a)"
  shows "g (fold (\<lambda>(i, x). h (int i) x) (enumerate n fs) a) =
     (if int n \<le> k \<and> k < int (n + length fs) then v (fs ! (nat k - n)) else g a)"
proof (induction fs arbitrary: n a)
  case Nil
  then show ?case by auto
next
  case (Cons x fs)
  have "nat k - n = Suc (nat k - Suc n)" if "int (Suc n) \<le> k" using that by simp
  then show ?case using Cons.IH [of "Suc n" "h (int n) x a"]
    by (cases "k = int n") (auto simp: h)
qed

lemma fold_last_name:
  assumes h: "\<And>c x a. g (h c x a) = (if v x = key then c else g a)"
  defines "r n fs a \<equiv> g (fold (\<lambda>(i, x). h (int i) x) (enumerate n fs) a)"
  shows "(key \<notin> set (map v fs) \<longrightarrow> r n fs a = g a) \<and>
         (key \<in> set (map v fs) \<longrightarrow>
            int n \<le> r n fs a \<and> r n fs a < int (n + length fs) \<and> v (fs ! (nat (r n fs a) - n)) = key)"
  unfolding r_def
proof (induction fs arbitrary: n a)
  case Nil
  then show ?case by simp
next
  case (Cons x fs)
  let ?a = "h (int n) x a"
  let ?r = "g (fold (\<lambda>(i, x). h (int i) x) (enumerate (Suc n) fs) ?a)"
  show ?case
  proof (cases "key \<in> set (map v fs)")
    case True
    with Cons.IH [of "Suc n" ?a] have "int (Suc n) \<le> ?r" "?r < int (Suc n + length fs)"
      "v (fs ! (nat ?r - Suc n)) = key" by auto
    moreover from this(1) have "nat ?r - n = Suc (nat ?r - Suc n)" by simp
    ultimately show ?thesis using True by simp
  next
    case False
    with Cons.IH [of "Suc n" ?a] have "?r = g ?a" by auto
    with False show ?thesis by (auto simp: h)
  qed
qed

section \<open>The header\<close>

definition header_names :: "string list" where
  "header_names = [''tpep_pickup_datetime'', ''tpep_dropoff_datetime'', ''trip_distance'',
     ''payment_type'', ''tip_amount'', ''total_amount'']"

definition column_of :: "string list \<Rightarrow> string \<Rightarrow> int \<Rightarrow> bool" where
  \<comment> \<open>the header field in column \<open>c\<close> has this name\<close>
  "column_of fs name c \<longleftrightarrow>
     0 \<le> c \<and> c < int (length fs) \<and> splitHeaderFieldNormalize (fs ! nat c) = name"

lemma header_fold:
  fixes fs :: "string list"
  defines "idx \<equiv> fold (\<lambda>(i, x). handleHeaderField (int i) x) (enumerate 0 fs) empty_index"
  shows "(''tpep_pickup_datetime'' \<in> set (map splitHeaderFieldNormalize fs) \<longrightarrow>
            column_of fs ''tpep_pickup_datetime'' (ci_pickupDatetime idx)) \<and>
         (''tpep_pickup_datetime'' \<notin> set (map splitHeaderFieldNormalize fs) \<longrightarrow> ci_pickupDatetime idx = - 1)"
    and "(''tpep_dropoff_datetime'' \<in> set (map splitHeaderFieldNormalize fs) \<longrightarrow>
            column_of fs ''tpep_dropoff_datetime'' (ci_dropoffDatetime idx)) \<and>
         (''tpep_dropoff_datetime'' \<notin> set (map splitHeaderFieldNormalize fs) \<longrightarrow> ci_dropoffDatetime idx = - 1)"
    and "(''trip_distance'' \<in> set (map splitHeaderFieldNormalize fs) \<longrightarrow>
            column_of fs ''trip_distance'' (ci_tripDistance idx)) \<and>
         (''trip_distance'' \<notin> set (map splitHeaderFieldNormalize fs) \<longrightarrow> ci_tripDistance idx = - 1)"
    and "(''payment_type'' \<in> set (map splitHeaderFieldNormalize fs) \<longrightarrow>
            column_of fs ''payment_type'' (ci_paymentType idx)) \<and>
         (''payment_type'' \<notin> set (map splitHeaderFieldNormalize fs) \<longrightarrow> ci_paymentType idx = - 1)"
    and "(''tip_amount'' \<in> set (map splitHeaderFieldNormalize fs) \<longrightarrow>
            column_of fs ''tip_amount'' (ci_tipAmount idx)) \<and>
         (''tip_amount'' \<notin> set (map splitHeaderFieldNormalize fs) \<longrightarrow> ci_tipAmount idx = - 1)"
    and "(''total_amount'' \<in> set (map splitHeaderFieldNormalize fs) \<longrightarrow>
            column_of fs ''total_amount'' (ci_totalAmount idx)) \<and>
         (''total_amount'' \<notin> set (map splitHeaderFieldNormalize fs) \<longrightarrow> ci_totalAmount idx = - 1)"
  unfolding idx_def column_of_def
  using fold_last_name [of ci_pickupDatetime handleHeaderField splitHeaderFieldNormalize
      "''tpep_pickup_datetime''" fs 0 empty_index]
    fold_last_name [of ci_dropoffDatetime handleHeaderField splitHeaderFieldNormalize
      "''tpep_dropoff_datetime''" fs 0 empty_index]
    fold_last_name [of ci_tripDistance handleHeaderField splitHeaderFieldNormalize
      "''trip_distance''" fs 0 empty_index]
    fold_last_name [of ci_paymentType handleHeaderField splitHeaderFieldNormalize
      "''payment_type''" fs 0 empty_index]
    fold_last_name [of ci_tipAmount handleHeaderField splitHeaderFieldNormalize
      "''tip_amount''" fs 0 empty_index]
    fold_last_name [of ci_totalAmount handleHeaderField splitHeaderFieldNormalize
      "''total_amount''" fs 0 empty_index]
  by (simp_all add: handleHeaderField_def applyHeaderFieldToIndex_def empty_index_def)

definition header_ok :: "string list \<Rightarrow> ColumnIndex \<Rightarrow> bool" where
  \<comment> \<open>every required column is the header field of its name\<close>
  "header_ok fs idx \<longleftrightarrow>
     column_of fs ''tpep_pickup_datetime'' (ci_pickupDatetime idx) \<and>
     column_of fs ''tpep_dropoff_datetime'' (ci_dropoffDatetime idx) \<and>
     column_of fs ''trip_distance'' (ci_tripDistance idx) \<and>
     column_of fs ''payment_type'' (ci_paymentType idx) \<and>
     column_of fs ''tip_amount'' (ci_tipAmount idx) \<and>
     column_of fs ''total_amount'' (ci_totalAmount idx)"

lemma column_missing:
  "(name \<in> S \<longrightarrow> column_of fs name c) \<and> (name \<notin> S \<longrightarrow> c = - 1) \<Longrightarrow> c < 0 \<longleftrightarrow> name \<notin> S"
  by (cases "name \<in> S") (auto simp: column_of_def)

lemma initFromHeader_cases:
  fixes line :: string
  defines "fs \<equiv> fields_of line" and "ok \<equiv> even (quotes line) \<and>
     set header_names \<subseteq> set (map splitHeaderFieldNormalize (fields_of line))"
  shows "fst (initFromHeader line) \<longleftrightarrow> ok"
    and "cp_hasHeaderIndex (snd (initFromHeader line)) \<longleftrightarrow> ok"
    and "ok \<Longrightarrow> header_ok fs (cp_idx (snd (initFromHeader line)))"
proof -
  obtain q col f out where s: "scan_fields handleHeaderField False 0 [] line empty_index = (q, col, f, out)"
    by (metis prod_cases4)
  note all = scan_fields_all [OF s]
  let ?idx = "handleHeaderField col f out"
  let ?names = "set header_names \<subseteq> set (map splitHeaderFieldNormalize fs)"
  note hf = header_fold [of fs, unfolded fs_def, folded all(2), folded fs_def]
  have neg: "(ci_pickupDatetime ?idx < 0 \<or> ci_dropoffDatetime ?idx < 0 \<or>
      ci_tripDistance ?idx < 0 \<or> ci_paymentType ?idx < 0 \<or> ci_tipAmount ?idx < 0 \<or>
      ci_totalAmount ?idx < 0) \<longleftrightarrow> \<not> ?names"
    unfolding hf [THEN column_missing] header_names_def list.set insert_subset by blast
  have i: "initFromHeader line =
      (if q then (False, \<lparr> cp_idx = out, cp_hasHeaderIndex = False \<rparr>)
       else if \<not> ?names then (False, \<lparr> cp_idx = ?idx, cp_hasHeaderIndex = False \<rparr>)
       else (True, \<lparr> cp_idx = ?idx, cp_hasHeaderIndex = True \<rparr>))"
    unfolding initFromHeader_def s by (simp only: prod.case Let_def neg if_not_P if_P cong: if_cong)
  show "fst (initFromHeader line) \<longleftrightarrow> ok" and "cp_hasHeaderIndex (snd (initFromHeader line)) \<longleftrightarrow> ok"
    using all(1) by (auto simp: i ok_def fs_def)
  assume ok
  then have "\<not> q" and n: "?names" using all(1) by (auto simp: ok_def fs_def)
  then have "cp_idx (snd (initFromHeader line)) = ?idx" by (simp add: i)
  then show "header_ok fs (cp_idx (snd (initFromHeader line)))"
    using hf [THEN conjunct1] n unfolding header_ok_def header_names_def list.set insert_subset by argo
qed

section \<open>Rows\<close>

definition field_value :: "(string \<Rightarrow> 'b) \<Rightarrow> 'b \<Rightarrow> string list \<Rightarrow> int \<Rightarrow> 'b" where
  "field_value v d fs c =
     (if 0 \<le> c \<and> c < int (length fs) then v (clean_field (fs ! nat c)) else d)"

definition row_of :: "ColumnIndex \<Rightarrow> string list \<Rightarrow> ParsedPartitionRow" where
  \<comment> \<open>what a row means: each column looked up by its position\<close>
  "row_of idx fs = \<lparr>
     pr_pickupDatetime = field_value parseEpochMsFlexibleUTC 0 fs (ci_pickupDatetime idx),
     pr_dropoffDatetime = field_value parseEpochMsFlexibleUTC 0 fs (ci_dropoffDatetime idx),
     pr_tripDistance = field_value parseFloat 0 fs (ci_tripDistance idx),
     pr_paymentType = field_value parseI16 0 fs (ci_paymentType idx),
     pr_tipAmountCents = field_value parseMoneyCents 0 fs (ci_tipAmount idx),
     pr_totalAmountCents = field_value parseMoneyCents 0 fs (ci_totalAmount idx) \<rparr>"

definition columns_distinct :: "ColumnIndex \<Rightarrow> bool" where
  "columns_distinct idx \<longleftrightarrow>
     distinct [ci_pickupDatetime idx, ci_dropoffDatetime idx, ci_tripDistance idx,
               ci_paymentType idx, ci_tipAmount idx, ci_totalAmount idx]"

lemma header_ok_distinct:
  assumes "header_ok fs idx"
  shows "columns_distinct idx"
proof -
  let ?cs = "[ci_pickupDatetime idx, ci_dropoffDatetime idx, ci_tripDistance idx,
               ci_paymentType idx, ci_tipAmount idx, ci_totalAmount idx]"
  have "map (\<lambda>c. splitHeaderFieldNormalize (fs ! nat c)) ?cs = header_names"
    using assms by (simp add: header_ok_def column_of_def header_names_def)
  moreover have "distinct header_names" by (simp add: header_names_def)
  ultimately have "distinct (map (\<lambda>c. splitHeaderFieldNormalize (fs ! nat c)) ?cs)" by (simp only:)
  then show ?thesis unfolding columns_distinct_def by (simp only: distinct_map)
qed

lemma handleField_fold:
  assumes d: "columns_distinct idx"
  shows "fold (\<lambda>(i, x). handleField idx (int i) x) (enumerate 0 fs) empty_row = row_of idx fs"
    (is "?r = _")
proof (rule ParsedPartitionRow.equality)
  show "pr_pickupDatetime ?r = pr_pickupDatetime (row_of idx fs)"
    using fold_column [of pr_pickupDatetime "handleField idx" "ci_pickupDatetime idx"
        "\<lambda>x. parseEpochMsFlexibleUTC (clean_field x)" 0 fs empty_row]
    by (simp add: handleField_def Let_def row_of_def field_value_def empty_row_def)
  show "pr_dropoffDatetime ?r = pr_dropoffDatetime (row_of idx fs)"
    using d fold_column [of pr_dropoffDatetime "handleField idx" "ci_dropoffDatetime idx"
        "\<lambda>x. parseEpochMsFlexibleUTC (clean_field x)" 0 fs empty_row]
    by (simp add: handleField_def Let_def row_of_def field_value_def empty_row_def columns_distinct_def)
  show "pr_tripDistance ?r = pr_tripDistance (row_of idx fs)"
    using d fold_column [of pr_tripDistance "handleField idx" "ci_tripDistance idx"
        "\<lambda>x. parseFloat (clean_field x)" 0 fs empty_row]
    by (simp add: handleField_def Let_def row_of_def field_value_def empty_row_def columns_distinct_def)
  show "pr_paymentType ?r = pr_paymentType (row_of idx fs)"
    using d fold_column [of pr_paymentType "handleField idx" "ci_paymentType idx"
        "\<lambda>x. parseI16 (clean_field x)" 0 fs empty_row]
    by (simp add: handleField_def Let_def row_of_def field_value_def empty_row_def columns_distinct_def)
  show "pr_tipAmountCents ?r = pr_tipAmountCents (row_of idx fs)"
    using d fold_column [of pr_tipAmountCents "handleField idx" "ci_tipAmount idx"
        "\<lambda>x. parseMoneyCents (clean_field x)" 0 fs empty_row]
    by (simp add: handleField_def Let_def row_of_def field_value_def empty_row_def columns_distinct_def)
  show "pr_totalAmountCents ?r = pr_totalAmountCents (row_of idx fs)"
    using d fold_column [of pr_totalAmountCents "handleField idx" "ci_totalAmount idx"
        "\<lambda>x. parseMoneyCents (clean_field x)" 0 fs empty_row]
    by (simp add: handleField_def Let_def row_of_def field_value_def empty_row_def columns_distinct_def)
qed simp

lemma parseRow_lookup:
  assumes "cp_hasHeaderIndex p" and "columns_distinct (cp_idx p)"
    and "line \<noteq> []" and "even (quotes line)"
  shows "parseRow p line =
    (pr_pickupDatetime (row_of (cp_idx p) (fields_of line)) \<noteq> 0, row_of (cp_idx p) (fields_of line))"
proof -
  obtain q col f out where s: "scan_fields (handleField (cp_idx p)) False 0 [] line empty_row = (q, col, f, out)"
    by (metis prod_cases4)
  note all = scan_fields_all [OF s, unfolded handleField_fold [OF assms(2)]]
  show ?thesis using assms all by (simp add: parseRow_def s Let_def)
qed

lemma parseRow_rejects:
  assumes "line = [] \<or> odd (quotes line)"
  shows "\<not> fst (parseRow p line)"
proof -
  obtain q col f out where s: "scan_fields (handleField (cp_idx p)) False 0 [] line empty_row = (q, col, f, out)"
    by (metis prod_cases4)
  show ?thesis using assms scan_fields_all(1) [OF s] by (auto simp: parseRow_def s)
qed

text \<open>Every field of a parsed row is in the range of its type.\<close>

definition row_in_range :: "ParsedPartitionRow \<Rightarrow> bool" where
  "row_in_range r \<longleftrightarrow>
     - (2 ^ 15) \<le> pr_paymentType r \<and> pr_paymentType r < 2 ^ 15 \<and>
     - (2 ^ 31) \<le> pr_tipAmountCents r \<and> pr_tipAmountCents r < 2 ^ 31 \<and>
     - (2 ^ 31) \<le> pr_totalAmountCents r \<and> pr_totalAmountCents r < 2 ^ 31"

lemma parseI16_range: "- (2 ^ 15) \<le> parseI16 s \<and> parseI16 s < 2 ^ 15"
  by (auto simp: parseI16_def split: option.splits)

lemma clamp_int32_range: "- (2 ^ 31) \<le> clamp_int32 n \<and> clamp_int32 n < 2 ^ 31"
  by (simp add: clamp_int32_def)

lemma money_finish_range: "- (2 ^ 31) \<le> money_finish neg d c a \<and> money_finish neg d c a < 2 ^ 31"
  using clamp_int32_range by (simp add: money_finish_def Let_def del: power_numeral)

lemma money_amount_range: "- (2 ^ 31) \<le> money_amount neg a \<and> money_amount neg a < 2 ^ 31"
  unfolding money_amount_def Let_def
  by (auto split: prod.splits simp: money_finish_range [simplified])

lemma parseMoneyCents_range: "- (2 ^ 31) \<le> parseMoneyCents s \<and> parseMoneyCents s < 2 ^ 31"
  by (simp add: parseMoneyCents_def money_signed_def Let_def money_amount_range [simplified])

lemma handleField_range: "row_in_range out \<Longrightarrow> row_in_range (handleField idx col s out)"
  by (auto simp: row_in_range_def handleField_def Let_def
      parseMoneyCents_range [simplified] parseI16_range [simplified])

lemma scan_fields_invariant:
  assumes "\<And>c x out. P out \<Longrightarrow> P (h c x out)" and "P out"
  shows "P (snd (snd (snd (scan_fields h q c f s out))))"
  using assms(2) by (induction s arbitrary: q c f out) (auto simp: assms(1))

lemma parseRow_range: "row_in_range (snd (parseRow p line))"
proof -
  obtain q col f out where s: "scan_fields (handleField (cp_idx p)) False 0 [] line empty_row = (q, col, f, out)"
    by (metis prod_cases4)
  have e: "row_in_range empty_row" by (simp add: row_in_range_def empty_row_def)
  have "row_in_range out"
    using scan_fields_invariant [of row_in_range "handleField (cp_idx p)" empty_row False 0 "[]" line,
        OF handleField_range e] by (simp add: s)
  then show ?thesis using e by (simp add: parseRow_def s Let_def handleField_range)
qed

end
