(* ===== verification/Csv_Values.thy ===== *)
theory Csv_Values
  imports Csv_Fields
begin

text \<open>
  Field values of \<open>PartitionCsvParser\<close>: what the date and money parsers return on the
  texts they are meant for, the order of parsed times, and rounding of amounts.
\<close>

section \<open>Dates\<close>

definition pad2 :: "nat \<Rightarrow> string" where
  "pad2 n = [digit_char (n div 10), digit_char (n mod 10)]"

definition pad4 :: "nat \<Rightarrow> string" where
  "pad4 n = [digit_char (n div 1000), digit_char (n div 100 mod 10),
             digit_char (n div 10 mod 10), digit_char (n mod 10)]"

definition iso_text :: "tm \<Rightarrow> string" where
  \<comment> \<open>\<open>2020-01-01 00:28:15\<close>\<close>
  "iso_text t = pad4 (nat (1900 + tm_year t)) @ ''-'' @ pad2 (nat (tm_mon t + 1)) @ ''-''
     @ pad2 (nat (tm_mday t)) @ '' '' @ pad2 (nat (tm_hour t)) @ '':'' @ pad2 (nat (tm_min t))
     @ '':'' @ pad2 (nat (tm_sec t))"

definition hour12 :: "int \<Rightarrow> int" where
  "hour12 h = (if h mod 12 = 0 then 12 else h mod 12)"

definition ampm_text :: "tm \<Rightarrow> string" where
  \<comment> \<open>\<open>2020 Jan 01 12:28:15 AM\<close>\<close>
  "ampm_text t = pad4 (nat (1900 + tm_year t)) @ '' '' @ month_names ! nat (tm_mon t) @ '' ''
     @ pad2 (nat (tm_mday t)) @ '' '' @ pad2 (nat (hour12 (tm_hour t))) @ '':''
     @ pad2 (nat (tm_min t)) @ '':'' @ pad2 (nat (tm_sec t))
     @ (if tm_hour t < 12 then '' AM'' else '' PM'')"

definition year_fits :: "tm \<Rightarrow> bool" where
  "year_fits t \<longleftrightarrow> 0 \<le> 1900 + tm_year t \<and> 1900 + tm_year t \<le> 9999"

lemma pad2_val:
  "n < 100 \<Longrightarrow> digit_val (digit_char (n div 10)) * 10 + digit_val (digit_char (n mod 10)) = int n"
  by (simp add: zdiv_int zmod_int)

lemma pad2_digits: "n < 100 \<Longrightarrow> is_digit (digit_char (n div 10)) \<and> is_digit (digit_char (n mod 10))"
  by simp

lemma pad4_digits:
  "n < 10000 \<Longrightarrow> is_digit (digit_char (n div 1000)) \<and> is_digit (digit_char (n div 100 mod 10)) \<and>
     is_digit (digit_char (n div 10 mod 10)) \<and> is_digit (digit_char (n mod 10))"
  by simp

lemma pad4_val:
  assumes "n < 10000"
  shows "digit_val (digit_char (n div 1000)) * 1000 + digit_val (digit_char (n div 100 mod 10)) * 100
         + digit_val (digit_char (n div 10 mod 10)) * 10 + digit_val (digit_char (n mod 10)) = int n"
proof -
  have "n = n div 1000 * 1000 + n div 100 mod 10 * 100 + n div 10 mod 10 * 10 + n mod 10"
  proof -
    have "n = n div 10 * 10 + n mod 10" by simp
    moreover have "n div 10 = n div 10 div 10 * 10 + n div 10 mod 10" by simp
    moreover have "n div 100 = n div 100 div 10 * 10 + n div 100 mod 10" by simp
    moreover have "n div 10 div 10 = n div 100" "n div 100 div 10 = n div 1000"
      by (simp_all flip: div_mult2_eq)
    ultimately show ?thesis by linarith
  qed
  then have "int n = int (n div 1000 * 1000 + n div 100 mod 10 * 100 + n div 10 mod 10 * 10 + n mod 10)"
    by (rule arg_cong)
  then show ?thesis using assms by simp
qed

lemma pad4_dec:
  assumes "n < 10000"
  shows "dec_val 0 [digit_char (n div 1000), digit_char (n div 100 mod 10),
    digit_char (n div 10 mod 10), digit_char (n mod 10)] = int n"
  using pad4_val [OF assms] by (simp add: algebra_simps)

lemma tm_text_fields:
  assumes "tm_valid t" and "year_fits t"
  shows "nat (1900 + tm_year t) < 10000" "nat (tm_mon t + 1) < 100" "nat (tm_mday t) < 100"
    "nat (tm_hour t) < 100" "nat (tm_min t) < 100" "nat (tm_sec t) < 100"
    "nat (hour12 (tm_hour t)) < 100" "nat (tm_mon t) < 12"
proof -
  have "month_length l m \<le> 31" for l m by (simp add: month_length_def)
  from this [of "is_leap (1900 + tm_year t)" "tm_mon t"] have "tm_mday t \<le> 31"
    using assms(1) by (simp add: tm_valid_def)
  moreover have "hour12 h \<le> 12" for h
    using pos_mod_bound [of 12 h] unfolding hour12_def by (cases "h mod 12 = 0") simp_all
  from this [of "tm_hour t"] have "hour12 (tm_hour t) < 100" by simp
  ultimately show "nat (1900 + tm_year t) < 10000" "nat (tm_mon t + 1) < 100" "nat (tm_mday t) < 100"
    "nat (tm_hour t) < 100" "nat (tm_min t) < 100" "nat (tm_sec t) < 100"
    "nat (hour12 (tm_hour t)) < 100" "nat (tm_mon t) < 12"
    using assms by (auto simp: tm_valid_def year_fits_def)
qed

lemma mday_le: "tm_valid t \<Longrightarrow> tm_mday t \<le> 31"
  by (auto simp: tm_valid_def month_length_def split: if_splits)

lemma iso_text_shape:
  "iso_text t =
     (let y = nat (1900 + tm_year t); m = nat (tm_mon t + 1); d = nat (tm_mday t);
          h = nat (tm_hour t); i = nat (tm_min t); c = nat (tm_sec t)
      in [digit_char (y div 1000), digit_char (y div 100 mod 10), digit_char (y div 10 mod 10),
          digit_char (y mod 10), CHR ''-'', digit_char (m div 10), digit_char (m mod 10), CHR ''-'',
          digit_char (d div 10), digit_char (d mod 10), CHR '' '', digit_char (h div 10),
          digit_char (h mod 10), CHR '':'', digit_char (i div 10), digit_char (i mod 10), CHR '':'',
          digit_char (c div 10), digit_char (c mod 10)])"
  by (simp add: iso_text_def pad2_def pad4_def Let_def)

lemma parse_iso_chars:
  assumes "list_all is_digit [a0, a1, a2, a3, b0, b1, c0, c1, d0, d1, e0, e1, f0, f1]"
  shows "parseEpochMs_YYYYMMDD_HHMMSS_UTC
      [a0, a1, a2, a3, CHR ''-'', b0, b1, CHR ''-'', c0, c1, CHR '' '',
       d0, d1, CHR '':'', e0, e1, CHR '':'', f0, f1] =
    (let year = digit_val a0 * 1000 + digit_val a1 * 100 + digit_val a2 * 10 + digit_val a3;
         mon = digit_val b0 * 10 + digit_val b1; mday = digit_val c0 * 10 + digit_val c1;
         hour = digit_val d0 * 10 + digit_val d1; mi = digit_val e0 * 10 + digit_val e1;
         sec = digit_val f0 * 10 + digit_val f1
     in if mon < 1 \<or> mon > 12 \<or> mday < 1 \<or> mday > 31 \<or> hour < 0 \<or> hour > 23 \<or>
           mi < 0 \<or> mi > 59 \<or> sec < 0 \<or> sec > 60
        then 0
        else epoch_ms \<lparr> tm_year = year - 1900, tm_mon = mon - 1, tm_mday = mday,
                        tm_hour = hour, tm_min = mi, tm_sec = sec \<rparr>)"
  using assms by (simp add: parseEpochMs_YYYYMMDD_HHMMSS_UTC_def two_digits_def Let_def)

lemma parse_iso_text:
  assumes v: "tm_valid t" and y: "year_fits t"
  shows "parseEpochMs_YYYYMMDD_HHMMSS_UTC (iso_text t) = epoch_ms t"
proof -
  note b = tm_text_fields [OF v y]
  have "\<lparr> tm_year = int (nat (1900 + tm_year t)) - 1900, tm_mon = int (nat (tm_mon t + 1)) - 1,
          tm_mday = int (nat (tm_mday t)), tm_hour = int (nat (tm_hour t)),
          tm_min = int (nat (tm_min t)), tm_sec = int (nat (tm_sec t)) \<rparr> = t"
    using v y by (cases t) (simp add: tm_valid_def year_fits_def)
  moreover have "\<not> (int (nat (tm_mon t + 1)) < 1 \<or> int (nat (tm_mon t + 1)) > 12 \<or>
      int (nat (tm_mday t)) < 1 \<or> int (nat (tm_mday t)) > 31 \<or>
      int (nat (tm_hour t)) < 0 \<or> int (nat (tm_hour t)) > 23 \<or>
      int (nat (tm_min t)) < 0 \<or> int (nat (tm_min t)) > 59 \<or>
      int (nat (tm_sec t)) < 0 \<or> int (nat (tm_sec t)) > 60)"
    using v mday_le [OF v] by (auto simp: tm_valid_def)
  ultimately show ?thesis
    unfolding iso_text_shape Let_def
    using b
    by (simp only: parse_iso_chars [unfolded Let_def] list.pred_inject pad2_digits pad4_digits pad4_val
        pad2_val if_False simp_thms)
qed

text \<open>The AM/PM format.\<close>

lemma hour24_hour12:
  "0 \<le> h \<Longrightarrow> h < 24 \<Longrightarrow> hour24 (hour12 h) (\<not> h < 12) = h \<and> 1 \<le> hour12 h \<and> hour12 h \<le> 12"
  unfolding hour12_def hour24_def by presburger

lemma month_name_chars:
  assumes "m < 12"
  shows "\<exists>a b c. month_names ! m = [a, b, c] \<and>
    (\<forall>s. s ! 5 = a \<and> s ! 6 = b \<and> s ! 7 = c \<longrightarrow> find_month s 0 month_names = int m + 1)"
proof -
  have "m \<in> {0, 1, 2, 3, 4, 5, 6, 7, 8, 9, 10, 11}"
    using assms by (auto simp: numeral_eq_Suc less_Suc_eq)
  then show ?thesis by (elim insertE emptyE) (simp_all add: month_names_def)
qed

lemma parse_ampm_chars:
  assumes "list_all is_digit [a0, a1, a2, a3, c0, c1, d0, d1, e0, e1, f0, f1]"
    and "find_month ([a0, a1, a2, a3, CHR '' '', m0, m1, m2, CHR '' '', c0, c1, CHR '' '',
       d0, d1, CHR '':'', e0, e1, CHR '':'', f0, f1, CHR '' '', if pm then CHR ''P'' else CHR ''A'', CHR ''M''])
         0 month_names = mon" and "mon \<noteq> - 1"
  shows "parseEpochMs_YYYYMonDD_HHMMSS_AMPM_UTC
      [a0, a1, a2, a3, CHR '' '', m0, m1, m2, CHR '' '', c0, c1, CHR '' '',
       d0, d1, CHR '':'', e0, e1, CHR '':'', f0, f1, CHR '' '', if pm then CHR ''P'' else CHR ''A'', CHR ''M''] =
    (let year = dec_val 0 [a0, a1, a2, a3];
         mday = digit_val c0 * 10 + digit_val c1;
         hour = digit_val d0 * 10 + digit_val d1; mi = digit_val e0 * 10 + digit_val e1;
         sec = digit_val f0 * 10 + digit_val f1
     in if hour < 1 \<or> hour > 12 then 0
        else if mday < 1 \<or> mday > 31 \<or> mi < 0 \<or> mi > 59 \<or> sec < 0 \<or> sec > 60
        then 0
        else epoch_ms \<lparr> tm_year = year - 1900, tm_mon = mon - 1, tm_mday = mday,
                        tm_hour = hour24 hour pm, tm_min = mi, tm_sec = sec \<rparr>)"
  using assms(1,3) unfolding parseEpochMs_YYYYMonDD_HHMMSS_AMPM_UTC_def assms(2)
  by (cases pm) (simp_all add: two_digits_def is_two_digits_def Let_def take_Cons')

lemma ampm_text_shape:
  assumes "month_names ! nat (tm_mon t) = [m0, m1, m2]"
  shows "ampm_text t =
     (let y = nat (1900 + tm_year t); d = nat (tm_mday t);
          h = nat (hour12 (tm_hour t)); i = nat (tm_min t); c = nat (tm_sec t)
      in [digit_char (y div 1000), digit_char (y div 100 mod 10), digit_char (y div 10 mod 10),
          digit_char (y mod 10), CHR '' '', m0, m1, m2, CHR '' '',
          digit_char (d div 10), digit_char (d mod 10), CHR '' '', digit_char (h div 10),
          digit_char (h mod 10), CHR '':'', digit_char (i div 10), digit_char (i mod 10), CHR '':'',
          digit_char (c div 10), digit_char (c mod 10), CHR '' '',
          if \<not> tm_hour t < 12 then CHR ''P'' else CHR ''A'', CHR ''M''])"
  by (simp add: ampm_text_def assms pad2_def pad4_def Let_def)

lemma parse_ampm_text:
  assumes v: "tm_valid t" and y: "year_fits t"
  shows "parseEpochMs_YYYYMonDD_HHMMSS_AMPM_UTC (ampm_text t) = epoch_ms t"
proof -
  note b = tm_text_fields [OF v y]
  obtain m0 m1 m2 where mn: "month_names ! nat (tm_mon t) = [m0, m1, m2]"
    and fm: "\<And>s. s ! 5 = m0 \<Longrightarrow> s ! 6 = m1 \<Longrightarrow> s ! 7 = m2 \<Longrightarrow>
      find_month s 0 month_names = int (nat (tm_mon t)) + 1"
    using month_name_chars [OF b(8)] by blast
  have h: "hour24 (int (nat (hour12 (tm_hour t)))) (\<not> tm_hour t < 12) = tm_hour t"
      "1 \<le> int (nat (hour12 (tm_hour t)))" "int (nat (hour12 (tm_hour t))) \<le> 12"
    using hour24_hour12 [of "tm_hour t"] v by (auto simp: tm_valid_def)
  have "\<lparr> tm_year = int (nat (1900 + tm_year t)) - 1900, tm_mon = int (nat (tm_mon t)) + 1 - 1,
          tm_mday = int (nat (tm_mday t)), tm_hour = tm_hour t,
          tm_min = int (nat (tm_min t)), tm_sec = int (nat (tm_sec t)) \<rparr> = t"
    using v y by (cases t) (simp add: tm_valid_def year_fits_def)
  moreover have "\<not> (int (nat (hour12 (tm_hour t))) < 1 \<or> int (nat (hour12 (tm_hour t))) > 12)"
    using h by simp
  moreover have "\<not> (int (nat (tm_mday t)) < 1 \<or> int (nat (tm_mday t)) > 31 \<or>
      int (nat (tm_min t)) < 0 \<or> int (nat (tm_min t)) > 59 \<or>
      int (nat (tm_sec t)) < 0 \<or> int (nat (tm_sec t)) > 60)"
    using v mday_le [OF v] by (auto simp: tm_valid_def)
  moreover have "int (nat (tm_mon t)) + 1 \<noteq> - 1" by simp
  ultimately show ?thesis
    unfolding ampm_text_shape [OF mn] Let_def
    by (subst parse_ampm_chars [unfolded Let_def, OF _ fm])
      (simp_all only: list.pred_inject pad2_digits pad4_digits pad4_dec pad2_val b h if_False simp_thms,
       simp_all)
qed

lemma flexible_iso:
  assumes "tm_valid t" and "year_fits t"
  shows "parseEpochMsFlexibleUTC (iso_text t) = epoch_ms t"
proof -
  have "length (iso_text t) = 19" by (simp add: iso_text_shape Let_def)
  then have "parseEpochMs_YYYYMonDD_HHMMSS_AMPM_UTC (iso_text t) = 0"
    by (simp add: parseEpochMs_YYYYMonDD_HHMMSS_AMPM_UTC_def)
  then show ?thesis by (simp add: parseEpochMsFlexibleUTC_def Let_def parse_iso_text [OF assms])
qed

lemma flexible_ampm:
  assumes "tm_valid t" and "year_fits t"
  shows "parseEpochMsFlexibleUTC (ampm_text t) = epoch_ms t"
proof -
  have "ampm_text t ! 4 = CHR '' ''" by (simp add: ampm_text_def pad4_def)
  then have "parseEpochMs_YYYYMMDD_HHMMSS_UTC (ampm_text t) = 0"
    by (simp add: parseEpochMs_YYYYMMDD_HHMMSS_UTC_def)
  then show ?thesis by (simp add: parseEpochMsFlexibleUTC_def parse_ampm_text [OF assms])
qed

lemma timegm_since_epoch:
  assumes "tm_valid t" and "70 \<le> tm_year t"
  shows "0 \<le> timegm t"
proof -
  let ?e = "\<lparr> tm_year = 70, tm_mon = 0, tm_mday = 1, tm_hour = 0, tm_min = 0, tm_sec = 0 \<rparr>"
  have e: "tm_valid ?e" by (simp add: tm_valid_def month_length_def)
  have z: "timegm ?e = 0"
    by (simp add: timegm_def days_before_year_def leaps_through_def days_before_month_def is_leap_def)
  have "\<not> tm_lt t ?e" using assms by (auto simp: tm_lt_def tm_valid_def)
  then show ?thesis using timegm_less_iff [OF assms(1) e] z by simp
qed

lemma epoch_ms_less_iff:
  assumes "tm_valid s" "tm_valid t" "70 \<le> tm_year s" "70 \<le> tm_year t"
  shows "epoch_ms s < epoch_ms t \<longleftrightarrow> tm_lt s t"
  using timegm_since_epoch [of s] timegm_since_epoch [of t] timegm_less_iff [of s t] assms
  by (simp add: epoch_ms_def)

section \<open>Amounts of money\<close>

definition money_text :: "bool \<Rightarrow> string \<Rightarrow> string \<Rightarrow> string" where
  "money_text neg ip fp = (if neg then ''-'' else []) @ ip @ ''.'' @ fp"

definition round_cents :: "string \<Rightarrow> string \<Rightarrow> int" where
  \<comment> \<open>the decimal number \<open>ip.fp\<close> times 100, rounded half up\<close>
  "round_cents ip fp = (200 * dec_val 0 (ip @ fp) + 10 ^ length fp) div (2 * 10 ^ length fp)"

lemma digit_not_blank: "is_digit c \<Longrightarrow> \<not> is_blank c \<and> c \<noteq> chr_quote \<and> c \<noteq> CHR ''.'' \<and> c \<noteq> CHR ''+''"
  by (auto simp: is_digit_def is_blank_def)

lemma sign_chars:
  "\<not> is_blank (CHR ''.'')" "\<not> is_blank (CHR ''-'')" "CHR ''.'' \<noteq> chr_quote" "CHR ''-'' \<noteq> chr_quote"
  by (simp_all add: is_blank_def char_of_def)

lemma list_all_hd: "list_all P xs \<Longrightarrow> xs \<noteq> [] \<Longrightarrow> P (hd xs)"
  by (cases xs) auto

lemma trimSpaces_id:
  assumes "s \<noteq> []" and "\<not> is_blank (hd s)" and "\<not> is_blank (last s)"
  shows "trimSpaces s = s"
proof -
  have a: "dropWhile is_blank s = s" using assms(1,2) by (cases s) auto
  have "rev s \<noteq> []" "\<not> is_blank (hd (rev s))" using assms by (simp_all add: hd_rev)
  then have b: "dropWhile is_blank (rev s) = rev s" by (cases "rev s") auto
  show ?thesis by (simp add: trimSpaces_def a b)
qed

lemma money_dollars_digits:
  assumes "list_all is_digit ip" and "0 \<le> d" and "dec_val d ip < 2 ^ 63"
    and "rest = [] \<or> \<not> is_digit (hd rest)"
  shows "money_dollars d saw (ip @ rest) = (dec_val d ip, saw \<or> ip \<noteq> [], rest)"
  using assms(1-3)
proof (induction ip arbitrary: d saw)
  case Nil
  then show ?case using assms(4) by (cases rest) auto
next
  case (Cons c cs)
  have c: "0 \<le> digit_val c" using Cons.prems(1) digit_val_range by simp
  then have nn: "0 \<le> d * 10 + digit_val c" using Cons.prems(2) by simp
  have "d * 10 + digit_val c \<le> dec_val (d * 10 + digit_val c) cs"
    using Cons.prems(1) nn by (intro dec_val_ge) auto
  with Cons.prems(3) have "d * 10 + digit_val c < 2 ^ 63" by simp
  with nn have "to_signed 64 (d * 10 + digit_val c) = d * 10 + digit_val c"
    by (intro to_signed_64_id) auto
  then show ?case using Cons.IH [of "d * 10 + digit_val c" True] Cons.prems nn by simp
qed

lemma money_fraction_digits:
  assumes "list_all is_digit fp"
  shows "money_fraction 0 0 fp = (dec_val 0 (take 2 fp), min 2 (length fp), drop 2 fp)"
proof (cases fp)
  case (Cons c cs)
  with assms show ?thesis by (cases cs; cases "tl cs") (auto simp: numeral_2_eq_2)
qed simp

lemma dec_val_shift: "dec_val a s = a * 10 ^ length s + dec_val 0 s"
proof (induction s arbitrary: a)
  case (Cons c cs)
  show ?case using Cons.IH [of "a * 10 + digit_val c"] Cons.IH [of "digit_val c"]
    by (simp add: algebra_simps)
qed simp

lemma half_up:
  fixes r p :: int
  assumes "0 \<le> r" and "r < p"
  shows "(2 * r + p) div (2 * p) = (if p \<le> 2 * r then 1 else 0)"
proof (cases "p \<le> 2 * r")
  case True
  then show ?thesis using assms by (simp add: div_pos_geq div_pos_pos_trivial)
next
  case False
  then show ?thesis using assms by (simp add: div_pos_pos_trivial)
qed

lemma round_split:
  fixes n r p :: int
  assumes "0 < p" and "0 \<le> r" and "r < p"
  shows "(200 * (n * p + r) + 100 * p) div (2 * (100 * p)) = n + (if p \<le> 2 * r then 1 else 0)"
proof -
  have "(200 * (n * p + r) + 100 * p) div (2 * (100 * p)) = (100 * (2 * r + p + n * (2 * p))) div (100 * (2 * p))"
    by (simp add: algebra_simps)
  also have "\<dots> = (2 * r + p + n * (2 * p)) div (2 * p)"
    by (rule div_mult_mult1) simp
  also have "\<dots> = n + (2 * r + p) div (2 * p)"
    using assms(1) by (intro div_mult_self1) simp
  finally show ?thesis using half_up [OF assms(2,3)] by simp
qed

lemma third_digit:
  assumes "list_all is_digit (e # es)"
  shows "10 ^ length (e # es) \<le> 2 * dec_val 0 (e # es) \<longleftrightarrow> 5 \<le> digit_val e"
proof -
  let ?q = "10 ^ length es :: int"
  have r: "0 \<le> dec_val 0 es" "dec_val 0 es < ?q"
    using dec_val_ge [of es 0] dec_val_lt [of es 0] assms by auto
  have v: "dec_val 0 (e # es) = digit_val e * ?q + dec_val 0 es"
    using dec_val_shift [of "digit_val e" es] by simp
  have p: "(10::int) ^ length (e # es) = 10 * ?q" by simp
  show ?thesis
  proof
    assume "5 \<le> digit_val e"
    then have "5 * ?q \<le> digit_val e * ?q" by (intro mult_right_mono) simp_all
    with r v p show "10 ^ length (e # es) \<le> 2 * dec_val 0 (e # es)" by linarith
  next
    assume a: "10 ^ length (e # es) \<le> 2 * dec_val 0 (e # es)"
    show "5 \<le> digit_val e"
    proof (rule ccontr)
      assume "\<not> 5 \<le> digit_val e"
      then have "digit_val e * ?q \<le> 4 * ?q" by (intro mult_right_mono) simp_all
      with a r v p show False by linarith
    qed
  qed
qed

definition third_up :: "string \<Rightarrow> bool" where
  "third_up r \<longleftrightarrow> r \<noteq> [] \<and> 5 \<le> digit_val (hd r)"

lemma round_cents_cases:
  assumes "list_all is_digit ip" and f: "list_all is_digit fp"
  shows "round_cents ip fp = dec_val 0 ip * 100
     + (if length fp = 1 then dec_val 0 (take 2 fp) * 10 else dec_val 0 (take 2 fp))
     + (if third_up (drop 2 fp) then 1 else 0)"
proof (cases "length fp < 2")
  case True
  then consider "fp = []" | c where "fp = [c]"
    by (cases fp; cases "tl fp") auto
  then show ?thesis
    by cases (auto simp: round_cents_def third_up_def dec_val_append)
next
  case False
  let ?r = "drop 2 fp" and ?n = "dec_val 0 ip * 100 + dec_val 0 (take 2 fp)"
  let ?p = "10 ^ length (drop 2 fp) :: int"
  have len: "length fp = 2 + length ?r" using False by simp
  have r: "list_all is_digit ?r" using f by (metis append_take_drop_id list_all_append)
  have R: "0 \<le> dec_val 0 ?r" "dec_val 0 ?r < ?p"
    using dec_val_ge [OF r, of 0] dec_val_lt [OF r, of 0] by auto
  have "dec_val 0 (ip @ fp) = dec_val (dec_val (dec_val 0 ip) (take 2 fp)) ?r"
    by (metis append_take_drop_id dec_val_append)
  also have "\<dots> = dec_val (dec_val 0 ip) (take 2 fp) * ?p + dec_val 0 ?r"
    by (rule dec_val_shift)
  also have "dec_val (dec_val 0 ip) (take 2 fp) = ?n"
    using dec_val_shift [of "dec_val 0 ip" "take 2 fp"] False by simp
  finally have v: "dec_val 0 (ip @ fp) = ?n * ?p + dec_val 0 ?r" .
  have p: "(10::int) ^ length fp = 100 * ?p" unfolding len by (simp add: power_add)
  have "round_cents ip fp = ?n + (if ?p \<le> 2 * dec_val 0 ?r then 1 else 0)"
    unfolding round_cents_def v p by (rule round_split) (use R in simp_all)
  moreover have "?p \<le> 2 * dec_val 0 ?r \<longleftrightarrow> third_up ?r"
  proof (cases ?r)
    case (Cons e es)
    then show ?thesis using third_digit [of e es] r by (simp add: third_up_def)
  qed (simp add: third_up_def)
  ultimately show ?thesis using False by simp
qed

lemma take2_range:
  assumes "list_all is_digit fp"
  shows "0 \<le> dec_val 0 (take 2 fp) \<and> dec_val 0 (take 2 fp) < 10 ^ min 2 (length fp)"
proof -
  have t: "list_all is_digit (take 2 fp)" using assms by (metis append_take_drop_id list_all_append)
  show ?thesis using dec_val_ge [OF t, of 0] dec_val_lt [OF t, of 0] by (simp add: min.commute)
qed

lemma money_finish_exact:
  assumes "0 \<le> d" and "d \<le> 10 ^ 16" and "0 \<le> c" and "c < 100"
  shows "money_finish neg d c [] = clamp_int32 (if neg then - (d * 100 + c) else d * 100 + c)"
proof -
  have "to_signed 64 (d * 100 + c) = d * 100 + c" "to_signed 64 (- (d * 100 + c)) = - (d * 100 + c)"
    using assms by (auto intro!: to_signed_64_id)
  then show ?thesis by (simp add: money_finish_def Let_def)
qed

lemma money_amount_digits:
  assumes ip: "list_all is_digit ip" and fp: "list_all is_digit fp" and ne: "ip \<noteq> [] \<or> fp \<noteq> []"
    and small: "dec_val 0 ip < 10 ^ 16"
  shows "money_amount neg (ip @ ''.'' @ fp) =
     clamp_int32 (if neg then - round_cents ip fp else round_cents ip fp)"
proof -
  have nd: "\<not> is_digit (CHR ''.'')" by (simp add: is_digit_def)
  have d: "money_dollars 0 False (ip @ ''.'' @ fp) = (dec_val 0 ip, ip \<noteq> [], ''.'' @ fp)"
    using money_dollars_digits [of ip 0 "''.'' @ fp" False] ip small nd by simp
  have d0: "0 \<le> dec_val 0 ip" using dec_val_ge [OF ip] by simp
  have rest: "list_all is_digit (drop 2 fp)" using fp by (metis append_take_drop_id list_all_append)
  then have dw: "dropWhile is_digit (drop 2 fp) = []" by (simp add: dropWhile_eq_Nil_conv list_all_iff)
  have up: "drop 2 fp \<noteq> [] \<and> is_digit (hd (drop 2 fp)) \<and> 5 \<le> digit_val (hd (drop 2 fp)) \<longleftrightarrow>
      third_up (drop 2 fp)"
    using rest by (cases "drop 2 fp") (auto simp: third_up_def)
  define c where "c = (if min 2 (length fp) = 1 then dec_val 0 (take 2 fp) * 10 else dec_val 0 (take 2 fp))"
  have c: "0 \<le> c" "c < 100"
    using take2_range [OF fp] unfolding c_def by (cases "length fp"; cases "length fp - 1"; simp)+
  have "min 2 (length fp) = 1 \<longleftrightarrow> length fp = 1" by auto
  then have R: "round_cents ip fp = dec_val 0 ip * 100 + c + (if third_up (drop 2 fp) then 1 else 0)"
    unfolding round_cents_cases [OF ip fp] c_def by simp
  have some: "\<not> (\<not> (ip \<noteq> []) \<and> min 2 (length fp) = 0)" using ne by auto
  have eq: "money_amount neg (ip @ ''.'' @ fp) =
     (if third_up (drop 2 fp)
      then (if c + 1 \<ge> 100 then money_finish neg (to_signed 64 (dec_val 0 ip + 1)) 0 []
            else money_finish neg (dec_val 0 ip) (c + 1) [])
      else money_finish neg (dec_val 0 ip) c [])"
    unfolding money_amount_def d prod.case using money_fraction_digits [OF fp] some
    by (simp only: append_Cons append_Nil list.sel list.distinct simp_thms if_True Let_def
        prod.case up dw c_def [symmetric] if_False)
  have inc: "to_signed 64 (dec_val 0 ip + 1) = dec_val 0 ip + 1"
    using d0 small by (intro to_signed_64_id) auto
  consider "third_up (drop 2 fp)" "100 \<le> c + 1" | "third_up (drop 2 fp)" "\<not> 100 \<le> c + 1"
    | "\<not> third_up (drop 2 fp)" by blast
  then show ?thesis
  proof cases
    case 1
    with c have "round_cents ip fp = (dec_val 0 ip + 1) * 100 + 0" by (simp add: R)
    with 1 eq inc money_finish_exact [of "dec_val 0 ip + 1" 0 neg] d0 small show ?thesis by simp
  next
    case 2
    then have "round_cents ip fp = dec_val 0 ip * 100 + (c + 1)" by (simp add: R)
    with 2 eq money_finish_exact [of "dec_val 0 ip" "c + 1" neg] c d0 small show ?thesis by simp
  next
    case 3
    then have "round_cents ip fp = dec_val 0 ip * 100 + c" by (simp add: R)
    with 3 eq money_finish_exact [of "dec_val 0 ip" c neg] c d0 small show ?thesis by simp
  qed
qed

lemma parse_money_text:
  assumes ip: "list_all is_digit ip" and fp: "list_all is_digit fp" and ne: "ip \<noteq> [] \<or> fp \<noteq> []"
    and small: "dec_val 0 ip < 10 ^ 16"
  shows "parseMoneyCents (money_text neg ip fp) =
     clamp_int32 (if neg then - round_cents ip fp else round_cents ip fp)"
proof -
  let ?t = "money_text neg ip fp" and ?u = "ip @ ''.'' @ fp"
  have u: "?u \<noteq> []" "\<not> is_blank (hd ?u)" "hd ?u \<noteq> chr_quote" "hd ?u \<noteq> CHR ''+''" "hd ?u \<noteq> CHR ''-''"
    using ip digit_not_blank [of "hd ip"] digit_not_minus [of "hd ip"]
    by (simp_all add: hd_append list_all_hd sign_chars split: if_splits)
  have l: "\<not> is_blank (last ?u)"
    using fp digit_not_blank [of "last fp"] by (cases "fp = []") (simp_all add: sign_chars list_all_iff)
  have t: "?t \<noteq> []" "\<not> is_blank (hd ?t)" "hd ?t \<noteq> chr_quote" "\<not> is_blank (last ?t)"
    using u l by (cases neg; simp add: money_text_def sign_chars)+
  have "money_signed ?t = money_amount neg ?u"
    using u by (cases neg) (auto simp: money_signed_def money_text_def)
  then show ?thesis
    using t money_amount_digits [OF assms] trimSpaces_id [of ?t]
    by (simp add: parseMoneyCents_def strip_quotes_def)
qed

text \<open>Printing an amount of cents and reading it back.\<close>

definition money_show :: "int \<Rightarrow> string" where
  "money_show n = money_text (n < 0) (show_nat (nat \<bar>n\<bar> div 100)) (pad2 (nat \<bar>n\<bar> mod 100))"

lemma pad2_dec:
  assumes "r < 100"
  shows "dec_val a (pad2 r) = a * 100 + int r"
proof -
  have e: "(a * 10 + x) * 10 + y = a * 100 + (x * 10 + y)" for x y :: int by simp
  have "dec_val a (pad2 r) = a * 100
      + (digit_val (digit_char (r div 10)) * 10 + digit_val (digit_char (r mod 10)))"
    by (simp only: pad2_def dec_val.simps e)
  then show ?thesis by (simp only: pad2_val [OF assms])
qed

lemma round_cents_show:
  assumes "r < 100"
  shows "round_cents (show_nat q) (pad2 r) = int q * 100 + int r"
proof -
  have "dec_val 0 (show_nat q @ pad2 r) = int q * 100 + int r"
    by (simp only: dec_val_append dec_val_show_nat pad2_dec [OF assms])
  moreover have "length (pad2 r) = 2" by (simp add: pad2_def)
  moreover have "(200 * v + 10 ^ 2) div (2 * 10 ^ 2) = v" for v :: int by simp
  ultimately show ?thesis by (simp only: round_cents_def)
qed

lemma parse_money_show:
  assumes "- (2 ^ 31) \<le> n" and "n < 2 ^ 31"
  shows "parseMoneyCents (money_show n) = n"
proof -
  define m where "m = nat \<bar>n\<bar>"
  define q r where "q = m div 100" and "r = m mod 100"
  have r: "r < 100" and m: "int q * 100 + int r = \<bar>n\<bar>"
    unfolding q_def r_def m_def by (simp_all add: zdiv_int zmod_int)
  have digits: "list_all is_digit (show_nat q)" "list_all is_digit (pad2 r)"
    using show_nat_digits pad2_digits [OF r] by (auto simp: pad2_def)
  have "\<bar>n\<bar> \<le> 2147483648" using assms by simp
  with m have "int q < 10 ^ 16" by simp
  then have "parseMoneyCents (money_show n) = clamp_int32 (if n < 0 then - \<bar>n\<bar> else \<bar>n\<bar>)"
    unfolding money_show_def m_def [symmetric] q_def [symmetric] r_def [symmetric]
    using parse_money_text [OF digits, of "n < 0"] show_nat_nonempty [of q]
    by (simp only: dec_val_show_nat round_cents_show [OF r] m simp_thms)
  also have "\<dots> = clamp_int32 n" by simp
  also have "\<dots> = n" using assms unfolding clamp_int32_def by simp
  finally show ?thesis .
qed

end
