(* ===== verification/Partition_Store.thy ===== *)
theory Partition_Store
  imports Csv_Values "HOL-Library.List_Lexorder" "HOL-Library.Char_ord"
begin

text \<open>
  \<open>PartitionStore\<close> and \<open>PartitionLoader\<close> (\<open>src/basic/src/dataset\<close>): the metadata of the files a
  node owns, its validation, and the loading of files and directories. Console output is
  left out, and so is \<open>reserve\<close>, which only changes the capacity. The file system is a map
  from paths to nodes; the code's error codes are the absence of a node, a node of the
  wrong kind, or a file that does not open.
\<close>

section \<open>FileMetadata and PartitionStore\<close>

record FileMetadata =
  fm_filePath :: string
  fm_fileSizeBytes :: nat
  fm_tripCount :: nat
  fm_estimatedRows :: nat
  fm_globalFileOrder :: nat
  fm_hasTripDistanceRange :: bool
  fm_minTripDistance :: f32
  fm_maxTripDistance :: f32
  fm_hasTipAmountRange :: bool
  fm_minTipAmountCents :: int
  fm_maxTipAmountCents :: int
  fm_hasTotalAmountRange :: bool
  fm_minTotalAmountCents :: int
  fm_maxTotalAmountCents :: int
  fm_paymentTypesPresent :: "int list"

definition new_FileMetadata :: FileMetadata where
  "new_FileMetadata = \<lparr> fm_filePath = [], fm_fileSizeBytes = 0, fm_tripCount = 0,
     fm_estimatedRows = 0, fm_globalFileOrder = 0, fm_hasTripDistanceRange = False,
     fm_minTripDistance = 0, fm_maxTripDistance = 0, fm_hasTipAmountRange = False,
     fm_minTipAmountCents = 0, fm_maxTipAmountCents = 0, fm_hasTotalAmountRange = False,
     fm_minTotalAmountCents = 0, fm_maxTotalAmountCents = 0, fm_paymentTypesPresent = [] \<rparr>"

definition FileMetadata_isValid :: "FileMetadata \<Rightarrow> bool" where
  "FileMetadata_isValid f =
     (if fm_filePath f = [] then False
      else if fm_fileSizeBytes f = 0 then False
      else if fm_tripCount f = 0 then False
      else if fm_hasTripDistanceRange f \<and> f32_lt (fm_maxTripDistance f) (fm_minTripDistance f) then False
      else if fm_hasTipAmountRange f \<and> fm_minTipAmountCents f > fm_maxTipAmountCents f then False
      else if fm_hasTotalAmountRange f \<and> fm_minTotalAmountCents f > fm_maxTotalAmountCents f then False
      else True)"

record PartitionStore =
  ps_shardId :: string
  ps_files :: "FileMetadata list"

definition new_PartitionStore :: "string \<Rightarrow> PartitionStore" where
  "new_PartitionStore i = \<lparr> ps_shardId = i, ps_files = [] \<rparr>"

definition setShardId :: "string \<Rightarrow> PartitionStore \<Rightarrow> PartitionStore" where
  "setShardId i s = s\<lparr>ps_shardId := i\<rparr>"

definition clear_store :: "PartitionStore \<Rightarrow> PartitionStore" where
  "clear_store s = s\<lparr>ps_files := []\<rparr>"

definition fileCount :: "PartitionStore \<Rightarrow> nat" where
  "fileCount s = length (ps_files s)"

definition store_file :: "PartitionStore \<Rightarrow> nat \<Rightarrow> FileMetadata" where
  \<comment> \<open>indexing is unchecked in the source; every caller stays below \<open>fileCount\<close>\<close>
  "store_file s i = ps_files s ! i"

definition addFile :: "FileMetadata \<Rightarrow> PartitionStore \<Rightarrow> PartitionStore" where
  "addFile f s =
     (let f = (if fm_estimatedRows f = 0 \<and> fm_tripCount f > 0
               then f\<lparr>fm_estimatedRows := fm_tripCount f\<rparr> else f)
      in s\<lparr>ps_files := ps_files s @ [f]\<rparr>)"

fun total_estimated_rows :: "nat \<Rightarrow> FileMetadata list \<Rightarrow> nat" where
  "total_estimated_rows a [] = a"
| "total_estimated_rows a (f # fs) =
     total_estimated_rows (a + (if fm_estimatedRows f > 0 then fm_estimatedRows f else fm_tripCount f)) fs"

definition totalEstimatedRows :: "PartitionStore \<Rightarrow> nat" where
  "totalEstimatedRows s = total_estimated_rows 0 (ps_files s)"

definition totalTripCount :: "PartitionStore \<Rightarrow> nat" where
  "totalTripCount s = fold (\<lambda>f a. a + fm_tripCount f) (ps_files s) 0"

definition totalAssignedBytes :: "PartitionStore \<Rightarrow> nat" where
  "totalAssignedBytes s = fold (\<lambda>f a. a + fm_fileSizeBytes f) (ps_files s) 0"

fun validate_files :: "string set \<Rightarrow> FileMetadata list \<Rightarrow> bool" where
  "validate_files seenPaths [] = True"
| "validate_files seenPaths (f # fs) =
     (if \<not> FileMetadata_isValid f then False
      else if fm_filePath f \<in> seenPaths then False
      else validate_files (insert (fm_filePath f) seenPaths) fs)"

definition store_isValid :: "PartitionStore \<Rightarrow> bool" where
  "store_isValid s = validate_files {} (ps_files s)"

section \<open>PartitionLoader\<close>

datatype fs_node =
  RegularFile string bool   \<comment> \<open>contents, and whether it opens for reading\<close>
| Directory "string list"   \<comment> \<open>the names a directory iterator yields, in its order\<close>

type_synonym file_system = "string \<Rightarrow> fs_node option"

record LoadStats =
  ls_filesDiscovered :: nat
  ls_filesOpened :: nat
  ls_filesFailed :: nat
  ls_filesAssigned :: nat
  ls_totalBytesAssigned :: nat
  ls_totalTripsAssigned :: nat

definition empty_stats :: LoadStats where
  "empty_stats = \<lparr> ls_filesDiscovered = 0, ls_filesOpened = 0, ls_filesFailed = 0,
     ls_filesAssigned = 0, ls_totalBytesAssigned = 0, ls_totalTripsAssigned = 0 \<rparr>"

definition merge_stats :: "LoadStats \<Rightarrow> LoadStats \<Rightarrow> LoadStats" where
  "merge_stats a b = \<lparr> ls_filesDiscovered = ls_filesDiscovered a + ls_filesDiscovered b,
     ls_filesOpened = ls_filesOpened a + ls_filesOpened b,
     ls_filesFailed = ls_filesFailed a + ls_filesFailed b,
     ls_filesAssigned = ls_filesAssigned a + ls_filesAssigned b,
     ls_totalBytesAssigned = ls_totalBytesAssigned a + ls_totalBytesAssigned b,
     ls_totalTripsAssigned = ls_totalTripsAssigned a + ls_totalTripsAssigned b \<rparr>"

definition path_filename :: "string \<Rightarrow> string" where
  "path_filename p = rev (takeWhile (\<lambda>c. c \<noteq> CHR ''/'') (rev p))"

definition path_extension :: "string \<Rightarrow> string" where
  \<comment> \<open>\<open>fs::path::extension\<close>: from the last dot of the file name, unless that is its first character\<close>
  "path_extension p =
     (let f = path_filename p; r = takeWhile (\<lambda>c. c \<noteq> CHR ''.'') (rev f)
      in if f = ''.'' \<or> f = ''..'' then []
         else if length f \<le> length r + 1 then []
         else CHR ''.'' # rev r)"

definition isCsvFile :: "string \<Rightarrow> bool" where
  "isCsvFile p \<longleftrightarrow> path_extension p \<noteq> [] \<and> path_extension p = ''.csv''"

definition hasNonWhitespaceContent :: "string \<Rightarrow> bool" where
  "hasNonWhitespaceContent l = list_ex (\<lambda>c. \<not> is_space c) l"

definition loadFile :: "file_system \<Rightarrow> string \<Rightarrow> PartitionStore \<Rightarrow> nat \<Rightarrow> LoadStats \<times> PartitionStore" where
  "loadFile fs filePath s globalFileOrder =
     (let failed = empty_stats\<lparr>ls_filesFailed := 1\<rparr> in
      if \<not> isCsvFile filePath then (failed, s)
      else case fs filePath of
        None \<Rightarrow> (failed, s)
      | Some (Directory _) \<Rightarrow> (failed, s)
      | Some (RegularFile content readable) \<Rightarrow>
          if \<not> readable then (failed, s)
          else let stats = empty_stats\<lparr>ls_filesOpened := 1\<rparr>
          in case getlines content of
            [] \<Rightarrow> (stats\<lparr>ls_filesFailed := 1\<rparr>, s)
          | header # rows \<Rightarrow>
              let tripCount = length (filter hasNonWhitespaceContent rows) in
              if tripCount = 0 then (stats\<lparr>ls_filesFailed := 1\<rparr>, s)
              else (stats\<lparr>ls_filesAssigned := 1, ls_totalBytesAssigned := length content,
                          ls_totalTripsAssigned := tripCount\<rparr>,
                    addFile (new_FileMetadata\<lparr>fm_filePath := filePath,
                       fm_fileSizeBytes := length content, fm_tripCount := tripCount,
                       fm_globalFileOrder := globalFileOrder\<rparr>) s))"

fun load_loop :: "file_system \<Rightarrow> nat \<Rightarrow> string list \<Rightarrow> LoadStats \<Rightarrow> PartitionStore \<Rightarrow> LoadStats \<times> PartitionStore" where
  "load_loop fs i [] tot s = (tot, s)"
| "load_loop fs i (p # ps) tot s =
     (case loadFile fs p s i of (one, s') \<Rightarrow> load_loop fs (i + 1) ps (merge_stats tot one) s')"

definition loadFiles :: "file_system \<Rightarrow> string list \<Rightarrow> PartitionStore \<Rightarrow> LoadStats \<times> PartitionStore" where
  "loadFiles fs files s =
     (let tot = empty_stats\<lparr>ls_filesDiscovered := length files\<rparr> in
      if files = [] then (tot, s) else load_loop fs 0 files tot s)"

definition path_append :: "string \<Rightarrow> string \<Rightarrow> string" where
  \<comment> \<open>\<open>fs::path::operator/\<close> on the directory and an entry's name\<close>
  "path_append d n = (if d = [] \<or> last d = CHR ''/'' then d @ n else d @ ''/'' @ n)"

definition is_regular :: "file_system \<Rightarrow> string \<Rightarrow> bool" where
  "is_regular fs p = (case fs p of Some (RegularFile _ _) \<Rightarrow> True | _ \<Rightarrow> False)"

definition directory_csv_files :: "file_system \<Rightarrow> string \<Rightarrow> string list \<Rightarrow> string list" where
  "directory_csv_files fs d names =
     sort (filter (\<lambda>p. is_regular fs p \<and> isCsvFile p) (map (path_append d) names))"

definition loadDirectory :: "file_system \<Rightarrow> string \<Rightarrow> PartitionStore \<Rightarrow> LoadStats \<times> PartitionStore" where
  "loadDirectory fs dirPath s =
     (case fs dirPath of
        Some (Directory names) \<Rightarrow> loadFiles fs (directory_csv_files fs dirPath names) s
      | _ \<Rightarrow> (empty_stats, s))"

section \<open>Validation\<close>

lemma validate_files_iff:
  "validate_files S fs \<longleftrightarrow>
     list_all FileMetadata_isValid fs \<and> distinct (map fm_filePath fs) \<and> fm_filePath ` set fs \<inter> S = {}"
  by (induction S fs rule: validate_files.induct) auto

lemma store_isValid_iff:
  "store_isValid s \<longleftrightarrow>
     list_all FileMetadata_isValid (ps_files s) \<and> distinct (map fm_filePath (ps_files s))"
  by (simp add: store_isValid_def validate_files_iff)

lemma fold_sum: "fold (\<lambda>f a. a + g f) xs (n :: nat) = n + sum_list (map g xs)"
  by (induction xs arbitrary: n) auto

lemma totals_sum:
  "totalTripCount s = sum_list (map fm_tripCount (ps_files s))"
  "totalAssignedBytes s = sum_list (map fm_fileSizeBytes (ps_files s))"
  by (simp_all add: totalTripCount_def totalAssignedBytes_def fold_sum)

lemma total_estimated_sum:
  "total_estimated_rows a fs =
     a + sum_list (map (\<lambda>f. if fm_estimatedRows f > 0 then fm_estimatedRows f else fm_tripCount f) fs)"
  by (induction a fs rule: total_estimated_rows.induct) auto

section \<open>Loading\<close>

text \<open>What loading one file adds to the store, if anything.\<close>

definition loaded_metadata :: "file_system \<Rightarrow> string \<Rightarrow> nat \<Rightarrow> FileMetadata option" where
  "loaded_metadata fs p i =
     (case fs p of
        Some (RegularFile content True) \<Rightarrow>
          (let n = length (filter hasNonWhitespaceContent (tl (getlines content)))
           in if isCsvFile p \<and> n > 0
              then Some (new_FileMetadata\<lparr>fm_filePath := p, fm_fileSizeBytes := length content,
                           fm_tripCount := n, fm_estimatedRows := n, fm_globalFileOrder := i\<rparr>)
              else None)
      | _ \<Rightarrow> None)"

lemma getlines_Nil_iff: "getlines s = [] \<longleftrightarrow> s = []"
  by (subst getlines.simps) simp

lemma loaded_metadata_valid:
  assumes "loaded_metadata fs p i = Some f"
  shows "FileMetadata_isValid f \<and> fm_filePath f = p \<and> fm_globalFileOrder f = i
    \<and> fm_estimatedRows f = fm_tripCount f"
proof -
  have "isCsvFile p \<Longrightarrow> p \<noteq> []"
    by (auto simp: isCsvFile_def path_extension_def path_filename_def)
  moreover have "getlines [] = []" by (simp add: getlines_Nil_iff)
  ultimately show ?thesis using assms
    by (auto simp: loaded_metadata_def FileMetadata_isValid_def new_FileMetadata_def Let_def
        split: option.splits fs_node.splits bool.splits if_splits)
qed

lemma loadFile_eq:
  "case loadFile fs p s i of (st, s') \<Rightarrow>
     ls_filesDiscovered st = 0 \<and> ls_filesAssigned st + ls_filesFailed st = 1 \<and>
     ls_filesAssigned st \<le> ls_filesOpened st \<and>
     (case loaded_metadata fs p i of
        None \<Rightarrow> s' = s \<and> ls_filesAssigned st = 0 \<and> ls_totalBytesAssigned st = 0 \<and> ls_totalTripsAssigned st = 0
      | Some f \<Rightarrow> s' = s\<lparr>ps_files := ps_files s @ [f]\<rparr> \<and> ls_filesAssigned st = 1 \<and>
          ls_totalBytesAssigned st = fm_fileSizeBytes f \<and> ls_totalTripsAssigned st = fm_tripCount f)"
  unfolding loadFile_def loaded_metadata_def addFile_def Let_def new_FileMetadata_def empty_stats_def
  by (auto split: option.splits fs_node.splits bool.splits list.splits)

definition loaded_list :: "file_system \<Rightarrow> nat \<Rightarrow> string list \<Rightarrow> FileMetadata list" where
  "loaded_list fs i ps = List.map_filter (\<lambda>(j, p). loaded_metadata fs p j) (enumerate i ps)"

lemma loaded_list_Nil [simp]: "loaded_list fs i [] = []"
  by (simp add: loaded_list_def map_filter_simps)

lemma loaded_list_Cons [simp]:
  "loaded_list fs i (p # ps) =
     (case loaded_metadata fs p i of None \<Rightarrow> loaded_list fs (i + 1) ps
      | Some f \<Rightarrow> f # loaded_list fs (i + 1) ps)"
  by (simp add: loaded_list_def map_filter_simps split: option.splits)

lemma load_loop_eq:
  "case load_loop fs i ps tot s of (st, s') \<Rightarrow>
     s' = s\<lparr>ps_files := ps_files s @ loaded_list fs i ps\<rparr> \<and>
     ls_filesDiscovered st = ls_filesDiscovered tot \<and>
     ls_filesAssigned st + ls_filesFailed st = ls_filesAssigned tot + ls_filesFailed tot + length ps \<and>
     ls_filesAssigned st = ls_filesAssigned tot + length (loaded_list fs i ps) \<and>
     ls_totalBytesAssigned st = ls_totalBytesAssigned tot + sum_list (map fm_fileSizeBytes (loaded_list fs i ps)) \<and>
     ls_totalTripsAssigned st = ls_totalTripsAssigned tot + sum_list (map fm_tripCount (loaded_list fs i ps))"
proof (induction fs i ps tot s rule: load_loop.induct)
  case (1 fs i tot s)
  then show ?case by simp
next
  case (2 fs i p ps tot s)
  obtain one s1 where one: "loadFile fs p s i = (one, s1)" by fastforce
  obtain st s2 where loop: "load_loop fs (i + 1) ps (merge_stats tot one) s1 = (st, s2)" by fastforce
  have step: "load_loop fs i (p # ps) tot s = (st, s2)" using one loop by simp
  note IH = 2 [OF one [symmetric], unfolded loop prod.case]
  show ?case
    using IH loadFile_eq [where fs = fs and p = p and s = s and i = i] unfolding step one prod.case
    by (cases "loaded_metadata fs p i") (auto simp: merge_stats_def)
qed

lemma loadFiles_eq:
  "case loadFiles fs ps s of (st, s') \<Rightarrow>
     s' = s\<lparr>ps_files := ps_files s @ loaded_list fs 0 ps\<rparr> \<and>
     ls_filesDiscovered st = length ps \<and>
     ls_filesDiscovered st = ls_filesAssigned st + ls_filesFailed st \<and>
     ls_filesAssigned st = length (loaded_list fs 0 ps) \<and>
     ls_totalBytesAssigned st = sum_list (map fm_fileSizeBytes (loaded_list fs 0 ps)) \<and>
     ls_totalTripsAssigned st = sum_list (map fm_tripCount (loaded_list fs 0 ps))"
  using load_loop_eq [where fs = fs and i = 0 and ps = ps and s = s
      and tot = "empty_stats\<lparr>ls_filesDiscovered := length ps\<rparr>"]
  by (auto simp: loadFiles_def Let_def empty_stats_def)

lemma loaded_list_valid: "list_all FileMetadata_isValid (loaded_list fs i ps)"
  by (induction ps arbitrary: i) (auto dest: loaded_metadata_valid split: option.splits)

lemma loaded_list_paths:
  "map fm_filePath (loaded_list fs i ps) = filter (\<lambda>p. loaded_metadata fs p 0 \<noteq> None) ps"
proof (induction ps arbitrary: i)
  case (Cons p ps)
  have "loaded_metadata fs p i = None \<longleftrightarrow> loaded_metadata fs p 0 = None"
    by (auto simp: loaded_metadata_def Let_def split: option.splits fs_node.splits bool.splits)
  with Cons.IH [of "i + 1"] show ?case
    using loaded_metadata_valid [of fs p i] by (cases "loaded_metadata fs p i") auto
qed simp

lemma path_append_inj: "path_append d a = path_append d b \<Longrightarrow> a = b"
  by (simp add: path_append_def split: if_splits)

lemma directory_csv_files_distinct:
  assumes "distinct names"
  shows "distinct (directory_csv_files fs d names) \<and> sorted (directory_csv_files fs d names)"
  using assms path_append_inj
  by (auto simp: directory_csv_files_def distinct_map intro!: distinct_filter inj_onI)

end
