(* ===== verification/Chunk_Source.thy ===== *)
theory Chunk_Source
  imports Prelude
begin

text \<open>
  The interface between a source that answers a query in chunks and a client that resumes
  it: each answer covers a window of row positions, names the next position, and says
  whether to come back. \<open>drain\<close> is the client's loop, with fuel.
\<close>

fun drain :: "nat \<Rightarrow> (nat \<Rightarrow> 'c) \<Rightarrow> ('c \<Rightarrow> nat) \<Rightarrow> ('c \<Rightarrow> bool) \<Rightarrow> nat \<Rightarrow> 'c list option" where
  "drain 0 fetch next_row again n = None"
| "drain (Suc fuel) fetch next_row again n =
     (let c = fetch n in
      if again c then (case drain fuel fetch next_row again (next_row c) of
                         None \<Rightarrow> None | Some cs \<Rightarrow> Some (c # cs))
      else Some [c])"

lemma drain_more_fuel:
  "drain k fetch next_row again n = Some cs \<Longrightarrow> k \<le> l \<Longrightarrow> drain l fetch next_row again n = Some cs"
proof (induction k arbitrary: n l cs)
  case (Suc k)
  then obtain l' where l: "l = Suc l'" "k \<le> l'" by (cases l) auto
  show ?case
  proof (cases "again (fetch n)")
    case True
    with Suc.prems(1) obtain ds where "drain k fetch next_row again (next_row (fetch n)) = Some ds"
      "cs = fetch n # ds" by (auto simp: Let_def split: option.splits)
    with Suc.IH [OF this(1) l(2)] True l(1) show ?thesis by (simp add: Let_def)
  next
    case False
    with Suc.prems(1) l(1) show ?thesis by (simp add: Let_def)
  qed
qed simp

locale chunk_source =
  fixes fetch :: "nat \<Rightarrow> 'c"
    and ids :: "'c \<Rightarrow> nat list"
    and next_row :: "'c \<Rightarrow> nat"
    and again :: "'c \<Rightarrow> bool"
    and hit :: "nat \<Rightarrow> bool"
    and rows :: nat
  assumes window: "n \<le> rows \<Longrightarrow> n \<le> next_row (fetch n) \<and> next_row (fetch n) \<le> rows \<and>
      ids (fetch n) = filter hit [n..<next_row (fetch n)]"
    and progress: "n \<le> rows \<Longrightarrow> again (fetch n) \<Longrightarrow> n < next_row (fetch n)"
    and complete: "n \<le> rows \<Longrightarrow> \<not> again (fetch n) \<Longrightarrow> next_row (fetch n) = rows"
begin

lemma drain_all:
  "n \<le> rows \<Longrightarrow> rows - n < fuel \<Longrightarrow>
     \<exists>cs. drain fuel fetch next_row again n = Some cs \<and>
       concat (map ids cs) = filter hit [n..<rows] \<and> length cs \<le> rows - n + 1"
proof (induction fuel arbitrary: n)
  case (Suc fuel)
  let ?c = "fetch n" and ?m = "next_row (fetch n)"
  note w = window [OF Suc.prems(1)]
  show ?case
  proof (cases "again ?c")
    case True
    have lt: "n < ?m" and m: "?m \<le> rows" using progress [OF Suc.prems(1) True] w by auto
    then have "rows - ?m < fuel" using Suc.prems by simp
    from Suc.IH [OF m this] obtain cs where cs: "drain fuel fetch next_row again ?m = Some cs"
      "concat (map ids cs) = filter hit [?m..<rows]" "length cs \<le> rows - ?m + 1" by blast
    have "[n..<rows] = [n..<?m] @ [?m..<rows]"
      using w m by (metis le_add_diff_inverse upt_add_eq_append)
    then have "concat (map ids (?c # cs)) = filter hit [n..<rows]" using w cs(2) by simp
    then show ?thesis using True cs lt m by (intro exI [of _ "?c # cs"]) auto
  next
    case False
    then have "?m = rows" using complete Suc.prems by blast
    with False w show ?thesis by (intro exI [of _ "[?c]"]) auto
  qed
qed simp

lemma drain_once:
  assumes "n \<le> rows" and "rows - n < fuel" and "drain fuel fetch next_row again n = Some cs"
  shows "distinct (concat (map ids cs)) \<and> sorted (concat (map ids cs)) \<and>
    set (concat (map ids cs)) = {i. n \<le> i \<and> i < rows \<and> hit i}"
proof -
  have "concat (map ids cs) = filter hit [n..<rows]" using drain_all [OF assms(1,2)] assms(3) by auto
  then show ?thesis by (auto simp: sorted_filter [where f = "\<lambda>x. x", simplified])
qed

end

end
