(* ===== verification/Local_Chunks.thy ===== *)
theory Local_Chunks
  imports Local_Engine Chunk_Source
begin

text \<open>
  EXECUTE in chunks. The nested loops of \<open>LocalQueryEngine::execute\<close> are one loop over
  the rows of the store (\<open>execute_files_rows\<close>); a chunk is a window of those rows
  (\<open>local_execute_window\<close>). The locale \<open>chunk_source\<close> states what the caller of a chunked
  source relies on and proves, once, that fetching until \<open>hasMore\<close> is false ends and
  delivers every matching row exactly once; it is interpreted on \<open>local_execute\<close>.
\<close>

section \<open>One loop over the rows\<close>

definition emit_trip :: "TaxiTrip \<Rightarrow> exec_state \<Rightarrow> exec_state" where
  "emit_trip t st =
     st\<lparr>ex_result := (ex_result st)\<lparr>
          lr_rowsMatched := lr_rowsMatched (ex_result st) + 1,
          lr_matchedLocalRowIds := lr_matchedLocalRowIds (ex_result st) @ [ex_localRowId st],
          lr_matchedTrips := lr_matchedTrips (ex_result st) @ [t]\<rparr>,
        ex_emitted := ex_emitted st + 1, ex_localRowId := ex_localRowId st + 1\<rparr>"

fun exec_rows ::
  "QueryRequest \<Rightarrow> (PartitionCsvParser \<times> string) list \<Rightarrow> exec_state \<Rightarrow> LocalQueryResult + exec_state"
where
  "exec_rows req [] st = Inr st"
| "exec_rows req (r # rs) st =
     (if ex_localRowId st < exec_startRow req then exec_rows req rs (exec_advance st)
      else if ex_scannedThisChunk st \<ge> exec_scanRowBudget req then Inl (exec_finish st True)
      else case row_answer req r of
        None \<Rightarrow> exec_rows req rs (exec_advance (exec_scan st))
      | Some t \<Rightarrow>
          if ex_emitted (emit_trip t (exec_scan st)) \<ge> exec_chunkSize req
          then Inl (exec_finish (emit_trip t (exec_scan st)) True)
          else exec_rows req rs (emit_trip t (exec_scan st)))"

lemma execute_lines_rows:
  "execute_lines p req ls st = exec_rows req (map (Pair p) (filter (\<lambda>l. l \<noteq> []) ls)) st"
proof (induction p req ls st rule: execute_lines.induct)
  case (2 p req line ls st)
  have emit: "exec_emit row u = emit_trip (toTaxiTrip row) u" for row u
    by (simp add: exec_emit_def emit_trip_def)
  obtain ok row where r: "parseRow p line = (ok, row)" by fastforce
  show ?case
    using 2(1) 2(2) 2(3) [OF _ _ _ refl r [symmetric]] 2(4) [OF _ _ _ refl r [symmetric]]
      2(5) [OF _ _ _ refl r [symmetric] _ _ refl] r
    by (simp add: Let_def row_answer_def emit)
qed simp

lemma exec_rows_append:
  "exec_rows req (xs @ ys) st =
     (case exec_rows req xs st of Inl r \<Rightarrow> Inl r | Inr st' \<Rightarrow> exec_rows req ys st')"
  by (induction req xs st rule: exec_rows.induct) (auto split: option.splits)

lemma execute_files_rows:
  "execute_files fs req files st =
     exec_rows req (concat (map (\<lambda>f. file_rows fs (fm_filePath f)) files)) st"
proof (induction files arbitrary: st)
  case (Cons f files)
  show ?case
  proof (cases "open_lines fs (fm_filePath f)")
    case Nil
    then show ?thesis using Cons by (simp add: file_rows_def)
  next
    case (Cons header ls)
    obtain ok p where i: "initFromHeader header = (ok, p)" by fastforce
    have rows: "file_rows fs (fm_filePath f) = (if ok then map (Pair p) (filter (\<lambda>l. l \<noteq> []) ls) else [])"
      using local.Cons i by (simp add: file_rows_def)
    show ?thesis
      using Cons.IH local.Cons i
      by (simp add: rows exec_rows_append execute_lines_rows split: sum.split)
  qed
qed simp

section \<open>The window\<close>

definition scan_over :: "QueryRequest \<Rightarrow> (PartitionCsvParser \<times> string) list \<Rightarrow> exec_state \<Rightarrow> exec_state" where
  \<comment> \<open>the state after scanning all the rows\<close>
  "scan_over req rows st =
     st\<lparr>ex_localRowId := ex_localRowId st + length rows,
        ex_scannedThisChunk := ex_scannedThisChunk st + length rows,
        ex_emitted := ex_emitted st + length (filter (row_hit req) rows),
        ex_result := (ex_result st)\<lparr>
          lr_rowsScanned := lr_rowsScanned (ex_result st) + length rows,
          lr_rowsMatched := lr_rowsMatched (ex_result st) + length (filter (row_hit req) rows),
          lr_matchedLocalRowIds := lr_matchedLocalRowIds (ex_result st)
            @ positions_from (ex_localRowId st) (row_hit req) rows,
          lr_matchedTrips := lr_matchedTrips (ex_result st) @ List.map_filter (row_answer req) rows\<rparr>\<rparr>"

lemma scan_over_Nil: "scan_over req [] st = st"
  by (simp add: scan_over_def map_filter_simps)

lemma scan_over_miss:
  "row_answer req r = None \<Longrightarrow> scan_over req (r # rs) st = scan_over req rs (exec_advance (exec_scan st))"
  by (simp add: scan_over_def exec_advance_def exec_scan_def row_hit_def map_filter_simps)

lemma scan_over_hit:
  "row_answer req r = Some t \<Longrightarrow> scan_over req (r # rs) st = scan_over req rs (emit_trip t (exec_scan st))"
  by (simp add: scan_over_def emit_trip_def exec_scan_def row_hit_def map_filter_simps)

lemma exec_rows_skip:
  assumes "ex_localRowId st \<le> exec_startRow req"
  shows "exec_rows req rows st =
    exec_rows req (drop (exec_startRow req - ex_localRowId st) rows)
      (st\<lparr>ex_localRowId := min (exec_startRow req) (ex_localRowId st + length rows)\<rparr>)"
  using assms
proof (induction rows arbitrary: st)
  case (Cons r rows)
  show ?case
  proof (cases "ex_localRowId st < exec_startRow req")
    case True
    then obtain d where d: "exec_startRow req - ex_localRowId st = Suc d"
      by (metis Suc_diff_Suc)
    have "ex_localRowId (exec_advance st) \<le> exec_startRow req"
      using True by (simp add: exec_advance_def)
    note IH = Cons.IH [OF this]
    have e: "exec_startRow req - Suc (ex_localRowId st) = d" using d by simp
    show ?thesis using True d IH by (simp add: exec_advance_def e)
  next
    case False
    with Cons.prems have "ex_localRowId st = exec_startRow req" by simp
    then have "exec_startRow req - ex_localRowId st = 0"
      and "min (exec_startRow req) (ex_localRowId st + length (r # rows)) = ex_localRowId st" by simp_all
    then show ?thesis by simp
  qed
qed (simp add: min_def)

lemma exec_rows_window:
  assumes "exec_startRow req \<le> ex_localRowId st" and "ex_emitted st < exec_chunkSize req"
    and "ex_scannedThisChunk st \<le> exec_scanRowBudget req"
  shows "case exec_rows req rows st of
      Inr st' \<Rightarrow> st' = scan_over req rows st \<and> ex_emitted st' < exec_chunkSize req \<and>
        ex_scannedThisChunk st' \<le> exec_scanRowBudget req
    | Inl r \<Rightarrow> \<exists>j \<le> length rows. r = exec_finish (scan_over req (take j rows) st) True \<and>
        ex_scannedThisChunk (scan_over req (take j rows) st) \<le> exec_scanRowBudget req \<and>
        (j < length rows \<and> ex_emitted (scan_over req (take j rows) st) < exec_chunkSize req \<and>
           ex_scannedThisChunk (scan_over req (take j rows) st) = exec_scanRowBudget req \<or>
         ex_emitted (scan_over req (take j rows) st) = exec_chunkSize req)"
  using assms
proof (induction rows arbitrary: st)
  case Nil
  then show ?case by (simp add: scan_over_Nil)
next
  case (Cons r rows)
  show ?case
  proof (cases "exec_scanRowBudget req \<le> ex_scannedThisChunk st")
    case True
    then show ?thesis using Cons.prems
      by (auto simp: scan_over_Nil intro!: exI [of _ 0])
  next
    case False
    show ?thesis
    proof (cases "row_answer req r")
      case None
      let ?s = "exec_advance (exec_scan st)"
      have "exec_startRow req \<le> ex_localRowId ?s" "ex_emitted ?s < exec_chunkSize req"
        "ex_scannedThisChunk ?s \<le> exec_scanRowBudget req"
        using Cons.prems False by (auto simp: exec_advance_def exec_scan_def)
      from Cons.IH [OF this] show ?thesis
        using None False Cons.prems(1)
        by (auto simp: scan_over_miss split: sum.splits intro: exI [of _ "Suc j" for j])
    next
      case (Some t)
      let ?s = "emit_trip t (exec_scan st)"
      have s: "exec_startRow req \<le> ex_localRowId ?s" "ex_emitted ?s \<le> exec_chunkSize req"
        "ex_scannedThisChunk ?s \<le> exec_scanRowBudget req"
        using Cons.prems False by (auto simp: emit_trip_def exec_scan_def)
      show ?thesis
      proof (cases "exec_chunkSize req \<le> ex_emitted ?s")
        case True
        then show ?thesis using Some False Cons.prems(1) s
          by (auto simp: scan_over_hit scan_over_Nil intro!: exI [of _ 1])
      next
        case again: False
        then have "ex_emitted ?s < exec_chunkSize req" by simp
        from Cons.IH [OF s(1) this s(3)] show ?thesis
          using Some False again Cons.prems(1)
          by (auto simp: scan_over_hit split: sum.splits intro: exI [of _ "Suc j" for j])
      qed
    qed
  qed
qed

lemma window_upt: "n + j \<le> length xs \<Longrightarrow> take j (drop n xs) = map ((!) xs) [n..<n + j]"
  by (rule nth_equalityI) auto

lemma positions_from_map_upt:
  "positions_from n P (map g [n..<n + j]) = filter (\<lambda>i. P (g i)) [n..<n + j]"
proof -
  have "enumerate n (map g [n..<n + j]) = map (\<lambda>i. (i, g i)) [n..<n + j]"
    by (simp add: enumerate_eq_zip zip_map2 zip_same_conv_map)
  then show ?thesis by (simp add: positions_from_def filter_map o_def)
qed

lemma map_filter_map:
  "List.map_filter f (map g xs) = map (\<lambda>i. the (f (g i))) (filter (\<lambda>i. f (g i) \<noteq> None) xs)"
  by (induction xs) (auto simp: map_filter_simps)

text \<open>The chunk of a request: the rows it covers and what it reports about them.\<close>

definition is_hit :: "file_system \<Rightarrow> PartitionStore \<Rightarrow> QueryRequest \<Rightarrow> nat \<Rightarrow> bool" where
  "is_hit fs s req i \<longleftrightarrow> row_hit req (store_rows fs s ! i)"

definition trip_at :: "file_system \<Rightarrow> PartitionStore \<Rightarrow> QueryRequest \<Rightarrow> nat \<Rightarrow> TaxiTrip" where
  "trip_at fs s req i = the (row_answer req (store_rows fs s ! i))"

definition hits :: "file_system \<Rightarrow> PartitionStore \<Rightarrow> QueryRequest \<Rightarrow> nat \<Rightarrow> nat \<Rightarrow> nat list" where
  "hits fs s req a b = filter (is_hit fs s req) [a..<b]"

definition row_count :: "file_system \<Rightarrow> PartitionStore \<Rightarrow> nat" where
  "row_count fs s = length (store_rows fs s)"

lemma exec_limits_pos: "0 < exec_chunkSize req \<and> 0 < exec_scanRowBudget req"
  by (simp add: exec_chunkSize_def exec_scanRowBudget_def size_max_def)

lemma scan_over_window:
  fixes req :: QueryRequest
  assumes "n \<le> length rows" and "j \<le> length rows - n"
  defines "st \<equiv> exec_init\<lparr>ex_localRowId := n\<rparr>"
  defines "ids \<equiv> filter (\<lambda>i. row_hit req (rows ! i)) [n..<n + j]"
  shows "exec_finish (scan_over req (take j (drop n rows)) st) m =
    empty_LocalQueryResult\<lparr>lr_rowsScanned := j, lr_rowsMatched := length ids,
      lr_matchedLocalRowIds := ids, lr_matchedTrips := map (\<lambda>i. the (row_answer req (rows ! i))) ids,
      lr_rowsEmitted := length ids, lr_nextStartRow := n + j, lr_hasMore := m\<rparr>"
    and "ex_emitted (scan_over req (take j (drop n rows)) st) = length ids"
    and "ex_scannedThisChunk (scan_over req (take j (drop n rows)) st) = j"
proof -
  have w: "take j (drop n rows) = map ((!) rows) [n..<n + j]"
    using assms(1,2) by (intro window_upt) simp
  have pos: "positions_from n (row_hit req) (take j (drop n rows)) = ids"
    unfolding w positions_from_map_upt ids_def ..
  have len: "length (filter (row_hit req) (take j (drop n rows))) = length ids"
    unfolding pos [symmetric] length_positions_from ..
  have trips: "List.map_filter (row_answer req) (take j (drop n rows)) =
      map (\<lambda>i. the (row_answer req (rows ! i))) ids"
    unfolding w map_filter_map ids_def row_hit_def ..
  have "length (take j (drop n rows)) = j" using assms(2) by simp
  then show "exec_finish (scan_over req (take j (drop n rows)) st) m =
    empty_LocalQueryResult\<lparr>lr_rowsScanned := j, lr_rowsMatched := length ids,
      lr_matchedLocalRowIds := ids, lr_matchedTrips := map (\<lambda>i. the (row_answer req (rows ! i))) ids,
      lr_rowsEmitted := length ids, lr_nextStartRow := n + j, lr_hasMore := m\<rparr>"
    and "ex_emitted (scan_over req (take j (drop n rows)) st) = length ids"
    and "ex_scannedThisChunk (scan_over req (take j (drop n rows)) st) = j"
    by (simp_all only: st_def scan_over_def exec_finish_def exec_init_def)
      (simp_all add: pos len trips empty_LocalQueryResult_def)
qed

definition chunk_result ::
  "file_system \<Rightarrow> PartitionStore \<Rightarrow> QueryRequest \<Rightarrow> nat \<Rightarrow> nat \<Rightarrow> bool \<Rightarrow> LocalQueryResult"
where
  \<comment> \<open>the answer that covers the rows from \<open>n\<close> up to \<open>m\<close>\<close>
  "chunk_result fs s req n m again = empty_LocalQueryResult\<lparr>lr_rowsScanned := m - n,
     lr_rowsMatched := length (hits fs s req n m), lr_matchedLocalRowIds := hits fs s req n m,
     lr_matchedTrips := map (trip_at fs s req) (hits fs s req n m),
     lr_rowsEmitted := length (hits fs s req n m), lr_nextStartRow := m, lr_hasMore := again\<rparr>"

lemma local_execute_window:
  assumes n: "qq_startRow req \<le> row_count fs s"
  obtains m again where "qq_startRow req \<le> m" and "m \<le> row_count fs s"
    and "local_execute fs s req = chunk_result fs s req (qq_startRow req) m again"
    and "m - qq_startRow req \<le> exec_scanRowBudget req"
    and "length (hits fs s req (qq_startRow req) m) \<le> exec_chunkSize req"
    and "again \<Longrightarrow> m - qq_startRow req = exec_scanRowBudget req \<and> m < row_count fs s \<or>
                 length (hits fs s req (qq_startRow req) m) = exec_chunkSize req"
    and "\<not> again \<Longrightarrow> m = row_count fs s"
proof (cases "store_isValid s")
  case False
  then have "store_rows fs s = []" by (simp add: store_rows_def)
  then have "row_count fs s = 0" by (simp add: row_count_def)
  with False n show ?thesis
    by (intro that [of 0 False])
      (simp_all add: local_execute_def chunk_result_def hits_def empty_LocalQueryResult_def)
next
  case True
  let ?n = "qq_startRow req" and ?rows = "store_rows fs s"
  let ?st = "exec_init\<lparr>ex_localRowId := ?n\<rparr>"
  have rows: "concat (map (\<lambda>f. file_rows fs (fm_filePath f)) (ps_files s)) = ?rows"
    using True by (simp add: store_rows_def)
  have n': "?n \<le> length ?rows" using n by (simp add: row_count_def)
  have "exec_rows req ?rows exec_init = exec_rows req (drop ?n ?rows) ?st"
    using exec_rows_skip [of exec_init req ?rows] n'
    by (simp add: exec_startRow_def exec_init_def min_absorb1)
  then have ex: "local_execute fs s req =
      (case exec_rows req (drop ?n ?rows) ?st of Inl r \<Rightarrow> r | Inr st \<Rightarrow> exec_finish st False)"
    using True by (simp add: local_execute_def execute_files_rows rows)
  have pre: "exec_startRow req \<le> ex_localRowId ?st" "ex_emitted ?st < exec_chunkSize req"
    "ex_scannedThisChunk ?st \<le> exec_scanRowBudget req"
    using exec_limits_pos [of req] by (simp_all add: exec_startRow_def exec_init_def)
  note win = exec_rows_window [OF pre, of "drop ?n ?rows"]
  have hits: "hits fs s req ?n (?n + j) = filter (\<lambda>i. row_hit req (?rows ! i)) [?n..<?n + j]" for j
    unfolding hits_def is_hit_def ..
  have trips: "trip_at fs s req = (\<lambda>i. the (row_answer req (?rows ! i)))"
    by (rule ext) (simp add: trip_at_def)
  note over = scan_over_window [OF n', where req = req, folded trips hits]
  show ?thesis
  proof (cases "exec_rows req (drop ?n ?rows) ?st")
    case (Inl r)
    with win obtain j where j: "j \<le> length ?rows - ?n"
      and r: "r = exec_finish (scan_over req (take j (drop ?n ?rows)) ?st) True"
      and budget: "j \<le> exec_scanRowBudget req"
      and stop: "j < length ?rows - ?n \<and> length (hits fs s req ?n (?n + j)) < exec_chunkSize req \<and>
          j = exec_scanRowBudget req \<or> length (hits fs s req ?n (?n + j)) = exec_chunkSize req"
      by (auto simp: over)
    show ?thesis
    proof (rule that [of "?n + j" True])
      show "local_execute fs s req = chunk_result fs s req ?n (?n + j) True"
        by (simp add: ex Inl r over(1) [OF j] chunk_result_def)
    qed (use j budget stop n' in \<open>auto simp: row_count_def\<close>)
  next
    case (Inr st')
    let ?j = "length ?rows - ?n"
    from Inr win have st': "st' = scan_over req (take ?j (drop ?n ?rows)) ?st"
      and lim: "ex_emitted st' < exec_chunkSize req" "ex_scannedThisChunk st' \<le> exec_scanRowBudget req"
      by auto
    show ?thesis
    proof (rule that [of "?n + ?j" False])
      show "local_execute fs s req = chunk_result fs s req ?n (?n + ?j) False"
        by (simp only: ex Inr sum.case st' over(1) [OF order_refl] chunk_result_def) simp
      show "length (hits fs s req ?n (?n + ?j)) \<le> exec_chunkSize req"
        and "?n + ?j - ?n \<le> exec_scanRowBudget req"
        using lim unfolding st' by (simp_all only: over(2,3) [OF order_refl] diff_add_inverse less_imp_le)
    qed (use n' in \<open>auto simp: row_count_def\<close>)
  qed
qed

text \<open>A resume point past the end gives an empty last chunk.\<close>

lemma local_execute_past_end:
  assumes "row_count fs s < qq_startRow req"
  shows "local_execute fs s req = empty_LocalQueryResult\<lparr>lr_nextStartRow := row_count fs s\<rparr>"
proof (cases "store_isValid s")
  case False
  then show ?thesis by (simp add: local_execute_def row_count_def store_rows_def empty_LocalQueryResult_def)
next
  case True
  then have rows: "concat (map (\<lambda>f. file_rows fs (fm_filePath f)) (ps_files s)) = store_rows fs s"
    by (simp add: store_rows_def)
  have "exec_rows req (store_rows fs s) exec_init = Inr (exec_init\<lparr>ex_localRowId := row_count fs s\<rparr>)"
    using exec_rows_skip [of exec_init req "store_rows fs s"] assms
    by (simp add: exec_startRow_def exec_init_def row_count_def min_absorb2)
  with True show ?thesis
    by (simp add: local_execute_def execute_files_rows rows exec_finish_def exec_init_def
        empty_LocalQueryResult_def)
qed

section \<open>The engine as a chunk source\<close>

lemma row_answer_startRow [simp]:
  "row_answer (req\<lparr>qq_startRow := n\<rparr>) r = row_answer req r"
  by (simp add: row_answer_def matchesRow_def int_range_rejects_def float_range_rejects_def
      split: prod.split)

lemma hits_startRow [simp]:
  "is_hit fs s (req\<lparr>qq_startRow := n\<rparr>) = is_hit fs s req"
  "trip_at fs s (req\<lparr>qq_startRow := n\<rparr>) = trip_at fs s req"
  "hits fs s (req\<lparr>qq_startRow := n\<rparr>) = hits fs s req"
proof -
  show i: "is_hit fs s (req\<lparr>qq_startRow := n\<rparr>) = is_hit fs s req"
    by (rule ext) (simp add: is_hit_def row_hit_def)
  show "trip_at fs s (req\<lparr>qq_startRow := n\<rparr>) = trip_at fs s req"
    by (rule ext) (simp add: trip_at_def)
  show "hits fs s (req\<lparr>qq_startRow := n\<rparr>) = hits fs s req"
    by (rule ext, rule ext) (simp add: hits_def i)
qed

lemma hits_length: "length (hits fs s req a b) \<le> b - a"
  by (metis hits_def length_filter_le length_upt)

interpretation execute_chunks:
  chunk_source "\<lambda>n. local_execute fs s (req\<lparr>qq_startRow := n\<rparr>)" lr_matchedLocalRowIds
    lr_nextStartRow lr_hasMore "is_hit fs s req" "row_count fs s" for fs s req
proof unfold_locales
  fix n assume n: "n \<le> row_count fs s"
  let ?r = "req\<lparr>qq_startRow := n\<rparr>"
  have "qq_startRow ?r \<le> row_count fs s" using n by simp
  then obtain m again where m: "n \<le> m" "m \<le> row_count fs s"
    and eq: "local_execute fs s ?r = chunk_result fs s ?r n m again"
    and stop: "again \<Longrightarrow> m - n = exec_scanRowBudget ?r \<and> m < row_count fs s \<or>
                 length (hits fs s ?r n m) = exec_chunkSize ?r"
    and fin: "\<not> again \<Longrightarrow> m = row_count fs s"
    by (rule local_execute_window) simp
  have sel: "lr_nextStartRow (local_execute fs s ?r) = m" "lr_hasMore (local_execute fs s ?r) = again"
    "lr_matchedLocalRowIds (local_execute fs s ?r) = hits fs s req n m"
    by (simp_all add: eq chunk_result_def)
  show "n \<le> lr_nextStartRow (local_execute fs s ?r) \<and>
      lr_nextStartRow (local_execute fs s ?r) \<le> row_count fs s \<and>
      lr_matchedLocalRowIds (local_execute fs s ?r) =
        filter (is_hit fs s req) [n..<lr_nextStartRow (local_execute fs s ?r)]"
    unfolding sel hits_def using m by simp
  show "lr_hasMore (local_execute fs s ?r) \<Longrightarrow> n < lr_nextStartRow (local_execute fs s ?r)"
    unfolding sel using stop exec_limits_pos [of ?r] hits_length [of fs s ?r n m] m by fastforce
  show "\<not> lr_hasMore (local_execute fs s ?r) \<Longrightarrow> lr_nextStartRow (local_execute fs s ?r) = row_count fs s"
    unfolding sel by (rule fin)
qed

text \<open>COUNT is the number of rows a complete EXECUTE delivers.\<close>

lemma hits_all: "hits fs s req 0 (row_count fs s) = positions_from 0 (row_hit req) (store_rows fs s)"
proof -
  have "store_rows fs s = map ((!) (store_rows fs s)) [0..<0 + length (store_rows fs s)]"
    by (simp add: map_nth)
  then have "positions_from 0 (row_hit req) (store_rows fs s) =
      filter (\<lambda>i. row_hit req (store_rows fs s ! i)) [0..<0 + length (store_rows fs s)]"
    by (metis positions_from_map_upt)
  then show ?thesis by (simp add: hits_def is_hit_def [abs_def] row_count_def)
qed

lemma local_count_hits: "lr_rowsMatched (local_count fs s req) = length (hits fs s req 0 (row_count fs s))"
  by (simp add: local_count_eq hits_all length_positions_from)

end
