(* ===== verification/Worker_Node.thy ===== *)
theory Worker_Node
  imports Local_Chunks
begin

text \<open>
  \<open>WorkerNode\<close> (\<open>src/basic/src/querycoordination/WorkerNode.cpp\<close>): a node's metadata and its
  own store; COUNT and EXECUTE through the local engine, with the node's identity attached
  to every row and trip. Timing and console output are left out.
\<close>

record WorkerNode =
  wn_info :: NodeInfo
  wn_store :: PartitionStore

definition new_WorkerNode :: "NodeInfo \<Rightarrow> WorkerNode" where
  "new_WorkerNode info = \<lparr> wn_info = info, wn_store = new_PartitionStore (ni_nodeId info) \<rparr>"

definition getNodeId :: "WorkerNode \<Rightarrow> node_id" where
  "getNodeId w = ni_nodeId (wn_info w)"

definition worker_runCount :: "file_system \<Rightarrow> WorkerNode \<Rightarrow> QueryRequest \<Rightarrow> QueryResult" where
  "worker_runCount fs w req =
     (let l = local_count fs (wn_store w) req
      in empty_QueryResult\<lparr>qr_rowsScanned := lr_rowsScanned l, qr_rowsMatched := lr_rowsMatched l,
           qr_rowsSkipped := 0, qr_rowsEmitted := 0, qr_nextStartRow := 0, qr_hasMore := False\<rparr>)"

fun add_rows :: "node_id \<Rightarrow> nat list \<Rightarrow> QueryResult \<Rightarrow> QueryResult" where
  "add_rows n [] r = r"
| "add_rows n (i # is) r = add_rows n is (addMatchedRow n i r)"

definition worker_runExecute :: "file_system \<Rightarrow> WorkerNode \<Rightarrow> QueryRequest \<Rightarrow> QueryResult" where
  "worker_runExecute fs w req =
     (let l = local_execute fs (wn_store w) req;
          r = empty_QueryResult\<lparr>qr_rowsScanned := lr_rowsScanned l,
                qr_rowsMatched := lr_rowsMatched l, qr_rowsSkipped := 0,
                qr_rowsEmitted := lr_rowsEmitted l, qr_nextStartRow := lr_nextStartRow l,
                qr_hasMore := lr_hasMore l, qr_matchedTrips := lr_matchedTrips l,
                qr_matchedTripSources := replicate (length (lr_matchedTrips l)) (getNodeId w)\<rparr>
      in add_rows (ni_nodeId (wn_info w)) (lr_matchedLocalRowIds l) r)"

lemma add_rows_eq:
  "add_rows n is r = r\<lparr>qr_matchedRows := qr_matchedRows r @ map (\<lambda>i. \<lparr>rr_nodeId = n, rr_localRowId = i\<rparr>) is\<rparr>"
  by (induction "is" arbitrary: r) (simp_all add: addMatchedRow_def)

text \<open>The answer of a worker that covers the rows from \<open>n\<close> up to \<open>m\<close> of its store.\<close>

definition worker_chunk ::
  "file_system \<Rightarrow> WorkerNode \<Rightarrow> QueryRequest \<Rightarrow> nat \<Rightarrow> nat \<Rightarrow> bool \<Rightarrow> QueryResult"
where
  "worker_chunk fs w req n m again =
     (let h = hits fs (wn_store w) req n m in
      \<lparr> qr_rowsScanned = m - n, qr_rowsMatched = length h,
        qr_matchedRows = map (\<lambda>i. \<lparr>rr_nodeId = getNodeId w, rr_localRowId = i\<rparr>) h,
        qr_matchedTrips = map (trip_at fs (wn_store w) req) h,
        qr_matchedTripSources = replicate (length h) (getNodeId w), qr_rowsSkipped = 0,
        qr_rowsEmitted = length h, qr_nextStartRow = m, qr_hasMore = again \<rparr>)"

lemma worker_runExecute_chunk:
  "local_execute fs (wn_store w) req = chunk_result fs (wn_store w) req n m again \<Longrightarrow>
     worker_runExecute fs w req = worker_chunk fs w req n m again"
  by (simp add: worker_runExecute_def worker_chunk_def chunk_result_def add_rows_eq Let_def
      getNodeId_def empty_QueryResult_def empty_LocalQueryResult_def)

lemma worker_runExecute_window:
  assumes "qq_startRow req \<le> row_count fs (wn_store w)"
  obtains m again where "qq_startRow req \<le> m" and "m \<le> row_count fs (wn_store w)"
    and "worker_runExecute fs w req = worker_chunk fs w req (qq_startRow req) m again"
    and "length (hits fs (wn_store w) req (qq_startRow req) m) \<le> exec_chunkSize req"
    and "again \<Longrightarrow> qq_startRow req < m"
    and "\<not> again \<Longrightarrow> m = row_count fs (wn_store w)"
proof -
  from assms obtain m again where m: "qq_startRow req \<le> m" "m \<le> row_count fs (wn_store w)"
    and eq: "local_execute fs (wn_store w) req = chunk_result fs (wn_store w) req (qq_startRow req) m again"
    and len: "length (hits fs (wn_store w) req (qq_startRow req) m) \<le> exec_chunkSize req"
    and stop: "again \<Longrightarrow> m - qq_startRow req = exec_scanRowBudget req \<and> m < row_count fs (wn_store w) \<or>
                 length (hits fs (wn_store w) req (qq_startRow req) m) = exec_chunkSize req"
    and fin: "\<not> again \<Longrightarrow> m = row_count fs (wn_store w)"
    by (rule local_execute_window) blast
  have "qq_startRow req < m" if again
    using stop [OF that] exec_limits_pos [of req] hits_length [of fs "wn_store w" req "qq_startRow req" m]
    by fastforce
  with that [OF m worker_runExecute_chunk [OF eq] len _ fin] show ?thesis by blast
qed

lemma worker_count_hits:
  "qr_rowsMatched (worker_runCount fs w req) = length (hits fs (wn_store w) req 0 (row_count fs (wn_store w)))"
  by (simp add: worker_runCount_def Let_def local_count_hits)

end
