(* ===== verification/Request_State.thy ===== *)
theory Request_State
  imports Model_Types
begin

text \<open>
  \<open>RequestState\<close> (\<open>src/basic/src/querycoordination/RequestState.{hpp,cpp}\<close>): the coordinator's
  record of one query: life cycle, aggregated result window, delivery cursor, fetch round
  and per-worker progress.
\<close>

section \<open>State\<close>

datatype QueryState = PENDING | IN_PROGRESS | COMPLETED | CANCELLED | TIMED_OUT

record WorkerProgress =
  wp_nextStartRow :: nat
  wp_hasMore :: bool
  wp_completed :: bool
  wp_remoteRequestId :: string
  wp_submitted :: bool

definition new_WorkerProgress :: WorkerProgress where
  "new_WorkerProgress = \<lparr> wp_nextStartRow = 0, wp_hasMore = True, wp_completed = False,
     wp_remoteRequestId = [], wp_submitted = False \<rparr>"

record RequestState =
  rs_queryId :: string
  rs_request :: QueryRequest
  rs_state :: QueryState
  rs_aggregatedResult :: QueryResult
  rs_nextUnreadIndex :: nat
  rs_fetchRound :: nat
  rs_expectedWorkers :: nat
  rs_completedWorkers :: nat
  rs_workerProgress :: "(node_id, WorkerProgress) umap"

definition new_RequestState :: "string \<Rightarrow> QueryRequest \<Rightarrow> RequestState" where
  "new_RequestState i req = \<lparr> rs_queryId = i, rs_request = req, rs_state = PENDING,
     rs_aggregatedResult = empty_QueryResult, rs_nextUnreadIndex = 0, rs_fetchRound = 0,
     rs_expectedWorkers = 0, rs_completedWorkers = 0, rs_workerProgress = [] \<rparr>"

section \<open>Operations\<close>

definition setState :: "QueryState \<Rightarrow> RequestState \<Rightarrow> RequestState" where
  "setState q s = s\<lparr>rs_state := q\<rparr>"

definition isTerminal :: "RequestState \<Rightarrow> bool" where
  "isTerminal s \<longleftrightarrow> rs_state s = COMPLETED \<or> rs_state s = CANCELLED \<or> rs_state s = TIMED_OUT"

definition mergePartialResult :: "QueryResult \<Rightarrow> RequestState \<Rightarrow> RequestState" where
  "mergePartialResult p s = s\<lparr>rs_aggregatedResult := QueryResult_merge (rs_aggregatedResult s) p\<rparr>"

definition clearAggregatedRows :: "RequestState \<Rightarrow> RequestState" where
  "clearAggregatedRows s =
     s\<lparr>rs_aggregatedResult := (rs_aggregatedResult s)\<lparr>qr_matchedRows := [], qr_matchedTrips := [],
          qr_matchedTripSources := [], qr_rowsSkipped := 0, qr_rowsEmitted := 0\<rparr>,
       rs_nextUnreadIndex := 0\<rparr>"

definition setNextUnreadIndex :: "nat \<Rightarrow> RequestState \<Rightarrow> RequestState" where
  "setNextUnreadIndex i s = s\<lparr>rs_nextUnreadIndex := i\<rparr>"

definition advanceFetchRound :: "RequestState \<Rightarrow> RequestState" where
  "advanceFetchRound s = s\<lparr>rs_fetchRound := rs_fetchRound s + 1\<rparr>"

definition shouldFetchRemoteFirst :: "RequestState \<Rightarrow> bool" where
  "shouldFetchRemoteFirst s \<longleftrightarrow> rs_fetchRound s mod 2 = 1"

definition setExpectedWorkers :: "nat \<Rightarrow> RequestState \<Rightarrow> RequestState" where
  "setExpectedWorkers n s = s\<lparr>rs_expectedWorkers := n\<rparr>"

definition incrementCompletedWorkers :: "RequestState \<Rightarrow> RequestState" where
  "incrementCompletedWorkers s = s\<lparr>rs_completedWorkers := rs_completedWorkers s + 1\<rparr>"

definition resetCompletedWorkers :: "RequestState \<Rightarrow> RequestState" where
  "resetCompletedWorkers s = s\<lparr>rs_completedWorkers := 0\<rparr>"

definition allWorkersCompleted :: "RequestState \<Rightarrow> bool" where
  "allWorkersCompleted s =
     (if rs_workerProgress s \<noteq> [] then list_all (\<lambda>(_, p). wp_completed p) (rs_workerProgress s)
      else rs_completedWorkers s \<ge> rs_expectedWorkers s)"

definition initializeWorker :: "node_id \<Rightarrow> RequestState \<Rightarrow> RequestState" where
  "initializeWorker n s =
     s\<lparr>rs_workerProgress := um_try_emplace n new_WorkerProgress (rs_workerProgress s)\<rparr>"

definition hasWorkerProgress :: "node_id \<Rightarrow> RequestState \<Rightarrow> bool" where
  "hasWorkerProgress n s \<longleftrightarrow> um_find (rs_workerProgress s) n \<noteq> None"

definition getWorkerProgress :: "node_id \<Rightarrow> RequestState \<Rightarrow> WorkerProgress \<times> RequestState" where
  \<comment> \<open>\<open>operator[]\<close>: a missing worker is created with default progress\<close>
  "getWorkerProgress n s =
     (case um_index new_WorkerProgress n (rs_workerProgress s) of
        (p, m) \<Rightarrow> (p, s\<lparr>rs_workerProgress := m\<rparr>))"

definition putWorkerProgress :: "node_id \<Rightarrow> WorkerProgress \<Rightarrow> RequestState \<Rightarrow> RequestState" where
  \<comment> \<open>a write through the reference \<open>getWorkerProgress\<close> returned\<close>
  "putWorkerProgress n p s = s\<lparr>rs_workerProgress := um_put n p (rs_workerProgress s)\<rparr>"

definition findWorkerProgress :: "node_id \<Rightarrow> RequestState \<Rightarrow> WorkerProgress option" where
  "findWorkerProgress n s = um_find (rs_workerProgress s) n"

definition updateWorkerProgress :: "node_id \<Rightarrow> nat \<Rightarrow> bool \<Rightarrow> RequestState \<Rightarrow> RequestState" where
  "updateWorkerProgress n nextStartRow hasMore s =
     (case getWorkerProgress n s of (p, s) \<Rightarrow>
        putWorkerProgress n (p\<lparr>wp_nextStartRow := nextStartRow, wp_hasMore := hasMore,
          wp_completed := \<not> hasMore\<rparr>) s)"

definition countWorkersWithMore :: "RequestState \<Rightarrow> nat" where
  "countWorkersWithMore s = length (filter (\<lambda>(_, p). wp_hasMore p \<and> \<not> wp_completed p) (rs_workerProgress s))"

section \<open>Facts\<close>

text \<open>
  The invariant of a request: unique workers, \<open>completed\<close> and \<open>hasMore\<close> opposite for every
  worker, one source per cached trip.
\<close>

definition progress_ok :: "RequestState \<Rightarrow> bool" where
  "progress_ok s \<longleftrightarrow> um_ok (rs_workerProgress s) \<and>
     (\<forall>n p. findWorkerProgress n s = Some p \<longrightarrow> (wp_completed p \<longleftrightarrow> \<not> wp_hasMore p))"

definition window_ok :: "RequestState \<Rightarrow> bool" where
  "window_ok s \<longleftrightarrow>
     length (qr_matchedTripSources (rs_aggregatedResult s)) = length (qr_matchedTrips (rs_aggregatedResult s))"

definition request_inv :: "RequestState \<Rightarrow> bool" where
  "request_inv s \<longleftrightarrow> progress_ok s \<and> window_ok s"

lemma findWorkerProgress_update [simp]:
  "findWorkerProgress m (updateWorkerProgress n i b s) =
     (if m = n then Some ((case findWorkerProgress n s of Some p \<Rightarrow> p | None \<Rightarrow> new_WorkerProgress)
          \<lparr>wp_nextStartRow := i, wp_hasMore := b, wp_completed := \<not> b\<rparr>)
      else findWorkerProgress m s)"
  by (auto simp: updateWorkerProgress_def getWorkerProgress_def putWorkerProgress_def
      findWorkerProgress_def um_index_def split: option.splits)

lemma findWorkerProgress_put [simp]:
  "findWorkerProgress m (putWorkerProgress n p s) = (if m = n then Some p else findWorkerProgress m s)"
  by (simp add: findWorkerProgress_def putWorkerProgress_def)

lemma findWorkerProgress_get [simp]:
  "findWorkerProgress m (snd (getWorkerProgress n s)) =
     (if m = n then Some (fst (getWorkerProgress n s)) else findWorkerProgress m s)"
  by (auto simp: findWorkerProgress_def getWorkerProgress_def um_index_def split: option.splits)

lemma fst_getWorkerProgress [simp]:
  "fst (getWorkerProgress n s) =
     (case findWorkerProgress n s of Some p \<Rightarrow> p | None \<Rightarrow> new_WorkerProgress)"
  by (simp add: getWorkerProgress_def findWorkerProgress_def um_index_def split: option.splits)

lemma findWorkerProgress_initialize [simp]:
  "findWorkerProgress m (initializeWorker n s) =
     (if m = n then Some (case findWorkerProgress n s of Some p \<Rightarrow> p | None \<Rightarrow> new_WorkerProgress)
      else findWorkerProgress m s)"
  by (simp add: findWorkerProgress_def initializeWorker_def um_try_emplace_find)

lemma request_frames [state_simps, simp]:
  "rs_aggregatedResult (updateWorkerProgress n i b s) = rs_aggregatedResult s"
  "rs_aggregatedResult (putWorkerProgress n p s) = rs_aggregatedResult s"
  "rs_aggregatedResult (snd (getWorkerProgress n s)) = rs_aggregatedResult s"
  "rs_aggregatedResult (initializeWorker n s) = rs_aggregatedResult s"
  "rs_aggregatedResult (setState q s) = rs_aggregatedResult s"
  "rs_aggregatedResult (advanceFetchRound s) = rs_aggregatedResult s"
  "rs_aggregatedResult (setNextUnreadIndex k s) = rs_aggregatedResult s"
  "rs_aggregatedResult (setExpectedWorkers k s) = rs_aggregatedResult s"
  "rs_nextUnreadIndex (updateWorkerProgress n i b s) = rs_nextUnreadIndex s"
  "rs_nextUnreadIndex (putWorkerProgress n p s) = rs_nextUnreadIndex s"
  "rs_nextUnreadIndex (snd (getWorkerProgress n s)) = rs_nextUnreadIndex s"
  "rs_nextUnreadIndex (initializeWorker n s) = rs_nextUnreadIndex s"
  "rs_nextUnreadIndex (setState q s) = rs_nextUnreadIndex s"
  "rs_nextUnreadIndex (advanceFetchRound s) = rs_nextUnreadIndex s"
  "rs_nextUnreadIndex (setExpectedWorkers k s) = rs_nextUnreadIndex s"
  "rs_nextUnreadIndex (mergePartialResult r s) = rs_nextUnreadIndex s"
  "rs_request (updateWorkerProgress n i b s) = rs_request s"
  "rs_request (putWorkerProgress n p s) = rs_request s"
  "rs_request (snd (getWorkerProgress n s)) = rs_request s"
  "rs_request (initializeWorker n s) = rs_request s"
  "rs_request (setState q s) = rs_request s"
  "rs_request (advanceFetchRound s) = rs_request s"
  "rs_request (setNextUnreadIndex k s) = rs_request s"
  "rs_request (setExpectedWorkers k s) = rs_request s"
  "rs_request (mergePartialResult r s) = rs_request s"
  "rs_request (clearAggregatedRows s) = rs_request s"
  "rs_queryId (updateWorkerProgress n i b s) = rs_queryId s"
  "rs_queryId (putWorkerProgress n p s) = rs_queryId s"
  "rs_queryId (snd (getWorkerProgress n s)) = rs_queryId s"
  "rs_queryId (initializeWorker n s) = rs_queryId s"
  "rs_queryId (setState q s) = rs_queryId s"
  "rs_queryId (advanceFetchRound s) = rs_queryId s"
  "rs_queryId (setNextUnreadIndex k s) = rs_queryId s"
  "rs_queryId (setExpectedWorkers k s) = rs_queryId s"
  "rs_queryId (mergePartialResult r s) = rs_queryId s"
  "rs_queryId (clearAggregatedRows s) = rs_queryId s"
  "rs_workerProgress (setState q s) = rs_workerProgress s"
  "rs_workerProgress (advanceFetchRound s) = rs_workerProgress s"
  "rs_workerProgress (setNextUnreadIndex k s) = rs_workerProgress s"
  "rs_workerProgress (setExpectedWorkers k s) = rs_workerProgress s"
  "rs_workerProgress (mergePartialResult r s) = rs_workerProgress s"
  "rs_workerProgress (clearAggregatedRows s) = rs_workerProgress s"
  by (simp_all add: updateWorkerProgress_def putWorkerProgress_def getWorkerProgress_def
      initializeWorker_def setState_def advanceFetchRound_def setNextUnreadIndex_def
      setExpectedWorkers_def mergePartialResult_def clearAggregatedRows_def split: prod.split)

lemma request_sel [state_simps, simp]:
  "rs_state (setState q s) = q"
  "rs_nextUnreadIndex (setNextUnreadIndex k s) = k"
  "rs_nextUnreadIndex (clearAggregatedRows s) = 0"
  "rs_aggregatedResult (mergePartialResult r s) = QueryResult_merge (rs_aggregatedResult s) r"
  "qr_matchedTrips (rs_aggregatedResult (clearAggregatedRows s)) = []"
  "qr_matchedTripSources (rs_aggregatedResult (clearAggregatedRows s)) = []"
  by (simp_all add: setState_def setNextUnreadIndex_def clearAggregatedRows_def mergePartialResult_def)

lemma allWorkersCompleted_iff:
  assumes "um_ok (rs_workerProgress s)"
  shows "allWorkersCompleted s \<longleftrightarrow>
    (if rs_workerProgress s = [] then rs_completedWorkers s \<ge> rs_expectedWorkers s
     else \<forall>n p. findWorkerProgress n s = Some p \<longrightarrow> wp_completed p)"
  using assms by (auto simp: allWorkersCompleted_def list_all_iff findWorkerProgress_def
      simp flip: um_find_entry)

lemma um_ok_progress [inv_intros]:
  "um_ok (rs_workerProgress s) \<Longrightarrow> um_ok (rs_workerProgress (updateWorkerProgress n i b s))"
  "um_ok (rs_workerProgress s) \<Longrightarrow> um_ok (rs_workerProgress (initializeWorker n s))"
  "um_ok (rs_workerProgress s) \<Longrightarrow> um_ok (rs_workerProgress (putWorkerProgress n p s))"
  "um_ok (rs_workerProgress s) \<Longrightarrow> um_ok (rs_workerProgress (snd (getWorkerProgress n s)))"
  using um_ok_index [of "rs_workerProgress s" new_WorkerProgress n]
  by (auto simp: updateWorkerProgress_def getWorkerProgress_def putWorkerProgress_def
      initializeWorker_def um_ok_try_emplace split: prod.split)

lemma progress_ok_new: "progress_ok (new_RequestState i req)"
  by (simp add: progress_ok_def new_RequestState_def findWorkerProgress_def)

lemma window_ok_new: "window_ok (new_RequestState i req)"
  by (simp add: window_ok_def new_RequestState_def empty_QueryResult_def)

lemma request_inv_new: "request_inv (new_RequestState i req)"
  by (simp add: request_inv_def progress_ok_new window_ok_new)

lemma default_progress_ok: "wp_completed new_WorkerProgress \<longleftrightarrow> \<not> wp_hasMore new_WorkerProgress"
  by (simp add: new_WorkerProgress_def)

lemma progress_ok_update [inv_intros]: "progress_ok s \<Longrightarrow> progress_ok (updateWorkerProgress n i b s)"
  by (auto simp: progress_ok_def um_ok_progress)

lemma progress_ok_put [inv_intros]:
  "progress_ok s \<Longrightarrow> (wp_completed p \<longleftrightarrow> \<not> wp_hasMore p) \<Longrightarrow> progress_ok (putWorkerProgress n p s)"
  by (auto simp: progress_ok_def um_ok_progress)

lemma progress_ok_get [inv_intros]: "progress_ok s \<Longrightarrow> progress_ok (snd (getWorkerProgress n s))"
  using default_progress_ok by (auto simp: progress_ok_def um_ok_progress split: option.splits)

lemma progress_ok_initialize [inv_intros]: "progress_ok s \<Longrightarrow> progress_ok (initializeWorker n s)"
  using default_progress_ok by (auto simp: progress_ok_def um_ok_progress split: option.splits)

lemma progress_ok_cong:
  "rs_workerProgress t = rs_workerProgress s \<Longrightarrow> progress_ok t \<longleftrightarrow> progress_ok s"
  by (simp add: progress_ok_def findWorkerProgress_def)

lemma window_ok_cong:
  "rs_aggregatedResult t = rs_aggregatedResult s \<Longrightarrow> window_ok t \<longleftrightarrow> window_ok s"
  by (simp add: window_ok_def)

lemma window_ok_merge [inv_intros]:
  "window_ok s \<Longrightarrow> length (qr_matchedTripSources r) = length (qr_matchedTrips r) \<Longrightarrow>
     window_ok (mergePartialResult r s)"
  by (simp add: window_ok_def)

lemma window_ok_clear [inv_intros]: "window_ok (clearAggregatedRows s)"
  by (simp add: window_ok_def)

end
