(* ===== verification/Query_Proto.thy ===== *)
theory Query_Proto
  imports Model_Types
begin

text \<open>
  The messages of \<open>src/basic/proto/query.proto\<close> and the conversions of
  \<open>src/basic/src/transport/QueryProtoConverters.cpp\<close>. An unset sub-message or optional field
  is \<open>None\<close>. A null output pointer (\<open>if (\<not> out) return\<close>) does not occur: every caller
  passes the response object.
\<close>

section \<open>Messages\<close>

record QueryFilter =
  pf_pickup_range :: "int Range option"
  pf_dropoff_range :: "int Range option"
  pf_distance_range :: "f32 Range option"
  pf_total_cents_range :: "int Range option"
  pf_tip_cents_range :: "int Range option"
  pf_payment_type :: "int option"

definition empty_filter :: QueryFilter where
  "empty_filter = \<lparr> pf_pickup_range = None, pf_dropoff_range = None, pf_distance_range = None,
     pf_total_cents_range = None, pf_tip_cents_range = None, pf_payment_type = None \<rparr>"

record SubmitQueryRequest =
  sq_filter :: QueryFilter
  sq_preferred_chunk_size :: nat
  sq_client_tag :: string
  sq_visited_node_ids :: "node_id list"
  sq_scan_row_budget :: nat

record SubmitSubQueryRequest =
  ssq_parent_request_id :: string
  ssq_origin_node_id :: node_id
  ssq_filter :: QueryFilter
  ssq_preferred_chunk_size :: nat
  ssq_visited_node_ids :: "node_id list"
  ssq_scan_row_budget :: nat

record SubmitReply =
  \<comment> \<open>\<open>SubmitQueryReply\<close> and \<open>SubmitSubQueryReply\<close> have the same fields\<close>
  sr_accepted :: bool
  sr_request_id :: string
  sr_node_id :: node_id
  sr_message :: string

record FetchRequest =
  \<comment> \<open>\<open>FetchChunkRequest\<close> and \<open>FetchSubChunkRequest\<close>\<close>
  fq_request_id :: string
  fq_max_rows :: nat

record TripRow =
  tr_row_id :: nat
  tr_source_node_id :: node_id
  tr_vendor_id :: int
  tr_pickup_datetime :: int
  tr_dropoff_datetime :: int
  tr_passenger_count :: int
  tr_trip_distance :: f32
  tr_rate_code_id :: int
  tr_store_and_fwd_flag :: string
  tr_pu_location_id :: int
  tr_do_location_id :: int
  tr_payment_type :: int
  tr_fare_amount :: int
  tr_extra :: int
  tr_mta_tax :: int
  tr_tip_amount :: int
  tr_tolls_amount :: int
  tr_improvement_surcharge :: int
  tr_total_amount :: int
  tr_congestion_surcharge :: int

record FetchReply =
  \<comment> \<open>\<open>FetchChunkReply\<close> and \<open>FetchSubChunkReply\<close>\<close>
  fr_found :: bool
  fr_request_id :: string
  fr_node_id :: node_id
  fr_rows :: "TripRow list"
  fr_done :: bool
  fr_rows_returned :: nat
  fr_message :: string

record CancelReply =
  cr_success :: bool
  cr_request_id :: string
  cr_node_id :: node_id
  cr_message :: string

section \<open>Requests\<close>

definition range32 :: "int Range \<Rightarrow> int Range" where
  "range32 r = \<lparr> range_lo = to_signed 32 (range_lo r), range_hi = to_signed 32 (range_hi r) \<rparr>"

definition fromProtoFilter :: "QueryFilter \<Rightarrow> QueryRequest" where
  "fromProtoFilter f = (new_QueryRequest [] Execute)\<lparr>
     qq_pickupRange := pf_pickup_range f,
     qq_dropoffRange := pf_dropoff_range f,
     qq_tripDistanceRange := pf_distance_range f,
     qq_totalAmountRange := map_option range32 (pf_total_cents_range f),
     qq_tipAmountRange := map_option range32 (pf_tip_cents_range f),
     qq_paymentType := map_option (to_signed 32) (pf_payment_type f)\<rparr>"

definition fromProtoSubmitQueryRequest :: "SubmitQueryRequest \<Rightarrow> QueryRequest" where
  "fromProtoSubmitQueryRequest m =
     (let out = (fromProtoFilter (sq_filter m))\<lparr>qq_queryType := Execute,
            qq_chunkSize := sq_preferred_chunk_size m, qq_scanRowBudget := sq_scan_row_budget m,
            qq_entryNodeId := [], qq_originNodeId := [], qq_distributedAllowed := True\<rparr>
      in out\<lparr>qq_visitedNodeIds := qq_visitedNodeIds out @ sq_visited_node_ids m\<rparr>)"

definition fromProtoSubmitSubQueryRequest :: "SubmitSubQueryRequest \<Rightarrow> QueryRequest" where
  "fromProtoSubmitSubQueryRequest m =
     (let out = (fromProtoFilter (ssq_filter m))\<lparr>qq_queryType := Execute,
            qq_chunkSize := ssq_preferred_chunk_size m, qq_scanRowBudget := ssq_scan_row_budget m,
            qq_originNodeId := ssq_origin_node_id m, qq_distributedAllowed := True\<rparr>
      in out\<lparr>qq_visitedNodeIds := qq_visitedNodeIds out @ ssq_visited_node_ids m\<rparr>)"

section \<open>Replies\<close>

definition fillSubmitQueryReply :: "bool \<Rightarrow> string \<Rightarrow> node_id \<Rightarrow> string \<Rightarrow> SubmitReply" where
  "fillSubmitQueryReply accepted requestId nodeId message =
     \<lparr> sr_accepted = accepted, sr_request_id = requestId, sr_node_id = nodeId, sr_message = message \<rparr>"

definition fillSubmitSubQueryReply :: "bool \<Rightarrow> string \<Rightarrow> node_id \<Rightarrow> string \<Rightarrow> SubmitReply" where
  "fillSubmitSubQueryReply accepted requestId nodeId message =
     \<lparr> sr_accepted = accepted, sr_request_id = requestId, sr_node_id = nodeId, sr_message = message \<rparr>"

definition fillCancelQueryReply :: "bool \<Rightarrow> string \<Rightarrow> node_id \<Rightarrow> string \<Rightarrow> CancelReply" where
  "fillCancelQueryReply success requestId nodeId message =
     \<lparr> cr_success = success, cr_request_id = requestId, cr_node_id = nodeId, cr_message = message \<rparr>"

definition fillCancelSubQueryReply :: "bool \<Rightarrow> string \<Rightarrow> node_id \<Rightarrow> string \<Rightarrow> CancelReply" where
  "fillCancelSubQueryReply success requestId nodeId message =
     \<lparr> cr_success = success, cr_request_id = requestId, cr_node_id = nodeId, cr_message = message \<rparr>"

section \<open>Rows\<close>

definition toProtoTripRow :: "TaxiTrip \<Rightarrow> node_id \<Rightarrow> TripRow" where
  "toProtoTripRow t source = \<lparr> tr_row_id = 0, tr_source_node_id = source,
     tr_vendor_id = tt_vendorId t, tr_pickup_datetime = tt_pickupEpochMs t,
     tr_dropoff_datetime = tt_dropoffEpochMs t, tr_passenger_count = tt_passengerCount t,
     tr_trip_distance = tt_tripDistance t, tr_rate_code_id = tt_rateCodeId t,
     tr_store_and_fwd_flag = [char_of (nat (tt_storeAndFwd t))],
     tr_pu_location_id = tt_pickupLocationId t, tr_do_location_id = tt_dropLocationId t,
     tr_payment_type = tt_paymentType t, tr_fare_amount = tt_fareAmountCents t,
     tr_extra = tt_extraCents t, tr_mta_tax = tt_mtaTaxCents t,
     tr_tip_amount = tt_tipAmountCents t, tr_tolls_amount = tt_tollsAmountCents t,
     tr_improvement_surcharge = tt_improvementSurchargeCents t,
     tr_total_amount = tt_totalAmountCents t,
     tr_congestion_surcharge = tt_congestionSurchargeCents t \<rparr>"

definition fromTripRow :: "TripRow \<Rightarrow> TaxiTrip" where
  \<comment> \<open>the row loop of \<open>GrpcRemoteQueryClient::fetchSubChunk\<close>\<close>
  "fromTripRow r =
     (let t = empty_trip\<lparr>
        tt_vendorId := to_unsigned 8 (tr_vendor_id r),
        tt_pickupEpochMs := tr_pickup_datetime r,
        tt_dropoffEpochMs := tr_dropoff_datetime r,
        tt_passengerCount := to_unsigned 8 (tr_passenger_count r),
        tt_tripDistance := tr_trip_distance r,
        tt_rateCodeId := to_unsigned 8 (tr_rate_code_id r)\<rparr>;
      t = (if tr_store_and_fwd_flag r \<noteq> []
           then t\<lparr>tt_storeAndFwd := int (of_char (hd (tr_store_and_fwd_flag r)))\<rparr> else t)
      in t\<lparr>
        tt_pickupLocationId := to_unsigned 16 (tr_pu_location_id r),
        tt_dropLocationId := to_unsigned 16 (tr_do_location_id r),
        tt_paymentType := to_unsigned 8 (tr_payment_type r),
        tt_fareAmountCents := tr_fare_amount r,
        tt_extraCents := tr_extra r,
        tt_mtaTaxCents := tr_mta_tax r,
        tt_tipAmountCents := tr_tip_amount r,
        tt_tollsAmountCents := tr_tolls_amount r,
        tt_improvementSurchargeCents := tr_improvement_surcharge r,
        tt_totalAmountCents := tr_total_amount r,
        tt_congestionSurchargeCents := tr_congestion_surcharge r\<rparr>)"

definition rowSource :: "node_id \<Rightarrow> TripRow \<Rightarrow> node_id" where
  "rowSource target r = (if tr_source_node_id r \<noteq> [] then tr_source_node_id r else target)"

section \<open>Facts\<close>

text \<open>A trip within the widths of its fields.\<close>

definition trip_widths :: "TaxiTrip \<Rightarrow> bool" where
  "trip_widths t \<longleftrightarrow>
     0 \<le> tt_vendorId t \<and> tt_vendorId t < 2 ^ 8 \<and> 0 \<le> tt_passengerCount t \<and> tt_passengerCount t < 2 ^ 8 \<and>
     0 \<le> tt_paymentType t \<and> tt_paymentType t < 2 ^ 8 \<and> 0 \<le> tt_storeAndFwd t \<and> tt_storeAndFwd t < 2 ^ 8 \<and>
     0 \<le> tt_rateCodeId t \<and> tt_rateCodeId t < 2 ^ 8 \<and>
     0 \<le> tt_pickupLocationId t \<and> tt_pickupLocationId t < 2 ^ 16 \<and>
     0 \<le> tt_dropLocationId t \<and> tt_dropLocationId t < 2 ^ 16"

lemma tripRow_roundtrip:
  assumes "trip_widths t"
  shows "fromTripRow (toProtoTripRow t n) = t\<lparr>tt_airportFeeCents := 0\<rparr>"
proof -
  have "nat (tt_storeAndFwd t) < 256" using assms by (simp add: trip_widths_def nat_less_iff)
  then have "nat (tt_storeAndFwd t) mod 256 = nat (tt_storeAndFwd t)" by simp
  then show ?thesis using assms
    by (cases t) (simp add: fromTripRow_def toProtoTripRow_def Let_def trip_widths_def empty_trip_def
        to_unsigned_id)
qed

lemma rowSource_toProto: "rowSource m (toProtoTripRow t n) = (if n \<noteq> [] then n else m)"
  by (simp add: rowSource_def toProtoTripRow_def)

end
