(* ===== verification/Overlay.thy ===== *)
theory Overlay
  imports Model_Types
begin

text \<open>
  \<open>OverlayConfig\<close> (\<open>src/basic/src/model/OverlayConfig.hpp\<close>): node metadata, the directed
  overlay, its multi-parent index, the file ownership index, the traversals and the
  validation of a configuration. The traversals recurse over child lists with a visited
  set threaded through; their termination is proved from the number of unvisited keys.
\<close>

section \<open>State and lookups\<close>

type_synonym adjacency = "(node_id, node_id list) umap"

record OverlayConfig =
  ov_selfNodeId :: node_id
  ov_nodes :: "(node_id, NodeInfo) umap"
  ov_children :: adjacency
  ov_parents :: adjacency
  ov_fileToOwnerNodeId :: "(string, node_id) umap"

definition empty_Overlay :: OverlayConfig where
  "empty_Overlay = \<lparr> ov_selfNodeId = [], ov_nodes = [], ov_children = [], ov_parents = [],
     ov_fileToOwnerNodeId = [] \<rparr>"

definition setSelfNodeId :: "node_id \<Rightarrow> OverlayConfig \<Rightarrow> OverlayConfig" where
  "setSelfNodeId n cfg = cfg\<lparr>ov_selfNodeId := n\<rparr>"

definition getNode :: "OverlayConfig \<Rightarrow> node_id \<Rightarrow> NodeInfo option" where
  "getNode cfg n = um_find (ov_nodes cfg) n"

definition getSelf :: "OverlayConfig \<Rightarrow> NodeInfo option" where
  "getSelf cfg = getNode cfg (ov_selfNodeId cfg)"

definition getAllNodeIds :: "OverlayConfig \<Rightarrow> node_id list" where
  "getAllNodeIds cfg = map fst (ov_nodes cfg)"

definition getAllNodes :: "OverlayConfig \<Rightarrow> NodeInfo list" where
  "getAllNodes cfg = map snd (ov_nodes cfg)"

definition getEntryNode :: "OverlayConfig \<Rightarrow> NodeInfo option" where
  "getEntryNode cfg = List.find ni_isEntryNode (map snd (ov_nodes cfg))"

definition getParentId :: "OverlayConfig \<Rightarrow> node_id \<Rightarrow> node_id" where
  "getParentId cfg n =
     (case um_find (ov_parents cfg) n of
        None \<Rightarrow> []
      | Some ps \<Rightarrow> (case ps of [] \<Rightarrow> [] | p # _ \<Rightarrow> p))"

definition getParentIds :: "OverlayConfig \<Rightarrow> node_id \<Rightarrow> node_id list" where
  "getParentIds cfg n = (case um_find (ov_parents cfg) n of None \<Rightarrow> [] | Some ps \<Rightarrow> ps)"

definition getSelfParentId :: "OverlayConfig \<Rightarrow> node_id" where
  "getSelfParentId cfg = getParentId cfg (ov_selfNodeId cfg)"

definition succs :: "adjacency \<Rightarrow> node_id \<Rightarrow> node_id list" where
  "succs ch n = (case um_find ch n of None \<Rightarrow> [] | Some cs \<Rightarrow> cs)"

definition getChildren :: "OverlayConfig \<Rightarrow> node_id \<Rightarrow> node_id list" where
  "getChildren cfg n = succs (ov_children cfg) n"

definition getSelfChildren :: "OverlayConfig \<Rightarrow> node_id list" where
  "getSelfChildren cfg = getChildren cfg (ov_selfNodeId cfg)"

definition isLeaf :: "OverlayConfig \<Rightarrow> node_id \<Rightarrow> bool" where
  "isLeaf cfg n = (case um_find (ov_children cfg) n of None \<Rightarrow> True | Some cs \<Rightarrow> cs = [])"

definition isSelfLeaf :: "OverlayConfig \<Rightarrow> bool" where
  "isSelfLeaf cfg = isLeaf cfg (ov_selfNodeId cfg)"

definition isRoot :: "OverlayConfig \<Rightarrow> node_id \<Rightarrow> bool" where
  "isRoot cfg n = (case getNode cfg n of None \<Rightarrow> False | Some i \<Rightarrow> ni_isEntryNode i)"

definition getWorkerNodeIds :: "OverlayConfig \<Rightarrow> node_id list" where
  "getWorkerNodeIds cfg = map fst (filter (\<lambda>(_, i). \<not> ni_isEntryNode i) (ov_nodes cfg))"

definition findOwnerOfFile :: "OverlayConfig \<Rightarrow> string \<Rightarrow> NodeInfo option" where
  "findOwnerOfFile cfg f =
     (case um_find (ov_fileToOwnerNodeId cfg) f of None \<Rightarrow> None | Some n \<Rightarrow> getNode cfg n)"

definition getOwnedFiles :: "OverlayConfig \<Rightarrow> node_id \<Rightarrow> string list" where
  "getOwnedFiles cfg n = (case getNode cfg n of None \<Rightarrow> [] | Some i \<Rightarrow> ni_ownedFiles i)"

definition getSelfOwnedFiles :: "OverlayConfig \<Rightarrow> string list" where
  "getSelfOwnedFiles cfg = getOwnedFiles cfg (ov_selfNodeId cfg)"

definition endpointFor :: "OverlayConfig \<Rightarrow> node_id \<Rightarrow> string" where
  "endpointFor cfg n =
     (case um_find (ov_nodes cfg) n of
        None \<Rightarrow> []
      | Some i \<Rightarrow> ni_host i @ '':'' @ show_nat (nat (ni_port i)))"

definition neighborNodeIds :: "OverlayConfig \<Rightarrow> node_id \<Rightarrow> node_id list" where
  "neighborNodeIds cfg n = getChildren cfg n"

lemma isLeaf_iff: "isLeaf cfg n \<longleftrightarrow> getChildren cfg n = []"
  by (simp add: isLeaf_def getChildren_def succs_def split: option.splits)

section \<open>Updates\<close>

fun index_files :: "node_id \<Rightarrow> string list \<Rightarrow> (string, node_id) umap \<Rightarrow> (string, node_id) umap" where
  "index_files n [] idx = idx"
| "index_files n (f # fs) idx = index_files n fs (um_put f n idx)"

fun index_nodes :: "(node_id, NodeInfo) umap \<Rightarrow> (string, node_id) umap \<Rightarrow> (string, node_id) umap" where
  "index_nodes [] idx = idx"
| "index_nodes ((n, i) # ns) idx = index_nodes ns (index_files n (ni_ownedFiles i) idx)"

definition rebuildFileOwnershipIndex :: "OverlayConfig \<Rightarrow> OverlayConfig" where
  "rebuildFileOwnershipIndex cfg = cfg\<lparr>ov_fileToOwnerNodeId := index_nodes (ov_nodes cfg) []\<rparr>"

definition addNode :: "NodeInfo \<Rightarrow> OverlayConfig \<Rightarrow> OverlayConfig" where
  "addNode i cfg =
     rebuildFileOwnershipIndex (cfg\<lparr>ov_nodes := um_put (ni_nodeId i) i (ov_nodes cfg)\<rparr>)"

definition addIncomingEdge :: "node_id \<Rightarrow> node_id \<Rightarrow> adjacency \<Rightarrow> adjacency" where
  "addIncomingEdge child parent ps =
     (let (l, ps') = um_index [] child ps
      in if parent \<notin> set l then um_put child (l @ [parent]) ps' else ps')"

definition removeIncomingEdge :: "node_id \<Rightarrow> node_id \<Rightarrow> adjacency \<Rightarrow> adjacency" where
  "removeIncomingEdge child parent ps =
     (case um_find ps child of
        None \<Rightarrow> ps
      | Some l \<Rightarrow>
          (let l' = filter (\<lambda>p. p \<noteq> parent) l
           in if l' = [] then um_erase child ps else um_put child l' ps))"

definition setChildren :: "node_id \<Rightarrow> node_id list \<Rightarrow> OverlayConfig \<Rightarrow> OverlayConfig" where
  "setChildren n cs cfg =
     (let ps = (case um_find (ov_children cfg) n of
                  None \<Rightarrow> ov_parents cfg
                | Some old \<Rightarrow> fold (\<lambda>c. removeIncomingEdge c n) old (ov_parents cfg))
      in cfg\<lparr>ov_children := um_put n cs (ov_children cfg),
             ov_parents := fold (\<lambda>c. addIncomingEdge c n) cs ps\<rparr>)"

text \<open>The multi-parent index, as a relation: who is listed as a parent of whom.\<close>

definition parent_of :: "adjacency \<Rightarrow> node_id \<Rightarrow> node_id \<Rightarrow> bool" where
  "parent_of ps c p \<longleftrightarrow> p \<in> set (succs ps c)"

lemma parent_of_add: "parent_of (addIncomingEdge c p ps) d q \<longleftrightarrow> parent_of ps d q \<or> (d = c \<and> q = p)"
  by (auto simp: parent_of_def addIncomingEdge_def um_index_def succs_def split: option.splits)

lemma parent_of_remove: "parent_of (removeIncomingEdge c p ps) d q \<longleftrightarrow> parent_of ps d q \<and> \<not> (d = c \<and> q = p)"
proof (cases "um_find ps c")
  case None
  then show ?thesis by (auto simp: parent_of_def removeIncomingEdge_def succs_def)
next
  case (Some l)
  then show ?thesis
    by (auto simp: parent_of_def removeIncomingEdge_def succs_def Let_def filter_empty_conv
        split: option.splits)
qed

lemma parent_of_add_all:
  "parent_of (fold (\<lambda>c. addIncomingEdge c p) cs ps) d q \<longleftrightarrow> parent_of ps d q \<or> (d \<in> set cs \<and> q = p)"
  by (induction cs arbitrary: ps) (auto simp: parent_of_add)

lemma parent_of_remove_all:
  "parent_of (fold (\<lambda>c. removeIncomingEdge c p) cs ps) d q \<longleftrightarrow> parent_of ps d q \<and> \<not> (d \<in> set cs \<and> q = p)"
  by (induction cs arbitrary: ps) (auto simp: parent_of_remove)

definition parents_inv :: "OverlayConfig \<Rightarrow> bool" where
  \<comment> \<open>the parent index is exactly the inverse of the child lists\<close>
  "parents_inv cfg \<longleftrightarrow> (\<forall>c p. p \<in> set (getParentIds cfg c) \<longleftrightarrow> c \<in> set (getChildren cfg p))"

lemma parents_inv_alt:
  "parents_inv cfg \<longleftrightarrow> (\<forall>c p. parent_of (ov_parents cfg) c p \<longleftrightarrow> c \<in> set (succs (ov_children cfg) p))"
  by (simp add: parents_inv_def getParentIds_def getChildren_def parent_of_def succs_def)

lemma parents_inv_empty: "parents_inv empty_Overlay"
  by (simp add: parents_inv_alt empty_Overlay_def parent_of_def succs_def)

lemma parents_inv_setChildren:
  assumes "parents_inv cfg"
  shows "parents_inv (setChildren n cs cfg)"
proof -
  let ?ps = "case um_find (ov_children cfg) n of None \<Rightarrow> ov_parents cfg
      | Some old \<Rightarrow> fold (\<lambda>c. removeIncomingEdge c n) old (ov_parents cfg)"
  have "parent_of ?ps c p \<longleftrightarrow> p \<noteq> n \<and> c \<in> set (succs (ov_children cfg) p)" for c p
    using assms
    by (auto simp: parents_inv_alt parent_of_remove_all succs_def split: option.splits)
  then show ?thesis
    by (auto simp: parents_inv_alt setChildren_def Let_def parent_of_add_all succs_def)
qed

lemma parents_inv_addNode: "parents_inv cfg \<Longrightarrow> parents_inv (addNode i cfg)"
  by (simp add: parents_inv_alt addNode_def rebuildFileOwnershipIndex_def)

section \<open>Traversals\<close>

function (domintros) reach_loop :: "adjacency \<Rightarrow> node_id list \<Rightarrow> node_id set \<Rightarrow> node_id set" where
  "reach_loop ch [] R = R"
| "reach_loop ch (c # cs) R =
     (if c \<in> R then reach_loop ch cs R
      else reach_loop ch cs (reach_loop ch (succs ch c) (insert c R)))"
  by pat_completeness auto

lemma reach_loop_grows: "reach_loop_dom (ch, cs, R) \<Longrightarrow> R \<subseteq> reach_loop ch cs R"
  by (induction rule: reach_loop.pinduct) (auto simp: reach_loop.psimps)

lemma unvisited_shrinks:
  assumes "R \<subseteq> S"
  shows "card (set (um_keys ch) - S) \<le> card (set (um_keys ch) - R)"
  using assms by (intro card_mono) auto

lemma unvisited_visit:
  assumes "c \<notin> R"
  shows "card (set (um_keys ch) - insert c R) < card (set (um_keys ch) - R) \<or>
         card (set (um_keys ch) - insert c R) = card (set (um_keys ch) - R) \<and> succs ch c = []"
proof (cases "c \<in> set (um_keys ch)")
  case True
  with assms have "set (um_keys ch) - insert c R \<subset> set (um_keys ch) - R" by auto
  then show ?thesis by (simp add: psubset_card_mono)
next
  case False
  then have "succs ch c = []" by (simp add: succs_def um.keys_lookup domIff)
  moreover from False have "set (um_keys ch) - insert c R = set (um_keys ch) - R" by auto
  ultimately show ?thesis by simp
qed

termination reach_loop
proof (relation "measures [\<lambda>(ch, cs, R). card (set (um_keys ch) - R), \<lambda>(ch, cs, R). length cs]", goal_cases)
  case (3 ch c cs R)
  then show ?case using unvisited_visit [of c R ch] by auto
next
  case (4 ch c cs R)
  from reach_loop_grows [OF 4(2)]
  have "card (set (um_keys ch) - reach_loop ch (succs ch c) (insert c R)) \<le> card (set (um_keys ch) - R)"
    by (intro unvisited_shrinks) auto
  then show ?case by auto
qed auto

definition collectReachable :: "adjacency \<Rightarrow> node_id \<Rightarrow> node_id set \<Rightarrow> node_id set" where
  "collectReachable ch n R = reach_loop ch [n] R"

function (domintros) descend_loop ::
  "adjacency \<Rightarrow> node_id list \<Rightarrow> node_id list \<Rightarrow> node_id set \<Rightarrow> node_id list \<times> node_id set" where
  "descend_loop ch [] out vis = (out, vis)"
| "descend_loop ch (c # cs) out vis =
     (if c \<in> vis then descend_loop ch cs out vis
      else (let (out', vis') = descend_loop ch (succs ch c) (out @ [c]) (insert c vis)
            in descend_loop ch cs out' vis'))"
  by pat_completeness auto

lemma descend_loop_grows:
  "descend_loop_dom (ch, cs, out, vis) \<Longrightarrow> vis \<subseteq> snd (descend_loop ch cs out vis)"
proof (induction rule: descend_loop.pinduct)
  case (1 ch out vis)
  then show ?case by (simp add: descend_loop.psimps)
next
  case (2 ch c cs out vis)
  obtain o' v' where eq: "descend_loop ch (succs ch c) (out @ [c]) (insert c vis) = (o', v')"
    by fastforce
  show ?case
  proof (cases "c \<in> vis")
    case True
    with 2 show ?thesis by (simp add: descend_loop.psimps)
  next
    case False
    with 2 eq have "insert c vis \<subseteq> v'" and "v' \<subseteq> snd (descend_loop ch cs o' v')" by auto
    with False eq 2(1) show ?thesis by (auto simp: descend_loop.psimps)
  qed
qed

termination descend_loop
proof (relation "measures [\<lambda>(ch, cs, out, vis). card (set (um_keys ch) - vis), \<lambda>(ch, cs, out, vis). length cs]",
    goal_cases)
  case (3 ch c cs out vis)
  then show ?case using unvisited_visit [of c vis ch] by auto
next
  case (4 ch c cs out vis x out' vis')
  from descend_loop_grows [OF 4(4)] 4(2,3) have "insert c vis \<subseteq> vis'"
    by (metis snd_conv)
  then have "card (set (um_keys ch) - vis') \<le> card (set (um_keys ch) - vis)"
    by (intro unvisited_shrinks) auto
  then show ?case by auto
qed auto

definition collectDescendantsRecursive ::
  "adjacency \<Rightarrow> node_id \<Rightarrow> node_id list \<Rightarrow> node_id set \<Rightarrow> node_id list \<times> node_id set" where
  "collectDescendantsRecursive ch n out vis =
     (case um_find ch n of
        None \<Rightarrow> (out, vis)
      | Some cs \<Rightarrow> descend_loop ch cs out vis)"

definition collectDescendants :: "OverlayConfig \<Rightarrow> node_id \<Rightarrow> node_id list" where
  "collectDescendants cfg n = fst (collectDescendantsRecursive (ov_children cfg) n [] {n})"

definition collectSubtree :: "OverlayConfig \<Rightarrow> node_id \<Rightarrow> node_id list" where
  "collectSubtree cfg n = fst (collectDescendantsRecursive (ov_children cfg) n [n] {n})"

definition collectSelfSubtree :: "OverlayConfig \<Rightarrow> node_id list" where
  "collectSelfSubtree cfg = collectSubtree cfg (ov_selfNodeId cfg)"

function (domintros) cycle_loop ::
  "adjacency \<Rightarrow> node_id list \<Rightarrow> node_id set \<Rightarrow> node_id set \<Rightarrow> bool \<times> node_id set \<times> node_id set" where
  "cycle_loop ch [] vis act = (False, vis, act)"
| "cycle_loop ch (c # cs) vis act =
     (if c \<in> act then (True, vis, act)
      else if c \<in> vis then cycle_loop ch cs vis act
      else (let (found, vis', act') = cycle_loop ch (succs ch c) (insert c vis) (insert c act)
            in if found then (True, vis', act')
               else cycle_loop ch cs vis' (act' - {c})))"
  by pat_completeness auto

lemma cycle_loop_grows:
  "cycle_loop_dom (ch, cs, vis, act) \<Longrightarrow> vis \<subseteq> fst (snd (cycle_loop ch cs vis act))"
proof (induction rule: cycle_loop.pinduct)
  case (1 ch vis act)
  then show ?case by (simp add: cycle_loop.psimps)
next
  case (2 ch c cs vis act)
  obtain b v' a' where eq: "cycle_loop ch (succs ch c) (insert c vis) (insert c act) = (b, v', a')"
    by (cases "cycle_loop ch (succs ch c) (insert c vis) (insert c act)")
  show ?case
  proof (cases "c \<in> act \<or> c \<in> vis")
    case True
    with 2 show ?thesis by (auto simp: cycle_loop.psimps)
  next
    case False
    with 2 eq have "insert c vis \<subseteq> v'" by simp
    moreover from False 2 eq have "\<not> b \<Longrightarrow> v' \<subseteq> fst (snd (cycle_loop ch cs v' (a' - {c})))" by auto
    ultimately show ?thesis using False eq 2(1) by (cases b) (auto simp: cycle_loop.psimps)
  qed
qed

termination cycle_loop
proof (relation "measures [\<lambda>(ch, cs, vis, act). card (set (um_keys ch) - vis), \<lambda>(ch, cs, vis, act). length cs]",
    goal_cases)
  case (3 ch c cs vis act)
  then show ?case using unvisited_visit [of c vis ch] by auto
next
  case (4 ch c cs vis act x found y vis' act')
  have "insert c vis \<subseteq> vis'"
    using cycle_loop_grows [OF 4(7)] 4(3-5) by (metis fst_conv snd_conv)
  then have "card (set (um_keys ch) - vis') \<le> card (set (um_keys ch) - vis)"
    by (intro unvisited_shrinks) auto
  then show ?case by auto
qed auto

definition hasCycle ::
  "adjacency \<Rightarrow> node_id \<Rightarrow> node_id set \<Rightarrow> node_id set \<Rightarrow> bool \<times> node_id set \<times> node_id set" where
  "hasCycle ch n vis act = cycle_loop ch [n] vis act"

end
