(* ===== verification/Remote_Client.thy ===== *)
theory Remote_Client
  imports Query_Proto Overlay
begin

text \<open>
  \<open>GrpcRemoteQueryClient\<close> (\<open>src/basic/src/transport/GrpcRemoteQueryClient.cpp\<close>): subqueries to a
  child node. The generated gRPC stub is a parameter: for each target address its calls take
  the request and the state \<open>'e\<close> of the rest of the system to a status or a reply. Deadlines
  are inside the stub: an expired call is an error status.
\<close>

section \<open>The stub\<close>

record 'e stub_ops =
  op_NewStub :: "string \<Rightarrow> bool"
  op_SubmitSubQuery :: "string \<Rightarrow> SubmitSubQueryRequest \<Rightarrow> 'e \<Rightarrow> (string + SubmitReply) \<times> 'e"
  op_FetchSubChunk :: "string \<Rightarrow> FetchRequest \<Rightarrow> 'e \<Rightarrow> (string + FetchReply) \<times> 'e"
  op_CancelSubQuery :: "string \<Rightarrow> string \<Rightarrow> 'e \<Rightarrow> (string + CancelReply) \<times> 'e"

section \<open>The client\<close>

record remote_client =
  rc_selfNodeId :: node_id
  rc_overlay :: OverlayConfig
  rc_stubs :: "(node_id, string) umap"   \<comment> \<open>open stubs, by node: the address of each\<close>

definition new_remote_client :: "node_id \<Rightarrow> OverlayConfig \<Rightarrow> remote_client" where
  "new_remote_client n cfg = \<lparr> rc_selfNodeId = n, rc_overlay = cfg, rc_stubs = [] \<rparr>"

definition resolveTarget :: "remote_client \<Rightarrow> node_id \<Rightarrow> string" where
  "resolveTarget c n = endpointFor (rc_overlay c) n"

definition getOrCreateStub :: "'e stub_ops \<Rightarrow> remote_client \<Rightarrow> node_id \<Rightarrow> string option \<times> remote_client" where
  "getOrCreateStub ops c n =
     (case um_find (rc_stubs c) n of
        Some t \<Rightarrow> (Some t, c)
      | None \<Rightarrow>
          let t = resolveTarget c n
          in if t = [] then (None, c)
             else if \<not> op_NewStub ops t then (None, c)
             else (Some t, c\<lparr>rc_stubs := um_put n t (rc_stubs c)\<rparr>))"

definition toProtoFilter :: "QueryRequest \<Rightarrow> QueryFilter" where
  "toProtoFilter req = \<lparr> pf_pickup_range = qq_pickupRange req, pf_dropoff_range = qq_dropoffRange req,
     pf_distance_range = qq_tripDistanceRange req, pf_total_cents_range = qq_totalAmountRange req,
     pf_tip_cents_range = qq_tipAmountRange req, pf_payment_type = qq_paymentType req \<rparr>"

definition toProtoSubQuery :: "node_id \<Rightarrow> QueryRequest \<Rightarrow> string \<Rightarrow> SubmitSubQueryRequest" where
  "toProtoSubQuery self req parentRequestId =
     \<lparr> ssq_parent_request_id = parentRequestId, ssq_origin_node_id = self,
       ssq_filter = toProtoFilter req,
       ssq_preferred_chunk_size = qq_chunkSize req mod 2 ^ 32,
       ssq_visited_node_ids = qq_visitedNodeIds req,
       ssq_scan_row_budget = qq_scanRowBudget req mod 2 ^ 32 \<rparr>"

definition submitSubQuery ::
  "'e stub_ops \<Rightarrow> node_id \<Rightarrow> QueryRequest \<Rightarrow> string \<Rightarrow> remote_client \<Rightarrow> 'e
     \<Rightarrow> (bool \<times> string \<times> string) \<times> remote_client \<times> 'e"
where
  \<comment> \<open>success, \<open>remoteRequestId\<close>, \<open>message\<close>\<close>
  "submitSubQuery ops target req parent c e =
     (case getOrCreateStub ops c target of
        (None, c) \<Rightarrow> ((False, [], ''no stub for target node''), c, e)
      | (Some t, c) \<Rightarrow>
          (case op_SubmitSubQuery ops t (toProtoSubQuery (rc_selfNodeId c) req parent) e of
             (Inl err, e) \<Rightarrow> ((False, [], err), c, e)
           | (Inr resp, e) \<Rightarrow> ((sr_accepted resp, sr_request_id resp, sr_message resp), c, e)))"

record SubChunk =
  sc_ok :: bool
  sc_trips :: "TaxiTrip list"
  sc_sources :: "node_id list"
  sc_done :: bool
  sc_message :: string

definition failed_chunk :: "bool \<Rightarrow> string \<Rightarrow> SubChunk" where
  "failed_chunk d m = \<lparr> sc_ok = False, sc_trips = [], sc_sources = [], sc_done = d, sc_message = m \<rparr>"

definition fetchSubChunk ::
  "'e stub_ops \<Rightarrow> node_id \<Rightarrow> string \<Rightarrow> nat \<Rightarrow> remote_client \<Rightarrow> 'e \<Rightarrow> SubChunk \<times> remote_client \<times> 'e"
where
  "fetchSubChunk ops target remoteRequestId maxRows c e =
     (case getOrCreateStub ops c target of
        (None, c) \<Rightarrow> (failed_chunk False ''no stub for target node'', c, e)
      | (Some t, c) \<Rightarrow>
          (case op_FetchSubChunk ops t
                  \<lparr> fq_request_id = remoteRequestId, fq_max_rows = maxRows mod 2 ^ 32 \<rparr> e of
             (Inl err, e) \<Rightarrow> (failed_chunk False err, c, e)
           | (Inr resp, e) \<Rightarrow>
               if \<not> fr_found resp then (failed_chunk True (fr_message resp), c, e)
               else (\<lparr> sc_ok = True, sc_trips = map fromTripRow (fr_rows resp),
                       sc_sources = map (rowSource target) (fr_rows resp),
                       sc_done = fr_done resp, sc_message = fr_message resp \<rparr>, c, e)))"

definition cancelSubQuery ::
  "'e stub_ops \<Rightarrow> node_id \<Rightarrow> string \<Rightarrow> remote_client \<Rightarrow> 'e \<Rightarrow> (bool \<times> string) \<times> remote_client \<times> 'e"
where
  "cancelSubQuery ops target remoteRequestId c e =
     (case getOrCreateStub ops c target of
        (None, c) \<Rightarrow> ((False, ''no stub for target node''), c, e)
      | (Some t, c) \<Rightarrow>
          (case op_CancelSubQuery ops t remoteRequestId e of
             (Inl err, e) \<Rightarrow> ((False, err), c, e)
           | (Inr resp, e) \<Rightarrow> ((cr_success resp, cr_message resp), c, e)))"

section \<open>Facts\<close>

text \<open>Every open stub is the address the overlay gives its node.\<close>

definition stubs_ok :: "remote_client \<Rightarrow> bool" where
  "stubs_ok c \<longleftrightarrow> um_ok (rc_stubs c) \<and>
     (\<forall>n t. um_find (rc_stubs c) n = Some t \<longrightarrow> t = resolveTarget c n \<and> t \<noteq> [])"

lemma getOrCreateStub_frame [simp]:
  "rc_selfNodeId (snd (getOrCreateStub ops c n)) = rc_selfNodeId c"
  "rc_overlay (snd (getOrCreateStub ops c n)) = rc_overlay c"
  by (simp_all add: getOrCreateStub_def Let_def split: option.split)

lemma getOrCreateStub_ok:
  assumes "stubs_ok c"
  shows "stubs_ok (snd (getOrCreateStub ops c n)) \<and>
    (\<forall>t. fst (getOrCreateStub ops c n) = Some t \<longrightarrow> t = resolveTarget c n \<and> t \<noteq> [])"
  using assms by (auto simp: getOrCreateStub_def Let_def stubs_ok_def resolveTarget_def split: option.splits)

lemma stubs_ok_new: "stubs_ok (new_remote_client n cfg)"
  by (simp add: stubs_ok_def new_remote_client_def)

lemma submitSubQuery_client:
  "fst (snd (submitSubQuery ops t req parent c e)) = snd (getOrCreateStub ops c t)"
  by (simp add: submitSubQuery_def split: prod.split option.split sum.split)

lemma fetchSubChunk_client:
  "fst (snd (fetchSubChunk ops t i k c e)) = snd (getOrCreateStub ops c t)"
  by (simp add: fetchSubChunk_def split: prod.split option.split sum.split)

lemma fetchSubChunk_sources:
  "length (sc_sources (fst (fetchSubChunk ops t i k c e))) =
     length (sc_trips (fst (fetchSubChunk ops t i k c e)))"
  by (simp add: fetchSubChunk_def failed_chunk_def split: prod.split option.split sum.split)

text \<open>What a child makes of a subquery: the same filter, always as EXECUTE.\<close>

definition request_widths :: "QueryRequest \<Rightarrow> bool" where
  "request_widths req \<longleftrightarrow>
     (\<forall>r. qq_totalAmountRange req = Some r \<longrightarrow> range32 r = r) \<and>
     (\<forall>r. qq_tipAmountRange req = Some r \<longrightarrow> range32 r = r) \<and>
     (\<forall>p. qq_paymentType req = Some p \<longrightarrow> to_signed 32 p = p) \<and>
     qq_chunkSize req < 2 ^ 32 \<and> qq_scanRowBudget req < 2 ^ 32"

lemma subquery_roundtrip:
  assumes "request_widths req"
  shows "fromProtoSubmitSubQueryRequest (toProtoSubQuery self req parent) =
    req\<lparr>qq_queryId := [], qq_queryType := Execute, qq_originNodeId := self, qq_entryNodeId := [],
        qq_targetNodeId := None, qq_distributedAllowed := True, qq_offset := 0, qq_limit := 0,
        qq_startRow := 0\<rparr>"
proof -
  have "map_option range32 (qq_totalAmountRange req) = qq_totalAmountRange req"
    and "map_option range32 (qq_tipAmountRange req) = qq_tipAmountRange req"
    and "map_option (to_signed 32) (qq_paymentType req) = qq_paymentType req"
    using assms by (auto simp: request_widths_def split: option.split
        intro: option.map_cong0 [where g = id, simplified option.map_id id_apply])
  then show ?thesis using assms
    by (cases req) (simp add: fromProtoSubmitSubQueryRequest_def fromProtoFilter_def toProtoSubQuery_def
        toProtoFilter_def new_QueryRequest_def request_widths_def Let_def)
qed

end
