(* ===== verification/Query_Coordinator.thy ===== *)
theory Query_Coordinator
  imports Complex_Main Worker_Node Request_State Remote_Client
begin

text \<open>
  \<open>QueryCoordinator\<close> (\<open>src/basic/src/querycoordination/QueryCoordinator.{hpp,cpp}\<close>). The member
  variables are the record \<open>coordinator\<close>; a \<open>RequestState &\<close> is the index of its entry in
  \<open>queryStates_\<close>, which no operation removes from or reorders. Every function takes and
  returns the coordinator and, where it calls a child, the state \<open>'e\<close> of the rest of the
  system. The file system and the gRPC stub are the parameter \<open>system\<close>. Output is left out.
\<close>

section \<open>State\<close>

record 'e system =
  sys_fs :: file_system
  sys_ops :: "'e stub_ops"

record coordinator =
  co_workers :: "WorkerNode list"
  co_queryStates :: "RequestState list"
  co_nextQuerySeq :: nat
  co_remoteClient :: "remote_client option"
  co_overlay :: "OverlayConfig option"
  co_selfNodeId :: node_id

definition new_QueryCoordinator :: coordinator where
  "new_QueryCoordinator = \<lparr> co_workers = [], co_queryStates = [], co_nextQuerySeq = 1,
     co_remoteClient = None, co_overlay = None, co_selfNodeId = [] \<rparr>"

definition make_QueryCoordinator :: "node_id \<Rightarrow> OverlayConfig \<Rightarrow> remote_client \<Rightarrow> coordinator" where
  "make_QueryCoordinator self overlay client =
     new_QueryCoordinator\<lparr>co_remoteClient := Some client, co_overlay := Some overlay,
       co_selfNodeId := self\<rparr>"

record RpcChunkResult =
  rp_found :: bool
  rp_done :: bool
  rp_requestId :: string
  rp_message :: string
  rp_trips :: "TaxiTrip list"
  rp_sources :: "node_id list"

definition new_RpcChunkResult :: RpcChunkResult where
  "new_RpcChunkResult = \<lparr> rp_found = False, rp_done = False, rp_requestId = [], rp_message = [],
     rp_trips = [], rp_sources = [] \<rparr>"

definition SMALL_CHUNK_SIZE :: nat where "SMALL_CHUNK_SIZE = 500"
definition DEFAULT_CHUNK_SIZE :: nat where "DEFAULT_CHUNK_SIZE = 1000"
definition LARGE_CHUNK_SIZE :: nat where "LARGE_CHUNK_SIZE = 5000"
definition PRESSURE_ROW_LIMIT :: nat where "PRESSURE_ROW_LIMIT = 10000"
definition PRESSURE_REQUEST_LIMIT :: nat where "PRESSURE_REQUEST_LIMIT = 10"

section \<open>Request records\<close>

definition addWorker :: "WorkerNode \<Rightarrow> coordinator \<Rightarrow> coordinator" where
  "addWorker w co = co\<lparr>co_workers := co_workers co @ [w]\<rparr>"

definition findRequestState :: "coordinator \<Rightarrow> string \<Rightarrow> nat option" where
  "findRequestState co i =
     find (\<lambda>k. rs_queryId (co_queryStates co ! k) = i) [0..<length (co_queryStates co)]"

definition state_at :: "coordinator \<Rightarrow> nat \<Rightarrow> RequestState" where
  "state_at co k = co_queryStates co ! k"

definition on_state :: "nat \<Rightarrow> (RequestState \<Rightarrow> RequestState) \<Rightarrow> coordinator \<Rightarrow> coordinator" where
  "on_state k f co = co\<lparr>co_queryStates := (co_queryStates co)[k := f (state_at co k)]\<rparr>"

definition createRequestState :: "QueryRequest \<Rightarrow> coordinator \<Rightarrow> nat \<times> coordinator" where
  "createRequestState req co =
     (case findRequestState co (qq_queryId req) of
        Some k \<Rightarrow> (k, co)
      | None \<Rightarrow> (length (co_queryStates co),
                 co\<lparr>co_queryStates := co_queryStates co @ [new_RequestState (qq_queryId req) req]\<rparr>))"

definition updateQueryState :: "string \<Rightarrow> QueryState \<Rightarrow> coordinator \<Rightarrow> coordinator" where
  "updateQueryState i q co =
     (case findRequestState co i of None \<Rightarrow> co | Some k \<Rightarrow> on_state k (setState q) co)"

definition ensureQueryId :: "QueryRequest \<Rightarrow> coordinator \<Rightarrow> string \<times> QueryRequest \<times> coordinator" where
  "ensureQueryId req co =
     (if qq_queryId req \<noteq> [] then (qq_queryId req, req, co)
      else let i = ''q-'' @ show_nat (co_nextQuerySeq co)
           in (i, req\<lparr>qq_queryId := i\<rparr>, co\<lparr>co_nextQuerySeq := co_nextQuerySeq co + 1\<rparr>))"

definition handleTimeout :: "string \<Rightarrow> coordinator \<Rightarrow> coordinator" where
  "handleTimeout i co = updateQueryState i TIMED_OUT co"

definition cancelQuery :: "string \<Rightarrow> coordinator \<Rightarrow> coordinator" where
  "cancelQuery i co = updateQueryState i CANCELLED co"

definition cancel :: "string \<Rightarrow> coordinator \<Rightarrow> bool \<times> string \<times> coordinator" where
  "cancel i co =
     (case findRequestState co i of
        None \<Rightarrow> (False, ''request not found'', co)
      | Some k \<Rightarrow> (True, ''cancelled'', on_state k (setState CANCELLED) co))"

section \<open>Adaptive chunk size\<close>

text \<open>
  The ratio is a \<open>double\<close> in the source. It is compared with 0.80 and 0.20 only; the
  division is correctly rounded, so for counts below \<open>2 ^ 53\<close> these comparisons are those of
  the exact quotients.
\<close>

definition getCoordinatorPressureRatio :: "coordinator \<Rightarrow> rat" where
  "getCoordinatorPressureRatio co =
     (let activeRequests = length (filter (\<lambda>s. \<not> isTerminal s) (co_queryStates co));
          cachedRows = sum_list (map (\<lambda>s. length (qr_matchedTrips (rs_aggregatedResult s))) (co_queryStates co));
          requestPressure = of_nat activeRequests / of_nat PRESSURE_REQUEST_LIMIT;
          rowPressure = of_nat cachedRows / of_nat PRESSURE_ROW_LIMIT
      in min 1 (max requestPressure rowPressure))"

definition chooseAdaptiveChunkSize :: "coordinator \<Rightarrow> nat \<Rightarrow> nat" where
  "chooseAdaptiveChunkSize co requestedMaxRows =
     (let pressure = getCoordinatorPressureRatio co;
          recommended = (if pressure \<ge> 4 / 5 then SMALL_CHUNK_SIZE
                         else if pressure \<le> 1 / 5 then LARGE_CHUNK_SIZE
                         else DEFAULT_CHUNK_SIZE)
      in if requestedMaxRows = 0 then recommended else min requestedMaxRows recommended)"

section \<open>Routing\<close>

definition canProcessLocally :: "coordinator \<Rightarrow> QueryRequest \<Rightarrow> bool" where
  "canProcessLocally co req =
     (if qq_targetNodeId req \<noteq> None then True
      else if \<not> qq_distributedAllowed req then True
      else case co_overlay co of
        Some overlay \<Rightarrow> getChildren overlay (co_selfNodeId co) = []
      | None \<Rightarrow> True)"

definition determineTargetWorkers :: "coordinator \<Rightarrow> QueryRequest \<Rightarrow> nat list" where
  "determineTargetWorkers co req =
     (if co_workers co = [] then []
      else case qq_targetNodeId req of
        Some t \<Rightarrow>
          (case find (\<lambda>i. getNodeId (co_workers co ! i) = t) [0..<length (co_workers co)] of
             Some i \<Rightarrow> [i] | None \<Rightarrow> [])
      | None \<Rightarrow> [0..<length (co_workers co)])"

definition worker_selected :: "coordinator \<Rightarrow> QueryRequest \<Rightarrow> WorkerNode \<Rightarrow> bool" where
  \<comment> \<open>the worker loops of \<open>initializeExecuteProgress\<close> and \<open>fetchLocalExecuteChunk\<close>: no \<open>continue\<close>\<close>
  "worker_selected co req w =
     (case qq_targetNodeId req of
        Some t \<Rightarrow> getNodeId w = t
      | None \<Rightarrow> \<not> (co_selfNodeId co \<noteq> [] \<and> getNodeId w \<noteq> co_selfNodeId co))"

fun init_children :: "nat \<Rightarrow> QueryRequest \<Rightarrow> node_id list \<Rightarrow> nat \<Rightarrow> coordinator \<Rightarrow> nat \<times> coordinator" where
  "init_children k req [] n co = (n, co)"
| "init_children k req (c # cs) n co =
     (if hasVisitedNode req c then init_children k req cs n co
      else init_children k req cs (n + 1) (on_state k (initializeWorker c) co))"

definition initializeExecuteProgress :: "nat \<Rightarrow> QueryRequest \<Rightarrow> coordinator \<Rightarrow> coordinator" where
  "initializeExecuteProgress k req co =
     (let (n, co) = (case find (worker_selected co req) (co_workers co) of
                       None \<Rightarrow> (0, co)
                     | Some w \<Rightarrow> (1, on_state k (initializeWorker (getNodeId w)) co));
          (n, co) = (case (co_overlay co, co_remoteClient co) of
                       (Some overlay, Some _) \<Rightarrow>
                         (if qq_distributedAllowed req
                          then init_children k req (getChildren overlay (co_selfNodeId co)) n co
                          else (n, co))
                     | _ \<Rightarrow> (n, co))
      in on_state k (setExpectedWorkers n) co)"

section \<open>EXECUTE windows\<close>

definition fetchLocalExecuteChunk :: "'e system \<Rightarrow> nat \<Rightarrow> nat \<Rightarrow> coordinator \<Rightarrow> bool \<times> coordinator" where
  "fetchLocalExecuteChunk sys k maxRows co =
     (let baseRequest = rs_request (state_at co k) in
      case find (worker_selected co baseRequest) (co_workers co) of
        None \<Rightarrow> (False, co)
      | Some worker \<Rightarrow>
          let progress = fst (getWorkerProgress (getNodeId worker) (state_at co k));
              co = on_state k (\<lambda>s. snd (getWorkerProgress (getNodeId worker) s)) co
          in if wp_completed progress then (False, co)
             else let localReq = baseRequest\<lparr>qq_distributedAllowed := False,
                        qq_startRow := wp_nextStartRow progress,
                        qq_chunkSize := chooseAdaptiveChunkSize co maxRows,
                        qq_scanRowBudget := 50000\<rparr>;
                      res = worker_runExecute (sys_fs sys) worker localReq;
                      co = on_state k (mergePartialResult res) co;
                      co = on_state k (updateWorkerProgress (getNodeId worker)
                             (qr_nextStartRow res) (qr_hasMore res)) co
                  in (qr_matchedTrips res \<noteq> [], co))"

definition child_request :: "coordinator \<Rightarrow> QueryRequest \<Rightarrow> node_id list \<Rightarrow> nat \<Rightarrow> QueryRequest" where
  \<comment> \<open>the copy of the request sent to a child, marked with this node and all its children\<close>
  "child_request co baseRequest children maxRows =
     fold markVisitedNode children
       (markVisitedNode (co_selfNodeId co)
          (baseRequest\<lparr>qq_distributedAllowed := True,
             qq_chunkSize := chooseAdaptiveChunkSize co maxRows\<rparr>))"

definition fail_child :: "nat \<Rightarrow> node_id \<Rightarrow> WorkerProgress \<Rightarrow> coordinator \<Rightarrow> coordinator" where
  "fail_child k c p co = on_state k (putWorkerProgress c (p\<lparr>wp_completed := True, wp_hasMore := False\<rparr>)) co"

definition fetch_from_child ::
  "'e system \<Rightarrow> nat \<Rightarrow> nat \<Rightarrow> node_id \<Rightarrow> WorkerProgress \<Rightarrow> remote_client \<Rightarrow> coordinator \<Rightarrow> 'e
     \<Rightarrow> bool \<times> coordinator \<times> 'e"
where
  \<comment> \<open>the second half of the loop body: one chunk of a submitted subquery\<close>
  "fetch_from_child sys k maxRows c progress client co e =
     (case fetchSubChunk (sys_ops sys) c (wp_remoteRequestId progress)
             (chooseAdaptiveChunkSize co maxRows) client e of (chunk, client, e) \<Rightarrow>
        let co = co\<lparr>co_remoteClient := Some client\<rparr> in
        if \<not> sc_ok chunk then (False, fail_child k c progress co, e)
        else let n = length (sc_trips chunk);
                 res = empty_QueryResult\<lparr>qr_rowsScanned := n, qr_rowsMatched := n,
                   qr_rowsEmitted := n, qr_matchedTrips := sc_trips chunk,
                   qr_matchedTripSources := (if length (sc_sources chunk) = n then sc_sources chunk
                                             else replicate n c),
                   qr_hasMore := \<not> sc_done chunk\<rparr>;
                 co = on_state k (mergePartialResult res) co;
                 co = on_state k (updateWorkerProgress c (wp_nextStartRow progress) (\<not> sc_done chunk)) co
             in (sc_trips chunk \<noteq> [], co, e))"

definition fetch_remote_child ::
  "'e system \<Rightarrow> nat \<Rightarrow> nat \<Rightarrow> node_id list \<Rightarrow> node_id \<Rightarrow> coordinator \<Rightarrow> 'e \<Rightarrow> bool \<times> coordinator \<times> 'e"
where
  \<comment> \<open>the loop body for one child; the client is present (checked before the loop)\<close>
  "fetch_remote_child sys k maxRows children c co e =
     (let baseRequest = rs_request (state_at co k) in
      if hasVisitedNode baseRequest c then (False, co, e)
      else let progress = fst (getWorkerProgress c (state_at co k));
               co = on_state k (\<lambda>s. snd (getWorkerProgress c s)) co
      in if wp_completed progress then (False, co, e)
      else case co_remoteClient co of
        None \<Rightarrow> (False, co, e)
      | Some client \<Rightarrow>
          if \<not> wp_submitted progress then
            (case submitSubQuery (sys_ops sys) c (child_request co baseRequest children maxRows)
                    (rs_queryId (state_at co k)) client e of ((ok, remoteId, message), client, e) \<Rightarrow>
               let progress = progress\<lparr>wp_remoteRequestId := remoteId\<rparr>;
                   co = co\<lparr>co_remoteClient := Some client\<rparr>
               in if \<not> ok then (False, fail_child k c progress co, e)
                  else let progress = progress\<lparr>wp_submitted := True\<rparr>;
                           co = on_state k (putWorkerProgress c progress) co
                       in fetch_from_child sys k maxRows c progress client co e)
          else fetch_from_child sys k maxRows c progress client co e)"

fun fetch_remote_loop ::
  "'e system \<Rightarrow> nat \<Rightarrow> nat \<Rightarrow> node_id list \<Rightarrow> node_id list \<Rightarrow> bool \<Rightarrow> coordinator \<Rightarrow> 'e
     \<Rightarrow> bool \<times> coordinator \<times> 'e"
where
  "fetch_remote_loop sys k maxRows children [] fetchedAny co e = (fetchedAny, co, e)"
| "fetch_remote_loop sys k maxRows children (c # cs) fetchedAny co e =
     (case fetch_remote_child sys k maxRows children c co e of (got, co, e) \<Rightarrow>
        fetch_remote_loop sys k maxRows children cs (fetchedAny \<or> got) co e)"

definition fetchRemoteExecuteChunks ::
  "'e system \<Rightarrow> nat \<Rightarrow> nat \<Rightarrow> coordinator \<Rightarrow> 'e \<Rightarrow> bool \<times> coordinator \<times> 'e"
where
  "fetchRemoteExecuteChunks sys k maxRows co e =
     (case (co_overlay co, co_remoteClient co) of
        (Some overlay, Some _) \<Rightarrow>
          let children = getChildren overlay (co_selfNodeId co)
          in fetch_remote_loop sys k maxRows children children False co e
      | _ \<Rightarrow> (False, co, e))"

definition fetchNextExecuteChunks ::
  "'e system \<Rightarrow> nat \<Rightarrow> nat \<Rightarrow> coordinator \<Rightarrow> 'e \<Rightarrow> bool \<times> coordinator \<times> 'e"
where
  "fetchNextExecuteChunks sys k maxRows co e =
     (let s = state_at co k;
          co = (if rs_nextUnreadIndex s \<ge> length (qr_matchedTrips (rs_aggregatedResult s))
                then on_state k clearAggregatedRows co else co);
          (localFetched, remoteFetched, co, e) =
            (if shouldFetchRemoteFirst (state_at co k)
             then case fetchRemoteExecuteChunks sys k maxRows co e of (r, co, e) \<Rightarrow>
                  case fetchLocalExecuteChunk sys k maxRows co of (l, co) \<Rightarrow> (l, r, co, e)
             else case fetchLocalExecuteChunk sys k maxRows co of (l, co) \<Rightarrow>
                  case fetchRemoteExecuteChunks sys k maxRows co e of (r, co, e) \<Rightarrow> (l, r, co, e));
          co = on_state k advanceFetchRound co;
          co = (if allWorkersCompleted (state_at co k) then on_state k (setState COMPLETED) co else co)
      in (localFetched \<or> remoteFetched, co, e))"

definition fetchChunkForRpc ::
  "'e system \<Rightarrow> string \<Rightarrow> nat \<Rightarrow> coordinator \<Rightarrow> 'e \<Rightarrow> RpcChunkResult \<times> coordinator \<times> 'e"
where
  "fetchChunkForRpc sys requestId maxRows co e =
     (let out = new_RpcChunkResult\<lparr>rp_requestId := requestId\<rparr> in
      case findRequestState co requestId of
        None \<Rightarrow> (out\<lparr>rp_found := False, rp_done := True, rp_message := ''request not found''\<rparr>, co, e)
      | Some k \<Rightarrow>
          let out = out\<lparr>rp_found := True\<rparr> in
          if rs_state (state_at co k) = CANCELLED
          then (out\<lparr>rp_done := True, rp_message := ''request cancelled''\<rparr>, co, e)
          else if rs_state (state_at co k) = TIMED_OUT
          then (out\<lparr>rp_done := True, rp_message := ''request timed out''\<rparr>, co, e)
          else if qq_queryType (rs_request (state_at co k)) = Count
          then (out\<lparr>rp_done := True, rp_message := ''count complete''\<rparr>, co, e)
          else
            let adaptiveMaxRows = chooseAdaptiveChunkSize co maxRows;
                s = state_at co k;
                (co, e) = (if rs_nextUnreadIndex s \<ge> length (qr_matchedTrips (rs_aggregatedResult s)) \<and>
                              \<not> allWorkersCompleted s
                           then snd (fetchNextExecuteChunks sys k adaptiveMaxRows co e) else (co, e));
                s = state_at co k;
                agg = rs_aggregatedResult s;
                start = rs_nextUnreadIndex s;
                available = length (qr_matchedTrips agg)
            in if start \<ge> available
               then (out\<lparr>rp_done := allWorkersCompleted s,
                         rp_message := (if allWorkersCompleted s then ''done'' else ''no rows available yet'')\<rparr>,
                     co, e)
               else
                 let n = min adaptiveMaxRows (available - start);
                     out = out\<lparr>rp_trips := take n (drop start (qr_matchedTrips agg)),
                       rp_sources := (if length (qr_matchedTripSources agg) \<ge> start + n
                                      then take n (drop start (qr_matchedTripSources agg))
                                      else replicate n (co_selfNodeId co))\<rparr>;
                     co = on_state k (setNextUnreadIndex (start + n)) co;
                     s = state_at co k
                 in if rs_nextUnreadIndex s \<ge> available \<and> allWorkersCompleted s
                    then (out\<lparr>rp_done := True, rp_message := ''done''\<rparr>, on_state k (setState COMPLETED) co, e)
                    else (out\<lparr>rp_done := False, rp_message := ''more''\<rparr>, co, e))"

section \<open>COUNT\<close>

definition aggregateCountResults :: "QueryResult list \<Rightarrow> QueryResult" where
  "aggregateCountResults results =
     fold (\<lambda>r a. a\<lparr>qr_rowsScanned := qr_rowsScanned a + qr_rowsScanned r,
                   qr_rowsMatched := qr_rowsMatched a + qr_rowsMatched r\<rparr>) results empty_QueryResult"

definition aggregateExecuteResults :: "QueryResult list \<Rightarrow> QueryRequest \<Rightarrow> QueryResult" where
  "aggregateExecuteResults results req =
     (let a = fold (\<lambda>r a. QueryResult_merge a r) results empty_QueryResult
      in a\<lparr>qr_rowsEmitted := length (qr_matchedTrips a)\<rparr>)"

definition mark_local_start :: "string \<Rightarrow> coordinator \<Rightarrow> coordinator" where
  "mark_local_start i co =
     (case findRequestState co i of None \<Rightarrow> co | Some k \<Rightarrow> on_state k (setExpectedWorkers 1) co)"

definition mark_local_end :: "string \<Rightarrow> coordinator \<Rightarrow> coordinator" where
  "mark_local_end i co =
     (case findRequestState co i of None \<Rightarrow> co | Some k \<Rightarrow> on_state k incrementCompletedWorkers co)"

definition processLocalCount :: "'e system \<Rightarrow> QueryRequest \<Rightarrow> coordinator \<Rightarrow> QueryResult \<times> coordinator" where
  "processLocalCount sys req co =
     (case determineTargetWorkers co req of
        [] \<Rightarrow> (empty_QueryResult, co)
      | i # _ \<Rightarrow>
          let co = mark_local_start (qq_queryId req) co;
              res = worker_runCount (sys_fs sys) (co_workers co ! i) req
          in (res, mark_local_end (qq_queryId req) co))"

definition processLocalExecute :: "'e system \<Rightarrow> QueryRequest \<Rightarrow> coordinator \<Rightarrow> QueryResult \<times> coordinator" where
  "processLocalExecute sys req co =
     (case determineTargetWorkers co req of
        [] \<Rightarrow> (empty_QueryResult, co)
      | i # _ \<Rightarrow>
          let co = mark_local_start (qq_queryId req) co;
              localReq = req\<lparr>qq_chunkSize := chooseAdaptiveChunkSize co (qq_chunkSize req)\<rparr>;
              res = worker_runExecute (sys_fs sys) (co_workers co ! i) localReq
          in (res, mark_local_end (qq_queryId req) co))"

fun count_children ::
  "'e system \<Rightarrow> QueryRequest \<Rightarrow> node_id list \<Rightarrow> QueryResult list \<Rightarrow> remote_client \<Rightarrow> 'e
     \<Rightarrow> QueryResult list \<times> remote_client \<times> 'e"
where
  "count_children sys req [] partials client e = (partials, client, e)"
| "count_children sys req (c # cs) partials client e =
     (case submitSubQuery (sys_ops sys) c (req\<lparr>qq_queryType := Count, qq_distributedAllowed := True\<rparr>)
             (qq_queryId req) client e of ((ok, remoteId, message), client, e) \<Rightarrow>
        if \<not> ok then count_children sys req cs partials client e
        else case fetchSubChunk (sys_ops sys) c remoteId 0 client e of (chunk, client, e) \<Rightarrow>
          if \<not> sc_ok chunk then count_children sys req cs partials client e
          else count_children sys req cs
                 (partials @ [empty_QueryResult\<lparr>qr_rowsMatched := length (sc_trips chunk),
                                qr_rowsScanned := length (sc_trips chunk)\<rparr>]) client e)"

definition processDistributedCount ::
  "'e system \<Rightarrow> QueryRequest \<Rightarrow> coordinator \<Rightarrow> 'e \<Rightarrow> QueryResult \<times> coordinator \<times> 'e"
where
  "processDistributedCount sys req co e =
     (let partials = (case find (\<lambda>w. getNodeId w = co_selfNodeId co) (co_workers co) of
                        None \<Rightarrow> [] | Some w \<Rightarrow> [worker_runCount (sys_fs sys) w req])
      in case (co_overlay co, co_remoteClient co) of
           (Some overlay, Some client) \<Rightarrow>
             (case count_children sys req (getChildren overlay (co_selfNodeId co)) partials client e of
                (partials, client, e) \<Rightarrow>
                  (aggregateCountResults partials, co\<lparr>co_remoteClient := Some client\<rparr>, e))
         | _ \<Rightarrow> (aggregateCountResults partials, co, e))"

section \<open>Entry points\<close>

definition runCount :: "'e system \<Rightarrow> QueryRequest \<Rightarrow> coordinator \<Rightarrow> 'e \<Rightarrow> QueryResult \<times> coordinator \<times> 'e" where
  "runCount sys req co e =
     (let (k, co) = createRequestState req co;
          co = on_state k (setState IN_PROGRESS) co;
          (res, co, e) =
            (if canProcessLocally co req
             then (case processLocalCount sys req co of (res, co) \<Rightarrow> (res, co, e))
             else let co = on_state k (setExpectedWorkers (length (determineTargetWorkers co req))) co
                  in processDistributedCount sys req co e);
          co = on_state k (\<lambda>s. s\<lparr>rs_aggregatedResult := res\<rparr>) co;
          co = (if rs_state (state_at co k) = IN_PROGRESS then on_state k (setState COMPLETED) co else co)
      in (res, co, e))"

definition runExecute :: "'e system \<Rightarrow> QueryRequest \<Rightarrow> coordinator \<Rightarrow> 'e \<Rightarrow> QueryResult \<times> coordinator \<times> 'e" where
  "runExecute sys req co e =
     (let (k, co) = createRequestState req co;
          co = on_state k (setState IN_PROGRESS) co;
          co = initializeExecuteProgress k req co;
          (_, co, e) = fetchNextExecuteChunks sys k (qq_chunkSize req) co e;
          s = state_at co k;
          co = (if allWorkersCompleted s \<and>
                   rs_nextUnreadIndex s \<ge> length (qr_matchedTrips (rs_aggregatedResult s))
                then on_state k (setState COMPLETED) co else co)
      in (rs_aggregatedResult (state_at co k), co, e))"

definition processDistributedExecute ::
  "'e system \<Rightarrow> QueryRequest \<Rightarrow> coordinator \<Rightarrow> 'e \<Rightarrow> QueryResult \<times> coordinator \<times> 'e"
where
  "processDistributedExecute sys req co e =
     (let (k, co) = createRequestState req co;
          co = on_state k (setState IN_PROGRESS) co;
          co = initializeExecuteProgress k req co;
          (_, co, e) = fetchNextExecuteChunks sys k (qq_chunkSize req) co e
      in (rs_aggregatedResult (state_at co k), co, e))"

definition begin_execute :: "QueryRequest \<Rightarrow> coordinator \<Rightarrow> coordinator" where
  \<comment> \<open>the EXECUTE tail shared by both submit functions\<close>
  "begin_execute req co =
     (let (k, co) = createRequestState req co;
          co = on_state k (setState IN_PROGRESS) co
      in initializeExecuteProgress k req co)"

definition submitClientQuery :: "'e system \<Rightarrow> QueryRequest \<Rightarrow> coordinator \<Rightarrow> 'e \<Rightarrow> string \<times> coordinator \<times> 'e" where
  "submitClientQuery sys req co e =
     (case ensureQueryId req co of (queryId, req, co) \<Rightarrow>
        let req = markVisitedNode (co_selfNodeId co) req
        in if qq_queryType req = Count then (queryId, snd (runCount sys req co e))
           else (queryId, begin_execute req co, e))"

definition co_submitSubQuery ::
  "'e system \<Rightarrow> QueryRequest \<Rightarrow> string \<Rightarrow> coordinator \<Rightarrow> 'e \<Rightarrow> string \<times> coordinator \<times> 'e"
where
  "co_submitSubQuery sys req parentRequestId co e =
     (case ensureQueryId req co of (queryId, req, co) \<Rightarrow>
        let req = markVisitedNode (co_selfNodeId co) (req\<lparr>qq_distributedAllowed := True\<rparr>)
        in if qq_queryType req = Count then (queryId, snd (runCount sys req co e))
           else (queryId, begin_execute req co, e))"

definition materializeTripsForChunk :: "QueryResult \<Rightarrow> nat \<Rightarrow> nat \<Rightarrow> TaxiTrip list" where
  \<comment> \<open>the rows are not looked up: every trip is a default one\<close>
  "materializeTripsForChunk res start n =
     (if start \<ge> length (qr_matchedRows res) \<or> n = 0 then []
      else let fin = min (start + n) (length (qr_matchedRows res))
           in replicate (fin - start) empty_trip)"

end
