(* ===== verification/Coordinator_Facts.thy ===== *)
theory Coordinator_Facts
  imports Query_Coordinator
begin

text \<open>
  Facts about \<open>QueryCoordinator\<close> that hold whatever the children answer: request lookup and
  identifiers, the bounds of the adaptive chunk size, the invariant of the request records
  and its preservation by every operation, and what a fetch returns.
\<close>

section \<open>Lookup and update\<close>

lemma findRequestState_Some:
  assumes "findRequestState co i = Some k"
  shows "k < length (co_queryStates co) \<and> rs_queryId (state_at co k) = i \<and>
    (\<forall>j<k. rs_queryId (state_at co j) \<noteq> i)"
  using assms unfolding findRequestState_def find_Some_iff
  by (auto simp: state_at_def)

lemma findRequestState_None:
  "findRequestState co i = None \<longleftrightarrow> i \<notin> set (map rs_queryId (co_queryStates co))"
proof -
  have "i \<in> set (map rs_queryId (co_queryStates co)) \<longleftrightarrow>
      (\<exists>k < length (co_queryStates co). rs_queryId (co_queryStates co ! k) = i)"
    unfolding in_set_conv_nth by auto
  then show ?thesis by (auto simp: findRequestState_def find_None_iff)
qed

lemma findRequestState_unique:
  assumes "distinct (map rs_queryId (co_queryStates co))" and "k < length (co_queryStates co)"
  shows "findRequestState co (rs_queryId (state_at co k)) = Some k"
proof (cases "findRequestState co (rs_queryId (state_at co k))")
  case None
  then show ?thesis using assms(2) by (auto simp: findRequestState_None state_at_def)
next
  case (Some j)
  from findRequestState_Some [OF this] have "j < length (co_queryStates co)"
    "rs_queryId (state_at co j) = rs_queryId (state_at co k)" by auto
  with assms have "j = k" by (auto simp: state_at_def distinct_conv_nth)
  with Some show ?thesis by simp
qed

lemma findRequestState_cong:
  "map rs_queryId (co_queryStates co) = map rs_queryId (co_queryStates co') \<Longrightarrow>
     findRequestState co i = findRequestState co' i"
proof -
  assume eq: "map rs_queryId (co_queryStates co) = map rs_queryId (co_queryStates co')"
  then have len: "length (co_queryStates co) = length (co_queryStates co')"
    by (rule map_eq_imp_length_eq)
  have "rs_queryId (co_queryStates co ! k) = rs_queryId (co_queryStates co' ! k)"
    if "k < length (co_queryStates co')" for k
    using eq len that by (metis nth_map)
  then show ?thesis unfolding findRequestState_def len
    by (intro find_cong) auto
qed

lemma on_state_frame [state_simps, simp]:
  "co_workers (on_state k f co) = co_workers co"
  "co_nextQuerySeq (on_state k f co) = co_nextQuerySeq co"
  "co_remoteClient (on_state k f co) = co_remoteClient co"
  "co_overlay (on_state k f co) = co_overlay co"
  "co_selfNodeId (on_state k f co) = co_selfNodeId co"
  "length (co_queryStates (on_state k f co)) = length (co_queryStates co)"
  by (simp_all add: on_state_def)

lemma on_state_beyond: "\<not> k < length (co_queryStates co) \<Longrightarrow> on_state k f co = co"
  by (simp add: on_state_def list_update_beyond)

lemma state_at_on_state [state_simps, simp]:
  "k < length (co_queryStates co) \<Longrightarrow>
     state_at (on_state k f co) j = (if j = k then f (state_at co k) else state_at co j)"
  by (simp add: on_state_def state_at_def nth_list_update)

lemma state_at_client [simp]:
  "state_at (co\<lparr>co_remoteClient := c\<rparr>) k = state_at co k"
  "state_at (co\<lparr>co_nextQuerySeq := n\<rparr>) k = state_at co k"
  by (simp_all add: state_at_def)

lemma on_state_ids:
  assumes "\<And>s. rs_queryId (f s) = rs_queryId s"
  shows "map rs_queryId (co_queryStates (on_state k f co)) = map rs_queryId (co_queryStates co)"
proof (cases "k < length (co_queryStates co)")
  case True
  then show ?thesis using assms
    by (auto simp: on_state_def state_at_def map_update intro!: nth_equalityI simp: nth_list_update)
qed (simp add: on_state_beyond)

section \<open>Adaptive chunk size\<close>

lemma chooseAdaptiveChunkSize_bounds:
  "0 < chooseAdaptiveChunkSize co m \<and> chooseAdaptiveChunkSize co m \<le> LARGE_CHUNK_SIZE \<and>
   (m \<noteq> 0 \<longrightarrow> chooseAdaptiveChunkSize co m \<le> m) \<and>
   (m = 0 \<longrightarrow> chooseAdaptiveChunkSize co m \<in> {SMALL_CHUNK_SIZE, DEFAULT_CHUNK_SIZE, LARGE_CHUNK_SIZE})"
  by (auto simp: chooseAdaptiveChunkSize_def Let_def SMALL_CHUNK_SIZE_def DEFAULT_CHUNK_SIZE_def
      LARGE_CHUNK_SIZE_def)

lemma pressure_range: "0 \<le> getCoordinatorPressureRatio co \<and> getCoordinatorPressureRatio co \<le> 1"
  by (simp add: getCoordinatorPressureRatio_def Let_def PRESSURE_REQUEST_LIMIT_def
      PRESSURE_ROW_LIMIT_def le_max_iff_disj)

definition activeRequests :: "coordinator \<Rightarrow> nat" where
  "activeRequests co = length (filter (\<lambda>s. \<not> isTerminal s) (co_queryStates co))"

definition cachedRows :: "coordinator \<Rightarrow> nat" where
  "cachedRows co = sum_list (map (\<lambda>s. length (qr_matchedTrips (rs_aggregatedResult s))) (co_queryStates co))"

lemma pressure_compare:
  fixes c :: rat
  assumes "c \<le> 1"
  shows "c \<le> getCoordinatorPressureRatio co \<longleftrightarrow>
    c * 10 \<le> of_nat (activeRequests co) \<or> c * 10000 \<le> of_nat (cachedRows co)"
  using assms
  by (auto simp: getCoordinatorPressureRatio_def Let_def PRESSURE_REQUEST_LIMIT_def
      PRESSURE_ROW_LIMIT_def activeRequests_def cachedRows_def le_max_iff_disj field_simps)

lemma pressure_low:
  "getCoordinatorPressureRatio co \<le> 1 / 5 \<longleftrightarrow> activeRequests co \<le> 2 \<and> cachedRows co \<le> 2000"
proof -
  have "(of_nat n :: rat) / 10 \<le> 1 / 5 \<longleftrightarrow> n \<le> 2" for n :: nat
  proof -
    have "(of_nat n :: rat) / 10 \<le> 1 / 5 \<longleftrightarrow> (of_nat n :: rat) \<le> of_nat 2" by (simp add: field_simps)
    then show ?thesis by (simp only: of_nat_le_iff)
  qed
  moreover have "(of_nat n :: rat) / 10000 \<le> 1 / 5 \<longleftrightarrow> n \<le> 2000" for n :: nat
  proof -
    have "(of_nat n :: rat) / 10000 \<le> 1 / 5 \<longleftrightarrow> (of_nat n :: rat) \<le> of_nat 2000" by (simp add: field_simps)
    then show ?thesis by (simp only: of_nat_le_iff)
  qed
  moreover have "getCoordinatorPressureRatio co =
      min 1 (max (of_nat (activeRequests co) / 10) (of_nat (cachedRows co) / 10000))"
    by (simp add: getCoordinatorPressureRatio_def Let_def PRESSURE_REQUEST_LIMIT_def
        PRESSURE_ROW_LIMIT_def activeRequests_def cachedRows_def)
  moreover have "\<not> (1 :: rat) \<le> 1 / 5" by simp
  ultimately show ?thesis by (simp only: min_le_iff_disj max.bounded_iff simp_thms)
qed

lemma pressure_high:
  "4 / 5 \<le> getCoordinatorPressureRatio co \<longleftrightarrow> 8 \<le> activeRequests co \<or> 8000 \<le> cachedRows co"
proof -
  have "(4 / 5 :: rat) * 10 = of_nat 8" "(4 / 5 :: rat) * 10000 = of_nat 8000" by simp_all
  then show ?thesis using pressure_compare [of "4 / 5" co] by (simp only: of_nat_le_iff)
qed

section \<open>Invariant\<close>

definition coordinator_inv :: "coordinator \<Rightarrow> bool" where
  "coordinator_inv co \<longleftrightarrow>
     list_all (\<lambda>s. request_inv s \<and> rs_queryId s = qq_queryId (rs_request s)) (co_queryStates co) \<and>
     distinct (map rs_queryId (co_queryStates co)) \<and>
     (\<forall>c. co_remoteClient co = Some c \<longrightarrow> stubs_ok c)"

definition good_update :: "(RequestState \<Rightarrow> RequestState) \<Rightarrow> bool" where
  "good_update f \<longleftrightarrow> (\<forall>s. rs_queryId (f s) = rs_queryId s \<and> rs_request (f s) = rs_request s \<and>
     (request_inv s \<longrightarrow> request_inv (f s)))"

lemma coordinator_inv_on_state [inv_intros]:
  assumes "coordinator_inv co" and "good_update f"
  shows "coordinator_inv (on_state k f co)"
proof -
  have "map rs_queryId (co_queryStates (on_state k f co)) = map rs_queryId (co_queryStates co)"
    using assms(2) by (intro on_state_ids) (simp add: good_update_def)
  moreover have "list_all (\<lambda>s. request_inv s \<and> rs_queryId s = qq_queryId (rs_request s))
      (co_queryStates (on_state k f co))"
  proof (cases "k < length (co_queryStates co)")
    case True
    then show ?thesis using assms
      by (auto simp: coordinator_inv_def good_update_def on_state_def state_at_def list_all_length
          nth_list_update)
  next
    case False
    then show ?thesis using assms by (simp add: on_state_beyond coordinator_inv_def)
  qed
  ultimately show ?thesis using assms(1) by (simp add: coordinator_inv_def)
qed

lemma progress_ok_frames [simp]:
  "progress_ok (setState q s) \<longleftrightarrow> progress_ok s"
  "progress_ok (advanceFetchRound s) \<longleftrightarrow> progress_ok s"
  "progress_ok (setNextUnreadIndex n s) \<longleftrightarrow> progress_ok s"
  "progress_ok (setExpectedWorkers n s) \<longleftrightarrow> progress_ok s"
  "progress_ok (mergePartialResult r s) \<longleftrightarrow> progress_ok s"
  "progress_ok (clearAggregatedRows s) \<longleftrightarrow> progress_ok s"
  by (rule progress_ok_cong; simp)+

lemma window_ok_frames [simp]:
  "window_ok (setState q s) \<longleftrightarrow> window_ok s"
  "window_ok (advanceFetchRound s) \<longleftrightarrow> window_ok s"
  "window_ok (setNextUnreadIndex n s) \<longleftrightarrow> window_ok s"
  "window_ok (setExpectedWorkers n s) \<longleftrightarrow> window_ok s"
  "window_ok (initializeWorker c s) \<longleftrightarrow> window_ok s"
  "window_ok (updateWorkerProgress c i b s) \<longleftrightarrow> window_ok s"
  "window_ok (putWorkerProgress c p s) \<longleftrightarrow> window_ok s"
  "window_ok (snd (getWorkerProgress c s)) \<longleftrightarrow> window_ok s"
  by (rule window_ok_cong; simp)+

lemma good_update_simple [inv_intros]:
  "good_update (setState q)" "good_update advanceFetchRound" "good_update (setNextUnreadIndex n)"
  "good_update (setExpectedWorkers n)"
  "good_update (initializeWorker c)" "good_update (updateWorkerProgress c n b)"
  "good_update (\<lambda>s. snd (getWorkerProgress c s))" "good_update clearAggregatedRows"
  by (simp_all add: good_update_def request_inv_def progress_ok_initialize progress_ok_update
      progress_ok_get window_ok_clear)

lemma good_update_increment [inv_intros]: "good_update incrementCompletedWorkers"
  by (simp add: good_update_def incrementCompletedWorkers_def request_inv_def progress_ok_def
      findWorkerProgress_def window_ok_def)

lemma good_update_merge [inv_intros]:
  "length (qr_matchedTripSources r) = length (qr_matchedTrips r) \<Longrightarrow> good_update (mergePartialResult r)"
  by (simp add: good_update_def request_inv_def window_ok_merge)

lemma good_update_put [inv_intros]:
  "(wp_completed p \<longleftrightarrow> \<not> wp_hasMore p) \<Longrightarrow> good_update (putWorkerProgress c p)"
  by (simp add: good_update_def request_inv_def progress_ok_put)

lemma good_update_result [inv_intros]:
  "length (qr_matchedTripSources r) = length (qr_matchedTrips r) \<Longrightarrow>
     good_update (\<lambda>s. s\<lparr>rs_aggregatedResult := r\<rparr>)"
  by (auto simp: good_update_def request_inv_def window_ok_def progress_ok_def findWorkerProgress_def)

lemma coordinator_inv_client [inv_intros]:
  "coordinator_inv co \<Longrightarrow> stubs_ok c \<Longrightarrow> coordinator_inv (co\<lparr>co_remoteClient := Some c\<rparr>)"
  by (simp add: coordinator_inv_def)

lemma coordinator_inv_seq [inv_intros]:
  "coordinator_inv co \<Longrightarrow> coordinator_inv (co\<lparr>co_nextQuerySeq := n\<rparr>)"
  by (simp add: coordinator_inv_def)

lemma coordinator_inv_request:
  "coordinator_inv co \<Longrightarrow> k < length (co_queryStates co) \<Longrightarrow> request_inv (state_at co k)"
  by (simp add: coordinator_inv_def state_at_def list_all_length)

lemma coordinator_inv_create [inv_intros]:
  assumes "coordinator_inv co"
  shows "coordinator_inv (snd (createRequestState req co))"
  using assms request_inv_new [of "qq_queryId req" req]
  by (auto simp: createRequestState_def coordinator_inv_def findRequestState_None new_RequestState_def
      split: option.splits)

lemma createRequestState_index:
  "fst (createRequestState req co) < length (co_queryStates (snd (createRequestState req co)))"
  by (auto simp: createRequestState_def dest: findRequestState_Some split: option.splits)

lemma createRequestState_id:
  "rs_queryId (state_at (snd (createRequestState req co)) (fst (createRequestState req co))) = qq_queryId req"
  by (auto simp: createRequestState_def state_at_def new_RequestState_def dest: findRequestState_Some
      split: option.splits)

lemma createRequestState_frame [simp]:
  "co_workers (snd (createRequestState req co)) = co_workers co"
  "co_remoteClient (snd (createRequestState req co)) = co_remoteClient co"
  "co_overlay (snd (createRequestState req co)) = co_overlay co"
  "co_selfNodeId (snd (createRequestState req co)) = co_selfNodeId co"
  by (simp_all add: createRequestState_def split: option.split)

end
