(* ===== verification/Coordinator_Steps.thy ===== *)
theory Coordinator_Steps
  imports Coordinator_Facts
begin

text \<open>
  What every operation of \<open>QueryCoordinator\<close> on one request keeps: \<open>steps k\<close> relates the
  coordinator before and after work on request \<open>k\<close>. It preserves the invariant, the routing
  data, every identifier and request, and the records of all other requests. Each operation
  is shown to be such a step, whatever the children answer.
\<close>

definition steps :: "nat \<Rightarrow> coordinator \<Rightarrow> coordinator \<Rightarrow> bool" where
  "steps k co co' \<longleftrightarrow>
     co_workers co' = co_workers co \<and> co_overlay co' = co_overlay co \<and>
     co_selfNodeId co' = co_selfNodeId co \<and> co_nextQuerySeq co' = co_nextQuerySeq co \<and>
     (co_remoteClient co' = None \<longleftrightarrow> co_remoteClient co = None) \<and>
     length (co_queryStates co') = length (co_queryStates co) \<and>
     (\<forall>j < length (co_queryStates co). rs_queryId (state_at co' j) = rs_queryId (state_at co j) \<and>
        rs_request (state_at co' j) = rs_request (state_at co j)) \<and>
     (\<forall>j < length (co_queryStates co). j \<noteq> k \<longrightarrow> state_at co' j = state_at co j) \<and>
     (coordinator_inv co \<longrightarrow> coordinator_inv co')"

lemma steps_refl [simp, intro]: "steps k co co"
  by (simp add: steps_def)

lemma steps_trans [trans]: "steps k a b \<Longrightarrow> steps k b c \<Longrightarrow> steps k a c"
  unfolding steps_def by auto

lemma steps_on_state: "good_update f \<Longrightarrow> steps k co (on_state k f co)"
proof (cases "k < length (co_queryStates co)")
  case True
  assume "good_update f"
  with True show ?thesis using coordinator_inv_on_state
    by (auto simp: steps_def good_update_def)
qed (simp add: on_state_beyond)

lemma steps_put:
  assumes "k < length (co_queryStates co) \<Longrightarrow> findWorkerProgress c (state_at co k) = Some q"
    and "wp_completed p = wp_completed q" and "wp_hasMore p = wp_hasMore q"
  shows "steps k co (on_state k (putWorkerProgress c p) co)"
proof (cases "k < length (co_queryStates co) \<and> coordinator_inv co")
  case True
  then have "progress_ok (state_at co k)" using coordinator_inv_request by (simp add: request_inv_def)
  with True assms have "wp_completed p \<longleftrightarrow> \<not> wp_hasMore p" by (auto simp: progress_ok_def)
  then show ?thesis by (intro steps_on_state good_update_put)
next
  case False
  then show ?thesis
    by (cases "k < length (co_queryStates co)") (auto simp: steps_def on_state_beyond)
qed

lemma steps_client:
  assumes "co_remoteClient co = Some c0" and "stubs_ok c0 \<Longrightarrow> stubs_ok c"
  shows "steps k co (co\<lparr>co_remoteClient := Some c\<rparr>)"
  using assms by (auto simp: steps_def coordinator_inv_def state_at_def)

lemma steps_request: "steps k co co' \<Longrightarrow> k < length (co_queryStates co) \<Longrightarrow>
    rs_request (state_at co' k) = rs_request (state_at co k)"
  by (simp add: steps_def)

lemma steps_length: "steps k co co' \<Longrightarrow> length (co_queryStates co') = length (co_queryStates co)"
  by (simp add: steps_def)

lemma steps_inv: "steps k co co' \<Longrightarrow> coordinator_inv co \<Longrightarrow> coordinator_inv co'"
  by (simp add: steps_def)

lemma steps_find:
  assumes "steps k co co'"
  shows "findRequestState co' i = findRequestState co i"
proof (rule findRequestState_cong)
  show "map rs_queryId (co_queryStates co') = map rs_queryId (co_queryStates co)"
    using assms by (auto simp: steps_def state_at_def intro: nth_equalityI)
qed

text \<open>Local window.\<close>

lemma worker_runExecute_lengths:
  "length (qr_matchedTripSources (worker_runExecute fs w req)) = length (qr_matchedTrips (worker_runExecute fs w req))"
  by (simp add: worker_runExecute_def Let_def add_rows_eq)

lemma steps_fetchLocal: "steps k co (snd (fetchLocalExecuteChunk sys k maxRows co))"
proof (cases "find (worker_selected co (rs_request (state_at co k))) (co_workers co)")
  case None
  then show ?thesis by (simp add: fetchLocalExecuteChunk_def)
next
  case (Some w)
  let ?co = "on_state k (\<lambda>s. snd (getWorkerProgress (getNodeId w) s)) co"
  have a: "steps k co ?co" by (intro steps_on_state good_update_simple)
  show ?thesis
    using Some a
    by (auto simp: fetchLocalExecuteChunk_def Let_def worker_runExecute_lengths split: option.split
        intro!: steps_trans [OF a] steps_trans [OF steps_on_state steps_on_state]
          good_update_simple good_update_merge)
qed

text \<open>Remote window.\<close>

lemma stubs_ok_submit: "stubs_ok c \<Longrightarrow> stubs_ok (fst (snd (submitSubQuery ops t req p c e)))"
  using getOrCreateStub_ok [of c ops t] by (simp add: submitSubQuery_client)

lemma stubs_ok_fetch: "stubs_ok c \<Longrightarrow> stubs_ok (fst (snd (fetchSubChunk ops t i m c e)))"
  using getOrCreateStub_ok [of c ops t] by (simp add: fetchSubChunk_client)

lemma steps_fail_child: "steps k co (fail_child k c p co)"
  by (simp add: fail_child_def steps_on_state good_update_put)

lemma steps_fetch_from_child:
  assumes "co_remoteClient co = Some c0" and "stubs_ok c0 \<Longrightarrow> stubs_ok client"
  shows "steps k co (fst (snd (fetch_from_child sys k maxRows c progress client co e)))"
proof -
  obtain chunk client' e' where f: "fetchSubChunk (sys_ops sys) c (wp_remoteRequestId progress)
      (chooseAdaptiveChunkSize co maxRows) client e = (chunk, client', e')" by (metis prod_cases3)
  have "stubs_ok c0 \<Longrightarrow> stubs_ok client'"
    using assms(2) stubs_ok_fetch [of client] f by (metis fst_conv snd_conv)
  then have a: "steps k co (co\<lparr>co_remoteClient := Some client'\<rparr>)"
    using assms(1) by (rule steps_client [rotated])
  show ?thesis
    by (auto simp: fetch_from_child_def f Let_def intro!: steps_trans [OF a] steps_fail_child
        steps_trans [OF steps_on_state steps_on_state] good_update_simple good_update_merge)
qed

lemma steps_fetch_remote_child:
  "steps k co (fst (snd (fetch_remote_child sys k maxRows children c co e)))"
proof (cases "hasVisitedNode (rs_request (state_at co k)) c")
  case True
  then show ?thesis by (simp add: fetch_remote_child_def)
next
  case False
  let ?progress = "fst (getWorkerProgress c (state_at co k))"
  let ?co = "on_state k (\<lambda>s. snd (getWorkerProgress c s)) co"
  have a: "steps k co ?co" by (intro steps_on_state good_update_simple)
  show ?thesis
  proof (cases "wp_completed ?progress \<or> co_remoteClient co = None")
    case True
    then show ?thesis using a False
      by (auto simp: fetch_remote_child_def Let_def split: option.split)
  next
    case active: False
    then obtain client where client: "co_remoteClient co = Some client" by auto
    obtain ok remoteId msg client' e' where sub: "submitSubQuery (sys_ops sys) c
        (child_request ?co (rs_request (state_at co k)) children maxRows)
        (rs_queryId (state_at ?co k)) client e = ((ok, remoteId, msg), client', e')"
      by (metis prod_cases3)
    have st: "stubs_ok client \<Longrightarrow> stubs_ok client'"
      using stubs_ok_submit [of client] sub by (metis fst_conv snd_conv)
    have b: "steps k ?co (?co\<lparr>co_remoteClient := Some client'\<rparr>)"
      by (rule steps_client [where ?c0.0 = client]) (simp_all add: client st)
    define p where "p = ?progress\<lparr>wp_remoteRequestId := remoteId, wp_submitted := True\<rparr>"
    show ?thesis
    proof (cases "wp_submitted ?progress")
      case True
      have "steps k ?co (fst (snd (fetch_from_child sys k maxRows c ?progress client ?co e)))"
        by (rule steps_fetch_from_child [where ?c0.0 = client]) (simp_all add: client)
      with a have "steps k co (fst (snd (fetch_from_child sys k maxRows c ?progress client ?co e)))"
        by (rule steps_trans)
      then show ?thesis using False active True client
        by (simp add: fetch_remote_child_def Let_def del: fst_getWorkerProgress)
    next
      case new: False
      let ?co2 = "?co\<lparr>co_remoteClient := Some client'\<rparr>"
      have ab: "steps k co ?co2" using a b by (rule steps_trans)
      show ?thesis
      proof (cases ok)
        case True
        have c: "steps k ?co2 (on_state k (putWorkerProgress c p) ?co2)"
          by (rule steps_put [where q = ?progress]) (simp_all add: p_def del: fst_getWorkerProgress)
        have d: "steps k (on_state k (putWorkerProgress c p) ?co2)
            (fst (snd (fetch_from_child sys k maxRows c p client' (on_state k (putWorkerProgress c p) ?co2) e')))"
          by (rule steps_fetch_from_child [where ?c0.0 = client']) simp_all
        have "fetch_remote_child sys k maxRows children c co e =
            fetch_from_child sys k maxRows c p client' (on_state k (putWorkerProgress c p) ?co2) e'"
          using False active new client sub True
          by (simp add: fetch_remote_child_def Let_def p_def del: fst_getWorkerProgress)
        with steps_trans [OF steps_trans [OF ab c] d] show ?thesis by simp
      next
        case fail: False
        have "fetch_remote_child sys k maxRows children c co e =
            (False, fail_child k c (?progress\<lparr>wp_remoteRequestId := remoteId\<rparr>) ?co2, e')"
          using False active new client sub fail
          by (simp add: fetch_remote_child_def Let_def del: fst_getWorkerProgress)
        with steps_trans [OF ab steps_fail_child] show ?thesis by simp
      qed
    qed
  qed
qed

lemma steps_fetch_remote_loop:
  "steps k co (fst (snd (fetch_remote_loop sys k maxRows children cs got co e)))"
proof (induction cs arbitrary: got co e)
  case (Cons c cs)
  obtain g co' e' where f: "fetch_remote_child sys k maxRows children c co e = (g, co', e')"
    by (metis prod_cases3)
  have "steps k co co'" using steps_fetch_remote_child [of k co sys maxRows children c e] f by simp
  with Cons.IH [of co' "got \<or> g" e'] show ?case by (auto simp: f intro: steps_trans)
qed simp

lemma steps_fetchRemote: "steps k co (fst (snd (fetchRemoteExecuteChunks sys k maxRows co e)))"
  using steps_fetch_remote_loop
  by (auto simp: fetchRemoteExecuteChunks_def Let_def split: option.split)

lemma steps_if: "steps k co a \<Longrightarrow> steps k co b \<Longrightarrow> steps k co (if c then a else b)"
  by simp

lemma steps_fetchNext: "steps k co (fst (snd (fetchNextExecuteChunks sys k maxRows co e)))"
proof -
  let ?s = "state_at co k"
  define co0 where "co0 = (if rs_nextUnreadIndex ?s \<ge> length (qr_matchedTrips (rs_aggregatedResult ?s))
      then on_state k clearAggregatedRows co else co)"
  have s0: "steps k co co0" unfolding co0_def by (intro steps_if steps_on_state good_update_simple steps_refl)
  define both where "both = (if shouldFetchRemoteFirst (state_at co0 k)
      then case fetchRemoteExecuteChunks sys k maxRows co0 e of (r, co, e) \<Rightarrow>
           case fetchLocalExecuteChunk sys k maxRows co of (l, co) \<Rightarrow> (l, r, co, e)
      else case fetchLocalExecuteChunk sys k maxRows co0 of (l, co) \<Rightarrow>
           case fetchRemoteExecuteChunks sys k maxRows co e of (r, co, e) \<Rightarrow> (l, r, co, e))"
  obtain l r co1 e1 where both: "both = (l, r, co1, e1)" by (metis prod_cases4)
  have s1: "steps k co0 co1"
    using both steps_fetchLocal [of k _ sys maxRows] steps_fetchRemote [of k _ sys maxRows] unfolding both_def
    by (auto split: if_splits prod.splits intro: steps_trans) (metis fst_conv snd_conv steps_trans)+
  have s2: "steps k co1 (on_state k advanceFetchRound co1)" by (intro steps_on_state good_update_simple)
  have s3: "steps k (on_state k advanceFetchRound co1)
      (if allWorkersCompleted (state_at (on_state k advanceFetchRound co1) k)
       then on_state k (setState COMPLETED) (on_state k advanceFetchRound co1)
       else on_state k advanceFetchRound co1)"
    by (intro steps_if steps_on_state good_update_simple steps_refl)
  have "fst (snd (fetchNextExecuteChunks sys k maxRows co e)) =
      (if allWorkersCompleted (state_at (on_state k advanceFetchRound co1) k)
       then on_state k (setState COMPLETED) (on_state k advanceFetchRound co1)
       else on_state k advanceFetchRound co1)"
    unfolding fetchNextExecuteChunks_def Let_def co0_def [symmetric] both_def [symmetric] both by simp
  then show ?thesis using steps_trans [OF steps_trans [OF steps_trans [OF s0 s1] s2] s3] by (simp only:)
qed

section \<open>Delivery\<close>

definition fetch_window :: "'e system \<Rightarrow> nat \<Rightarrow> nat \<Rightarrow> coordinator \<Rightarrow> 'e \<Rightarrow> coordinator \<times> 'e" where
  \<comment> \<open>the refill step of \<open>fetchChunkForRpc\<close>\<close>
  "fetch_window sys k m co e =
     (if rs_nextUnreadIndex (state_at co k) \<ge> length (qr_matchedTrips (rs_aggregatedResult (state_at co k))) \<and>
         \<not> allWorkersCompleted (state_at co k)
      then snd (fetchNextExecuteChunks sys k m co e) else (co, e))"

definition active_execute :: "coordinator \<Rightarrow> nat \<Rightarrow> bool" where
  "active_execute co k \<longleftrightarrow> rs_state (state_at co k) \<noteq> CANCELLED \<and> rs_state (state_at co k) \<noteq> TIMED_OUT \<and>
     qq_queryType (rs_request (state_at co k)) \<noteq> Count"

lemma steps_fetch_window: "steps k co (fst (fetch_window sys k m co e))"
  using steps_fetchNext [of k co sys m e] by (simp add: fetch_window_def)

lemma fetchChunk_unknown:
  "findRequestState co i = None \<Longrightarrow> fetchChunkForRpc sys i m co e =
     (new_RpcChunkResult\<lparr>rp_requestId := i, rp_done := True, rp_message := ''request not found''\<rparr>, co, e)"
  by (simp add: fetchChunkForRpc_def new_RpcChunkResult_def)

lemma fetchChunk_inactive:
  assumes "findRequestState co i = Some k" and "\<not> active_execute co k"
  shows "snd (fetchChunkForRpc sys i m co e) = (co, e)" and "rp_trips (fst (fetchChunkForRpc sys i m co e)) = []"
    and "rp_sources (fst (fetchChunkForRpc sys i m co e)) = []" and "rp_done (fst (fetchChunkForRpc sys i m co e))"
    and "rp_found (fst (fetchChunkForRpc sys i m co e))"
    and "rp_requestId (fst (fetchChunkForRpc sys i m co e)) = i"
  using assms by (auto simp: fetchChunkForRpc_def active_execute_def new_RpcChunkResult_def Let_def)

lemma fetchChunk_active:
  assumes "findRequestState co i = Some k" and "active_execute co k"
    and w: "fetch_window sys k (chooseAdaptiveChunkSize co m) co e = (co1, e1)"
  defines "s \<equiv> state_at co1 k"
  defines "trips \<equiv> qr_matchedTrips (rs_aggregatedResult s)"
  defines "n \<equiv> min (chooseAdaptiveChunkSize co m) (length trips - rs_nextUnreadIndex s)"
  shows "length trips \<le> rs_nextUnreadIndex s \<Longrightarrow> fetchChunkForRpc sys i m co e =
      (new_RpcChunkResult\<lparr>rp_requestId := i, rp_found := True, rp_done := allWorkersCompleted s,
         rp_message := (if allWorkersCompleted s then ''done'' else ''no rows available yet'')\<rparr>, co1, e1)"
    and "rs_nextUnreadIndex s < length trips \<Longrightarrow> fetchChunkForRpc sys i m co e =
      (let co2 = on_state k (setNextUnreadIndex (rs_nextUnreadIndex s + n)) co1;
           fin = (rs_nextUnreadIndex s + n \<ge> length trips \<and> allWorkersCompleted s)
       in (new_RpcChunkResult\<lparr>rp_requestId := i, rp_found := True,
             rp_trips := take n (drop (rs_nextUnreadIndex s) trips),
             rp_sources := (if length (qr_matchedTripSources (rs_aggregatedResult s)) \<ge> rs_nextUnreadIndex s + n
                then take n (drop (rs_nextUnreadIndex s) (qr_matchedTripSources (rs_aggregatedResult s)))
                else replicate n (co_selfNodeId co1)),
             rp_done := fin, rp_message := (if fin then ''done'' else ''more'')\<rparr>,
           if fin then on_state k (setState COMPLETED) co2 else co2, e1))"
proof -
  have k: "k < length (co_queryStates co1)"
    using findRequestState_Some [OF assms(1)] steps_fetch_window [of k co sys "chooseAdaptiveChunkSize co m" e] w
    by (simp add: steps_def)
  have awc: "allWorkersCompleted (setNextUnreadIndex j s) = allWorkersCompleted s" for j
    by (simp add: allWorkersCompleted_def setNextUnreadIndex_def)
  show "length trips \<le> rs_nextUnreadIndex s \<Longrightarrow> fetchChunkForRpc sys i m co e =
      (new_RpcChunkResult\<lparr>rp_requestId := i, rp_found := True, rp_done := allWorkersCompleted s,
         rp_message := (if allWorkersCompleted s then ''done'' else ''no rows available yet'')\<rparr>, co1, e1)"
    using assms(1,2) unfolding fetchChunkForRpc_def Let_def active_execute_def
    by (simp add: w [unfolded fetch_window_def] s_def trips_def new_RpcChunkResult_def)
  show "rs_nextUnreadIndex s < length trips \<Longrightarrow> fetchChunkForRpc sys i m co e =
      (let co2 = on_state k (setNextUnreadIndex (rs_nextUnreadIndex s + n)) co1;
           fin = (rs_nextUnreadIndex s + n \<ge> length trips \<and> allWorkersCompleted s)
       in (new_RpcChunkResult\<lparr>rp_requestId := i, rp_found := True,
             rp_trips := take n (drop (rs_nextUnreadIndex s) trips),
             rp_sources := (if length (qr_matchedTripSources (rs_aggregatedResult s)) \<ge> rs_nextUnreadIndex s + n
                then take n (drop (rs_nextUnreadIndex s) (qr_matchedTripSources (rs_aggregatedResult s)))
                else replicate n (co_selfNodeId co1)),
             rp_done := fin, rp_message := (if fin then ''done'' else ''more'')\<rparr>,
           if fin then on_state k (setState COMPLETED) co2 else co2, e1))"
    using assms(1,2) k awc unfolding fetchChunkForRpc_def Let_def active_execute_def
    by (simp add: w [unfolded fetch_window_def] s_def trips_def n_def new_RpcChunkResult_def)
qed

lemma steps_fetchChunk:
  assumes "findRequestState co i = Some k"
  shows "steps k co (fst (snd (fetchChunkForRpc sys i m co e)))"
proof (cases "active_execute co k")
  case False
  then show ?thesis using fetchChunk_inactive(1) [OF assms False, of sys m e] by simp
next
  case True
  obtain co1 e1 where w: "fetch_window sys k (chooseAdaptiveChunkSize co m) co e = (co1, e1)" by fastforce
  have s1: "steps k co co1" using steps_fetch_window [of k co sys "chooseAdaptiveChunkSize co m" e] w by simp
  note act = fetchChunk_active [OF assms True w]
  show ?thesis
  proof (cases "length (qr_matchedTrips (rs_aggregatedResult (state_at co1 k))) \<le> rs_nextUnreadIndex (state_at co1 k)")
    case True
    then show ?thesis using act(1) s1 by simp
  next
    case False
    then show ?thesis using act(2) s1
      by (auto simp: Let_def intro!: steps_trans [OF s1] steps_trans [OF steps_on_state steps_on_state]
          steps_on_state good_update_simple)
  qed
qed

lemma fetchChunk_inv: "coordinator_inv co \<Longrightarrow> coordinator_inv (fst (snd (fetchChunkForRpc sys i m co e)))"
  by (cases "findRequestState co i")
    (auto simp: fetchChunk_unknown intro: steps_inv [OF steps_fetchChunk])

text \<open>What one fetch returns.\<close>

lemma fetchChunk_result:
  assumes inv: "coordinator_inv co" and "fetchChunkForRpc sys i m co e = (out, co', e')"
  shows "length (rp_trips out) \<le> LARGE_CHUNK_SIZE" and "m \<noteq> 0 \<Longrightarrow> length (rp_trips out) \<le> m"
    and "length (rp_sources out) = length (rp_trips out)"
    and "rp_found out \<longleftrightarrow> findRequestState co i \<noteq> None"
    and "rp_requestId out = i"
proof -
  have "length (rp_trips out) \<le> LARGE_CHUNK_SIZE \<and> (m \<noteq> 0 \<longrightarrow> length (rp_trips out) \<le> m) \<and>
    length (rp_sources out) = length (rp_trips out) \<and> (rp_found out \<longleftrightarrow> findRequestState co i \<noteq> None) \<and>
    rp_requestId out = i"
  proof (cases "findRequestState co i")
    case None
    then show ?thesis using assms(2) by (auto simp: fetchChunk_unknown new_RpcChunkResult_def)
  next
    case (Some k)
    show ?thesis
    proof (cases "active_execute co k")
      case False
      then show ?thesis using fetchChunk_inactive(2,3,5,6) [OF Some False, of sys m e] assms(2) Some by simp
    next
      case True
      obtain co1 e1 where w: "fetch_window sys k (chooseAdaptiveChunkSize co m) co e = (co1, e1)" by fastforce
      have s1: "steps k co co1"
        using steps_fetch_window [of k co sys "chooseAdaptiveChunkSize co m" e] w by simp
      have "k < length (co_queryStates co1)"
        using findRequestState_Some [OF Some] steps_length [OF s1] by simp
      then have win: "window_ok (state_at co1 k)"
        using coordinator_inv_request [OF steps_inv [OF s1 inv]] by (simp add: request_inv_def)
      note act = fetchChunk_active [OF Some True w]
      note bd = chooseAdaptiveChunkSize_bounds [of co m]
      show ?thesis
      proof (cases "length (qr_matchedTrips (rs_aggregatedResult (state_at co1 k))) \<le> rs_nextUnreadIndex (state_at co1 k)")
        case True
        then show ?thesis using act(1) assms(2) Some by (auto simp: new_RpcChunkResult_def)
      next
        case False
        then show ?thesis using act(2) assms(2) Some bd win
          by (auto simp: Let_def new_RpcChunkResult_def window_ok_def)
      qed
    qed
  qed
  then show "length (rp_trips out) \<le> LARGE_CHUNK_SIZE" and "m \<noteq> 0 \<Longrightarrow> length (rp_trips out) \<le> m"
    and "length (rp_sources out) = length (rp_trips out)"
    and "rp_found out \<longleftrightarrow> findRequestState co i \<noteq> None" and "rp_requestId out = i" by auto
qed

end
