(* ===== verification/Coordinator_Entry.thy ===== *)
theory Coordinator_Entry
  imports Coordinator_Steps
begin

text \<open>
  The entry points of \<open>QueryCoordinator\<close>: submission, COUNT, cancellation and time-out keep
  the invariant; generated identifiers are fresh; a request starts with exactly its local
  worker and its unvisited children; distributed COUNT and its bound.
\<close>

section \<open>Submission\<close>

lemma steps_init_children: "steps k co (snd (init_children k req cs n co))"
  by (induction k req cs n co rule: init_children.induct)
    (auto intro: steps_trans [OF steps_on_state] good_update_simple)

lemma steps_initialize: "steps k co (initializeExecuteProgress k req co)"
proof -
  define p where "p = (case find (worker_selected co req) (co_workers co) of
      None \<Rightarrow> (0 :: nat, co) | Some w \<Rightarrow> (1, on_state k (initializeWorker (getNodeId w)) co))"
  obtain n co1 where p: "p = (n, co1)" by fastforce
  have a: "steps k co co1"
    using p by (auto simp: p_def intro: steps_on_state good_update_simple split: option.splits)
  define q where "q = (case (co_overlay co1, co_remoteClient co1) of
      (Some overlay, Some _) \<Rightarrow>
        (if qq_distributedAllowed req
         then init_children k req (getChildren overlay (co_selfNodeId co1)) n co1 else (n, co1))
    | _ \<Rightarrow> (n, co1))"
  obtain n' co2 where q: "q = (n', co2)" by fastforce
  have b: "steps k co1 co2"
    using q steps_init_children [of k co1 req _ n]
    by (auto simp: q_def split: option.splits if_splits) (metis snd_conv)
  have "initializeExecuteProgress k req co = on_state k (setExpectedWorkers n') co2"
    unfolding initializeExecuteProgress_def Let_def p_def [symmetric] p
    using q by (simp add: q_def)
  with steps_trans [OF steps_trans [OF a b] steps_on_state] show ?thesis
    by (simp add: good_update_simple)
qed

lemma coordinator_inv_begin [inv_intros]:
  assumes "coordinator_inv co"
  shows "coordinator_inv (begin_execute req co)"
proof -
  obtain k co1 where c: "createRequestState req co = (k, co1)" by fastforce
  have "coordinator_inv co1" using coordinator_inv_create [OF assms, of req] c by simp
  moreover have "steps k co1 (begin_execute req co)"
    by (auto simp: begin_execute_def c intro: steps_trans [OF steps_on_state steps_initialize] good_update_simple)
  ultimately show ?thesis using steps_inv by blast
qed

lemma ensureQueryId_inv:
  "coordinator_inv co \<Longrightarrow> coordinator_inv (snd (snd (ensureQueryId req co)))"
  by (simp add: ensureQueryId_def Let_def coordinator_inv_seq)

section \<open>COUNT\<close>

lemma aggregateCount_eq:
  "aggregateCountResults rs = empty_QueryResult\<lparr>qr_rowsScanned := sum_list (map qr_rowsScanned rs),
     qr_rowsMatched := sum_list (map qr_rowsMatched rs)\<rparr>"
proof -
  have "fold (\<lambda>r a. a\<lparr>qr_rowsScanned := qr_rowsScanned a + qr_rowsScanned r,
                    qr_rowsMatched := qr_rowsMatched a + qr_rowsMatched r\<rparr>) rs acc =
      acc\<lparr>qr_rowsScanned := qr_rowsScanned acc + sum_list (map qr_rowsScanned rs),
          qr_rowsMatched := qr_rowsMatched acc + sum_list (map qr_rowsMatched rs)\<rparr>" for acc
    by (induction rs arbitrary: acc) (simp_all add: add.assoc)
  from this [of empty_QueryResult] show ?thesis
    by (simp add: aggregateCountResults_def empty_QueryResult_def)
qed

lemma count_children_stubs:
  "stubs_ok client \<Longrightarrow> stubs_ok (fst (snd (count_children sys req cs ps client e)))"
proof (induction cs arbitrary: ps client e)
  case (Cons c cs)
  obtain ok i msg cl e1 where s: "submitSubQuery (sys_ops sys) c
      (req\<lparr>qq_queryType := Count, qq_distributedAllowed := True\<rparr>) (qq_queryId req) client e = ((ok, i, msg), cl, e1)"
    by (metis prod_cases3)
  obtain ch cl2 e2 where f: "fetchSubChunk (sys_ops sys) c i 0 cl e1 = (ch, cl2, e2)" by (metis prod_cases3)
  have "stubs_ok cl" using stubs_ok_submit [OF Cons.prems] s by (metis fst_conv snd_conv)
  moreover from this have "stubs_ok cl2" using stubs_ok_fetch f by (metis fst_conv snd_conv)
  ultimately show ?case using Cons.IH by (auto simp: s f)
qed simp

definition is_count_result :: "QueryResult \<Rightarrow> bool" where
  "is_count_result r \<longleftrightarrow> qr_matchedTrips r = [] \<and> qr_matchedTripSources r = []"

lemma is_count_result_worker: "is_count_result (worker_runCount fs w req)"
  by (simp add: is_count_result_def worker_runCount_def Let_def empty_QueryResult_def)

lemma is_count_result_empty: "is_count_result empty_QueryResult"
  by (simp add: is_count_result_def empty_QueryResult_def)

lemma is_count_result_aggregate: "is_count_result (aggregateCountResults rs)"
  by (simp add: is_count_result_def aggregateCount_eq empty_QueryResult_def)

lemma processDistributedCount_inv:
  assumes "coordinator_inv co"
  shows "coordinator_inv (fst (snd (processDistributedCount sys req co e)))"
    and "is_count_result (fst (processDistributedCount sys req co e))"
    and "length (co_queryStates (fst (snd (processDistributedCount sys req co e)))) = length (co_queryStates co)"
  using assms count_children_stubs [of _ sys req]
  by (auto simp: processDistributedCount_def Let_def is_count_result_aggregate coordinator_inv_def
      split: option.split prod.split) (metis fst_conv snd_conv)+

lemma processLocalCount_inv:
  assumes "coordinator_inv co"
  shows "coordinator_inv (snd (processLocalCount sys req co))"
    and "is_count_result (fst (processLocalCount sys req co))"
    and "length (co_queryStates (snd (processLocalCount sys req co))) = length (co_queryStates co)"
  using assms
  by (auto simp: processLocalCount_def Let_def mark_local_start_def mark_local_end_def is_count_result_worker
      is_count_result_empty
      intro!: coordinator_inv_on_state good_update_simple good_update_increment split: list.split option.split)

lemma coordinator_inv_runCount [inv_intros]:
  assumes "coordinator_inv co"
  shows "coordinator_inv (fst (snd (runCount sys req co e)))"
proof -
  obtain k co1 where c: "createRequestState req co = (k, co1)" by fastforce
  let ?co2 = "on_state k (setState IN_PROGRESS) co1"
  have i2: "coordinator_inv ?co2"
    using coordinator_inv_create [OF assms, of req] c
    by (auto intro!: coordinator_inv_on_state good_update_simple)
  let ?co3 = "on_state k (setExpectedWorkers (length (determineTargetWorkers ?co2 req))) ?co2"
  have i3: "coordinator_inv ?co3" by (intro coordinator_inv_on_state good_update_simple i2)
  define r where "r = (if canProcessLocally ?co2 req
      then (case processLocalCount sys req ?co2 of (res, co) \<Rightarrow> (res, co, e))
      else processDistributedCount sys req ?co3 e)"
  obtain res co4 e4 where r: "r = (res, co4, e4)" by (metis prod_cases3)
  have "coordinator_inv co4 \<and> is_count_result res"
    using r processLocalCount_inv [OF i2, of sys req] processDistributedCount_inv [OF i3, of sys req e]
    unfolding r_def by (auto split: if_splits prod.splits)
  then have "coordinator_inv (on_state k (\<lambda>s. s\<lparr>rs_aggregatedResult := res\<rparr>) co4)"
    by (intro coordinator_inv_on_state good_update_result) (auto simp: is_count_result_def)
  then show ?thesis
    unfolding runCount_def c prod.case Let_def r_def [symmetric] r
    by (auto intro: coordinator_inv_on_state good_update_simple)
qed

lemma coordinator_inv_submitClient [inv_intros]:
  assumes "coordinator_inv co"
  shows "coordinator_inv (fst (snd (submitClientQuery sys req co e)))"
proof -
  obtain i r co1 where "ensureQueryId req co = (i, r, co1)" by (metis prod_cases3)
  with ensureQueryId_inv [OF assms, of req] show ?thesis
    by (auto simp: submitClientQuery_def Let_def intro: coordinator_inv_runCount coordinator_inv_begin)
qed

lemma coordinator_inv_submitSub [inv_intros]:
  assumes "coordinator_inv co"
  shows "coordinator_inv (fst (snd (co_submitSubQuery sys req p co e)))"
proof -
  obtain i r co1 where "ensureQueryId req co = (i, r, co1)" by (metis prod_cases3)
  with ensureQueryId_inv [OF assms, of req] show ?thesis
    by (auto simp: co_submitSubQuery_def Let_def intro: coordinator_inv_runCount coordinator_inv_begin)
qed

lemma coordinator_inv_update [inv_intros]: "coordinator_inv co \<Longrightarrow> coordinator_inv (updateQueryState i q co)"
  by (auto simp: updateQueryState_def intro: coordinator_inv_on_state good_update_simple split: option.split)

lemma coordinator_inv_cancel [inv_intros]: "coordinator_inv co \<Longrightarrow> coordinator_inv (snd (snd (cancel i co)))"
  by (auto simp: cancel_def intro: coordinator_inv_on_state good_update_simple split: option.split)

lemma coordinator_inv_start: "coordinator_inv (make_QueryCoordinator n cfg (new_remote_client n cfg))"
  by (simp add: coordinator_inv_def make_QueryCoordinator_def new_QueryCoordinator_def stubs_ok_new)

section \<open>Identifiers\<close>

definition generated_ids :: "coordinator \<Rightarrow> bool" where
  \<comment> \<open>every request got its identifier from \<open>ensureQueryId\<close>\<close>
  "generated_ids co \<longleftrightarrow> (\<forall>s \<in> set (co_queryStates co).
     \<exists>n < co_nextQuerySeq co. rs_queryId s = ''q-'' @ show_nat n)"

lemma ensureQueryId_fresh:
  assumes "generated_ids co" and "qq_queryId req = []"
  shows "findRequestState co (fst (ensureQueryId req co)) = None"
proof -
  have "''q-'' @ show_nat (co_nextQuerySeq co) \<noteq> rs_queryId s" if "s \<in> set (co_queryStates co)" for s
    using assms(1) that show_nat_inj unfolding generated_ids_def by fastforce
  then show ?thesis using assms(2) by (auto simp: findRequestState_None ensureQueryId_def Let_def)
qed

text \<open>Submitting EXECUTE without an identifier appends one new request.\<close>

lemma steps_ids: "steps k co co' \<Longrightarrow> generated_ids co \<Longrightarrow> generated_ids co'"
proof -
  assume st: "steps k co co'" and g: "generated_ids co"
  have "\<exists>n < co_nextQuerySeq co'. rs_queryId s = ''q-'' @ show_nat n" if "s \<in> set (co_queryStates co')" for s
  proof -
    from that obtain j where j: "j < length (co_queryStates co')" "s = state_at co' j"
      by (auto simp: in_set_conv_nth state_at_def)
    with st have "rs_queryId s = rs_queryId (state_at co j)" "state_at co j \<in> set (co_queryStates co)"
      "co_nextQuerySeq co' = co_nextQuerySeq co"
      by (auto simp: steps_def state_at_def)
    with g show ?thesis by (auto simp: generated_ids_def)
  qed
  then show ?thesis by (simp add: generated_ids_def)
qed

lemma begin_execute_fresh:
  assumes "findRequestState co (qq_queryId req) = None"
  defines "k \<equiv> length (co_queryStates co)"
  defines "co1 \<equiv> co\<lparr>co_queryStates := co_queryStates co @ [new_RequestState (qq_queryId req) req]\<rparr>"
  shows "begin_execute req co =
      initializeExecuteProgress k req (on_state k (setState IN_PROGRESS) co1)"
    and "steps k co1 (begin_execute req co)"
    and "length (co_queryStates (begin_execute req co)) = Suc k"
    and "rs_request (state_at (begin_execute req co) k) = req"
    and "rs_queryId (state_at (begin_execute req co) k) = qq_queryId req"
proof -
  show eq: "begin_execute req co =
      initializeExecuteProgress k req (on_state k (setState IN_PROGRESS) co1)"
    using assms(1) by (simp add: begin_execute_def createRequestState_def k_def co1_def)
  show st: "steps k co1 (begin_execute req co)"
    unfolding eq by (intro steps_trans [OF steps_on_state steps_initialize] good_update_simple)
  have at: "state_at co1 k = new_RequestState (qq_queryId req) req" "k < length (co_queryStates co1)"
    by (simp_all add: co1_def k_def state_at_def nth_append)
  show "length (co_queryStates (begin_execute req co)) = Suc k"
    using steps_length [OF st] by (simp add: co1_def k_def)
  show "rs_request (state_at (begin_execute req co) k) = req"
    "rs_queryId (state_at (begin_execute req co) k) = qq_queryId req"
    using st at by (auto simp: steps_def new_RequestState_def)
qed

lemma submitClient_execute:
  assumes "generated_ids co" and "qq_queryId req = []" and "qq_queryType req = Execute"
    and "submitClientQuery sys req co e = (i, co', e')"
  shows "findRequestState co i = None" and "findRequestState co' i = Some (length (co_queryStates co))"
    and "generated_ids co'" and "e' = e"
proof -
  let ?i = "''q-'' @ show_nat (co_nextQuerySeq co)"
  let ?co = "co\<lparr>co_nextQuerySeq := co_nextQuerySeq co + 1\<rparr>" and ?k = "length (co_queryStates co)"
  let ?req = "markVisitedNode (co_selfNodeId co) (req\<lparr>qq_queryId := ?i\<rparr>)"
  have i: "i = ?i" and co': "co' = begin_execute ?req ?co" and e: "e' = e"
    using assms(2-4) by (auto simp: submitClientQuery_def ensureQueryId_def Let_def)
  show "e' = e" by (rule e)
  have fresh: "findRequestState co ?i = None"
    using ensureQueryId_fresh [OF assms(1,2)] assms(2) by (simp add: ensureQueryId_def Let_def)
  then show "findRequestState co i = None" by (simp add: i)
  have fresh': "findRequestState ?co (qq_queryId ?req) = None"
    using fresh by (simp add: findRequestState_None)
  note b = begin_execute_fresh [OF fresh']
  have len: "length (co_queryStates co') = Suc ?k" using b(3) by (simp add: co')
  have idk: "rs_queryId (state_at co' ?k) = ?i" using b(5) by (simp add: co')
  have old: "rs_queryId (state_at co' j) = rs_queryId (state_at co j)" if "j < ?k" for j
    using b(2) that by (auto simp: co' steps_def state_at_def nth_append)
  have "rs_queryId (state_at co j) \<noteq> ?i" if "j < ?k" for j
    using fresh that unfolding findRequestState_None state_at_def by (metis length_map nth_map nth_mem)
  with old idk len show "findRequestState co' i = Some ?k"
    unfolding findRequestState_def find_Some_iff i state_at_def
    by (intro exI [of _ ?k]) (auto simp: nth_append)
  have "generated_ids (?co\<lparr>co_queryStates := co_queryStates ?co @ [new_RequestState (qq_queryId ?req) ?req]\<rparr>)"
    using assms(1) by (auto simp: generated_ids_def new_RequestState_def intro: less_SucI)
  then show "generated_ids co'" unfolding co' by (rule steps_ids [OF b(2)])
qed

section \<open>Forwarding\<close>

lemma mark_all_set: "set (qq_visitedNodeIds (fold markVisitedNode cs r)) = set cs \<union> set (qq_visitedNodeIds r)"
  by (induction cs arbitrary: r) auto

lemma child_request_visited:
  "set (qq_visitedNodeIds (child_request co req cs m)) =
     insert (co_selfNodeId co) (set cs) \<union> set (qq_visitedNodeIds req)"
  by (auto simp: child_request_def mark_all_set)

lemma fetch_remote_visited:
  "hasVisitedNode (rs_request (state_at co k)) c \<Longrightarrow>
     fetch_remote_child sys k m children c co e = (False, co, e)"
  by (simp add: fetch_remote_child_def)

end
