(* ===== verification/Local_Delivery.thy ===== *)
theory Local_Delivery
  imports Coordinator_Entry
begin

text \<open>
  Delivery on a node without children. The client of \<open>FetchChunk\<close> calls until \<open>done\<close>
  (\<open>fetch_all\<close>); for an EXECUTE request the calls end, and together they return every
  matching row of the node's store exactly once and in scan order, whatever other requests
  do to the coordinator's pressure and whatever chunk size the client asks for.
\<close>

section \<open>The client loop\<close>

fun fetch_all ::
  "'e system \<Rightarrow> nat \<Rightarrow> string \<Rightarrow> nat \<Rightarrow> coordinator \<Rightarrow> 'e \<Rightarrow> (TaxiTrip list \<times> coordinator \<times> 'e) option"
where
  "fetch_all sys 0 i m co e = None"
| "fetch_all sys (Suc fuel) i m co e =
     (case fetchChunkForRpc sys i m co e of (out, co, e) \<Rightarrow>
        if rp_done out then Some (rp_trips out, co, e)
        else case fetch_all sys fuel i m co e of
          None \<Rightarrow> None
        | Some (ts, co, e) \<Rightarrow> Some (rp_trips out @ ts, co, e))"

section \<open>Filters\<close>

definition same_filter :: "QueryRequest \<Rightarrow> QueryRequest \<Rightarrow> bool" where
  "same_filter a b \<longleftrightarrow> qq_pickupRange a = qq_pickupRange b \<and> qq_dropoffRange a = qq_dropoffRange b \<and>
     qq_tripDistanceRange a = qq_tripDistanceRange b \<and> qq_tipAmountRange a = qq_tipAmountRange b \<and>
     qq_totalAmountRange a = qq_totalAmountRange b \<and> qq_paymentType a = qq_paymentType b"

lemma same_filter_answer:
  assumes "same_filter a b"
  shows "row_answer a = row_answer b" and "trip_at fs s a = trip_at fs s b" and "hits fs s a = hits fs s b"
proof -
  have "matchesRow row a = matchesRow row b" for row
    using assms by (simp add: matchesRow_iff same_filter_def)
  then show r: "row_answer a = row_answer b" by (intro ext) (simp only: row_answer_def)
  then have h: "row_hit a = row_hit b" by (intro ext) (simp add: row_hit_def)
  show "trip_at fs s a = trip_at fs s b" by (intro ext) (simp add: trip_at_def r)
  show "hits fs s a = hits fs s b" by (intro ext) (simp add: hits_def is_hit_def [abs_def] h)
qed

definition all_trips :: "file_system \<Rightarrow> WorkerNode \<Rightarrow> QueryRequest \<Rightarrow> nat \<Rightarrow> nat \<Rightarrow> TaxiTrip list" where
  \<comment> \<open>the trips of the matching rows between two row positions\<close>
  "all_trips fs w req a b = map (trip_at fs (wn_store w) req) (hits fs (wn_store w) req a b)"

definition worker_rows :: "file_system \<Rightarrow> WorkerNode \<Rightarrow> nat" where
  "worker_rows fs w = row_count fs (wn_store w)"

lemma all_trips_same: "same_filter a b \<Longrightarrow> all_trips fs w a = all_trips fs w b"
  by (intro ext) (simp add: all_trips_def same_filter_answer [of a b])

lemma all_trips_split: "a \<le> b \<Longrightarrow> b \<le> c \<Longrightarrow> all_trips fs w req a c = all_trips fs w req a b @ all_trips fs w req b c"
proof -
  assume "a \<le> b" "b \<le> c"
  then have "[a..<c] = [a..<b] @ [b..<c]" by (metis le_add_diff_inverse upt_add_eq_append)
  then show ?thesis by (simp add: all_trips_def hits_def)
qed

lemma all_trips_length: "length (all_trips fs w req a b) \<le> b - a"
  by (simp add: all_trips_def hits_length)

lemma worker_chunk_trips: "qr_matchedTrips (worker_chunk fs w req n m again) = all_trips fs w req n m"
  by (simp add: worker_chunk_def Let_def all_trips_def)

section \<open>The state of a local request\<close>

definition no_children :: "coordinator \<Rightarrow> bool" where
  "no_children co \<longleftrightarrow> (\<forall>overlay. co_overlay co = Some overlay \<and> co_remoteClient co \<noteq> None \<longrightarrow>
     getChildren overlay (co_selfNodeId co) = [])"

abbreviation window_trips :: "RequestState \<Rightarrow> TaxiTrip list" where
  "window_trips s \<equiv> qr_matchedTrips (rs_aggregatedResult s)"

definition local_inv :: "file_system \<Rightarrow> WorkerNode \<Rightarrow> TaxiTrip list \<Rightarrow> RequestState \<Rightarrow> WorkerProgress \<Rightarrow> bool" where
  \<comment> \<open>what was delivered and what is cached are the matches up to the worker's cursor\<close>
  "local_inv fs w D s p \<longleftrightarrow>
     rs_workerProgress s = [(getNodeId w, p)] \<and>
     wp_nextStartRow p \<le> worker_rows fs w \<and>
     (wp_completed p \<longrightarrow> wp_nextStartRow p = worker_rows fs w) \<and>
     rs_nextUnreadIndex s \<le> length (window_trips s) \<and>
     D @ drop (rs_nextUnreadIndex s) (window_trips s) =
       all_trips fs w (rs_request s) 0 (wp_nextStartRow p)"

definition remaining :: "file_system \<Rightarrow> WorkerNode \<Rightarrow> RequestState \<Rightarrow> WorkerProgress \<Rightarrow> nat" where
  "remaining fs w s p =
     2 * (worker_rows fs w - wp_nextStartRow p) + (length (window_trips s) - rs_nextUnreadIndex s)"

lemma local_inv_completed: "local_inv fs w D s p \<Longrightarrow> allWorkersCompleted s \<longleftrightarrow> wp_completed p"
  by (simp add: local_inv_def allWorkersCompleted_def)

lemma fetchRemote_none: "no_children co \<Longrightarrow> fetchRemoteExecuteChunks sys k m co e = (False, co, e)"
  by (auto simp: fetchRemoteExecuteChunks_def no_children_def Let_def split: option.split)

lemma no_children_on_state [simp]: "no_children (on_state k f co) = no_children co"
  by (simp add: no_children_def)

text \<open>What one local window does to the request: a chunk is merged and the cursor moves behind it.\<close>

lemma fetchLocal_run:
  assumes k: "k < length (co_queryStates co)" and s: "s = state_at co k"
    and w: "find (worker_selected co (rs_request s)) (co_workers co) = Some w"
    and p: "findWorkerProgress (getNodeId w) s = Some p" and fs: "fs = sys_fs sys"
    and n: "wp_nextStartRow p \<le> worker_rows fs w" and open_: "\<not> wp_completed p"
  obtains j again req where
    "fetchLocalExecuteChunk sys k m co =
       (qr_matchedTrips (worker_chunk fs w req (wp_nextStartRow p) j again) \<noteq> [],
        on_state k (updateWorkerProgress (getNodeId w) j again)
          (on_state k (mergePartialResult (worker_chunk fs w req (wp_nextStartRow p) j again)) co))"
    and "same_filter req (rs_request s)"
    and "wp_nextStartRow p \<le> j" and "j \<le> worker_rows fs w"
    and "again \<Longrightarrow> wp_nextStartRow p < j" and "\<not> again \<Longrightarrow> j = worker_rows fs w"
proof -
  have get: "getWorkerProgress (getNodeId w) s = (p, s)"
    using p by (simp add: getWorkerProgress_def findWorkerProgress_def um_index_def)
  have same: "on_state k (\<lambda>s. snd (getWorkerProgress (getNodeId w) s)) co = co"
    using k get by (simp add: on_state_def s state_at_def)
  define req where "req = (rs_request s)\<lparr>qq_distributedAllowed := False, qq_startRow := wp_nextStartRow p,
      qq_chunkSize := chooseAdaptiveChunkSize co m, qq_scanRowBudget := 50000\<rparr>"
  have sf: "same_filter req (rs_request s)" by (simp add: req_def same_filter_def)
  have "qq_startRow req \<le> row_count fs (wn_store w)" using n by (simp add: req_def worker_rows_def)
  then obtain j again where j: "qq_startRow req \<le> j" "j \<le> row_count fs (wn_store w)"
    and res: "worker_runExecute fs w req = worker_chunk fs w req (qq_startRow req) j again"
    and more: "again \<Longrightarrow> qq_startRow req < j" and fin: "\<not> again \<Longrightarrow> j = row_count fs (wn_store w)"
    by (rule worker_runExecute_window) blast
  have start: "qq_startRow req = wp_nextStartRow p" by (simp add: req_def)
  let ?r = "worker_chunk fs w req (wp_nextStartRow p) j again"
  have sel: "qr_nextStartRow ?r = j" "qr_hasMore ?r = again" by (simp_all add: worker_chunk_def Let_def)
  have "fetchLocalExecuteChunk sys k m co = (qr_matchedTrips ?r \<noteq> [],
      on_state k (updateWorkerProgress (getNodeId w) j again) (on_state k (mergePartialResult ?r) co))"
    using w get same open_ res start unfolding fetchLocalExecuteChunk_def s [symmetric]
    by (simp add: Let_def req_def [symmetric] fs [symmetric] sel)
  from that [OF this sf] j more fin start show ?thesis by (auto simp: worker_rows_def)
qed

text \<open>Pulling one local window into an empty cache.\<close>

lemma fetchLocal_window:
  assumes k: "k < length (co_queryStates co)" and s: "s = state_at co k"
    and w: "find (worker_selected co (rs_request s)) (co_workers co) = Some w"
    and inv: "local_inv fs w D s p" and fs: "fs = sys_fs sys"
    and empty: "window_trips s = []" "rs_nextUnreadIndex s = 0" and open_: "\<not> wp_completed p"
  obtains got co' q where "fetchLocalExecuteChunk sys k m co = (got, co')"
    and "local_inv fs w D (state_at co' k) q" and "rs_nextUnreadIndex (state_at co' k) = 0"
    and "length (window_trips (state_at co' k)) \<le> wp_nextStartRow q - wp_nextStartRow p"
    and "wp_nextStartRow p \<le> wp_nextStartRow q"
    and "\<not> wp_completed q \<Longrightarrow> wp_nextStartRow p < wp_nextStartRow q"
    and "rs_state (state_at co' k) = rs_state s"
proof -
  have prog: "rs_workerProgress s = [(getNodeId w, p)]" and n: "wp_nextStartRow p \<le> worker_rows fs w"
    and D: "D = all_trips fs w (rs_request s) 0 (wp_nextStartRow p)"
    using inv empty by (auto simp: local_inv_def)
  have "findWorkerProgress (getNodeId w) s = Some p"
    by (simp add: findWorkerProgress_def prog um_find_Cons)
  then obtain j again req where
    run: "fetchLocalExecuteChunk sys k m co =
       (qr_matchedTrips (worker_chunk fs w req (wp_nextStartRow p) j again) \<noteq> [],
        on_state k (updateWorkerProgress (getNodeId w) j again)
          (on_state k (mergePartialResult (worker_chunk fs w req (wp_nextStartRow p) j again)) co))"
    and sf: "same_filter req (rs_request s)"
    and j: "wp_nextStartRow p \<le> j" "j \<le> worker_rows fs w"
    and more: "again \<Longrightarrow> wp_nextStartRow p < j" and fin: "\<not> again \<Longrightarrow> j = worker_rows fs w"
    by (rule fetchLocal_run [OF k s w _ fs n open_, where m = m]) blast
  let ?r = "worker_chunk fs w req (wp_nextStartRow p) j again"
  define co' where "co' = on_state k (updateWorkerProgress (getNodeId w) j again) (on_state k (mergePartialResult ?r) co)"
  define q where "q = p\<lparr>wp_nextStartRow := j, wp_hasMore := again, wp_completed := \<not> again\<rparr>"
  have eq: "fetchLocalExecuteChunk sys k m co = (qr_matchedTrips ?r \<noteq> [], co')"
    unfolding run co'_def ..
  have at: "state_at co' k = updateWorkerProgress (getNodeId w) j again (mergePartialResult ?r s)"
    using k by (simp add: co'_def s)
  have prog': "rs_workerProgress (state_at co' k) = [(getNodeId w, q)]"
    by (simp add: at updateWorkerProgress_def getWorkerProgress_def putWorkerProgress_def um_index_def
        prog um_find_Cons um_put_def q_def split: prod.split)
  have win: "window_trips (state_at co' k) = all_trips fs w (rs_request s) (wp_nextStartRow p) j"
    by (simp add: at empty worker_chunk_trips all_trips_same [OF sf])
  have "D @ all_trips fs w (rs_request s) (wp_nextStartRow p) j = all_trips fs w (rs_request s) 0 j"
    using j by (simp add: D flip: all_trips_split)
  then have inv': "local_inv fs w D (state_at co' k) q"
    using j fin prog' win by (simp add: local_inv_def q_def at empty)
  show ?thesis
  proof (rule that [OF eq inv'])
    show "length (window_trips (state_at co' k)) \<le> wp_nextStartRow q - wp_nextStartRow p"
      unfolding win using all_trips_length [of fs w "rs_request s"] by (simp add: q_def)
    show "\<not> wp_completed q \<Longrightarrow> wp_nextStartRow p < wp_nextStartRow q"
      using more by (simp add: q_def)
    show "rs_state (state_at co' k) = rs_state s"
      by (simp add: at updateWorkerProgress_def getWorkerProgress_def putWorkerProgress_def
          mergePartialResult_def split: prod.split)
  qed (use j empty in \<open>simp_all add: at q_def\<close>)
qed

lemma local_inv_frames:
  "local_inv fs w D (advanceFetchRound s) p = local_inv fs w D s p"
  "local_inv fs w D (setState q s) p = local_inv fs w D s p"
  by (simp_all add: local_inv_def)

lemma fetchNext_window:
  assumes k: "k < length (co_queryStates co)" and s: "s = state_at co k"
    and w: "find (worker_selected co (rs_request s)) (co_workers co) = Some w"
    and nc: "no_children co" and inv: "local_inv fs w D s p" and fs: "fs = sys_fs sys"
    and used: "length (window_trips s) \<le> rs_nextUnreadIndex s" and open_: "\<not> wp_completed p"
  obtains got co' q where "fetchNextExecuteChunks sys k m co e = (got, co', e)"
    and "local_inv fs w D (state_at co' k) q" and "rs_nextUnreadIndex (state_at co' k) = 0"
    and "length (window_trips (state_at co' k)) \<le> wp_nextStartRow q - wp_nextStartRow p"
    and "wp_nextStartRow p \<le> wp_nextStartRow q"
    and "\<not> wp_completed q \<Longrightarrow> wp_nextStartRow p < wp_nextStartRow q"
    and "rs_state (state_at co' k) \<in> {rs_state s, COMPLETED}"
proof -
  let ?co = "on_state k clearAggregatedRows co"
  have at: "state_at ?co k = clearAggregatedRows s" using k by (simp add: s)
  have "rs_nextUnreadIndex s = length (window_trips s)" using inv used by (simp add: local_inv_def)
  then have inv0: "local_inv fs w D (clearAggregatedRows s) p" using inv by (simp add: local_inv_def)
  have st0: "rs_state (clearAggregatedRows s) = rs_state s" by (simp add: clearAggregatedRows_def)
  have k0: "k < length (co_queryStates ?co)" using k by simp
  have sel: "worker_selected ?co = worker_selected co"
    by (intro ext) (simp add: worker_selected_def split: option.split)
  have w0: "find (worker_selected ?co (rs_request (clearAggregatedRows s))) (co_workers ?co) = Some w"
    using w by (simp add: sel)
  obtain got co1 q where loc: "fetchLocalExecuteChunk sys k m ?co = (got, co1)"
    and inv1: "local_inv fs w D (state_at co1 k) q" and u1: "rs_nextUnreadIndex (state_at co1 k) = 0"
    and len: "length (window_trips (state_at co1 k)) \<le> wp_nextStartRow q - wp_nextStartRow p"
    and le: "wp_nextStartRow p \<le> wp_nextStartRow q"
    and lt: "\<not> wp_completed q \<Longrightarrow> wp_nextStartRow p < wp_nextStartRow q"
    and st1: "rs_state (state_at co1 k) = rs_state (clearAggregatedRows s)"
    by (rule fetchLocal_window [OF k0 at [symmetric] w0 inv0 fs _ _ open_, where m = m])
      (simp, simp, blast)
  have step1: "steps k ?co co1" using steps_fetchLocal [of k ?co sys m] loc by simp
  then have k1: "k < length (co_queryStates co1)" and nc1: "no_children co1" and nc0: "no_children ?co"
    using k nc by (auto simp: steps_def no_children_def)
  let ?co2 = "on_state k advanceFetchRound co1"
  define co' where "co' = (if allWorkersCompleted (state_at ?co2 k) then on_state k (setState COMPLETED) ?co2 else ?co2)"
  have pull: "fetchNextExecuteChunks sys k m co e = (got, co', e)"
    using used unfolding fetchNextExecuteChunks_def Let_def s [symmetric] co'_def
    by (simp add: fetchRemote_none [OF nc0] fetchRemote_none [OF nc1] loc)
  have at': "state_at co' k = (if allWorkersCompleted (state_at ?co2 k)
      then setState COMPLETED (advanceFetchRound (state_at co1 k)) else advanceFetchRound (state_at co1 k))"
    using k1 by (simp add: co'_def)
  show ?thesis
  proof (rule that [OF pull])
    show "local_inv fs w D (state_at co' k) q" using inv1 by (simp add: at' local_inv_frames)
    show "rs_state (state_at co' k) \<in> {rs_state s, COMPLETED}"
      using st1 st0 by (simp add: at' advanceFetchRound_def)
  qed (use u1 len le lt at' in auto)
qed

section \<open>One fetch\<close>

definition serving :: "'e system \<Rightarrow> WorkerNode \<Rightarrow> string \<Rightarrow> nat \<Rightarrow> QueryRequest \<Rightarrow> TaxiTrip list \<Rightarrow>
    coordinator \<Rightarrow> WorkerProgress \<Rightarrow> bool" where
  \<comment> \<open>request \<open>i\<close> is an active local EXECUTE of which \<open>D\<close> has been delivered\<close>
  "serving sys w i k req D co p \<longleftrightarrow>
     findRequestState co i = Some k \<and> active_execute co k \<and> no_children co \<and>
     rs_request (state_at co k) = req \<and>
     find (worker_selected co req) (co_workers co) = Some w \<and>
     local_inv (sys_fs sys) w D (state_at co k) p"

lemma serving_steps:
  assumes "serving sys w i k req D co p" and st: "steps k co co'"
    and "rs_state (state_at co' k) \<in> {rs_state (state_at co k), COMPLETED}"
    and "local_inv (sys_fs sys) w D' (state_at co' k) q"
  shows "serving sys w i k req D' co' q"
proof -
  have find: "findRequestState co i = Some k" and act: "active_execute co k"
    and "no_children co" and req: "rs_request (state_at co k) = req"
    and w: "find (worker_selected co req) (co_workers co) = Some w"
    using assms(1) by (auto simp: serving_def)
  have k: "k < length (co_queryStates co)" using findRequestState_Some [OF find] by simp
  have "worker_selected co' = worker_selected co"
    using st by (intro ext) (simp add: worker_selected_def steps_def split: option.split)
  then have "find (worker_selected co' req) (co_workers co') = Some w"
    using w st by (simp add: steps_def)
  moreover have req': "rs_request (state_at co' k) = req" using steps_request [OF st k] req by simp
  moreover have "active_execute co' k"
    using act assms(3) req req' by (auto simp: active_execute_def)
  moreover have "no_children co'" using \<open>no_children co\<close> st by (auto simp: no_children_def steps_def)
  ultimately show ?thesis
    using steps_find [OF st, of i] find assms(4) by (simp add: serving_def)
qed

lemma local_inv_take:
  assumes "local_inv fs w D s p" and "n \<le> length (window_trips s) - rs_nextUnreadIndex s"
  shows "local_inv fs w (D @ take n (drop (rs_nextUnreadIndex s) (window_trips s)))
    (setNextUnreadIndex (rs_nextUnreadIndex s + n) s) p"
  using assms take_drop_append [of n "rs_nextUnreadIndex s" "window_trips s"]
  by (auto simp: local_inv_def)

text \<open>
  A fetch delivers the next part; when it is not the last one, less remains. The refill and
  the delivery are treated one after the other.
\<close>

lemma refill_step:
  assumes sv: "serving sys w i k req D co p"
  obtains co1 q where "fetch_window sys k m co e = (co1, e)" and "serving sys w i k req D co1 q"
    and "window_trips (state_at co1 k) = [] \<Longrightarrow> \<not> wp_completed q \<Longrightarrow>
           remaining (sys_fs sys) w (state_at co1 k) q < remaining (sys_fs sys) w (state_at co k) p"
    and "length (window_trips (state_at co1 k)) \<le> rs_nextUnreadIndex (state_at co1 k) \<Longrightarrow>
           wp_completed q \<or> window_trips (state_at co1 k) = []"
    and "remaining (sys_fs sys) w (state_at co1 k) q \<le> remaining (sys_fs sys) w (state_at co k) p"
proof -
  let ?s = "state_at co k"
  have find: "findRequestState co i = Some k" and nc: "no_children co"
    and w: "find (worker_selected co (rs_request ?s)) (co_workers co) = Some w"
    and inv: "local_inv (sys_fs sys) w D ?s p"
    using sv by (auto simp: serving_def)
  have k: "k < length (co_queryStates co)" using findRequestState_Some [OF find] by simp
  show ?thesis
  proof (cases "length (window_trips ?s) \<le> rs_nextUnreadIndex ?s \<and> \<not> wp_completed p")
    case True
    then have used: "length (window_trips ?s) \<le> rs_nextUnreadIndex ?s" and op: "\<not> wp_completed p" by auto
    obtain got co1 q where f: "fetchNextExecuteChunks sys k m co e = (got, co1, e)"
      and inv1: "local_inv (sys_fs sys) w D (state_at co1 k) q"
      and u: "rs_nextUnreadIndex (state_at co1 k) = 0"
      and len: "length (window_trips (state_at co1 k)) \<le> wp_nextStartRow q - wp_nextStartRow p"
      and le: "wp_nextStartRow p \<le> wp_nextStartRow q"
      and lt: "\<not> wp_completed q \<Longrightarrow> wp_nextStartRow p < wp_nextStartRow q"
      and rs: "rs_state (state_at co1 k) \<in> {rs_state ?s, COMPLETED}"
      by (rule fetchNext_window [OF k refl w nc inv refl used op]) blast
    have win: "fetch_window sys k m co e = (co1, e)"
      using True local_inv_completed [OF inv] by (simp add: fetch_window_def f)
    have "steps k co co1" using steps_fetchNext [of k co sys m e] f by simp
    from serving_steps [OF sv this rs inv1] have sv1: "serving sys w i k req D co1 q" .
    have q: "wp_nextStartRow q \<le> worker_rows (sys_fs sys) w" using inv1 by (simp add: local_inv_def)
    show ?thesis
      by (rule that [OF win sv1]) (use len le lt q u in \<open>auto simp: remaining_def\<close>)
  next
    case False
    then have win: "fetch_window sys k m co e = (co, e)"
      using local_inv_completed [OF inv] by (auto simp: fetch_window_def)
    show ?thesis by (rule that [OF win sv]) (use False in auto)
  qed
qed

lemma fetch_step:
  assumes sv: "serving sys w i k req D co p"
  obtains out co' q where "fetchChunkForRpc sys i m co e = (out, co', e)"
    and "serving sys w i k req (D @ rp_trips out) co' q"
    and "rp_done out \<Longrightarrow> D @ rp_trips out = all_trips (sys_fs sys) w req 0 (worker_rows (sys_fs sys) w)"
    and "\<not> rp_done out \<Longrightarrow>
           remaining (sys_fs sys) w (state_at co' k) q < remaining (sys_fs sys) w (state_at co k) p"
proof -
  let ?fs = "sys_fs sys" and ?m = "chooseAdaptiveChunkSize co m"
  have find: "findRequestState co i = Some k" and act: "active_execute co k" using sv by (auto simp: serving_def)
  obtain co1 q where win: "fetch_window sys k ?m co e = (co1, e)" and sv1: "serving sys w i k req D co1 q"
    and less: "window_trips (state_at co1 k) = [] \<Longrightarrow> \<not> wp_completed q \<Longrightarrow>
           remaining ?fs w (state_at co1 k) q < remaining ?fs w (state_at co k) p"
    and empty: "length (window_trips (state_at co1 k)) \<le> rs_nextUnreadIndex (state_at co1 k) \<Longrightarrow>
           wp_completed q \<or> window_trips (state_at co1 k) = []"
    and leq: "remaining ?fs w (state_at co1 k) q \<le> remaining ?fs w (state_at co k) p"
    by (rule refill_step [OF sv]) blast
  let ?s = "state_at co1 k"
  have inv: "local_inv ?fs w D ?s q" and req: "rs_request ?s = req" and find1: "findRequestState co1 i = Some k"
    using sv1 by (auto simp: serving_def)
  have k: "k < length (co_queryStates co1)" using findRequestState_Some [OF find1] by simp
  have comp: "allWorkersCompleted ?s \<longleftrightarrow> wp_completed q" by (rule local_inv_completed [OF inv])
  have all: "D @ drop (rs_nextUnreadIndex ?s) (window_trips ?s) = all_trips ?fs w req 0 (wp_nextStartRow q)"
    and full: "wp_completed q \<Longrightarrow> wp_nextStartRow q = worker_rows ?fs w"
    using inv req by (auto simp: local_inv_def)
  note active = fetchChunk_active [OF find act win]
  show ?thesis
  proof (cases "length (window_trips ?s) \<le> rs_nextUnreadIndex ?s")
    case True
    show ?thesis
    proof (rule that [OF active(1) [OF True]])
      show "serving sys w i k req (D @ rp_trips (new_RpcChunkResult\<lparr>rp_requestId := i, rp_found := True,
          rp_done := allWorkersCompleted ?s, rp_message := (if allWorkersCompleted ?s then ''done''
          else ''no rows available yet'')\<rparr>)) co1 q"
        using sv1 by (simp add: new_RpcChunkResult_def)
    qed (use True all full comp less empty in \<open>auto simp: new_RpcChunkResult_def\<close>)
  next
    case False
    define n where "n = min ?m (length (window_trips ?s) - rs_nextUnreadIndex ?s)"
    have n: "0 < n" "n \<le> length (window_trips ?s) - rs_nextUnreadIndex ?s"
      using False chooseAdaptiveChunkSize_bounds [of co m] by (auto simp: n_def)
    define D' where "D' = D @ take n (drop (rs_nextUnreadIndex ?s) (window_trips ?s))"
    define fin where "fin \<longleftrightarrow> rs_nextUnreadIndex ?s + n \<ge> length (window_trips ?s) \<and> wp_completed q"
    define co2 where "co2 = on_state k (setNextUnreadIndex (rs_nextUnreadIndex ?s + n)) co1"
    define co3 where "co3 = (if fin then on_state k (setState COMPLETED) co2 else co2)"
    have at2: "state_at co2 k = setNextUnreadIndex (rs_nextUnreadIndex ?s + n) ?s"
      using k by (simp add: co2_def)
    have at3: "state_at co3 k = (if fin then setState COMPLETED (state_at co2 k) else state_at co2 k)"
      using k by (simp add: co3_def co2_def)
    have inv3: "local_inv ?fs w D' (state_at co3 k) q"
      using local_inv_take [OF inv n(2)] by (simp add: at3 at2 D'_def local_inv_frames)
    have st: "steps k co1 co3"
      unfolding co3_def co2_def
      by (auto intro: steps_trans [OF steps_on_state steps_on_state] steps_on_state good_update_simple)
    have rs: "rs_state (state_at co3 k) \<in> {rs_state ?s, COMPLETED}"
      by (simp add: at3 at2 setNextUnreadIndex_def)
    have sv3: "serving sys w i k req D' co3 q" by (rule serving_steps [OF sv1 st rs inv3])
    obtain out where out: "fetchChunkForRpc sys i m co e = (out, co3, e)"
      and trips: "D @ rp_trips out = D'" and fin': "rp_done out \<longleftrightarrow> fin"
      using active(2) False
      by (simp add: Let_def comp n_def [symmetric] fin_def [symmetric] co2_def [symmetric]
          co3_def [symmetric] D'_def)
    show ?thesis
    proof (rule that [OF out])
      show "serving sys w i k req (D @ rp_trips out) co3 q" unfolding trips by (rule sv3)
      show "D @ rp_trips out = all_trips ?fs w req 0 (worker_rows ?fs w)" if "rp_done out"
      proof -
        have "take n (drop (rs_nextUnreadIndex ?s) (window_trips ?s)) = drop (rs_nextUnreadIndex ?s) (window_trips ?s)"
          using that fin' unfolding fin_def by (intro take_all) auto
        then show ?thesis using all full that fin' by (simp add: trips D'_def fin_def)
      qed
      have "remaining ?fs w (state_at co3 k) q < remaining ?fs w ?s q"
        using n by (simp add: remaining_def at3 at2)
      with leq show "remaining ?fs w (state_at co3 k) q < remaining ?fs w (state_at co k) p" by simp
    qed
  qed
qed

lemma fetch_all_delivers:
  assumes "serving sys w i k req D co p" and "remaining (sys_fs sys) w (state_at co k) p < fuel"
  shows "\<exists>ts co'. fetch_all sys fuel i m co e = Some (ts, co', e) \<and>
    D @ ts = all_trips (sys_fs sys) w req 0 (worker_rows (sys_fs sys) w)"
  using assms
proof (induction fuel arbitrary: D co p)
  case (Suc fuel)
  obtain out co1 q where f: "fetchChunkForRpc sys i m co e = (out, co1, e)"
    and sv: "serving sys w i k req (D @ rp_trips out) co1 q"
    and fin: "rp_done out \<Longrightarrow> D @ rp_trips out = all_trips (sys_fs sys) w req 0 (worker_rows (sys_fs sys) w)"
    and less: "\<not> rp_done out \<Longrightarrow>
           remaining (sys_fs sys) w (state_at co1 k) q < remaining (sys_fs sys) w (state_at co k) p"
    by (rule fetch_step [OF Suc.prems(1)]) blast
  show ?case
  proof (cases "rp_done out")
    case True
    then show ?thesis using f fin by simp
  next
    case False
    with less Suc.prems(2) have "remaining (sys_fs sys) w (state_at co1 k) q < fuel" by simp
    from Suc.IH [OF sv this] show ?thesis using f False by auto
  qed
qed simp

section \<open>From submission to the last chunk\<close>

definition filter_of :: "QueryRequest \<Rightarrow> QueryRequest" where
  \<comment> \<open>the request as the coordinator stores it: only its identifier and visited nodes differ\<close>
  "filter_of req = req\<lparr>qq_queryId := [], qq_visitedNodeIds := []\<rparr>"

lemma begin_execute_local:
  assumes fresh: "findRequestState co (qq_queryId req) = None" and target: "qq_targetNodeId req = None"
    and nc: "no_children co"
    and w: "find (\<lambda>w. co_selfNodeId co \<noteq> [] \<longrightarrow> getNodeId w = co_selfNodeId co) (co_workers co) = Some w"
  defines "k \<equiv> length (co_queryStates co)" and "co1 \<equiv> begin_execute req co"
  shows "local_inv fs w [] (state_at co1 k) new_WorkerProgress"
    and "window_trips (state_at co1 k) = []" and "rs_nextUnreadIndex (state_at co1 k) = 0"
    and "rs_request (state_at co1 k) = req" and "rs_state (state_at co1 k) = IN_PROGRESS"
    and "k < length (co_queryStates co1)"
    and "find (worker_selected co1 req) (co_workers co1) = Some w" and "no_children co1"
proof -
  note b = begin_execute_fresh [OF fresh]
  define base where "base = on_state k (setState IN_PROGRESS)
     (co\<lparr>co_queryStates := co_queryStates co @ [new_RequestState (qq_queryId req) req]\<rparr>)"
  have len: "k < length (co_queryStates base)" by (simp add: base_def k_def)
  have at: "state_at base k = setState IN_PROGRESS (new_RequestState (qq_queryId req) req)"
    by (simp add: base_def k_def on_state_def state_at_def nth_append)
  have sel: "worker_selected base req = (\<lambda>w. co_selfNodeId co \<noteq> [] \<longrightarrow> getNodeId w = co_selfNodeId co)"
    using target by (intro ext) (auto simp: worker_selected_def base_def)
  have wsel: "find (worker_selected base req) (co_workers base) = Some w"
    unfolding sel using w by (simp add: base_def)
  have nc': "no_children base" using nc by (simp add: no_children_def base_def)
  let ?init = "on_state k (initializeWorker (getNodeId w)) base"
  have "initializeExecuteProgress k req base = on_state k (setExpectedWorkers 1) ?init"
    using nc' unfolding initializeExecuteProgress_def wsel
    by (auto simp: no_children_def split: option.split)
  then have co1: "co1 = on_state k (setExpectedWorkers 1) ?init"
    unfolding co1_def b(1) base_def k_def by simp
  show "k < length (co_queryStates co1)" "no_children co1" using len nc' by (simp_all add: co1)
  have "worker_selected co1 = worker_selected base"
    by (intro ext) (simp add: co1 worker_selected_def split: option.split)
  then show "find (worker_selected co1 req) (co_workers co1) = Some w" using wsel by (simp add: co1)
  have st: "state_at co1 k = setExpectedWorkers 1 (initializeWorker (getNodeId w)
      (setState IN_PROGRESS (new_RequestState (qq_queryId req) req)))"
    using len by (simp add: co1 at)
  have prog: "rs_workerProgress (state_at co1 k) = [(getNodeId w, new_WorkerProgress)]"
    by (simp add: st initializeWorker_def new_RequestState_def um_try_emplace_def um_put_def setState_def)
  show win: "window_trips (state_at co1 k) = []" "rs_nextUnreadIndex (state_at co1 k) = 0"
    by (simp_all add: st new_RequestState_def empty_QueryResult_def)
  show "rs_request (state_at co1 k) = req" by (simp add: st new_RequestState_def)
  show "local_inv fs w [] (state_at co1 k) new_WorkerProgress"
    by (simp add: local_inv_def prog win all_trips_def hits_def) (simp add: new_WorkerProgress_def)
  show "rs_state (state_at co1 k) = IN_PROGRESS"
    by (simp add: st setExpectedWorkers_def initializeWorker_def setState_def)
qed

lemma submit_serving:
  assumes ids: "generated_ids co" and q: "qq_queryId req = []" "qq_queryType req = Execute"
    "qq_targetNodeId req = None"
    and nc: "no_children co"
    and w: "find (\<lambda>w. co_selfNodeId co \<noteq> [] \<longrightarrow> getNodeId w = co_selfNodeId co) (co_workers co) = Some w"
    and sub: "submitClientQuery sys req co e = (i, co1, e1)"
  obtains k req' p where "serving sys w i k req' [] co1 p" and "same_filter req' req"
    and "wp_nextStartRow p = 0" and "window_trips (state_at co1 k) = []" and "e1 = e"
proof -
  let ?i = "''q-'' @ show_nat (co_nextQuerySeq co)"
  let ?co = "co\<lparr>co_nextQuerySeq := co_nextQuerySeq co + 1\<rparr>" and ?k = "length (co_queryStates co)"
  let ?req = "markVisitedNode (co_selfNodeId co) (req\<lparr>qq_queryId := ?i\<rparr>)"
  have i: "i = ?i" and co1: "co1 = begin_execute ?req ?co" and e: "e1 = e"
    using sub q by (auto simp: submitClientQuery_def ensureQueryId_def Let_def)
  have fresh: "findRequestState ?co (qq_queryId ?req) = None"
    using ensureQueryId_fresh [OF ids q(1)] q(1)
    by (simp add: ensureQueryId_def Let_def findRequestState_None)
  have "qq_targetNodeId ?req = None" "no_children ?co"
    and "find (\<lambda>w. co_selfNodeId ?co \<noteq> [] \<longrightarrow> getNodeId w = co_selfNodeId ?co) (co_workers ?co) = Some w"
    using q(3) nc w by (simp_all add: no_children_def)
  note b = begin_execute_local [OF fresh this, folded co1, simplified]
  have "active_execute co1 ?k" using q(2) b(5) by (simp add: active_execute_def b(4))
  moreover have "findRequestState co1 i = Some ?k"
    using submitClient_execute(2) [OF ids q(1,2) sub] .
  ultimately have "serving sys w i ?k ?req [] co1 new_WorkerProgress"
    using b by (simp add: serving_def)
  moreover have "same_filter ?req req" by (simp add: same_filter_def)
  ultimately show ?thesis
    by (rule that) (simp_all add: b e new_WorkerProgress_def)
qed

lemma local_query_delivers:
  assumes "generated_ids co" and "qq_queryId req = []" "qq_queryType req = Execute"
    "qq_targetNodeId req = None" and "no_children co"
    and "find (\<lambda>w. co_selfNodeId co \<noteq> [] \<longrightarrow> getNodeId w = co_selfNodeId co) (co_workers co) = Some w"
    and "submitClientQuery sys req co e = (i, co1, e1)"
    and fuel: "2 * worker_rows (sys_fs sys) w < fuel"
  shows "\<exists>co2. fetch_all sys fuel i m co1 e1 =
    Some (all_trips (sys_fs sys) w req 0 (worker_rows (sys_fs sys) w), co2, e1)"
proof -
  obtain k req' p where sv: "serving sys w i k req' [] co1 p" and sf: "same_filter req' req"
    and p: "wp_nextStartRow p = 0" "window_trips (state_at co1 k) = []"
    by (rule submit_serving [OF assms(1-7)]) blast
  have "remaining (sys_fs sys) w (state_at co1 k) p < fuel" using fuel p by (simp add: remaining_def)
  from fetch_all_delivers [OF sv this, of m e1] show ?thesis
    using all_trips_same [OF sf, of "sys_fs sys" w] by auto
qed

end
