(* ===== verification/Query_Service.thy ===== *)
theory Query_Service
  imports Local_Delivery
begin

text \<open>
  \<open>QueryServiceImpl\<close> (\<open>src/basic/src/server/QueryServiceImpl.cpp\<close>): the six RPC handlers over the
  coordinator. Each returns status OK with its reply; metrics output is left out.
\<close>

section \<open>Handlers\<close>

definition SubmitQuery ::
  "'e system \<Rightarrow> node_id \<Rightarrow> SubmitQueryRequest \<Rightarrow> coordinator \<Rightarrow> 'e \<Rightarrow> SubmitReply \<times> coordinator \<times> 'e"
where
  "SubmitQuery sys self request co e =
     (case submitClientQuery sys (fromProtoSubmitQueryRequest request) co e of (requestId, co, e) \<Rightarrow>
        (fillSubmitQueryReply True requestId self ''accepted'', co, e))"

definition fill_rows :: "node_id \<Rightarrow> RpcChunkResult \<Rightarrow> TripRow list" where
  "fill_rows self r =
     map (\<lambda>i. toProtoTripRow (rp_trips r ! i) (if i < length (rp_sources r) then rp_sources r ! i else self))
       [0..<length (rp_trips r)]"

definition fill_fetch_reply :: "node_id \<Rightarrow> RpcChunkResult \<Rightarrow> FetchReply" where
  "fill_fetch_reply self r =
     \<lparr> fr_found = rp_found r, fr_request_id = rp_requestId r, fr_node_id = self,
       fr_rows = fill_rows self r, fr_done = rp_done r,
       fr_rows_returned = length (rp_trips r) mod 2 ^ 32, fr_message = rp_message r \<rparr>"

definition FetchChunk ::
  "'e system \<Rightarrow> node_id \<Rightarrow> FetchRequest \<Rightarrow> coordinator \<Rightarrow> 'e \<Rightarrow> FetchReply \<times> coordinator \<times> 'e"
where
  "FetchChunk sys self request co e =
     (case fetchChunkForRpc sys (fq_request_id request) (fq_max_rows request) co e of (r, co, e) \<Rightarrow>
        (fill_fetch_reply self r, co, e))"

definition CancelQuery :: "node_id \<Rightarrow> string \<Rightarrow> coordinator \<Rightarrow> CancelReply \<times> coordinator" where
  "CancelQuery self requestId co =
     (case cancel requestId co of (ok, message, co) \<Rightarrow>
        (fillCancelQueryReply ok requestId self message, co))"

definition SubmitSubQuery ::
  "'e system \<Rightarrow> node_id \<Rightarrow> SubmitSubQueryRequest \<Rightarrow> coordinator \<Rightarrow> 'e \<Rightarrow> SubmitReply \<times> coordinator \<times> 'e"
where
  "SubmitSubQuery sys self request co e =
     (case co_submitSubQuery sys (fromProtoSubmitSubQueryRequest request) (ssq_parent_request_id request) co e of
        (requestId, co, e) \<Rightarrow> (fillSubmitSubQueryReply True requestId self ''accepted'', co, e))"

definition FetchSubChunk ::
  "'e system \<Rightarrow> node_id \<Rightarrow> FetchRequest \<Rightarrow> coordinator \<Rightarrow> 'e \<Rightarrow> FetchReply \<times> coordinator \<times> 'e"
where
  "FetchSubChunk sys self request co e =
     (case fetchChunkForRpc sys (fq_request_id request) (fq_max_rows request) co e of (r, co, e) \<Rightarrow>
        (fill_fetch_reply self r, co, e))"

definition CancelSubQuery :: "node_id \<Rightarrow> string \<Rightarrow> coordinator \<Rightarrow> CancelReply \<times> coordinator" where
  "CancelSubQuery self requestId co =
     (case cancel requestId co of (ok, message, co) \<Rightarrow>
        (fillCancelSubQueryReply ok requestId self message, co))"

section \<open>Facts\<close>

lemma fill_rows_zip:
  "length (rp_sources r) = length (rp_trips r) \<Longrightarrow>
     fill_rows self r = map2 toProtoTripRow (rp_trips r) (rp_sources r)"
  by (rule nth_equalityI) (simp_all add: fill_rows_def)

lemma rows_returned_exact:
  assumes "coordinator_inv co" and "FetchChunk sys self request co e = (reply, co', e')"
  shows "fr_rows_returned reply = length (fr_rows reply)" and "length (fr_rows reply) \<le> LARGE_CHUNK_SIZE"
    and "fq_max_rows request \<noteq> 0 \<Longrightarrow> length (fr_rows reply) \<le> fq_max_rows request"
proof -
  obtain r where f: "fetchChunkForRpc sys (fq_request_id request) (fq_max_rows request) co e = (r, co', e')"
    and reply: "reply = fill_fetch_reply self r"
    using assms(2) by (auto simp: FetchChunk_def split: prod.splits)
  note res = fetchChunk_result [OF assms(1) f]
  have len: "length (fr_rows reply) = length (rp_trips r)"
    by (simp add: reply fill_fetch_reply_def fill_rows_def)
  show "length (fr_rows reply) \<le> LARGE_CHUNK_SIZE"
    and "fq_max_rows request \<noteq> 0 \<Longrightarrow> length (fr_rows reply) \<le> fq_max_rows request"
    using res(1,2) by (simp_all add: len)
  have "length (rp_trips r) < 2 ^ 32" using res(1) by (simp add: LARGE_CHUNK_SIZE_def)
  then show "fr_rows_returned reply = length (fr_rows reply)"
    unfolding len by (simp add: reply fill_fetch_reply_def)
qed

text \<open>The rows a parent reads from a child's reply: the trips without airport fees, with their sources.\<close>

lemma reply_rows_read:
  assumes "length (rp_sources r) = length (rp_trips r)" and "\<forall>t \<in> set (rp_trips r). trip_widths t"
    and "\<forall>n \<in> set (rp_sources r). n \<noteq> []"
  shows "map fromTripRow (fill_rows self r) = map (\<lambda>t. t\<lparr>tt_airportFeeCents := 0\<rparr>) (rp_trips r)"
    and "map (rowSource c) (fill_rows self r) = rp_sources r"
proof -
  have "fromTripRow (fill_rows self r ! i) = (rp_trips r ! i)\<lparr>tt_airportFeeCents := 0\<rparr>"
    and "rowSource c (fill_rows self r ! i) = rp_sources r ! i" if "i < length (rp_trips r)" for i
    using assms that by (simp_all add: fill_rows_def tripRow_roundtrip rowSource_toProto)
  moreover have "length (fill_rows self r) = length (rp_trips r)" by (simp add: fill_rows_def)
  ultimately show "map fromTripRow (fill_rows self r) = map (\<lambda>t. t\<lparr>tt_airportFeeCents := 0\<rparr>) (rp_trips r)"
    and "map (rowSource c) (fill_rows self r) = rp_sources r"
    using assms(1) by (auto intro: nth_equalityI)
qed

text \<open>The engine never fills an airport fee, and its trips fit the message.\<close>

lemma toTaxiTrip_widths: "trip_widths (toTaxiTrip row) \<and> tt_airportFeeCents (toTaxiTrip row) = 0"
  using to_unsigned_range [of 8 "pr_paymentType row"]
  by (simp add: trip_widths_def toTaxiTrip_def empty_trip_def)

end
