(* ===== verification/Node_Config.thy ===== *)
theory Node_Config
  imports Local_Engine
begin

text \<open>
  Node configuration files (\<open>src/basic/src/common/config.{h,cc}\<close>): trimming and splitting, neighbor
  entries, \<open>std::stoul\<close>, \<open>loadConfig\<close> and \<open>validateConfig\<close>. An exception is the value \<open>Inl\<close> of a
  result; \<open>config_error\<close> has the exception's class and message.
\<close>

datatype config_error =
  Runtime_error string
| Invalid_argument
| Out_of_range

record NeighborConfig =
  nb_nodeId :: node_id
  nb_host :: string
  nb_port :: nat

record NodeConfig =
  nc_nodeId :: node_id
  nc_language :: string
  nc_listenHost :: string
  nc_listenPort :: nat
  nc_neighbors :: "NeighborConfig list"
  nc_assignedFiles :: "string list"

definition empty_NodeConfig :: NodeConfig where
  "empty_NodeConfig = \<lparr> nc_nodeId = [], nc_language = [], nc_listenHost = [], nc_listenPort = 0,
     nc_neighbors = [], nc_assignedFiles = [] \<rparr>"

definition neighbor_target :: "NeighborConfig \<Rightarrow> string" where
  "neighbor_target n = nb_host n @ '':'' @ show_nat (nb_port n)"

definition listenTarget :: "NodeConfig \<Rightarrow> string" where
  "listenTarget c = nc_listenHost c @ '':'' @ show_nat (nc_listenPort c)"

section \<open>Text\<close>

definition trim :: "string \<Rightarrow> string" where
  "trim s = rev (dropWhile is_space (rev (dropWhile is_space s)))"

fun split_on :: "char \<Rightarrow> string \<Rightarrow> string \<Rightarrow> string list" where
  \<comment> \<open>\<open>std::getline\<close> with a delimiter: an empty last piece is not delivered\<close>
  "split_on d item [] = (if item = [] then [] else [item])"
| "split_on d item (c # cs) = (if c = d then item # split_on d [] cs else split_on d (item @ [c]) cs)"

definition split :: "string \<Rightarrow> char \<Rightarrow> string list" where
  "split s delim = split_on delim [] s"

definition find_char :: "char \<Rightarrow> string \<Rightarrow> nat option" where
  "find_char c s = (let n = length (takeWhile (\<lambda>x. x \<noteq> c) s) in if n = length s then None else Some n)"

definition rfind_char :: "char \<Rightarrow> string \<Rightarrow> nat option" where
  "rfind_char c s = (case find_char c (rev s) of None \<Rightarrow> None | Some n \<Rightarrow> Some (length s - 1 - n))"

definition stoul :: "string \<Rightarrow> config_error + int" where
  \<comment> \<open>base 10: leading blanks, an optional sign (a minus negates modulo \<open>2 ^ 64\<close>), digits\<close>
  "stoul s =
     (let t = dropWhile is_space s;
          signed = (t \<noteq> [] \<and> (hd t = CHR ''+'' \<or> hd t = CHR ''-''));
          neg = (signed \<and> hd t = CHR ''-'');
          ds = takeWhile is_digit (if signed then tl t else t);
          v = dec_val 0 ds
      in if ds = [] then Inl Invalid_argument
         else if v \<ge> 2 ^ 64 then Inl Out_of_range
         else Inr (if neg then to_unsigned 64 (- v) else v))"

definition stoul32 :: "string \<Rightarrow> config_error + nat" where
  \<comment> \<open>\<open>static_cast<uint32_t>(std::stoul(s))\<close>\<close>
  "stoul32 s = (case stoul s of Inl e \<Rightarrow> Inl e | Inr v \<Rightarrow> Inr (nat (to_unsigned 32 v)))"

section \<open>Loading\<close>

definition parseNeighbor :: "string \<Rightarrow> config_error + NeighborConfig" where
  "parseNeighbor raw =
     (case find_char (CHR ''@'') raw of
        None \<Rightarrow> Inl (Runtime_error (''Invalid neighbor entry, expected node@host:port: '' @ raw))
      | Some atPos \<Rightarrow>
          (case rfind_char (CHR '':'') raw of
             None \<Rightarrow> Inl (Runtime_error (''Invalid neighbor entry, expected node@host:port: '' @ raw))
           | Some colonPos \<Rightarrow>
               if colonPos < atPos
               then Inl (Runtime_error (''Invalid neighbor entry, expected node@host:port: '' @ raw))
               else let nodeId = trim (take atPos raw);
                        host = trim (take (colonPos - atPos - 1) (drop (atPos + 1) raw));
                        portStr = trim (drop (colonPos + 1) raw)
                    in if nodeId = [] \<or> host = [] \<or> portStr = []
                       then Inl (Runtime_error (''Invalid neighbor entry, empty fields: '' @ raw))
                       else case stoul32 portStr of
                         Inl err \<Rightarrow> Inl err
                       | Inr port \<Rightarrow> Inr \<lparr> nb_nodeId = nodeId, nb_host = host, nb_port = port \<rparr>))"

fun parse_neighbors :: "string list \<Rightarrow> NeighborConfig list \<Rightarrow> config_error + NeighborConfig list" where
  "parse_neighbors [] acc = Inr acc"
| "parse_neighbors (item # items) acc =
     (let t = trim item in
      if t = [] then parse_neighbors items acc
      else case parseNeighbor t of Inl err \<Rightarrow> Inl err | Inr n \<Rightarrow> parse_neighbors items (acc @ [n]))"

definition parse_files :: "string list \<Rightarrow> string list" where
  "parse_files items = filter (\<lambda>p. p \<noteq> []) (map trim items)"

definition set_key :: "string \<Rightarrow> string \<Rightarrow> NodeConfig \<Rightarrow> config_error + NodeConfig" where
  "set_key key val cfg =
     (if key = ''node_id'' then Inr (cfg\<lparr>nc_nodeId := val\<rparr>)
      else if key = ''language'' then Inr (cfg\<lparr>nc_language := val\<rparr>)
      else if key = ''listen_host'' then Inr (cfg\<lparr>nc_listenHost := val\<rparr>)
      else if key = ''listen_port'' then
        (case stoul32 val of Inl err \<Rightarrow> Inl err | Inr p \<Rightarrow> Inr (cfg\<lparr>nc_listenPort := p\<rparr>))
      else if key = ''neighbors'' then
        (if val = [] then Inr (cfg\<lparr>nc_neighbors := []\<rparr>)
         else case parse_neighbors (split val (CHR '','')) [] of
           Inl err \<Rightarrow> Inl err | Inr ns \<Rightarrow> Inr (cfg\<lparr>nc_neighbors := ns\<rparr>))
      else if key = ''assigned_files'' then
        (if val = [] then Inr (cfg\<lparr>nc_assignedFiles := []\<rparr>)
         else Inr (cfg\<lparr>nc_assignedFiles := parse_files (split val (CHR '',''))\<rparr>))
      else Inl (Runtime_error (''Unknown config key: '' @ key)))"

fun load_lines :: "string list \<Rightarrow> NodeConfig \<Rightarrow> config_error + NodeConfig" where
  "load_lines [] cfg = Inr cfg"
| "load_lines (l # ls) cfg =
     (let line = trim l in
      if line = [] then load_lines ls cfg
      else if hd line = CHR ''#'' then load_lines ls cfg
      else case find_char (CHR ''='') line of
        None \<Rightarrow> Inl (Runtime_error (''Invalid config line, expected key=value: '' @ line))
      | Some eqPos \<Rightarrow>
          (case set_key (trim (take eqPos line)) (trim (drop (eqPos + 1) line)) cfg of
             Inl err \<Rightarrow> Inl err
           | Inr cfg \<Rightarrow> load_lines ls cfg))"

fun validate_neighbors :: "node_id \<Rightarrow> node_id set \<Rightarrow> NeighborConfig list \<Rightarrow> config_error option" where
  "validate_neighbors self seen [] = None"
| "validate_neighbors self seen (n # ns) =
     (if nb_nodeId n = [] \<or> nb_host n = [] \<or> nb_port n = 0 then Some (Runtime_error ''Invalid neighbor in config'')
      else if nb_nodeId n = self then Some (Runtime_error ''Node cannot list itself as a neighbor'')
      else if nb_nodeId n \<in> seen then Some (Runtime_error (''Duplicate neighbor node id: '' @ nb_nodeId n))
      else validate_neighbors self (insert (nb_nodeId n) seen) ns)"

definition validateConfig :: "NodeConfig \<Rightarrow> config_error option" where
  "validateConfig cfg =
     (if nc_nodeId cfg = [] then Some (Runtime_error ''Config missing node_id'')
      else if nc_language cfg = [] then Some (Runtime_error ''Config missing language'')
      else if nc_listenHost cfg = [] then Some (Runtime_error ''Config missing listen_host'')
      else if nc_listenPort cfg = 0 then Some (Runtime_error ''Config missing or invalid listen_port'')
      else if nc_language cfg \<noteq> ''cpp'' \<and> nc_language cfg \<noteq> ''python''
           then Some (Runtime_error (''Config language must be '' @ [char_of (39 :: nat)] @ ''cpp''
                  @ [char_of (39 :: nat)] @ '' or '' @ [char_of (39 :: nat)] @ ''python'' @ [char_of (39 :: nat)]))
      else validate_neighbors (nc_nodeId cfg) {} (nc_neighbors cfg))"

definition path_opens :: "file_system \<Rightarrow> string \<Rightarrow> bool" where
  \<comment> \<open>an input stream on a directory opens, and reads nothing\<close>
  "path_opens fs p = (case fs p of Some (RegularFile _ readable) \<Rightarrow> readable | Some (Directory _) \<Rightarrow> True | None \<Rightarrow> False)"

definition loadConfig :: "file_system \<Rightarrow> string \<Rightarrow> config_error + NodeConfig" where
  "loadConfig fs path =
     (if \<not> path_opens fs path then Inl (Runtime_error (''Failed to open config file: '' @ path))
      else case load_lines (open_lines fs path) empty_NodeConfig of
        Inl err \<Rightarrow> Inl err
      | Inr cfg \<Rightarrow> (case validateConfig cfg of Some err \<Rightarrow> Inl err | None \<Rightarrow> Inr cfg))"

section \<open>Facts\<close>

definition valid_config :: "NodeConfig \<Rightarrow> bool" where
  "valid_config cfg \<longleftrightarrow> nc_nodeId cfg \<noteq> [] \<and> nc_listenHost cfg \<noteq> [] \<and> 0 < nc_listenPort cfg \<and>
     nc_language cfg \<in> {''cpp'', ''python''} \<and>
     (\<forall>n \<in> set (nc_neighbors cfg). nb_nodeId n \<noteq> [] \<and> nb_host n \<noteq> [] \<and> 0 < nb_port n) \<and>
     distinct (nc_nodeId cfg # map nb_nodeId (nc_neighbors cfg))"

lemma validate_neighbors_iff:
  "validate_neighbors self seen ns = None \<longleftrightarrow>
     (\<forall>n \<in> set ns. nb_nodeId n \<noteq> [] \<and> nb_host n \<noteq> [] \<and> 0 < nb_port n \<and> nb_nodeId n \<noteq> self \<and> nb_nodeId n \<notin> seen) \<and>
     distinct (map nb_nodeId ns)"
  by (induction self seen ns rule: validate_neighbors.induct) (auto simp: image_iff)

lemma validateConfig_iff: "validateConfig cfg = None \<longleftrightarrow> valid_config cfg"
  by (auto simp: validateConfig_def valid_config_def validate_neighbors_iff image_iff)

lemma stoul32_range: "stoul32 s = Inr p \<Longrightarrow> p < 2 ^ 32"
  using to_unsigned_range [of 32]
  by (auto simp: stoul32_def nat_less_iff split: sum.splits)

definition ports_fit :: "NodeConfig \<Rightarrow> bool" where
  "ports_fit cfg \<longleftrightarrow> nc_listenPort cfg < 2 ^ 32 \<and> (\<forall>n \<in> set (nc_neighbors cfg). nb_port n < 2 ^ 32) \<and>
     [] \<notin> set (nc_assignedFiles cfg)"

lemma parseNeighbor_port: "parseNeighbor s = Inr n \<Longrightarrow> nb_port n < 2 ^ 32"
  by (auto simp: parseNeighbor_def Let_def dest: stoul32_range split: option.splits sum.splits if_splits)

lemma parse_neighbors_ports:
  "parse_neighbors items acc = Inr ns \<Longrightarrow> \<forall>n \<in> set acc. nb_port n < 2 ^ 32 \<Longrightarrow> \<forall>n \<in> set ns. nb_port n < 2 ^ 32"
proof (induction items acc rule: parse_neighbors.induct)
  case (2 item items acc)
  show ?case
  proof (cases "trim item = []")
    case True
    then show ?thesis using 2(1) [OF refl True] 2(3,4) by simp
  next
    case False
    then obtain n where n: "parseNeighbor (trim item) = Inr n" using 2(3)
      by (auto simp: Let_def split: sum.splits)
    have "\<forall>n \<in> set (acc @ [n]). nb_port n < 2 ^ 32" using 2(4) parseNeighbor_port [OF n] by auto
    then show ?thesis using 2(2) [OF refl False n] 2(3) False n by (simp add: Let_def)
  qed
qed simp

lemma set_key_fits: "set_key k v cfg = Inr cfg' \<Longrightarrow> ports_fit cfg \<Longrightarrow> ports_fit cfg'"
  by (auto simp: set_key_def ports_fit_def parse_files_def dest: stoul32_range
      dest!: parse_neighbors_ports split: if_splits sum.splits)

lemma load_lines_fits: "load_lines ls cfg = Inr cfg' \<Longrightarrow> ports_fit cfg \<Longrightarrow> ports_fit cfg'"
proof (induction ls arbitrary: cfg)
  case (Cons l ls)
  then show ?case
    by (auto simp: Let_def split: if_splits option.splits sum.splits dest: set_key_fits)
qed simp

lemma loadConfig_sound:
  assumes "loadConfig fs path = Inr cfg"
  shows "valid_config cfg \<and> ports_fit cfg"
proof -
  have "load_lines (open_lines fs path) empty_NodeConfig = Inr cfg" "validateConfig cfg = None"
    using assms by (auto simp: loadConfig_def split: if_splits sum.splits option.splits)
  moreover have "ports_fit empty_NodeConfig" by (simp add: ports_fit_def empty_NodeConfig_def)
  ultimately show ?thesis using load_lines_fits validateConfig_iff by blast
qed

end
