(* ===== verification/Overlay_Check.thy ===== *)
theory Overlay_Check
  imports Overlay
begin

text \<open>
  What the traversals of \<open>OverlayConfig\<close> compute, the \<open>validate\<close> operation, and the
  meaning of a validated configuration: exactly one entry node, disjoint file ownership,
  known children, every node reachable from the entry node, and no cycle.
\<close>

section \<open>Reachability\<close>

definition edges :: "adjacency \<Rightarrow> (node_id \<times> node_id) set" where
  "edges ch = {(a, b). b \<in> set (succs ch a)}"

lemma edges_iff [simp]: "(a, b) \<in> edges ch \<longleftrightarrow> b \<in> set (succs ch a)"
  by (simp add: edges_def)

definition closed_under :: "adjacency \<Rightarrow> node_id set \<Rightarrow> bool" where
  "closed_under ch F \<longleftrightarrow> (\<forall>x \<in> F. set (succs ch x) \<subseteq> F)"

lemma closed_under_rtrancl:
  assumes "(a, b) \<in> (edges ch)\<^sup>*" and "closed_under ch F" and "a \<in> F"
  shows "b \<in> F"
  using assms by (induction rule: rtrancl_induct) (auto simp: closed_under_def)

lemma reach_loop_subset: "R \<subseteq> reach_loop ch cs R"
proof (induction ch cs R rule: reach_loop.induct)
  case (2 ch c cs R)
  then show ?case by (cases "c \<in> R") auto
qed simp

lemma reach_loop_sound:
  "x \<in> reach_loop ch cs R \<Longrightarrow> x \<in> R \<or> (\<exists>c \<in> set cs. (c, x) \<in> (edges ch)\<^sup>*)"
proof (induction ch cs R rule: reach_loop.induct)
  case (1 ch R)
  then show ?case by simp
next
  case (2 ch c cs R)
  show ?case
  proof (cases "c \<in> R")
    case True
    with 2 show ?thesis by auto
  next
    case False
    let ?S = "reach_loop ch (succs ch c) (insert c R)"
    from False 2(4) have "x \<in> reach_loop ch cs ?S" by simp
    with False 2(3) consider "x \<in> ?S" | d where "d \<in> set cs" "(d, x) \<in> (edges ch)\<^sup>*" by blast
    then show ?thesis
    proof cases
      case 1
      with False 2(2) consider "x = c" | "x \<in> R" | d where "d \<in> set (succs ch c)" "(d, x) \<in> (edges ch)\<^sup>*"
        by blast
      then show ?thesis
      proof cases
        case (3 d)
        then have "(c, x) \<in> (edges ch)\<^sup>*" by (meson converse_rtrancl_into_rtrancl edges_iff)
        then show ?thesis by auto
      qed auto
    qed auto
  qed
qed

text \<open>Everything newly visited has its children visited: a depth-first search misses nothing.\<close>

lemma reach_loop_complete:
  "set cs \<subseteq> reach_loop ch cs R \<and> (\<forall>x \<in> reach_loop ch cs R - R. set (succs ch x) \<subseteq> reach_loop ch cs R)"
proof (induction ch cs R rule: reach_loop.induct)
  case (1 ch R)
  then show ?case by simp
next
  case (2 ch c cs R)
  show ?case
  proof (cases "c \<in> R")
    case True
    with 2(1) reach_loop_subset [of R ch cs] show ?thesis by auto
  next
    case False
    let ?S = "reach_loop ch (succs ch c) (insert c R)" and ?T = "reach_loop ch (c # cs) R"
    have T: "?T = reach_loop ch cs ?S" using False by simp
    have sub: "insert c R \<subseteq> ?S" "?S \<subseteq> ?T" using reach_loop_subset T by auto
    have inner: "set (succs ch c) \<subseteq> ?S" "\<forall>x \<in> ?S - insert c R. set (succs ch x) \<subseteq> ?S"
      using 2(2) [OF False] by auto
    have outer: "set cs \<subseteq> ?T" "\<forall>x \<in> ?T - ?S. set (succs ch x) \<subseteq> ?T"
      using 2(3) [OF False] T by auto
    have "set (succs ch x) \<subseteq> ?T" if x: "x \<in> ?T - R" for x
    proof (cases "x \<in> ?S")
      case True
      with x inner have "set (succs ch x) \<subseteq> ?S" by (cases "x = c") blast+
      with sub(2) show ?thesis by (rule subset_trans [rotated])
    next
      case False
      with x outer(2) show ?thesis by blast
    qed
    moreover have "set (c # cs) \<subseteq> ?T" using outer(1) sub by auto
    ultimately show ?thesis by blast
  qed
qed

lemma collectReachable_eq: "collectReachable ch n {} = {x. (n, x) \<in> (edges ch)\<^sup>*}"
proof -
  have c: "set [n] \<subseteq> reach_loop ch [n] {}" "closed_under ch (reach_loop ch [n] {})"
    using reach_loop_complete [of "[n]" ch "{}"] by (auto simp: closed_under_def)
  have "x \<in> reach_loop ch [n] {}" if "(n, x) \<in> (edges ch)\<^sup>*" for x
    using closed_under_rtrancl [OF that c(2)] c(1) by simp
  moreover have "(n, x) \<in> (edges ch)\<^sup>*" if "x \<in> reach_loop ch [n] {}" for x
    using reach_loop_sound [OF that] by simp
  ultimately show ?thesis by (auto simp: collectReachable_def simp del: reach_loop.simps)
qed

text \<open>The descendant list visits the same nodes, each once, in preorder.\<close>

lemma descend_loop_reach: "snd (descend_loop ch cs out vis) = reach_loop ch cs vis"
proof (induction ch cs out vis rule: descend_loop.induct)
  case (2 ch c cs out vis)
  obtain o' v' where eq: "descend_loop ch (succs ch c) (out @ [c]) (insert c vis) = (o', v')"
    by fastforce
  show ?case
  proof (cases "c \<in> vis")
    case False
    from 2(3) [OF False eq [symmetric] refl] 2(2) [OF False] eq False show ?thesis by simp
  qed (use 2(1) in simp)
qed simp

lemma descend_loop_out:
  "\<exists>new. fst (descend_loop ch cs out vis) = out @ new \<and> distinct new \<and>
         set new = reach_loop ch cs vis - vis"
proof (induction ch cs out vis rule: descend_loop.induct)
  case (1 ch out vis)
  then show ?case by auto
next
  case (2 ch c cs out vis)
  show ?case
  proof (cases "c \<in> vis")
    case True
    with 2(1) show ?thesis by simp
  next
    case False
    obtain o' v' where eq: "descend_loop ch (succs ch c) (out @ [c]) (insert c vis) = (o', v')"
      by fastforce
    have v': "v' = reach_loop ch (succs ch c) (insert c vis)"
      using descend_loop_reach [of ch "succs ch c" "out @ [c]" "insert c vis"] eq by simp
    from 2(2) [OF False] eq v' obtain n1 where
      n1: "o' = out @ c # n1" "distinct n1" "set n1 = v' - insert c vis" by auto
    from 2(3) [OF False eq [symmetric] refl] obtain n2 where
      n2: "fst (descend_loop ch cs o' v') = o' @ n2" "distinct n2" "set n2 = reach_loop ch cs v' - v'"
      by auto
    have "insert c vis \<subseteq> v'" "v' \<subseteq> reach_loop ch cs v'" using v' reach_loop_subset by auto
    then have "set (c # n1 @ n2) = reach_loop ch cs v' - vis" "distinct (c # n1 @ n2)"
      using n1 n2 False by auto
    with n1 n2 eq False v' show ?thesis by (intro exI [of _ "c # n1 @ n2"]) simp
  qed
qed

lemma descendants_eq:
  "distinct (collectDescendants cfg n) \<and>
   set (collectDescendants cfg n) = {x. (n, x) \<in> (edges (ov_children cfg))\<^sup>*} - {n}"
proof -
  let ?ch = "ov_children cfg"
  have rec: "collectDescendantsRecursive ?ch n [] {n} = descend_loop ?ch (succs ?ch n) [] {n}"
    by (simp add: collectDescendantsRecursive_def succs_def split: option.splits)
  have "reach_loop ?ch (succs ?ch n) {n} = collectReachable ?ch n {}"
    by (simp add: collectReachable_def)
  with descend_loop_out [of ?ch "succs ?ch n" "[]" "{n}"] show ?thesis
    by (auto simp: collectDescendants_def rec collectReachable_eq)
qed

section \<open>Cycle detection\<close>

definition ranked :: "adjacency \<Rightarrow> node_id set \<Rightarrow> (node_id \<Rightarrow> nat) \<Rightarrow> bool" where
  "ranked ch F rk \<longleftrightarrow> (\<forall>x \<in> F. \<forall>y \<in> set (succs ch x). rk y < rk x)"

definition settled :: "adjacency \<Rightarrow> node_id set \<Rightarrow> bool" where
  \<comment> \<open>a set of finished nodes: closed under children and free of cycles\<close>
  "settled ch F \<longleftrightarrow> closed_under ch F \<and> (\<exists>rk. ranked ch F rk)"

lemma settled_empty [simp]: "settled ch {}"
  by (simp add: settled_def closed_under_def ranked_def)

lemma settled_insert:
  assumes "settled ch F" and "set (succs ch c) \<subseteq> F" and "c \<notin> F"
  shows "settled ch (insert c F)"
proof -
  from assms(1) obtain rk where cl: "closed_under ch F" and rk: "ranked ch F rk"
    by (auto simp: settled_def)
  let ?top = "Suc (Max (insert 0 (rk ` set (succs ch c))))"
  have "rk y < ?top" if "y \<in> set (succs ch c)" for y
    using that by (simp add: less_Suc_eq_le)
  with assms cl rk have "ranked ch (insert c F) (rk(c := ?top))"
    by (auto simp: ranked_def closed_under_def)
  with assms cl show ?thesis by (auto simp: settled_def closed_under_def)
qed

lemma settled_acyclic:
  assumes "settled ch F" and "x \<in> F"
  shows "(x, x) \<notin> (edges ch)\<^sup>+"
proof -
  from assms(1) obtain rk where cl: "closed_under ch F" and rk: "ranked ch F rk"
    by (auto simp: settled_def)
  have "y \<in> F \<and> rk y < rk x" if "(x, y) \<in> (edges ch)\<^sup>+" for y
    using that
  proof (induction rule: trancl_induct)
    case (base y)
    with assms(2) cl rk show ?case by (auto simp: closed_under_def ranked_def)
  next
    case (step y z)
    with cl rk show ?case by (fastforce simp: closed_under_def ranked_def)
  qed
  then show ?thesis by blast
qed

text \<open>A negative answer: the active stack is restored and every listed node is settled.\<close>

lemma cycle_loop_none:
  assumes "cycle_loop ch cs vis act = (False, vis', act')" and "settled ch (vis - act)" and "act \<subseteq> vis"
  shows "act' = act \<and> vis \<subseteq> vis' \<and> set cs \<subseteq> vis' - act \<and> settled ch (vis' - act)"
  using assms
proof (induction ch cs vis act arbitrary: vis' act' rule: cycle_loop.induct)
  case (1 ch vis act)
  then show ?case by simp
next
  case (2 ch c cs vis act)
  from 2(4) have na: "c \<notin> act" by (auto split: if_splits)
  show ?case
  proof (cases "c \<in> vis")
    case True
    with 2 na show ?thesis by auto
  next
    case False
    obtain b v a where eq: "cycle_loop ch (succs ch c) (insert c vis) (insert c act) = (b, v, a)"
      by (cases "cycle_loop ch (succs ch c) (insert c vis) (insert c act)")
    with 2(4) na False have b: "\<not> b" and rest: "cycle_loop ch cs v (a - {c}) = (False, vis', act')"
      by (auto split: if_splits)
    have "insert c vis - insert c act = vis - act" using False by auto
    with 2(2) [OF na False, of v a] eq b 2(5,6)
    have a: "a = insert c act" and v: "insert c vis \<subseteq> v" "set (succs ch c) \<subseteq> v - insert c act"
      and F: "settled ch (v - insert c act)" by auto
    have "settled ch (insert c (v - insert c act))" by (rule settled_insert [OF F v(2)]) simp
    moreover have "insert c (v - insert c act) = v - act" using v(1) na by auto
    moreover have "a - {c} = act" using a na by auto
    ultimately have "act' = act \<and> v \<subseteq> vis' \<and> set cs \<subseteq> vis' - act \<and> settled ch (vis' - act)"
      using 2(3) [OF na False eq [symmetric] refl refl b rest] v(1) 2(6) by auto
    with v(1) na show ?thesis by auto
  qed
qed

text \<open>A positive answer: an edge back into the active path closes a cycle.\<close>

lemma cycle_loop_found:
  assumes "cycle_loop ch cs vis act = (True, vis', act')"
    and "\<forall>a \<in> act. (a, p) \<in> (edges ch)\<^sup>*" and "set cs \<subseteq> set (succs ch p)"
    and "settled ch (vis - act)" and "act \<subseteq> vis"
  shows "\<exists>x. (p, x) \<in> (edges ch)\<^sup>* \<and> (x, x) \<in> (edges ch)\<^sup>+"
  using assms
proof (induction ch cs vis act arbitrary: p vis' act' rule: cycle_loop.induct)
  case (1 ch vis act)
  then show ?case by simp
next
  case (2 ch c cs vis act)
  have edge: "(p, c) \<in> edges ch" using 2(6) by simp
  show ?case
  proof (cases "c \<in> act")
    case True
    with 2(5) have "(c, p) \<in> (edges ch)\<^sup>*" by blast
    with edge have "(p, p) \<in> (edges ch)\<^sup>+" by (rule rtrancl_into_trancl2)
    then show ?thesis by blast
  next
    case na: False
    show ?thesis
    proof (cases "c \<in> vis")
      case True
      with 2 na show ?thesis by auto
    next
      case False
      obtain b v a where eq: "cycle_loop ch (succs ch c) (insert c vis) (insert c act) = (b, v, a)"
        by (cases "cycle_loop ch (succs ch c) (insert c vis) (insert c act)")
      have set_eq: "insert c vis - insert c act = vis - act" using False by auto
      show ?thesis
      proof (cases b)
        case True
        have "\<forall>d \<in> insert c act. (d, c) \<in> (edges ch)\<^sup>*"
          using 2(5) edge by (auto intro: rtrancl_into_rtrancl)
        with 2(2) [OF na False, of v a c] eq True 2(7,8) set_eq obtain x where
          "(c, x) \<in> (edges ch)\<^sup>*" "(x, x) \<in> (edges ch)\<^sup>+" by auto
        with edge show ?thesis by (meson converse_rtrancl_into_rtrancl)
      next
        case nb: False
        with eq have eqF: "cycle_loop ch (succs ch c) (insert c vis) (insert c act) = (False, v, a)"
          by simp
        from cycle_loop_none [OF this] 2(7,8) set_eq
        have a: "a = insert c act" and v: "insert c vis \<subseteq> v" "set (succs ch c) \<subseteq> v - insert c act"
          and F: "settled ch (v - insert c act)" by auto
        have "settled ch (insert c (v - insert c act))" by (rule settled_insert [OF F v(2)]) simp
        moreover have "insert c (v - insert c act) = v - act" using v(1) na by auto
        moreover have ac: "a - {c} = act" using a na by auto
        moreover have "cycle_loop ch cs v (a - {c}) = (True, vis', act')"
          using 2(4) na False eq nb by simp
        note rest = this
        ultimately show ?thesis
          using 2(3) [OF na False eq [symmetric] refl refl nb rest, of p] 2(5,6,8) v(1) by auto
      qed
    qed
  qed
qed

lemma hasCycle_iff:
  "fst (hasCycle ch n {} {}) \<longleftrightarrow> (\<exists>x. (n, x) \<in> (edges ch)\<^sup>* \<and> (x, x) \<in> (edges ch)\<^sup>+)"
proof -
  obtain b v a where eq: "cycle_loop ch (succs ch n) {n} {n} = (b, v, a)"
    by (cases "cycle_loop ch (succs ch n) {n} {n}")
  then have top: "fst (hasCycle ch n {} {}) = b" by (simp add: hasCycle_def)
  show ?thesis
  proof (cases b)
    case True
    with eq cycle_loop_found [of ch "succs ch n" "{n}" "{n}" v a n] show ?thesis
      by (simp add: top)
  next
    case False
    with eq have "cycle_loop ch (succs ch n) {n} {n} = (False, v, a)" by simp
    from cycle_loop_none [OF this] have v: "n \<in> v" "set (succs ch n) \<subseteq> v - {n}" and F: "settled ch (v - {n})"
      by auto
    have "settled ch (insert n (v - {n}))" by (rule settled_insert [OF F v(2)]) simp
    then have "settled ch v" using v(1) by (simp add: insert_absorb)
    with v(1) have "(x, x) \<notin> (edges ch)\<^sup>+" if "(n, x) \<in> (edges ch)\<^sup>*" for x
      using closed_under_rtrancl [OF that] settled_acyclic by (auto simp: settled_def)
    with False show ?thesis by (auto simp: top)
  qed
qed

section \<open>Validation\<close>

text \<open>Inserting a list into a set, failing at the first element already present.\<close>

fun insert_fresh :: "'a set \<Rightarrow> 'a list \<Rightarrow> 'a set option" where
  "insert_fresh S [] = Some S"
| "insert_fresh S (x # xs) = (if x \<in> S then None else insert_fresh (insert x S) xs)"

fun owned_files_fresh :: "string set \<Rightarrow> NodeInfo list \<Rightarrow> bool" where
  "owned_files_fresh S [] = True"
| "owned_files_fresh S (n # ns) =
     (case insert_fresh S (ni_ownedFiles n) of
        None \<Rightarrow> False
      | Some S' \<Rightarrow> owned_files_fresh S' ns)"

fun child_list_ok :: "(node_id, NodeInfo) umap \<Rightarrow> node_id set \<Rightarrow> node_id list \<Rightarrow> bool" where
  "child_list_ok nodes seen [] = True"
| "child_list_ok nodes seen (c # cs) =
     (if um_find nodes c = None then False
      else if c \<in> seen then False
      else child_list_ok nodes (insert c seen) cs)"

fun children_ok :: "(node_id, NodeInfo) umap \<Rightarrow> adjacency \<Rightarrow> bool" where
  "children_ok nodes [] = True"
| "children_ok nodes ((n, cs) # rest) =
     (if um_find nodes n = None then False
      else if \<not> child_list_ok nodes {} cs then False
      else children_ok nodes rest)"

definition validate :: "OverlayConfig \<Rightarrow> bool" where
  "validate cfg =
     (if ov_selfNodeId cfg \<noteq> [] \<and> um_find (ov_nodes cfg) (ov_selfNodeId cfg) = None then False
      else case getEntryNode cfg of
        None \<Rightarrow> False
      | Some entry \<Rightarrow>
          if length (filter (\<lambda>(_, n). ni_isEntryNode n) (ov_nodes cfg)) \<noteq> 1 then False
          else if \<not> owned_files_fresh {} (map snd (ov_nodes cfg)) then False
          else if \<not> children_ok (ov_nodes cfg) (ov_children cfg) then False
          else if card (collectReachable (ov_children cfg) (ni_nodeId entry) {}) \<noteq> length (ov_nodes cfg)
               then False
          else if fst (hasCycle (ov_children cfg) (ni_nodeId entry) {} {}) then False
          else True)"

text \<open>Well-formedness: unique keys, and every node stored under its own identifier.\<close>

definition overlay_inv :: "OverlayConfig \<Rightarrow> bool" where
  "overlay_inv cfg \<longleftrightarrow>
     um_ok (ov_nodes cfg) \<and> um_ok (ov_children cfg) \<and> um_ok (ov_parents cfg) \<and>
     (\<forall>k n. um_find (ov_nodes cfg) k = Some n \<longrightarrow> ni_nodeId n = k) \<and> parents_inv cfg"

lemma um_ok_add: "um_ok ps \<Longrightarrow> um_ok (addIncomingEdge c n ps)"
  by (simp add: addIncomingEdge_def split_beta Let_def um_ok_index)

lemma um_ok_fold_add: "um_ok ps \<Longrightarrow> um_ok (fold (\<lambda>c. addIncomingEdge c n) cs ps)"
  by (induction cs arbitrary: ps) (auto simp: um_ok_add)

lemma um_ok_fold_remove: "um_ok ps \<Longrightarrow> um_ok (fold (\<lambda>c. removeIncomingEdge c n) cs ps)"
  by (induction cs arbitrary: ps) (auto simp: removeIncomingEdge_def Let_def split: option.splits)

lemma overlay_inv_empty: "overlay_inv empty_Overlay"
  using parents_inv_empty by (simp add: overlay_inv_def empty_Overlay_def)

lemma overlay_inv_addNode: "overlay_inv cfg \<Longrightarrow> overlay_inv (addNode i cfg)"
  using parents_inv_addNode [of cfg i]
  by (auto simp: overlay_inv_def addNode_def rebuildFileOwnershipIndex_def split: if_splits)

lemma overlay_inv_setChildren: "overlay_inv cfg \<Longrightarrow> overlay_inv (setChildren n cs cfg)"
  using parents_inv_setChildren [of cfg n cs]
  by (auto simp: overlay_inv_def setChildren_def Let_def intro: um_ok_fold_add um_ok_fold_remove
      split: option.splits)

lemma overlay_inv_setSelf: "overlay_inv cfg \<Longrightarrow> overlay_inv (setSelfNodeId n cfg)"
  by (simp add: overlay_inv_def setSelfNodeId_def parents_inv_alt)

lemma insert_fresh_iff:
  "insert_fresh S xs = Some T \<longleftrightarrow> distinct xs \<and> set xs \<inter> S = {} \<and> T = S \<union> set xs"
  by (induction xs arbitrary: S) auto

lemma insert_fresh_None: "insert_fresh S xs = None \<longleftrightarrow> \<not> (distinct xs \<and> set xs \<inter> S = {})"
  by (induction xs arbitrary: S) auto

lemma owned_files_fresh_iff:
  "owned_files_fresh S ns \<longleftrightarrow>
     distinct (concat (map ni_ownedFiles ns)) \<and> set (concat (map ni_ownedFiles ns)) \<inter> S = {}"
proof (induction ns arbitrary: S)
  case (Cons n ns)
  then show ?case
    by (auto simp: insert_fresh_iff insert_fresh_None split: option.splits)
qed simp

lemma child_list_ok_iff:
  "child_list_ok nodes seen cs \<longleftrightarrow> set cs \<subseteq> dom (um_find nodes) \<and> distinct cs \<and> set cs \<inter> seen = {}"
  by (induction cs arbitrary: seen) auto

lemma children_ok_iff:
  "children_ok nodes ch \<longleftrightarrow>
     (\<forall>(n, cs) \<in> set ch. n \<in> dom (um_find nodes) \<and> set cs \<subseteq> dom (um_find nodes) \<and> distinct cs)"
proof (induction ch)
  case (Cons x ch)
  obtain n cs where x: "x = (n, cs)" by fastforce
  show ?case using Cons.IH by (simp add: x child_list_ok_iff domIff) blast
qed simp

text \<open>What \<open>validate\<close> promises, stated without the algorithm.\<close>

definition valid_overlay :: "OverlayConfig \<Rightarrow> bool" where
  "valid_overlay cfg \<longleftrightarrow>
     (ov_selfNodeId cfg \<noteq> [] \<longrightarrow> ov_selfNodeId cfg \<in> dom (um_find (ov_nodes cfg))) \<and>
     distinct (concat (map ni_ownedFiles (map snd (ov_nodes cfg)))) \<and>
     (\<forall>n cs. um_find (ov_children cfg) n = Some cs \<longrightarrow>
        n \<in> dom (um_find (ov_nodes cfg)) \<and> set cs \<subseteq> dom (um_find (ov_nodes cfg)) \<and> distinct cs) \<and>
     (\<exists>!e. \<exists>i. um_find (ov_nodes cfg) e = Some i \<and> ni_isEntryNode i) \<and>
     (\<forall>e i. um_find (ov_nodes cfg) e = Some i \<and> ni_isEntryNode i \<longrightarrow>
        {x. (e, x) \<in> (edges (ov_children cfg))\<^sup>*} = dom (um_find (ov_nodes cfg))) \<and>
     acyclic (edges (ov_children cfg))"

lemma filter_one:
  assumes "distinct (map fst xs)"
  shows "length (filter P xs) = 1 \<longleftrightarrow> (\<exists>!k. \<exists>v. (k, v) \<in> set xs \<and> P (k, v))"
proof
  assume "length (filter P xs) = 1"
  then obtain k v where f: "filter P xs = [(k, v)]"
    by (metis length_0_conv length_Suc_conv One_nat_def surj_pair)
  have "(k', v') \<in> set xs \<and> P (k', v') \<longleftrightarrow> k' = k \<and> v' = v" for k' v'
    using arg_cong [OF f, of set] by auto
  then show "\<exists>!k. \<exists>v. (k, v) \<in> set xs \<and> P (k, v)" by auto
next
  assume "\<exists>!k. \<exists>v. (k, v) \<in> set xs \<and> P (k, v)"
  then obtain k where k: "\<exists>v. (k, v) \<in> set xs \<and> P (k, v)"
    and uniq: "\<And>j. \<exists>v. (j, v) \<in> set xs \<and> P (j, v) \<Longrightarrow> j = k" by blast
  have d: "distinct (map fst (filter P xs))" using assms by (rule distinct_map_filter)
  have "set (map fst (filter P xs)) = {k}" using k uniq by force
  then have "card (set (map fst (filter P xs))) = 1" by (metis is_singletonI is_singleton_altdef)
  with distinct_card [OF d] show "length (filter P xs) = 1" by (simp only: length_map)
qed

lemma um_dom_card: "um_ok m \<Longrightarrow> finite (dom (um_find m)) \<and> card (dom (um_find m)) = length m"
  using distinct_card [of "um_keys m"] um.keys_lookup [of m]
  by (auto simp: um_ok_def um_keys_def simp flip: um.keys_lookup)

lemma getEntryNode_Some:
  assumes "overlay_inv cfg" and "getEntryNode cfg = Some i"
  shows "um_find (ov_nodes cfg) (ni_nodeId i) = Some i \<and> ni_isEntryNode i"
proof -
  from assms(2) have e: "ni_isEntryNode i" and "i \<in> set (map snd (ov_nodes cfg))"
    unfolding getEntryNode_def by (auto simp only: find_Some_iff nth_mem)
  then obtain k where "(k, i) \<in> set (ov_nodes cfg)" by auto
  with assms(1) have "um_find (ov_nodes cfg) k = Some i"
    by (simp add: overlay_inv_def um_find_entry)
  with assms(1) e show ?thesis by (auto simp: overlay_inv_def)
qed

lemma getEntryNode_None:
  "overlay_inv cfg \<Longrightarrow> getEntryNode cfg = None \<Longrightarrow>
     um_find (ov_nodes cfg) k = Some i \<Longrightarrow> \<not> ni_isEntryNode i"
  by (auto simp: getEntryNode_def find_None_iff dest!: um_find_in)

lemma reachable_known:
  assumes kids: "\<forall>n cs. um_find ch n = Some cs \<longrightarrow> set cs \<subseteq> D" and "e \<in> D"
  shows "{x. (e, x) \<in> (edges ch)\<^sup>*} \<subseteq> D"
proof -
  have "closed_under ch D"
    unfolding closed_under_def
  proof (intro ballI)
    fix x assume "x \<in> D"
    show "set (succs ch x) \<subseteq> D"
      using kids by (cases "um_find ch x") (auto simp: succs_def)
  qed
  then show ?thesis using closed_under_rtrancl [of e _ ch D] assms(2) by blast
qed

lemma cycle_reachable:
  assumes src: "\<forall>n cs. um_find ch n = Some cs \<longrightarrow> n \<in> D"
    and all: "{x. (e, x) \<in> (edges ch)\<^sup>*} = D"
  shows "(\<exists>x. (e, x) \<in> (edges ch)\<^sup>* \<and> (x, x) \<in> (edges ch)\<^sup>+) \<longleftrightarrow> \<not> acyclic (edges ch)"
proof -
  have "x \<in> D" if "(x, x) \<in> (edges ch)\<^sup>+" for x
  proof -
    from that obtain y where "y \<in> set (succs ch x)" by (auto dest: tranclD)
    with src show ?thesis by (cases "um_find ch x") (auto simp: succs_def)
  qed
  with all show ?thesis by (auto simp: acyclic_def)
qed

lemma validate_iff:
  assumes inv: "overlay_inv cfg"
  shows "validate cfg \<longleftrightarrow> valid_overlay cfg"
proof (cases "getEntryNode cfg")
  case None
  then have "\<not> (\<exists>e i. um_find (ov_nodes cfg) e = Some i \<and> ni_isEntryNode i)"
    using getEntryNode_None [OF inv] by blast
  with None show ?thesis by (auto simp: validate_def valid_overlay_def)
next
  case (Some entry)
  let ?N = "ov_nodes cfg" and ?ch = "ov_children cfg" and ?e = "ni_nodeId entry"
  let ?D = "dom (um_find ?N)" and ?reach = "{x. (ni_nodeId entry, x) \<in> (edges (ov_children cfg))\<^sup>*}"
  have ok: "um_ok ?N" "um_ok ?ch" using inv by (auto simp: overlay_inv_def)
  have e: "um_find ?N ?e = Some entry" "ni_isEntryNode entry" using getEntryNode_Some [OF inv Some] by auto
  have card: "finite ?D" "card ?D = length ?N" using um_dom_card [OF ok(1)] by auto
  have one: "length (filter (\<lambda>(_, n). ni_isEntryNode n) ?N) = 1 \<longleftrightarrow>
      (\<exists>!e. \<exists>i. um_find ?N e = Some i \<and> ni_isEntryNode i)"
    using filter_one [of ?N "\<lambda>(_, n). ni_isEntryNode n"] ok(1)
    by (simp add: um_find_entry um_ok_def um_keys_def)
  let ?kids = "\<forall>n cs. um_find ?ch n = Some cs \<longrightarrow> n \<in> ?D \<and> set cs \<subseteq> ?D \<and> distinct cs"
  have kids: "children_ok ?N ?ch \<longleftrightarrow> ?kids"
    unfolding children_ok_iff um_find_entry [OF ok(2), symmetric] by blast
  have reach: "?kids \<Longrightarrow> card ?reach = length ?N \<longleftrightarrow> ?reach = ?D"
    using reachable_known [of ?ch ?D ?e] card e by (metis card_subset_eq domI)
  have cyc: "?kids \<Longrightarrow> ?reach = ?D \<Longrightarrow> fst (hasCycle ?ch ?e {} {}) \<longleftrightarrow> \<not> acyclic (edges ?ch)"
    using cycle_reachable [of ?ch ?D ?e] by (simp add: hasCycle_iff)
  have uniq: "(\<exists>!e. \<exists>i. um_find ?N e = Some i \<and> ni_isEntryNode i) \<Longrightarrow>
      (\<forall>e i. um_find ?N e = Some i \<and> ni_isEntryNode i \<longrightarrow> {x. (e, x) \<in> (edges ?ch)\<^sup>*} = ?D) \<longleftrightarrow> ?reach = ?D"
    using e by blast
  have "validate cfg \<longleftrightarrow>
      (ov_selfNodeId cfg \<noteq> [] \<longrightarrow> ov_selfNodeId cfg \<in> ?D) \<and>
      length (filter (\<lambda>(_, n). ni_isEntryNode n) ?N) = 1 \<and>
      distinct (concat (map ni_ownedFiles (map snd ?N))) \<and> children_ok ?N ?ch \<and>
      card ?reach = length ?N \<and> \<not> fst (hasCycle ?ch ?e {} {})"
    by (simp add: validate_def Some owned_files_fresh_iff collectReachable_eq domIff)
  also have "\<dots> \<longleftrightarrow> valid_overlay cfg"
  proof (cases "?kids \<and> (\<exists>!e. \<exists>i. um_find ?N e = Some i \<and> ni_isEntryNode i)")
    case True
    then have k: "?kids" and o: "\<exists>!e. \<exists>i. um_find ?N e = Some i \<and> ni_isEntryNode i" by (rule conjunct1, rule conjunct2)
    show ?thesis
      unfolding valid_overlay_def one kids reach [OF k] uniq [OF o]
      using k o cyc [OF k] by argo
  next
    case False
    then show ?thesis unfolding valid_overlay_def one kids by argo
  qed
  finally show ?thesis .
qed

text \<open>The ownership index: in a validated configuration a file is found at its only owner.\<close>

lemma index_files_find:
  "um_find (index_files n fs idx) f = (if f \<in> set fs then Some n else um_find idx f)"
  by (induction fs arbitrary: idx) auto

lemma index_nodes_other:
  "f \<notin> set (concat (map ni_ownedFiles (map snd ns))) \<Longrightarrow> um_find (index_nodes ns idx) f = um_find idx f"
  by (induction ns idx rule: index_nodes.induct) (auto simp: index_files_find)

lemma index_nodes_find:
  assumes "distinct (concat (map ni_ownedFiles (map snd ns)))"
    and "(k, i) \<in> set ns" and "f \<in> set (ni_ownedFiles i)"
  shows "um_find (index_nodes ns idx) f = Some k"
  using assms
proof (induction ns idx rule: index_nodes.induct)
  case (1 idx)
  then show ?case by simp
next
  case (2 n j ns idx)
  show ?case
  proof (cases "(k, i) \<in> set ns")
    case True
    with 2 show ?thesis by simp
  next
    case False
    with 2(3) have "k = n" "i = j" by auto
    with 2 have "f \<notin> set (concat (map ni_ownedFiles (map snd ns)))" by auto
    then show ?thesis using 2(4) \<open>k = n\<close> \<open>i = j\<close> index_nodes_other [of f ns]
      by (simp add: index_files_find)
  qed
qed

definition index_inv :: "OverlayConfig \<Rightarrow> bool" where
  "index_inv cfg \<longleftrightarrow> ov_fileToOwnerNodeId cfg = index_nodes (ov_nodes cfg) []"

lemma index_inv_ops:
  "index_inv empty_Overlay"
  "index_inv (addNode i cfg)"
  "index_inv cfg \<Longrightarrow> index_inv (setChildren n cs cfg)"
  "index_inv cfg \<Longrightarrow> index_inv (setSelfNodeId n cfg)"
  by (simp_all add: index_inv_def empty_Overlay_def addNode_def rebuildFileOwnershipIndex_def
      setChildren_def setSelfNodeId_def Let_def)

lemma findOwnerOfFile_owner:
  assumes "overlay_inv cfg" and "index_inv cfg" and "validate cfg"
    and "getNode cfg n = Some i" and "f \<in> set (ni_ownedFiles i)"
  shows "findOwnerOfFile cfg f = Some i"
proof -
  have "(n, i) \<in> set (ov_nodes cfg)" using assms(4) by (simp add: getNode_def um_find_in)
  moreover have "distinct (concat (map ni_ownedFiles (map snd (ov_nodes cfg))))"
    using assms(3) validate_iff [OF assms(1)] by (simp add: valid_overlay_def)
  ultimately have "um_find (ov_fileToOwnerNodeId cfg) f = Some n"
    using assms(2,5) index_nodes_find by (simp add: index_inv_def)
  with assms(4) show ?thesis by (simp add: findOwnerOfFile_def)
qed

end
