(* ===== verification/Node_Server.thy ===== *)
theory Node_Server
  imports Query_Service Node_Config Overlay_Check
begin

text \<open>
  The start of a node (\<open>src/basic/src/server/main.cpp\<close>): the overlay built from the node's
  configuration, the local worker and its files, and the coordinator. The start is modelled
  up to the construction of the coordinator; gRPC's server loop is not.
\<close>

section \<open>Overlay and start\<close>

definition self_info :: "NodeConfig \<Rightarrow> NodeInfo" where
  "self_info cfg = \<lparr> ni_nodeId = nc_nodeId cfg, ni_host = ''127.0.0.1'',
     ni_port = to_unsigned 16 (int (nc_listenPort cfg)), ni_isEntryNode = (nc_nodeId cfg = ''A''),
     ni_ownedFiles = nc_assignedFiles cfg \<rparr>"

definition peer_info :: "NeighborConfig \<Rightarrow> NodeInfo" where
  "peer_info n = \<lparr> ni_nodeId = nb_nodeId n, ni_host = nb_host n,
     ni_port = to_unsigned 16 (int (nb_port n)), ni_isEntryNode = False, ni_ownedFiles = [] \<rparr>"

fun add_peers :: "NeighborConfig list \<Rightarrow> OverlayConfig \<Rightarrow> node_id list \<Rightarrow> OverlayConfig \<times> node_id list" where
  "add_peers [] overlay children = (overlay, children)"
| "add_peers (n # ns) overlay children = add_peers ns (addNode (peer_info n) overlay) (children @ [nb_nodeId n])"

definition buildOverlayFromNodeConfig :: "NodeConfig \<Rightarrow> OverlayConfig" where
  "buildOverlayFromNodeConfig cfg =
     (case add_peers (nc_neighbors cfg) (addNode (self_info cfg) empty_Overlay) [] of
        (overlay, children) \<Rightarrow> setSelfNodeId (nc_nodeId cfg) (setChildren (nc_nodeId cfg) children overlay))"

fun load_assigned :: "file_system \<Rightarrow> nat \<Rightarrow> string list \<Rightarrow> PartitionStore \<Rightarrow> PartitionStore" where
  "load_assigned fs i [] s = s"
| "load_assigned fs i (f # files) s = load_assigned fs (i + 1) files (snd (loadFile fs f s i))"

definition local_worker :: "file_system \<Rightarrow> NodeConfig \<Rightarrow> WorkerNode" where
  "local_worker fs cfg =
     (let w = new_WorkerNode (new_NodeInfo (nc_nodeId cfg) ''127.0.0.1'' (int (nc_listenPort cfg)) False)
      in if nc_assignedFiles cfg \<noteq> []
         then w\<lparr>wn_store := load_assigned fs 0 (nc_assignedFiles cfg) (wn_store w)\<rparr> else w)"

definition start_coordinator :: "file_system \<Rightarrow> NodeConfig \<Rightarrow> coordinator" where
  "start_coordinator fs cfg =
     (let overlay = buildOverlayFromNodeConfig cfg
      in addWorker (local_worker fs cfg)
           (make_QueryCoordinator (nc_nodeId cfg) overlay (new_remote_client (nc_nodeId cfg) overlay)))"

section \<open>Facts\<close>

lemma addNode_nodes: "ov_nodes (addNode i cfg) = um_put (ni_nodeId i) i (ov_nodes cfg)"
  by (simp add: addNode_def rebuildFileOwnershipIndex_def)

lemma addNode_children [simp]: "ov_children (addNode i cfg) = ov_children cfg"
  by (simp add: addNode_def rebuildFileOwnershipIndex_def)

lemma um_put_new: "um_find m k = None \<Longrightarrow> um_put k v m = m @ [(k, v)]"
  unfolding um_find_def um_put_def by (induction m) (auto split: if_splits)

lemma add_peers_nodes:
  assumes "distinct (map nb_nodeId ns)" and "\<forall>n \<in> set ns. um_find (ov_nodes ov) (nb_nodeId n) = None"
  shows "ov_nodes (fst (add_peers ns ov ch)) = ov_nodes ov @ map (\<lambda>n. (nb_nodeId n, peer_info n)) ns \<and>
    snd (add_peers ns ov ch) = ch @ map nb_nodeId ns \<and>
    ov_children (fst (add_peers ns ov ch)) = ov_children ov"
  using assms
proof (induction ns arbitrary: ov ch)
  case (Cons n ns)
  have put: "ov_nodes (addNode (peer_info n) ov) = ov_nodes ov @ [(nb_nodeId n, peer_info n)]"
    using Cons.prems(2) by (simp add: addNode_nodes um_put_new peer_info_def)
  have new: "\<forall>m \<in> set ns. um_find (ov_nodes (addNode (peer_info n) ov)) (nb_nodeId m) = None"
    using Cons.prems by (auto simp: addNode_nodes peer_info_def image_iff)
  show ?case
    using Cons.IH [OF _ new, of "ch @ [nb_nodeId n]"] put Cons.prems(1) by simp
qed simp

lemma overlay_inv_add_peers: "overlay_inv ov \<Longrightarrow> overlay_inv (fst (add_peers ns ov ch))"
  by (induction ns ov ch rule: add_peers.induct) (auto intro: overlay_inv_addNode)

lemma built_overlay:
  assumes "valid_config cfg"
  defines "ov \<equiv> buildOverlayFromNodeConfig cfg"
  shows "overlay_inv ov" and "ov_selfNodeId ov = nc_nodeId cfg"
    and "ov_nodes ov = (nc_nodeId cfg, self_info cfg) # map (\<lambda>n. (nb_nodeId n, peer_info n)) (nc_neighbors cfg)"
    and "ov_children ov = [(nc_nodeId cfg, map nb_nodeId (nc_neighbors cfg))]"
    and "getChildren ov (nc_nodeId cfg) = map nb_nodeId (nc_neighbors cfg)"
proof -
  let ?ov0 = "addNode (self_info cfg) empty_Overlay"
  obtain ov1 ch where p: "add_peers (nc_neighbors cfg) ?ov0 [] = (ov1, ch)" by fastforce
  have nodes0: "ov_nodes ?ov0 = [(nc_nodeId cfg, self_info cfg)]"
    by (simp add: addNode_nodes empty_Overlay_def um_put_def self_info_def)
  have d: "distinct (map nb_nodeId (nc_neighbors cfg))"
    and n: "\<forall>n \<in> set (nc_neighbors cfg). um_find (ov_nodes ?ov0) (nb_nodeId n) = None"
    using assms(1) by (auto simp: valid_config_def nodes0 um_find_Cons image_iff)
  have peers: "ov_nodes ov1 = ov_nodes ?ov0 @ map (\<lambda>n. (nb_nodeId n, peer_info n)) (nc_neighbors cfg)"
    "ch = map nb_nodeId (nc_neighbors cfg)" "ov_children ov1 = ov_children ?ov0"
    using add_peers_nodes [OF d n, of "[]"] by (simp_all add: p)
  have ov: "ov = setSelfNodeId (nc_nodeId cfg) (setChildren (nc_nodeId cfg) ch ov1)"
    by (simp add: ov_def buildOverlayFromNodeConfig_def p)
  have "overlay_inv ov1"
    using overlay_inv_add_peers [of ?ov0 "nc_neighbors cfg" "[]"] p overlay_inv_addNode [OF overlay_inv_empty]
    by simp
  then show "overlay_inv ov" unfolding ov by (intro overlay_inv_setSelf overlay_inv_setChildren)
  show "ov_selfNodeId ov = nc_nodeId cfg" by (simp add: ov setSelfNodeId_def)
  show "ov_nodes ov = (nc_nodeId cfg, self_info cfg) # map (\<lambda>n. (nb_nodeId n, peer_info n)) (nc_neighbors cfg)"
    using peers(1) nodes0 by (simp add: ov setSelfNodeId_def setChildren_def Let_def)
  show ch: "ov_children ov = [(nc_nodeId cfg, map nb_nodeId (nc_neighbors cfg))]"
    using peers(2,3) by (simp add: ov setSelfNodeId_def setChildren_def Let_def empty_Overlay_def um_put_def)
  then show "getChildren ov (nc_nodeId cfg) = map nb_nodeId (nc_neighbors cfg)"
    by (simp add: getChildren_def succs_def um_find_Cons)
qed

lemma star_acyclic:
  assumes "c \<notin> set cs"
  shows "acyclic (edges [(c, cs)])" and "{x. (c, x) \<in> (edges [(c, cs)])\<^sup>*} = insert c (set cs)"
proof -
  have e: "edges [(c, cs)] = {c} \<times> set cs"
    by (auto simp: edges_def succs_def um_find_Cons split: if_splits)
  have "trans ({c} \<times> set cs)" using assms by (auto simp: trans_def)
  then have t: "({c} \<times> set cs)\<^sup>+ = {c} \<times> set cs" by (rule trancl_id)
  show "acyclic (edges [(c, cs)])" using assms by (auto simp: acyclic_def e t)
  show "{x. (c, x) \<in> (edges [(c, cs)])\<^sup>*} = insert c (set cs)" by (auto simp: e rtrancl_eq_or_trancl t)
qed

text \<open>
  The overlay of a valid configuration passes validation on the entry node \<open>A\<close>, when its
  files are distinct, and on no other node: nobody else is marked as the entry.
\<close>

lemma built_overlay_validate:
  assumes v: "valid_config cfg"
  shows "validate (buildOverlayFromNodeConfig cfg) \<longleftrightarrow> nc_nodeId cfg = ''A'' \<and> distinct (nc_assignedFiles cfg)"
proof -
  let ?ov = "buildOverlayFromNodeConfig cfg" and ?c = "nc_nodeId cfg"
  let ?ns = "map nb_nodeId (nc_neighbors cfg)"
  note b = built_overlay [OF v]
  have d: "distinct (?c # ?ns)" using v by (simp add: valid_config_def)
  have find: "um_find (ov_nodes ?ov) e = Some i \<longleftrightarrow>
      e = ?c \<and> i = self_info cfg \<or> (\<exists>n \<in> set (nc_neighbors cfg). e = nb_nodeId n \<and> i = peer_info n)" for e i
  proof -
    have ok: "um_ok (ov_nodes ?ov)" using b(1) by (simp add: overlay_inv_def)
    have "(e, i) \<in> set (ov_nodes ?ov) \<longleftrightarrow>
        e = ?c \<and> i = self_info cfg \<or> (\<exists>n \<in> set (nc_neighbors cfg). e = nb_nodeId n \<and> i = peer_info n)"
      unfolding b(3) by auto
    then show ?thesis unfolding um_find_entry [OF ok] .
  qed
  have dom: "dom (um_find (ov_nodes ?ov)) = insert ?c (set ?ns)"
    using find by (auto simp: dom_def)
  have entry: "um_find (ov_nodes ?ov) e = Some i \<and> ni_isEntryNode i \<longleftrightarrow> ?c = ''A'' \<and> e = ?c \<and> i = self_info cfg" for e i
    unfolding find by (auto simp: self_info_def peer_info_def)
  have files: "concat (map ni_ownedFiles (map snd (ov_nodes ?ov))) = nc_assignedFiles cfg"
    by (simp add: b(3) self_info_def peer_info_def o_def)
  have kids: "\<forall>n cs. um_find (ov_children ?ov) n = Some cs \<longrightarrow>
      n \<in> dom (um_find (ov_nodes ?ov)) \<and> set cs \<subseteq> dom (um_find (ov_nodes ?ov)) \<and> distinct cs"
    using d by (auto simp: b(4) dom um_find_Cons split: if_splits)
  have star: "acyclic (edges (ov_children ?ov))" "{x. (?c, x) \<in> (edges (ov_children ?ov))\<^sup>*} = insert ?c (set ?ns)"
    using star_acyclic [of ?c ?ns] d by (simp_all add: b(4))
  show ?thesis
    unfolding validate_iff [OF b(1)] valid_overlay_def entry files using kids star
    by (auto simp: b(2) dom)
qed

lemma start_coordinator_inv:
  "coordinator_inv (start_coordinator fs cfg) \<and> generated_ids (start_coordinator fs cfg)"
  using coordinator_inv_start [of "nc_nodeId cfg" "buildOverlayFromNodeConfig cfg"]
  by (auto simp: start_coordinator_def Let_def addWorker_def coordinator_inv_def generated_ids_def
      make_QueryCoordinator_def new_QueryCoordinator_def)

lemma start_coordinator_worker:
  "find (\<lambda>w. co_selfNodeId (start_coordinator fs cfg) \<noteq> [] \<longrightarrow>
      getNodeId w = co_selfNodeId (start_coordinator fs cfg)) (co_workers (start_coordinator fs cfg))
   = Some (local_worker fs cfg)"
  by (simp add: start_coordinator_def Let_def addWorker_def make_QueryCoordinator_def new_QueryCoordinator_def
      local_worker_def getNodeId_def new_WorkerNode_def new_NodeInfo_def)

lemma start_coordinator_no_children:
  "valid_config cfg \<Longrightarrow> nc_neighbors cfg = [] \<Longrightarrow> no_children (start_coordinator fs cfg)"
  using built_overlay(5) [of cfg]
  by (simp add: no_children_def start_coordinator_def Let_def addWorker_def make_QueryCoordinator_def)

text \<open>The store a node starts with: one entry per assigned file that loads.\<close>

lemma load_assigned_files:
  "ps_files (load_assigned fs i files s) = ps_files s @ loaded_list fs i files"
proof (induction fs i files s rule: load_assigned.induct)
  case (2 fs i f files s)
  then show ?case using loadFile_eq [where fs = fs and p = f and s = s and i = i]
    by (cases "loaded_metadata fs f i") (auto split: prod.splits)
qed simp

lemma local_worker_files:
  "ps_files (wn_store (local_worker fs cfg)) = loaded_list fs 0 (nc_assignedFiles cfg)"
  by (simp add: local_worker_def Let_def load_assigned_files new_WorkerNode_def new_PartitionStore_def)

lemma local_worker_valid_store:
  "store_isValid (wn_store (local_worker fs cfg)) \<longleftrightarrow>
     distinct (filter (\<lambda>p. loaded_metadata fs p 0 \<noteq> None) (nc_assignedFiles cfg))"
  by (simp add: store_isValid_iff local_worker_files loaded_list_valid loaded_list_paths)

lemma all_trips_rows:
  "all_trips fs w req 0 (worker_rows fs w) = List.map_filter (row_answer req) (store_rows fs (wn_store w))"
proof -
  let ?rows = "store_rows fs (wn_store w)"
  have "List.map_filter (row_answer req) (map ((!) ?rows) [0..<length ?rows]) =
      all_trips fs w req 0 (worker_rows fs w)"
    unfolding map_filter_map
    by (simp add: all_trips_def worker_rows_def row_count_def hits_def is_hit_def [abs_def] row_hit_def trip_at_def [abs_def])
  then show ?thesis by (simp add: map_nth)
qed

text \<open>The rows a node started from a configuration holds.\<close>

definition node_rows :: "file_system \<Rightarrow> NodeConfig \<Rightarrow> (PartitionCsvParser \<times> string) list" where
  "node_rows fs cfg =
     concat (map (file_rows fs) (filter (\<lambda>p. loaded_metadata fs p 0 \<noteq> None) (nc_assignedFiles cfg)))"

lemma node_rows_store:
  assumes "distinct (nc_assignedFiles cfg)"
  shows "store_rows fs (wn_store (local_worker fs cfg)) = node_rows fs cfg"
proof -
  let ?s = "wn_store (local_worker fs cfg)"
  have "store_isValid ?s" using assms by (simp add: local_worker_valid_store)
  moreover have "map (\<lambda>f. file_rows fs (fm_filePath f)) (ps_files ?s) =
      map (file_rows fs) (map fm_filePath (ps_files ?s))" by simp
  ultimately show ?thesis
    by (simp add: store_rows_def node_rows_def local_worker_files loaded_list_paths del: map_map)
qed

text \<open>The address of a neighbor: its host and the 16-bit port the overlay keeps.\<close>

definition neighbor_address :: "NeighborConfig \<Rightarrow> string" where
  "neighbor_address n = nb_host n @ '':'' @ show_nat (nb_port n mod 65536)"

lemma built_endpoint:
  assumes "valid_config cfg" and "n \<in> set (nc_neighbors cfg)"
  shows "endpointFor (buildOverlayFromNodeConfig cfg) (nb_nodeId n) = neighbor_address n"
proof -
  have "um_find (ov_nodes (buildOverlayFromNodeConfig cfg)) (nb_nodeId n) = Some (peer_info n)"
  proof (rule iffD1 [OF um_find_entry])
    show "um_ok (ov_nodes (buildOverlayFromNodeConfig cfg))"
      using built_overlay(1) [OF assms(1)] by (simp add: overlay_inv_def)
    show "(nb_nodeId n, peer_info n) \<in> set (ov_nodes (buildOverlayFromNodeConfig cfg))"
      using assms(2) by (simp add: built_overlay(3) [OF assms(1)])
  qed
  moreover have "nat (to_unsigned 16 (int (nb_port n))) = nb_port n mod 65536"
    by (simp add: to_unsigned_def nat_mod_distrib)
  ultimately show ?thesis by (simp add: endpointFor_def peer_info_def neighbor_address_def)
qed

end
