(* ===== verification/Network.thy ===== *)
theory Network
  imports Node_Server "HOL-Library.Multiset"
begin

text \<open>
  Several nodes at once. A network is the coordinators by address; the stub of an address runs the
  handler of \<open>QueryServiceImpl\<close> of the node there, whose own subqueries run in the same way, nested at
  most as deep as the parameter says. \<open>plan\<close> is the order in which one query visits the nodes
  and \<open>serves\<close> the state of a request spread over the nodes: what it still owes, the work left, and the
  request records it consists of.
\<close>

section \<open>Nodes that call each other\<close>

type_synonym network = "string \<Rightarrow> coordinator option"

definition on_node ::
  "string \<Rightarrow> (coordinator \<Rightarrow> network \<Rightarrow> 'r \<times> coordinator \<times> network) \<Rightarrow> network \<Rightarrow> (string + 'r) \<times> network"
where
  "on_node a h N =
     (case N a of
        None \<Rightarrow> (Inl ''unavailable'', N)
      | Some co \<Rightarrow> (case h co N of (r, co, N) \<Rightarrow> (Inr r, N(a \<mapsto> co))))"

primrec net_ops :: "(string \<Rightarrow> file_system) \<Rightarrow> nat \<Rightarrow> network stub_ops" where
  "net_ops fs 0 = \<lparr> op_NewStub = (\<lambda>_. True),
     op_SubmitSubQuery = (\<lambda>_ _ N. (Inl ''too deep'', N)),
     op_FetchSubChunk = (\<lambda>_ _ N. (Inl ''too deep'', N)),
     op_CancelSubQuery = (\<lambda>_ _ N. (Inl ''too deep'', N)) \<rparr>"
| "net_ops fs (Suc d) = \<lparr> op_NewStub = (\<lambda>_. True),
     op_SubmitSubQuery = (\<lambda>a m. on_node a (\<lambda>co.
       SubmitSubQuery \<lparr> sys_fs = fs a, sys_ops = net_ops fs d \<rparr> (co_selfNodeId co) m co)),
     op_FetchSubChunk = (\<lambda>a m. on_node a (\<lambda>co.
       FetchSubChunk \<lparr> sys_fs = fs a, sys_ops = net_ops fs d \<rparr> (co_selfNodeId co) m co)),
     op_CancelSubQuery = (\<lambda>a i. on_node a (\<lambda>co N.
       case CancelSubQuery (co_selfNodeId co) i co of (r, co) \<Rightarrow> (r, co, N))) \<rparr>"

definition net_system :: "(string \<Rightarrow> file_system) \<Rightarrow> nat \<Rightarrow> string \<Rightarrow> network system" where
  \<comment> \<open>what the node at an address runs with\<close>
  "net_system fs d a = \<lparr> sys_fs = fs a, sys_ops = net_ops fs d \<rparr>"

lemma net_system_sel [simp]:
  "sys_fs (net_system fs d a) = fs a" "sys_ops (net_system fs d a) = net_ops fs d"
  by (simp_all add: net_system_def)

lemma net_ops_NewStub [simp]: "op_NewStub (net_ops fs d) a"
  by (cases d) simp_all

section \<open>Topology and visiting order\<close>

record topology =
  tp_addr :: "node_id \<Rightarrow> string"
  tp_children :: "node_id \<Rightarrow> node_id list"
  tp_worker :: "node_id \<Rightarrow> WorkerNode"
  tp_fs :: "string \<Rightarrow> file_system"
  tp_nodes :: "node_id set"

definition topology_ok :: "topology \<Rightarrow> bool" where
  "topology_ok T \<longleftrightarrow> finite (tp_nodes T) \<and> inj_on (tp_addr T) (tp_nodes T) \<and>
     (\<forall>n \<in> tp_nodes T. n \<noteq> [] \<and> tp_addr T n \<noteq> [] \<and> distinct (tp_children T n) \<and>
        set (tp_children T n) \<subseteq> tp_nodes T \<and> getNodeId (tp_worker T n) = n)"

definition node_ok :: "topology \<Rightarrow> node_id \<Rightarrow> coordinator \<Rightarrow> bool" where
  "node_ok T n co \<longleftrightarrow> co_selfNodeId co = n \<and>
     find (\<lambda>w. getNodeId w = n) (co_workers co) = Some (tp_worker T n) \<and>
     (\<exists>ov. co_overlay co = Some ov \<and> getChildren ov n = tp_children T n) \<and>
     (\<exists>cl. co_remoteClient co = Some cl \<and> (\<forall>c \<in> set (tp_children T n). resolveTarget cl c = tp_addr T c)) \<and>
     coordinator_inv co \<and> generated_ids co"

definition net_ok :: "topology \<Rightarrow> network \<Rightarrow> bool" where
  "net_ok T N \<longleftrightarrow> (\<forall>n \<in> tp_nodes T. \<exists>co. N (tp_addr T n) = Some co \<and> node_ok T n co)"

definition open_children :: "topology \<Rightarrow> node_id set \<Rightarrow> node_id \<Rightarrow> node_id list" where
  \<comment> \<open>the children of a node a request that has visited \<open>V\<close> is sent to\<close>
  "open_children T V n = filter (\<lambda>c. c \<notin> V) (tp_children T n)"

abbreviation pass_on :: "topology \<Rightarrow> node_id set \<Rightarrow> node_id \<Rightarrow> node_id set" where
  "pass_on T V n \<equiv> V \<union> set (tp_children T n)"

primrec plan :: "topology \<Rightarrow> nat \<Rightarrow> node_id set \<Rightarrow> node_id \<Rightarrow> node_id list" where
  "plan T 0 V n = []"
| "plan T (Suc d) V n = n # concat (map (plan T d (pass_on T V n)) (open_children T V n))"

primrec deep_enough :: "topology \<Rightarrow> nat \<Rightarrow> node_id set \<Rightarrow> node_id \<Rightarrow> bool" where
  "deep_enough T 0 V n \<longleftrightarrow> False"
| "deep_enough T (Suc d) V n \<longleftrightarrow> list_all (deep_enough T d (pass_on T V n)) (open_children T V n)"

type_synonym labelled = "TaxiTrip \<times> node_id"

definition store_size :: "topology \<Rightarrow> node_id \<Rightarrow> nat" where
  "store_size T n = worker_rows (tp_fs T (tp_addr T n)) (tp_worker T n)"

definition rows_from :: "topology \<Rightarrow> QueryRequest \<Rightarrow> node_id \<Rightarrow> nat \<Rightarrow> labelled list" where
  \<comment> \<open>the matches of a node from a row position on, with the node they are from\<close>
  "rows_from T f n i =
     map (\<lambda>t. (t, n)) (all_trips (tp_fs T (tp_addr T n)) (tp_worker T n) f i (store_size T n))"

definition plan_rows :: "topology \<Rightarrow> nat \<Rightarrow> QueryRequest \<Rightarrow> node_id set \<Rightarrow> node_id \<Rightarrow> labelled multiset" where
  "plan_rows T d f V n = mset (concat (map (\<lambda>m. rows_from T f m 0) (plan T d V n)))"

primrec plan_work :: "topology \<Rightarrow> nat \<Rightarrow> node_id set \<Rightarrow> node_id \<Rightarrow> nat" where
  "plan_work T 0 V n = 0"
| "plan_work T (Suc d) V n = 2 * store_size T n + 1 +
     (\<Sum>c \<in> set (open_children T V n). 2 * plan_work T d (pass_on T V n) c + 1)"

lemma open_children_node:
  "topology_ok T \<Longrightarrow> n \<in> tp_nodes T \<Longrightarrow> distinct (open_children T V n) \<and> set (open_children T V n) \<subseteq> tp_nodes T"
  by (auto simp: topology_ok_def open_children_def)

lemma mset_concat_sum:
  "distinct cs \<Longrightarrow> mset (concat (map g cs)) = (\<Sum>c \<in> set cs. mset (g c))"
  by (induction cs) simp_all

lemma plan_rows_Suc:
  assumes "topology_ok T" and "n \<in> tp_nodes T"
  shows "plan_rows T (Suc d) f V n = mset (rows_from T f n 0) +
    (\<Sum>c \<in> set (open_children T V n). plan_rows T d f (pass_on T V n) c)"
proof -
  let ?g = "\<lambda>c. concat (map (\<lambda>m. rows_from T f m 0) (plan T d (pass_on T V n) c))"
  have "concat (map (\<lambda>m. rows_from T f m 0) (concat (map h cs))) =
      concat (map (\<lambda>c. concat (map (\<lambda>m. rows_from T f m 0) (h c))) cs)" for h :: "node_id \<Rightarrow> node_id list" and cs
    by (induction cs) simp_all
  then show ?thesis
    using mset_concat_sum [of "open_children T V n" ?g] open_children_node [OF assms]
    by (simp add: plan_rows_def)
qed

lemma plan_rows_cong: "same_filter a b \<Longrightarrow> plan_rows T d a V n = plan_rows T d b V n"
  by (simp add: plan_rows_def rows_from_def all_trips_same [of a b])

text \<open>With one level for every node not visited yet the nesting is deep enough.\<close>

lemma deep_enough_card:
  assumes "topology_ok T" and "n \<in> tp_nodes T" and "n \<in> V" and "card (tp_nodes T - V) < d"
  shows "deep_enough T d V n"
  using assms(2-)
proof (induction d arbitrary: V n)
  case (Suc d)
  have "deep_enough T d (pass_on T V n) c" if c: "c \<in> set (open_children T V n)" for c
  proof (rule Suc.IH)
    have cs: "c \<in> set (tp_children T n)" "c \<notin> V" using c by (auto simp: open_children_def)
    then show "c \<in> tp_nodes T" using assms(1) Suc.prems(1) by (auto simp: topology_ok_def)
    then have "tp_nodes T - pass_on T V n \<subset> tp_nodes T - V" using cs by auto
    with assms(1) have "card (tp_nodes T - pass_on T V n) < card (tp_nodes T - V)"
      by (intro psubset_card_mono) (auto simp: topology_ok_def)
    with Suc.prems(3) show "card (tp_nodes T - pass_on T V n) < d" by simp
    show "c \<in> pass_on T V n" using cs by simp
  qed
  then show ?case by (simp add: list_all_iff)
qed simp

section \<open>The state of a distributed request\<close>

type_synonym view = "node_id \<Rightarrow> nat \<Rightarrow> RequestState option"
type_synonym locs = "(node_id \<times> nat) set"

definition req_at :: "topology \<Rightarrow> network \<Rightarrow> view" where
  "req_at T N n k = (if n \<notin> tp_nodes T then None else
     (case N (tp_addr T n) of
        None \<Rightarrow> None
      | Some co \<Rightarrow> if k < length (co_queryStates co) then Some (state_at co k) else None))"

definition visited :: "RequestState \<Rightarrow> node_id set" where
  "visited s = set (qq_visitedNodeIds (rs_request s))"

definition window :: "RequestState \<Rightarrow> labelled list" where
  "window s = zip (qr_matchedTrips (rs_aggregatedResult s)) (qr_matchedTripSources (rs_aggregatedResult s))"

definition unread :: "RequestState \<Rightarrow> labelled list" where
  "unread s = drop (rs_nextUnreadIndex s) (window s)"

definition sendable :: "QueryRequest \<Rightarrow> bool" where
  \<comment> \<open>the filter and the budget fit the fields of a message\<close>
  "sendable req \<longleftrightarrow> request_widths (req\<lparr>qq_chunkSize := 0\<rparr>)"

definition carried_row :: "labelled \<Rightarrow> bool" where
  \<comment> \<open>a row that a message carries unchanged\<close>
  "carried_row r \<longleftrightarrow> trip_widths (fst r) \<and> tt_airportFeeCents (fst r) = 0 \<and> snd r \<noteq> []"

definition own_ok :: "topology \<Rightarrow> node_id \<Rightarrow> RequestState \<Rightarrow> bool" where
  "own_ok T n s \<longleftrightarrow> rs_state s \<noteq> CANCELLED \<and> rs_state s \<noteq> TIMED_OUT \<and>
     qq_queryType (rs_request s) = Execute \<and> qq_targetNodeId (rs_request s) = None \<and>
     sendable (rs_request s) \<and> n \<in> visited s \<and>
     (\<forall>m. findWorkerProgress m s \<noteq> None \<longleftrightarrow> m = n \<or> m \<in> set (open_children T (visited s) n)) \<and>
     rs_nextUnreadIndex s \<le> length (window s) \<and> (\<forall>r \<in> set (window s). carried_row r)"

definition local_rest :: "topology \<Rightarrow> node_id \<Rightarrow> RequestState \<Rightarrow> WorkerProgress \<Rightarrow> labelled multiset" where
  "local_rest T n s p = mset (rows_from T (rs_request s) n (wp_nextStartRow p))"

definition local_work :: "topology \<Rightarrow> node_id \<Rightarrow> WorkerProgress \<Rightarrow> nat" where
  "local_work T n p = (if wp_completed p then 0 else 2 * (store_size T n - wp_nextStartRow p) + 1)"

definition child_ok ::
  "topology \<Rightarrow> nat \<Rightarrow> (node_id \<Rightarrow> nat \<Rightarrow> labelled multiset \<Rightarrow> nat \<Rightarrow> locs \<Rightarrow> bool) \<Rightarrow> view \<Rightarrow> node_id \<Rightarrow>
     RequestState \<Rightarrow> node_id \<Rightarrow> labelled multiset \<Rightarrow> nat \<Rightarrow> locs \<Rightarrow> bool"
where
  \<comment> \<open>what child \<open>c\<close> of a request at \<open>n\<close> owes: nothing, its whole plan, or what its request owes\<close>
  "child_ok T d P Q n s c R w F \<longleftrightarrow>
     (\<exists>q. findWorkerProgress c s = Some q \<and>
        (if wp_completed q then R = {#} \<and> w = 0 \<and> F = {}
         else if \<not> wp_submitted q
         then R = plan_rows T d (rs_request s) (pass_on T (visited s) n) c \<and>
              w = 2 * plan_work T d (pass_on T (visited s) n) c + 1 \<and> F = {} \<and>
              deep_enough T d (pass_on T (visited s) n) c
         else \<exists>j t v. Q c j = Some t \<and> rs_queryId t = wp_remoteRequestId q \<and> visited s \<subseteq> visited t \<and>
                P c j R v F \<and> w = 2 * v + 1 \<and> fst ` F \<inter> visited s = {}))"

definition parts ::
  "topology \<Rightarrow> nat \<Rightarrow> (node_id \<Rightarrow> nat \<Rightarrow> labelled multiset \<Rightarrow> nat \<Rightarrow> locs \<Rightarrow> bool) \<Rightarrow> view \<Rightarrow> node_id \<Rightarrow> nat \<Rightarrow>
     RequestState \<Rightarrow> WorkerProgress \<Rightarrow> (node_id \<Rightarrow> labelled multiset) \<Rightarrow> (node_id \<Rightarrow> nat) \<Rightarrow> (node_id \<Rightarrow> locs) \<Rightarrow> bool"
where
  "parts T d P Q n k s p gR gw gF \<longleftrightarrow>
     Q n k = Some s \<and> own_ok T n s \<and> findWorkerProgress n s = Some p \<and>
     wp_nextStartRow p \<le> store_size T n \<and> (wp_completed p \<longrightarrow> wp_nextStartRow p = store_size T n) \<and>
     (\<forall>c \<in> set (open_children T (visited s) n). child_ok T d P Q n s c (gR c) (gw c) (gF c)) \<and>
     (\<forall>c \<in> set (open_children T (visited s) n). \<forall>c' \<in> set (open_children T (visited s) n).
        c \<noteq> c' \<longrightarrow> gF c \<inter> gF c' = {})"

definition all_rows :: "topology \<Rightarrow> node_id \<Rightarrow> RequestState \<Rightarrow> WorkerProgress \<Rightarrow> (node_id \<Rightarrow> labelled multiset) \<Rightarrow> labelled multiset" where
  "all_rows T n s p gR = mset (unread s) + local_rest T n s p + (\<Sum>c \<in> set (open_children T (visited s) n). gR c)"

definition all_work :: "topology \<Rightarrow> node_id \<Rightarrow> RequestState \<Rightarrow> WorkerProgress \<Rightarrow> (node_id \<Rightarrow> nat) \<Rightarrow> nat" where
  "all_work T n s p gw = length (unread s) + local_work T n p + (\<Sum>c \<in> set (open_children T (visited s) n). gw c)"

definition all_locs :: "topology \<Rightarrow> node_id \<Rightarrow> nat \<Rightarrow> RequestState \<Rightarrow> (node_id \<Rightarrow> locs) \<Rightarrow> locs" where
  "all_locs T n k s gF = insert (n, k) (\<Union>c \<in> set (open_children T (visited s) n). gF c)"

primrec serves ::
  "topology \<Rightarrow> nat \<Rightarrow> view \<Rightarrow> node_id \<Rightarrow> nat \<Rightarrow> labelled multiset \<Rightarrow> nat \<Rightarrow> locs \<Rightarrow> bool"
where
  "serves T 0 Q n k R w F \<longleftrightarrow> False"
| "serves T (Suc d) Q n k R w F \<longleftrightarrow>
     (\<exists>s p gR gw gF. parts T d (serves T d Q) Q n k s p gR gw gF \<and>
        R = all_rows T n s p gR \<and> w = all_work T n s p gw \<and> F = all_locs T n k s gF)"

lemma serves_root: "serves T d Q n k R w F \<Longrightarrow> (n, k) \<in> F \<and> Q n k \<noteq> None"
  by (cases d) (auto simp: parts_def all_locs_def)

lemma serves_alloc:
  "serves T d Q n k R w F \<Longrightarrow> (m, j) \<in> F \<Longrightarrow> Q m j \<noteq> None"
proof (induction d arbitrary: n k R w F)
  case (Suc d)
  then obtain s p gR gw gF where p: "parts T d (serves T d Q) Q n k s p gR gw gF" and "F = all_locs T n k s gF"
    by auto
  with Suc.prems(2) consider "(m, j) = (n, k)" | c where "c \<in> set (open_children T (visited s) n)" "(m, j) \<in> gF c"
    by (auto simp: all_locs_def)
  then show ?case
  proof cases
    case 2
    with p have "child_ok T d (serves T d Q) Q n s c (gR c) (gw c) (gF c)" by (simp add: parts_def)
    with 2(2) Suc.IH show ?thesis by (auto simp: child_ok_def split: if_splits)
  qed (use p in \<open>simp add: parts_def\<close>)
qed simp

text \<open>Only the records a request consists of matter.\<close>

lemma child_ok_frame:
  assumes "child_ok T d P Q n s c R w F" and "\<And>j R v F'. P c j R v F' \<Longrightarrow> F' = F \<Longrightarrow> (c, j) \<in> F \<and> P' c j R v F'"
    and "\<And>m j. (m, j) \<in> F \<Longrightarrow> Q' m j = Q m j"
  shows "child_ok T d P' Q' n s c R w F"
proof -
  obtain q where q: "findWorkerProgress c s = Some q"
    and r: "if wp_completed q then R = {#} \<and> w = 0 \<and> F = {}
         else if \<not> wp_submitted q
         then R = plan_rows T d (rs_request s) (pass_on T (visited s) n) c \<and>
              w = 2 * plan_work T d (pass_on T (visited s) n) c + 1 \<and> F = {} \<and>
              deep_enough T d (pass_on T (visited s) n) c
         else \<exists>j t v. Q c j = Some t \<and> rs_queryId t = wp_remoteRequestId q \<and> visited s \<subseteq> visited t \<and>
                P c j R v F \<and> w = 2 * v + 1 \<and> fst ` F \<inter> visited s = {}"
    using assms(1) by (auto simp: child_ok_def)
  show ?thesis
  proof (cases "\<not> wp_completed q \<and> wp_submitted q")
    case True
    with r obtain j t v where j: "Q c j = Some t" "rs_queryId t = wp_remoteRequestId q" "visited s \<subseteq> visited t"
      "P c j R v F" "w = 2 * v + 1" "fst ` F \<inter> visited s = {}" by auto
    from assms(2) [OF j(4) refl] assms(3) j(1) have "Q' c j = Some t" "P' c j R v F" by auto
    with True q j show ?thesis by (auto simp: child_ok_def)
  qed (use q r in \<open>auto simp: child_ok_def\<close>)
qed

lemma serves_frame:
  "serves T d Q n k R w F \<Longrightarrow> (\<And>m j. (m, j) \<in> F \<Longrightarrow> Q' m j = Q m j) \<Longrightarrow> serves T d Q' n k R w F"
proof (induction d arbitrary: n k R w F)
  case (Suc d)
  then obtain s p gR gw gF where p: "parts T d (serves T d Q) Q n k s p gR gw gF"
    and t: "R = all_rows T n s p gR" "w = all_work T n s p gw" "F = all_locs T n k s gF" by auto
  have "child_ok T d (serves T d Q') Q' n s c (gR c) (gw c) (gF c)"
    if c: "c \<in> set (open_children T (visited s) n)" for c
  proof (rule child_ok_frame)
    show "child_ok T d (serves T d Q) Q n s c (gR c) (gw c) (gF c)" using p c by (simp add: parts_def)
    have sub: "gF c \<subseteq> F" using c by (auto simp: t all_locs_def)
    show "Q' m j = Q m j" if "(m, j) \<in> gF c" for m j using Suc.prems(2) sub that by auto
    show "(c, j) \<in> gF c \<and> serves T d Q' c j R v F'" if "serves T d Q c j R v F'" "F' = gF c" for j R v F'
      using serves_root [OF that(1)] Suc.IH [OF that(1)] that(2) sub Suc.prems(2) by auto
  qed
  moreover have "Q' n k = Q n k" using Suc.prems(2) by (simp add: t all_locs_def)
  ultimately have "parts T d (serves T d Q') Q' n k s p gR gw gF" using p by (simp add: parts_def)
  with t show ?case unfolding serves.simps by blast
qed simp

end
