(* ===== verification/Network_Moves.thy ===== *)
theory Network_Moves
  imports Network
begin

text \<open>
  Steps of a network. \<open>moves\<close> says which nodes and which request records a call may have changed;
  a request whose records are not among them is served as before. The local window of a request, the
  acceptance of a subquery and the update of one child are treated here, each as a step of \<open>serves\<close>.
\<close>

section \<open>What a call changes\<close>

definition moves :: "topology \<Rightarrow> node_id set \<Rightarrow> locs \<Rightarrow> network \<Rightarrow> network \<Rightarrow> bool" where
  "moves T A F N N' \<longleftrightarrow> net_ok T N' \<and>
     (\<forall>m \<in> tp_nodes T. m \<notin> A \<longrightarrow> N' (tp_addr T m) = N (tp_addr T m)) \<and>
     (\<forall>m j s. req_at T N m j = Some s \<longrightarrow>
        (\<exists>s'. req_at T N' m j = Some s' \<and> rs_request s' = rs_request s \<and> rs_queryId s' = rs_queryId s \<and>
              ((m, j) \<notin> F \<longrightarrow> s' = s)))"

lemma moves_refl: "net_ok T N \<Longrightarrow> moves T A F N N"
  by (simp add: moves_def)

lemma moves_mono: "moves T A F N N' \<Longrightarrow> A \<subseteq> B \<Longrightarrow> F \<subseteq> G \<Longrightarrow> moves T B G N N'"
  unfolding moves_def by blast

definition fresh_locs :: "topology \<Rightarrow> network \<Rightarrow> locs" where
  "fresh_locs T N = {(m, j). req_at T N m j = None}"

lemma moves_fresh: "moves T A F N N' \<Longrightarrow> fresh_locs T N' \<subseteq> fresh_locs T N"
  unfolding moves_def fresh_locs_def by fastforce

lemma moves_trans:
  assumes "moves T A F N N'" and "moves T A F' N' N''" and "F' \<subseteq> F \<union> fresh_locs T N"
  shows "moves T A F N N''"
  unfolding moves_def
proof (intro conjI allI impI ballI)
  show "net_ok T N''" using assms(2) by (simp add: moves_def)
  show "N'' (tp_addr T m) = N (tp_addr T m)" if "m \<in> tp_nodes T" "m \<notin> A" for m
    using assms(1,2) that by (simp add: moves_def)
  show "\<exists>s'. req_at T N'' m j = Some s' \<and> rs_request s' = rs_request s \<and> rs_queryId s' = rs_queryId s \<and>
              ((m, j) \<notin> F \<longrightarrow> s' = s)" if s: "req_at T N m j = Some s" for m j s
  proof -
    from assms(1) s obtain t where t: "req_at T N' m j = Some t" "rs_request t = rs_request s"
      "rs_queryId t = rs_queryId s" "(m, j) \<notin> F \<longrightarrow> t = s" unfolding moves_def by blast
    moreover from assms(2) t(1) obtain u where "req_at T N'' m j = Some u" "rs_request u = rs_request t"
      "rs_queryId u = rs_queryId t" "(m, j) \<notin> F' \<longrightarrow> u = t" unfolding moves_def by blast
    moreover have "(m, j) \<notin> F \<longrightarrow> (m, j) \<notin> F'" using assms(3) s by (auto simp: fresh_locs_def)
    ultimately show ?thesis by auto
  qed
qed

lemma serves_moves:
  assumes "serves T d (req_at T N) n k R w G" and "moves T A F N N'" and "G \<inter> F = {}"
  shows "serves T d (req_at T N') n k R w G"
proof (rule serves_frame [OF assms(1)])
  fix m j assume l: "(m, j) \<in> G"
  then obtain s where "req_at T N m j = Some s" using serves_alloc [OF assms(1)] by blast
  moreover have "(m, j) \<notin> F" using l assms(3) by auto
  ultimately show "req_at T N' m j = req_at T N m j" using assms(2) unfolding moves_def by metis
qed

section \<open>One node\<close>

lemma req_at_upd:
  assumes "topology_ok T" and "n \<in> tp_nodes T"
  shows "req_at T (N(tp_addr T n \<mapsto> co)) m j =
    (if m = n then (if j < length (co_queryStates co) then Some (state_at co j) else None) else req_at T N m j)"
  using assms by (auto simp: req_at_def topology_ok_def dest: inj_onD)

lemma req_at_node:
  "n \<in> tp_nodes T \<Longrightarrow> N (tp_addr T n) = Some co \<Longrightarrow>
     req_at T N n j = (if j < length (co_queryStates co) then Some (state_at co j) else None)"
  by (simp add: req_at_def)

lemma net_ok_upd:
  assumes "topology_ok T" and "n \<in> tp_nodes T" and "net_ok T N" and "node_ok T n co"
  shows "net_ok T (N(tp_addr T n \<mapsto> co))"
  using assms by (auto simp: net_ok_def topology_ok_def dest: inj_onD)

lemma node_ok_client:
  assumes "node_ok T n co"
  obtains cl ov where "co_remoteClient co = Some cl" and "co_overlay co = Some ov"
    and "getChildren ov n = tp_children T n" and "stubs_ok cl"
    and "\<And>c. c \<in> set (tp_children T n) \<Longrightarrow> resolveTarget cl c = tp_addr T c"
  using assms by (auto simp: node_ok_def coordinator_inv_def)

lemma node_ok_steps:
  assumes "node_ok T n co" and "steps k co co'"
    and "map_option rc_overlay (co_remoteClient co') = map_option rc_overlay (co_remoteClient co)"
  shows "node_ok T n co'"
proof -
  from node_ok_client [OF assms(1)] obtain cl where cl: "co_remoteClient co = Some cl"
    "\<And>c. c \<in> set (tp_children T n) \<Longrightarrow> resolveTarget cl c = tp_addr T c" by blast
  from assms(3) cl(1) obtain cl' where cl': "co_remoteClient co' = Some cl'" "rc_overlay cl' = rc_overlay cl" by auto
  have "resolveTarget cl' = resolveTarget cl" by (intro ext) (simp add: resolveTarget_def cl'(2))
  then have "\<forall>c \<in> set (tp_children T n). resolveTarget cl' c = tp_addr T c" using cl(2) by simp
  moreover have "coordinator_inv co'" "generated_ids co'"
    using assms(1) steps_inv [OF assms(2)] steps_ids [OF assms(2)] by (auto simp: node_ok_def)
  ultimately show ?thesis using assms(1,2) cl'(1) by (auto simp: node_ok_def steps_def)
qed

lemma moves_node:
  assumes "topology_ok T" and "n \<in> tp_nodes T" and "net_ok T N" and "N (tp_addr T n) = Some co"
    and "node_ok T n co'" and "steps k co co'"
  shows "moves T {n} {(n, k)} N (N(tp_addr T n \<mapsto> co'))"
  unfolding moves_def
proof (intro conjI allI impI ballI)
  show "net_ok T (N(tp_addr T n \<mapsto> co'))" by (rule net_ok_upd [OF assms(1-3,5)])
  show "(N(tp_addr T n \<mapsto> co')) (tp_addr T m) = N (tp_addr T m)" if "m \<in> tp_nodes T" "m \<notin> {n}" for m
    using that assms(1,2) by (auto simp: topology_ok_def dest: inj_onD)
  show "\<exists>s'. req_at T (N(tp_addr T n \<mapsto> co')) m j = Some s' \<and> rs_request s' = rs_request s \<and>
        rs_queryId s' = rs_queryId s \<and> ((m, j) \<notin> {(n, k)} \<longrightarrow> s' = s)" if "req_at T N m j = Some s" for m j s
    using that assms(6) unfolding req_at_upd [OF assms(1,2)]
    by (auto simp: req_at_node [where N = N, OF assms(2,4)] steps_def split: if_splits)
qed

lemma find_request:
  assumes "node_ok T n co" and "k < length (co_queryStates co)"
  shows "findRequestState co (rs_queryId (state_at co k)) = Some k"
  using assms by (auto simp: node_ok_def coordinator_inv_def intro: findRequestState_unique)

section \<open>Windows\<close>

lemma window_pairs:
  "request_inv s \<Longrightarrow> length (window s) = length (qr_matchedTrips (rs_aggregatedResult s)) \<and>
     length (qr_matchedTripSources (rs_aggregatedResult s)) = length (window s)"
  by (simp add: window_def request_inv_def window_ok_def)

lemma window_merge:
  assumes "request_inv s"
  shows "window (mergePartialResult r s) = window s @ zip (qr_matchedTrips r) (qr_matchedTripSources r)"
  using assms by (simp add: window_def request_inv_def window_ok_def)

lemma window_frames [simp]:
  "window (updateWorkerProgress c i b s) = window s" "window (putWorkerProgress c p s) = window s"
  "window (setState q s) = window s" "window (advanceFetchRound s) = window s"
  "window (setNextUnreadIndex i s) = window s" "window (initializeWorker c s) = window s"
  "window (setExpectedWorkers i s) = window s" "window (clearAggregatedRows s) = []"
  by (simp_all add: window_def)

lemma progress_frames [simp]:
  "findWorkerProgress c (mergePartialResult r s) = findWorkerProgress c s"
  "findWorkerProgress c (setState q s) = findWorkerProgress c s"
  "findWorkerProgress c (advanceFetchRound s) = findWorkerProgress c s"
  "findWorkerProgress c (setNextUnreadIndex i s) = findWorkerProgress c s"
  "findWorkerProgress c (setExpectedWorkers i s) = findWorkerProgress c s"
  "findWorkerProgress c (clearAggregatedRows s) = findWorkerProgress c s"
  by (simp_all add: findWorkerProgress_def mergePartialResult_def)

lemma state_frames [simp]:
  "rs_state (updateWorkerProgress c i b s) = rs_state s" "rs_state (putWorkerProgress c p s) = rs_state s"
  "rs_state (mergePartialResult r s) = rs_state s" "rs_state (advanceFetchRound s) = rs_state s"
  "rs_state (setNextUnreadIndex i s) = rs_state s" "rs_state (clearAggregatedRows s) = rs_state s"
  by (simp_all add: updateWorkerProgress_def putWorkerProgress_def getWorkerProgress_def mergePartialResult_def
      advanceFetchRound_def setNextUnreadIndex_def clearAggregatedRows_def split: prod.split)

lemma visited_cong: "rs_request s' = rs_request s \<Longrightarrow> visited s' = visited s"
  by (simp add: visited_def)

lemma rows_from_carried:
  assumes "n \<noteq> []" and "r \<in> set (rows_from T f n i)"
  shows "carried_row r"
proof -
  have "trip_widths (trip_at fs s f j) \<and> tt_airportFeeCents (trip_at fs s f j) = 0"
    if "j \<in> set (hits fs s f a b)" for fs s j a b
  proof -
    from that have "row_answer f (store_rows fs s ! j) \<noteq> None" by (simp add: hits_def is_hit_def row_hit_def)
    then show ?thesis
      using toTaxiTrip_widths by (auto simp: trip_at_def row_answer_def split: prod.splits if_splits)
  qed
  then show ?thesis using assms by (auto simp: rows_from_def all_trips_def carried_row_def)
qed

section \<open>The own part of a request\<close>

definition working ::
  "topology \<Rightarrow> nat \<Rightarrow> network \<Rightarrow> node_id \<Rightarrow> nat \<Rightarrow> coordinator \<Rightarrow> labelled multiset \<Rightarrow> nat \<Rightarrow> locs \<Rightarrow> bool"
where
  "working T d N n k co R w F \<longleftrightarrow> topology_ok T \<and> n \<in> tp_nodes T \<and> net_ok T N \<and>
     N (tp_addr T n) = Some co \<and> serves T (Suc d) (req_at T N) n k R w F"

lemma working_parts:
  assumes "working T d N n k co R w F"
  obtains p gR gw gF where "k < length (co_queryStates co)" and "node_ok T n co"
    and "parts T d (serves T d (req_at T N)) (req_at T N) n k (state_at co k) p gR gw gF"
    and "R = all_rows T n (state_at co k) p gR" and "w = all_work T n (state_at co k) p gw"
    and "F = all_locs T n k (state_at co k) gF"
proof -
  from assms obtain s p gR gw gF where p: "parts T d (serves T d (req_at T N)) (req_at T N) n k s p gR gw gF"
    and t: "R = all_rows T n s p gR" "w = all_work T n s p gw" "F = all_locs T n k s gF"
    unfolding working_def serves.simps by blast
  have co: "N (tp_addr T n) = Some co" "n \<in> tp_nodes T" using assms by (auto simp: working_def)
  from p have "req_at T N n k = Some s" by (simp add: parts_def)
  then have k: "k < length (co_queryStates co)" "s = state_at co k"
    by (auto simp: req_at_node [where N = N, OF co(2,1)] split: if_splits)
  moreover have "node_ok T n co" using assms by (auto simp: working_def net_ok_def)
  ultimately show ?thesis using that p t by blast
qed

lemma workingI:
  assumes "topology_ok T" and "n \<in> tp_nodes T" and "net_ok T N" and "N (tp_addr T n) = Some co"
    and "parts T d (serves T d (req_at T N)) (req_at T N) n k s p gR gw gF"
    and "R = all_rows T n s p gR" and "w = all_work T n s p gw" and "F = all_locs T n k s gF"
  shows "working T d N n k co R w F"
  using assms unfolding working_def serves.simps by blast

lemma child_ok_locs: "child_ok T d P Q n s c R w F \<Longrightarrow> fst ` F \<inter> visited s = {}"
  by (auto simp: child_ok_def split: if_splits)

lemma child_ok_state:
  assumes "findWorkerProgress c s' = findWorkerProgress c s" and "rs_request s' = rs_request s"
  shows "child_ok T d P Q n s' c = child_ok T d P Q n s c"
  using assms visited_cong [OF assms(2)] by (intro ext) (simp add: child_ok_def)

lemma parts_own_step:
  assumes top: "topology_ok T" "n \<in> tp_nodes T"
    and p: "parts T d (serves T d (req_at T N)) (req_at T N) n k s p gR gw gF"
    and k: "k < length (co_queryStates co')" "state_at co' k = s'"
    and own: "own_ok T n s'" "rs_request s' = rs_request s"
    and prog: "findWorkerProgress n s' = Some p'" "wp_nextStartRow p' \<le> store_size T n"
      "wp_completed p' \<Longrightarrow> wp_nextStartRow p' = store_size T n"
    and others: "\<And>c. c \<noteq> n \<Longrightarrow> findWorkerProgress c s' = findWorkerProgress c s"
  shows "parts T d (serves T d (req_at T (N(tp_addr T n \<mapsto> co')))) (req_at T (N(tp_addr T n \<mapsto> co')))
    n k s' p' gR gw gF"
proof -
  let ?N' = "N(tp_addr T n \<mapsto> co')"
  have n: "n \<in> visited s" using p by (simp add: parts_def own_ok_def)
  have v: "visited s' = visited s" by (rule visited_cong [OF own(2)])
  have "child_ok T d (serves T d (req_at T ?N')) (req_at T ?N') n s' c (gR c) (gw c) (gF c)"
    if c: "c \<in> set (open_children T (visited s) n)" for c
  proof -
    have ok: "child_ok T d (serves T d (req_at T N)) (req_at T N) n s c (gR c) (gw c) (gF c)"
      using p c by (simp add: parts_def)
    have away: "req_at T ?N' m j = req_at T N m j" if "(m, j) \<in> gF c" for m j
      using child_ok_locs [OF ok] n that unfolding req_at_upd [OF top] by force
    have "c \<noteq> n" using c n by (auto simp: open_children_def)
    from others [OF this] have state: "findWorkerProgress c s' = findWorkerProgress c s" .
    show ?thesis
      unfolding child_ok_state [OF state own(2)]
    proof (rule child_ok_frame [OF ok _ away])
      show "(c, j) \<in> gF c \<and> serves T d (req_at T ?N') c j R v F'"
        if "serves T d (req_at T N) c j R v F'" "F' = gF c" for j R v F'
        using serves_root [OF that(1)] serves_frame [OF that(1)] away that(2) by blast
    qed
  qed
  with p own prog k n show ?thesis by (simp add: parts_def v req_at_upd [OF top])
qed

definition finished :: "RequestState \<Rightarrow> node_id \<Rightarrow> bool" where
  "finished s c \<longleftrightarrow> (\<forall>p. findWorkerProgress c s = Some p \<longrightarrow> wp_completed p)"

lemma own_ok_request_inv:
  "node_ok T n co \<Longrightarrow> k < length (co_queryStates co) \<Longrightarrow> request_inv (state_at co k)"
  by (simp add: node_ok_def coordinator_inv_request)

lemma own_ok_append:
  assumes "own_ok T n s" and "rs_state s' = rs_state s" and "rs_request s' = rs_request s"
    and "\<And>m. findWorkerProgress m s' = None \<longleftrightarrow> findWorkerProgress m s = None"
    and "rs_nextUnreadIndex s' = rs_nextUnreadIndex s" and "window s' = window s @ X"
    and "\<forall>r \<in> set X. carried_row r"
  shows "own_ok T n s' \<and> unread s' = unread s @ X"
  using assms visited_cong [OF assms(3)] by (auto simp: own_ok_def unread_def)

lemma own_selected:
  assumes "node_ok T n co" and "own_ok T n s" and "n \<noteq> []"
  shows "find (worker_selected co (rs_request s)) (co_workers co) = Some (tp_worker T n)"
proof -
  have "worker_selected co (rs_request s) = (\<lambda>w. getNodeId w = n)"
    using assms by (intro ext) (auto simp: worker_selected_def own_ok_def node_ok_def)
  then show ?thesis using assms(1) by (simp add: node_ok_def)
qed

section \<open>The local window\<close>

lemma fetchLocal_completed:
  assumes "k < length (co_queryStates co)"
    and "find (worker_selected co (rs_request (state_at co k))) (co_workers co) = Some w"
    and "findWorkerProgress (getNodeId w) (state_at co k) = Some p" and "wp_completed p"
  shows "fetchLocalExecuteChunk sys k m co = (False, co)"
proof -
  have get: "getWorkerProgress (getNodeId w) (state_at co k) = (p, state_at co k)"
    using assms(3) by (simp add: getWorkerProgress_def findWorkerProgress_def um_index_def)
  then have "on_state k (\<lambda>s. snd (getWorkerProgress (getNodeId w) s)) co = co"
    using assms(1) by (simp add: on_state_def state_at_def)
  with get assms(2,4) show ?thesis by (simp add: fetchLocalExecuteChunk_def Let_def)
qed

lemma local_chunk_rows:
  assumes "same_filter req f" and "getNodeId (tp_worker T n) = n"
  shows "zip (qr_matchedTrips (worker_chunk (tp_fs T (tp_addr T n)) (tp_worker T n) req i j again))
      (qr_matchedTripSources (worker_chunk (tp_fs T (tp_addr T n)) (tp_worker T n) req i j again)) =
    map (\<lambda>t. (t, n)) (all_trips (tp_fs T (tp_addr T n)) (tp_worker T n) f i j)"
  using assms(2) same_filter_answer [OF assms(1)]
  by (simp add: worker_chunk_def Let_def all_trips_def zip_replicate2)

lemma working_local:
  assumes wk: "working T d N n k co R w F" and fs: "sys_fs sys = tp_fs T (tp_addr T n)"
  obtains got co' w' where "fetchLocalExecuteChunk sys k m co = (got, co')"
    and "working T d (N(tp_addr T n \<mapsto> co')) n k co' R w' F"
    and "moves T {n} {(n, k)} N (N(tp_addr T n \<mapsto> co'))"
    and "w' \<le> w" and "\<not> finished (state_at co k) n \<Longrightarrow> w' < w"
    and "\<And>c. c \<noteq> n \<Longrightarrow> findWorkerProgress c (state_at co' k) = findWorkerProgress c (state_at co k)"
proof -
  let ?s = "state_at co k"
  from wk have top: "topology_ok T" "n \<in> tp_nodes T" and net: "net_ok T N" and co: "N (tp_addr T n) = Some co"
    by (auto simp: working_def)
  from top have n: "n \<noteq> []" "getNodeId (tp_worker T n) = n" by (auto simp: topology_ok_def)
  from wk obtain p gR gw gF where k: "k < length (co_queryStates co)" and node: "node_ok T n co"
    and parts: "parts T d (serves T d (req_at T N)) (req_at T N) n k ?s p gR gw gF"
    and R: "R = all_rows T n ?s p gR" and w: "w = all_work T n ?s p gw" and F: "F = all_locs T n k ?s gF"
    by (rule working_parts)
  have own: "own_ok T n ?s" and prog: "findWorkerProgress n ?s = Some p"
    and cursor: "wp_nextStartRow p \<le> store_size T n" using parts by (auto simp: parts_def)
  note sel = own_selected [OF node own n(1)]
  show ?thesis
  proof (cases "wp_completed p")
    case True
    have "fetchLocalExecuteChunk sys k m co = (False, co)"
      by (rule fetchLocal_completed [OF k sel _ True]) (simp add: prog n(2))
    moreover have "N(tp_addr T n \<mapsto> co) = N" using co by (simp add: fun_upd_idem)
    ultimately show ?thesis using that [of False co w] wk prog True moves_refl [OF net] by (auto simp: finished_def)
  next
    case False
    let ?fs = "tp_fs T (tp_addr T n)" and ?w = "tp_worker T n"
    have "findWorkerProgress (getNodeId ?w) ?s = Some p" using prog n(2) by simp
    then obtain j again req where
      run: "fetchLocalExecuteChunk sys k m co =
         (qr_matchedTrips (worker_chunk ?fs ?w req (wp_nextStartRow p) j again) \<noteq> [],
          on_state k (updateWorkerProgress (getNodeId ?w) j again)
            (on_state k (mergePartialResult (worker_chunk ?fs ?w req (wp_nextStartRow p) j again)) co))"
      and sf: "same_filter req (rs_request ?s)"
      and j: "wp_nextStartRow p \<le> j" "j \<le> store_size T n"
      and more: "again \<Longrightarrow> wp_nextStartRow p < j" and fin: "\<not> again \<Longrightarrow> j = store_size T n"
      by (rule fetchLocal_run [OF k refl sel _ fs [symmetric], where m = m])
        (use cursor False in \<open>auto simp: store_size_def\<close>)
    let ?r = "worker_chunk ?fs ?w req (wp_nextStartRow p) j again"
    define co' where "co' = on_state k (updateWorkerProgress (getNodeId ?w) j again) (on_state k (mergePartialResult ?r) co)"
    define s' where "s' = updateWorkerProgress n j again (mergePartialResult ?r ?s)"
    define p' where "p' = p\<lparr>wp_nextStartRow := j, wp_hasMore := again, wp_completed := \<not> again\<rparr>"
    define X where "X = map (\<lambda>t. (t, n)) (all_trips ?fs ?w (rs_request ?s) (wp_nextStartRow p) j)"
    have at: "state_at co' k = s'" and k': "k < length (co_queryStates co')"
      using k by (simp_all add: co'_def s'_def n(2))
    have st: "steps k co co'" using steps_fetchLocal [of k co sys m] run by (simp add: co'_def)
    have node': "node_ok T n co'" by (rule node_ok_steps [OF node st]) (simp add: co'_def)
    have frame: "findWorkerProgress c s' = (if c = n then Some p' else findWorkerProgress c ?s)" for c
      using prog by (simp add: s'_def p'_def)
    have len: "length X \<le> j - wp_nextStartRow p"
      using all_trips_length [of ?fs ?w "rs_request ?s" "wp_nextStartRow p" j] by (simp add: X_def)
    have rows: "rows_from T (rs_request ?s) n (wp_nextStartRow p) = X @ rows_from T (rs_request ?s) n j"
      unfolding rows_from_def X_def all_trips_split [OF j] by simp
    have own': "own_ok T n s' \<and> unread s' = unread ?s @ X"
    proof (rule own_ok_append [OF own])
      show "window s' = window ?s @ X"
        using window_merge [OF own_ok_request_inv [OF node k]] local_chunk_rows [OF sf n(2)]
        by (simp add: s'_def X_def)
      show "\<forall>r \<in> set X. carried_row r" using rows_from_carried [OF n(1), where T = T and f = "rs_request ?s" and i = "wp_nextStartRow p"]
        by (simp add: rows)
      show "findWorkerProgress m s' = None \<longleftrightarrow> findWorkerProgress m ?s = None" for m
        using prog by (simp add: frame)
    qed (simp_all add: s'_def)
    have req: "rs_request s' = rs_request ?s" by (simp add: s'_def)
    note v = visited_cong [OF req]
    have parts': "parts T d (serves T d (req_at T (N(tp_addr T n \<mapsto> co')))) (req_at T (N(tp_addr T n \<mapsto> co')))
        n k s' p' gR gw gF"
      by (rule parts_own_step [OF top parts k' at conjunct1 [OF own'] req])
        (use frame j fin in \<open>auto simp: p'_def\<close>)
    have "working T d (N(tp_addr T n \<mapsto> co')) n k co' R (all_work T n s' p' gw) F"
    proof (rule workingI [OF top net_ok_upd [OF top net node'] _ parts'])
      show "R = all_rows T n s' p' gR"
        using own' rows by (simp add: R all_rows_def v local_rest_def req p'_def)
      show "F = all_locs T n k s' gF" by (simp add: F all_locs_def v)
    qed simp_all
    moreover have "all_work T n s' p' gw < w"
      using own' len j more fin False by (cases again) (auto simp: w all_work_def v local_work_def p'_def)
    ultimately show ?thesis
      using that [OF run [folded co'_def]] moves_node [OF top net co node' st] frame by (simp add: at)
  qed
qed

end
