(* ===== verification/Network_Submit.thy ===== *)
theory Network_Submit
  imports Network_Moves
begin

text \<open>
  The acceptance of a request by a node of a network: the new record has the node's own worker and its
  unvisited children as workers, owes the rows of its whole plan, and nothing else has changed.
\<close>

section \<open>A new request record\<close>

lemma init_children_opens:
  assumes "k < length (co_queryStates co)"
  shows "state_at (snd (init_children k req cs i co)) k =
      fold initializeWorker (filter (\<lambda>c. \<not> hasVisitedNode req c) cs) (state_at co k) \<and>
    co_remoteClient (snd (init_children k req cs i co)) = co_remoteClient co"
  using assms by (induction k req cs i co rule: init_children.induct) auto

lemma init_workers_progress:
  assumes "\<forall>m p. findWorkerProgress m s = Some p \<longrightarrow> p = new_WorkerProgress"
  shows "findWorkerProgress m (fold initializeWorker cs s) =
    (if m \<in> set cs then Some new_WorkerProgress else findWorkerProgress m s)"
  using assms
proof (induction cs arbitrary: s)
  case (Cons c cs)
  have c: "findWorkerProgress c (initializeWorker c s) = Some new_WorkerProgress"
    using Cons.prems by (auto split: option.split)
  then have "\<forall>m p. findWorkerProgress m (initializeWorker c s) = Some p \<longrightarrow> p = new_WorkerProgress"
    using Cons.prems by (metis findWorkerProgress_initialize option.inject)
  note Cons.IH [OF this]
  then show ?case using c by (cases "m = c") simp_all
qed simp

lemma init_workers_frame:
  "rs_request (fold initializeWorker cs s) = rs_request s \<and> rs_queryId (fold initializeWorker cs s) = rs_queryId s \<and>
   rs_aggregatedResult (fold initializeWorker cs s) = rs_aggregatedResult s \<and>
   rs_nextUnreadIndex (fold initializeWorker cs s) = rs_nextUnreadIndex s \<and>
   rs_state (fold initializeWorker cs s) = rs_state s"
  by (induction cs arbitrary: s) (simp_all add: initializeWorker_def)

definition accepted :: "coordinator \<Rightarrow> QueryRequest \<Rightarrow> coordinator" where
  \<comment> \<open>the coordinator after it accepted an EXECUTE request\<close>
  "accepted co req =
     begin_execute (markVisitedNode (co_selfNodeId co) (req\<lparr>qq_queryId := ''q-'' @ show_nat (co_nextQuerySeq co)\<rparr>))
       (co\<lparr>co_nextQuerySeq := co_nextQuerySeq co + 1\<rparr>)"

lemma accepted_state:
  assumes node: "node_ok T n co" "n \<noteq> []" "getNodeId (tp_worker T n) = n"
    and req: "qq_queryType req = Execute" "qq_targetNodeId req = None" "qq_distributedAllowed req" "sendable req"
  defines "k \<equiv> length (co_queryStates co)" and "s \<equiv> state_at (accepted co req) (length (co_queryStates co))"
  shows "node_ok T n (accepted co req)" and "length (co_queryStates (accepted co req)) = Suc k"
    and "\<And>j. j < k \<Longrightarrow> state_at (accepted co req) j = state_at co j"
    and "rs_queryId s = ''q-'' @ show_nat (co_nextQuerySeq co)"
    and "rs_request s = markVisitedNode n (req\<lparr>qq_queryId := ''q-'' @ show_nat (co_nextQuerySeq co)\<rparr>)"
    and "own_ok T n s" and "unread s = []"
    and "\<And>m. m = n \<or> m \<in> set (open_children T (visited s) n) \<Longrightarrow> findWorkerProgress m s = Some new_WorkerProgress"
proof -
  let ?i = "''q-'' @ show_nat (co_nextQuerySeq co)"
  let ?co = "co\<lparr>co_nextQuerySeq := co_nextQuerySeq co + 1\<rparr>"
  let ?req = "markVisitedNode n (req\<lparr>qq_queryId := ?i\<rparr>)"
  have self: "co_selfNodeId co = n" and ids: "generated_ids co" and inv: "coordinator_inv co"
    using node(1) by (auto simp: node_ok_def)
  from node_ok_client [OF node(1)] obtain cl ov where cl: "co_remoteClient co = Some cl"
    and ov: "co_overlay co = Some ov" "getChildren ov n = tp_children T n" by metis
  have acc: "accepted co req = begin_execute ?req ?co" by (simp add: accepted_def self)
  have fresh: "findRequestState ?co (qq_queryId ?req) = None"
    using ensureQueryId_fresh [OF ids, of "req\<lparr>qq_queryId := []\<rparr>"]
    by (simp add: ensureQueryId_def Let_def findRequestState_None)
  note b = begin_execute_fresh [OF fresh]
  define base where "base = on_state k (setState IN_PROGRESS)
     (?co\<lparr>co_queryStates := co_queryStates ?co @ [new_RequestState (qq_queryId ?req) ?req]\<rparr>)"
  have kb: "k < length (co_queryStates base)" by (simp add: base_def k_def)
  have at: "state_at base k = setState IN_PROGRESS (new_RequestState ?i ?req)"
    by (simp add: base_def on_state_def state_at_def nth_append k_def)
  have sel: "find (worker_selected base ?req) (co_workers base) = Some (tp_worker T n)"
  proof -
    have "worker_selected base ?req = (\<lambda>w. getNodeId w = n)"
      using req(2) node(2) self by (intro ext) (simp add: worker_selected_def base_def)
    then show ?thesis using node(1) by (simp add: node_ok_def base_def)
  qed
  let ?init = "on_state k (initializeWorker n) base"
  let ?open = "filter (\<lambda>c. \<not> hasVisitedNode ?req c) (tp_children T n)"
  obtain i co2 where ic: "init_children k ?req (tp_children T n) 1 ?init = (i, co2)" by fastforce
  have "initializeExecuteProgress k ?req base = on_state k (setExpectedWorkers i) co2"
    using ic cl ov req(3) sel node(3) self
    unfolding initializeExecuteProgress_def by (simp add: base_def)
  then have eq: "accepted co req = on_state k (setExpectedWorkers i) co2"
    unfolding acc b(1) base_def k_def by simp
  have ki: "k < length (co_queryStates ?init)" using kb by simp
  have co2: "state_at co2 k = fold initializeWorker ?open (initializeWorker n (state_at base k))"
    "co_remoteClient co2 = co_remoteClient base" "length (co_queryStates co2) = length (co_queryStates base)"
    using init_children_opens [OF ki, of ?req "tp_children T n" 1, unfolded ic snd_conv]
      steps_length [OF steps_init_children [of k ?init ?req "tp_children T n" 1, unfolded ic snd_conv]] kb
    by simp_all
  have s: "s = setExpectedWorkers i (fold initializeWorker ?open (initializeWorker n (setState IN_PROGRESS (new_RequestState ?i ?req))))"
    using kb co2 by (simp add: s_def eq at flip: k_def)
  show len: "length (co_queryStates (accepted co req)) = Suc k" unfolding acc b(3) by (simp add: k_def)
  show "rs_queryId s = ?i" and request: "rs_request s = ?req"
    by (simp_all add: s init_workers_frame) (simp_all add: new_RequestState_def)
  show "state_at (accepted co req) j = state_at co j" if "j < k" for j
    using b(2) that by (auto simp: acc steps_def state_at_def nth_append k_def)
  have vis: "visited s = insert n (set (qq_visitedNodeIds req))" by (simp add: visited_def request)
  have "hasVisitedNode ?req c \<longleftrightarrow> c \<in> visited s" for c
    by (auto simp: hasVisitedNode_def visited_def request)
  then have opens: "?open = open_children T (visited s) n" by (simp add: open_children_def)
  have none: "findWorkerProgress m (new_RequestState i r) = None" for m i r
    by (simp add: findWorkerProgress_def new_RequestState_def)
  have prog: "findWorkerProgress m s =
      (if m = n \<or> m \<in> set (open_children T (visited s) n) then Some new_WorkerProgress else None)" for m
  proof -
    let ?s0 = "initializeWorker n (setState IN_PROGRESS (new_RequestState ?i ?req))"
    have "\<forall>m p. findWorkerProgress m ?s0 = Some p \<longrightarrow> p = new_WorkerProgress" by (simp add: none)
    from init_workers_progress [OF this, of m ?open] have "findWorkerProgress m s =
        (if m \<in> set ?open then Some new_WorkerProgress else findWorkerProgress m ?s0)"
      unfolding s progress_frames .
    then have "findWorkerProgress m s =
        (if m \<in> set ?open then Some new_WorkerProgress else if m = n then Some new_WorkerProgress else None)"
      by (simp only: findWorkerProgress_initialize progress_frames none option.case)
    then show ?thesis unfolding opens by simp
  qed
  show "findWorkerProgress m s = Some new_WorkerProgress"
    if "m = n \<or> m \<in> set (open_children T (visited s) n)" for m using that by (simp add: prog)
  have win: "window s = []" "rs_nextUnreadIndex s = 0" "rs_state s = IN_PROGRESS"
    by (simp_all add: s window_def init_workers_frame) (simp_all add: new_RequestState_def empty_QueryResult_def
        setExpectedWorkers_def init_workers_frame initializeWorker_def)
  then show "unread s = []" by (simp add: unread_def)
  have "sendable ?req" using req(4) by (simp add: sendable_def request_widths_def)
  then show "own_ok T n s" using req win vis by (auto simp: own_ok_def request prog)
  show "node_ok T n (accepted co req)"
  proof -
    have "coordinator_inv (accepted co req)"
      unfolding acc by (intro coordinator_inv_begin coordinator_inv_seq inv)
    moreover have "generated_ids (accepted co req)"
    proof -
      have "generated_ids (?co\<lparr>co_queryStates := co_queryStates ?co @ [new_RequestState (qq_queryId ?req) ?req]\<rparr>)"
        using ids by (auto simp: generated_ids_def new_RequestState_def intro: less_SucI)
      from steps_ids [OF b(2) this] show ?thesis by (simp add: acc)
    qed
    moreover have "co_workers (accepted co req) = co_workers co" "co_overlay (accepted co req) = co_overlay co"
      "co_selfNodeId (accepted co req) = co_selfNodeId co"
      using b(2) by (auto simp: acc steps_def)
    moreover have "co_remoteClient (accepted co req) = co_remoteClient co"
      using co2(2) by (simp add: eq base_def)
    ultimately show ?thesis using node(1) by (simp add: node_ok_def)
  qed
qed

section \<open>A new request in the network\<close>

lemma new_serves:
  assumes "topology_ok T" and "n \<in> tp_nodes T" and "Q n k = Some s" and "own_ok T n s" and "unread s = []"
    and prog: "\<And>m. m = n \<or> m \<in> set (open_children T (visited s) n) \<Longrightarrow> findWorkerProgress m s = Some new_WorkerProgress"
    and deep: "deep_enough T d (visited s) n"
  shows "serves T d Q n k (plan_rows T d (rs_request s) (visited s) n) (plan_work T d (visited s) n) {(n, k)}"
proof (cases d)
  case (Suc d')
  let ?V = "pass_on T (visited s) n"
  let ?gR = "plan_rows T d' (rs_request s) ?V" and ?gw = "\<lambda>c. 2 * plan_work T d' ?V c + 1"
  have p: "parts T d' (serves T d' Q) Q n k s new_WorkerProgress ?gR ?gw (\<lambda>_. {})"
    using assms(3-4) prog deep
    by (auto simp: parts_def child_ok_def new_WorkerProgress_def Suc list_all_iff)
  have "plan_rows T d (rs_request s) (visited s) n = all_rows T n s new_WorkerProgress ?gR"
    using assms(5) plan_rows_Suc [OF assms(1,2)]
    by (simp add: Suc all_rows_def local_rest_def new_WorkerProgress_def)
  moreover have "plan_work T d (visited s) n = all_work T n s new_WorkerProgress ?gw"
    using assms(5) by (simp add: Suc all_work_def local_work_def new_WorkerProgress_def)
  moreover have "{(n, k)} = all_locs T n k s (\<lambda>_. {})" by (simp add: all_locs_def)
  ultimately show ?thesis unfolding Suc serves.simps using p by blast
qed (use deep in simp)

lemma accepted_moves:
  assumes top: "topology_ok T" "n \<in> tp_nodes T" and net: "net_ok T N" "N (tp_addr T n) = Some co"
    and req: "qq_queryType req = Execute" "qq_targetNodeId req = None" "qq_distributedAllowed req" "sendable req"
  defines "N' \<equiv> N(tp_addr T n \<mapsto> accepted co req)" and "k \<equiv> length (co_queryStates co)"
  shows "moves T {n} {} N N'" and "(n, k) \<in> fresh_locs T N"
    and "req_at T N' n k = Some (state_at (accepted co req) k)"
proof -
  have node: "node_ok T n co" using net top by (auto simp: net_ok_def)
  have n: "n \<noteq> []" "getNodeId (tp_worker T n) = n" using top by (auto simp: topology_ok_def)
  note a = accepted_state [OF node n req]
  show "(n, k) \<in> fresh_locs T N" using net(2) by (simp add: fresh_locs_def req_at_def k_def)
  show "req_at T N' n k = Some (state_at (accepted co req) k)"
    using a(2) by (simp add: N'_def k_def req_at_upd [OF top])
  show "moves T {n} {} N N'"
    unfolding moves_def
  proof (intro conjI allI impI ballI)
    show "net_ok T N'" unfolding N'_def by (rule net_ok_upd [OF top net(1) a(1)])
    show "N' (tp_addr T m) = N (tp_addr T m)" if "m \<in> tp_nodes T" "m \<notin> {n}" for m
      using that top by (auto simp: N'_def topology_ok_def dest: inj_onD)
    show "\<exists>s'. req_at T N' m j = Some s' \<and> rs_request s' = rs_request s \<and> rs_queryId s' = rs_queryId s \<and>
        ((m, j) \<notin> {} \<longrightarrow> s' = s)" if "req_at T N m j = Some s" for m j s
      using that a(2,3) by (auto simp: N'_def req_at_upd [OF top] req_at_node [where N = N, OF top(2) net(2)] split: if_splits)
  qed
qed

lemma sendable_message:
  assumes "ssq_scan_row_budget msg < 2 ^ 32"
  shows "sendable (fromProtoSubmitSubQueryRequest msg)"
proof -
  have "to_signed 32 (to_signed 32 i) = to_signed 32 i" for i :: int by (simp add: to_signed_def)
  then have "range32 (range32 r) = range32 r" for r by (simp add: range32_def)
  then show ?thesis using assms
    by (auto simp: sendable_def request_widths_def fromProtoSubmitSubQueryRequest_def fromProtoFilter_def
        new_QueryRequest_def Let_def to_signed_def)
qed

lemma submit_accepted:
  "SubmitSubQuery sys self msg co e =
     (fillSubmitSubQueryReply True (''q-'' @ show_nat (co_nextQuerySeq co)) self ''accepted'',
      accepted co (fromProtoSubmitSubQueryRequest msg), e)"
proof -
  let ?r = "fromProtoSubmitSubQueryRequest msg"
  have r: "qq_queryId ?r = []" "qq_queryType ?r = Execute" "?r\<lparr>qq_queryId := i, qq_distributedAllowed := True\<rparr> = ?r\<lparr>qq_queryId := i\<rparr>" for i
    by (simp_all add: fromProtoSubmitSubQueryRequest_def fromProtoFilter_def new_QueryRequest_def Let_def)
  then show ?thesis
    by (simp add: SubmitSubQuery_def co_submitSubQuery_def ensureQueryId_def Let_def accepted_def)
qed

lemma net_submit:
  assumes top: "topology_ok T" "n \<in> tp_nodes T" and net: "net_ok T N"
    and budget: "ssq_scan_row_budget msg < 2 ^ 32"
    and deep: "deep_enough T d (insert n (set (ssq_visited_node_ids msg))) n"
  defines "V \<equiv> insert n (set (ssq_visited_node_ids msg))"
  obtains resp N' j t where "op_SubmitSubQuery (net_ops (tp_fs T) d) (tp_addr T n) msg N = (Inr resp, N')"
    and "sr_accepted resp" and "moves T {n} {} N N'" and "(n, j) \<in> fresh_locs T N"
    and "req_at T N' n j = Some t" and "rs_queryId t = sr_request_id resp" and "visited t = V"
    and "serves T d (req_at T N') n j (plan_rows T d (fromProtoSubmitSubQueryRequest msg) V n)
      (plan_work T d V n) {(n, j)}"
proof -
  let ?r = "fromProtoSubmitSubQueryRequest msg"
  from deep obtain d' where d: "d = Suc d'" by (cases d) auto
  from net top obtain co where co: "N (tp_addr T n) = Some co" and node: "node_ok T n co" by (auto simp: net_ok_def)
  have n: "n \<noteq> []" "getNodeId (tp_worker T n) = n" using top by (auto simp: topology_ok_def)
  have r: "qq_queryType ?r = Execute" "qq_targetNodeId ?r = None" "qq_distributedAllowed ?r" "sendable ?r"
    "set (qq_visitedNodeIds ?r) = set (ssq_visited_node_ids msg)"
    using sendable_message [OF budget]
    by (simp_all add: fromProtoSubmitSubQueryRequest_def fromProtoFilter_def new_QueryRequest_def Let_def)
  define co' where "co' = accepted co ?r"
  define N' where "N' = N(tp_addr T n \<mapsto> co')"
  define j where "j = length (co_queryStates co)"
  define t where "t = state_at co' j"
  note a = accepted_state [OF node n r(1-4), folded co'_def j_def, folded t_def]
  note m = accepted_moves [OF top net co r(1-4), folded co'_def j_def, folded t_def N'_def]
  have V: "visited t = V" using r(5) by (simp add: visited_def a(5) V_def)
  have "serves T d (req_at T N') n j (plan_rows T d (rs_request t) V n) (plan_work T d V n) {(n, j)}"
    using new_serves [where Q = "req_at T N'", OF top m(3) a(6-8)] deep by (simp add: V V_def)
  moreover have "same_filter (rs_request t) ?r" by (simp add: a(5) same_filter_def)
  ultimately have sv: "serves T d (req_at T N') n j (plan_rows T d ?r V n) (plan_work T d V n) {(n, j)}"
    by (simp add: plan_rows_cong)
  have "op_SubmitSubQuery (net_ops (tp_fs T) d) (tp_addr T n) msg N =
      (Inr (fillSubmitSubQueryReply True (''q-'' @ show_nat (co_nextQuerySeq co)) n ''accepted''), N')"
    using node by (simp add: d on_node_def co submit_accepted co'_def N'_def node_ok_def)
  from that [OF this _ m(1) m(2) m(3) _ V sv] show ?thesis by (simp add: fillSubmitSubQueryReply_def a(4))
qed

end
