(* ===== verification/Network_Fetch.thy ===== *)
theory Network_Fetch
  imports Network_Submit
begin

text \<open>
  One fetch of a request in a network. While the handler of a node runs, the node's coordinator is in its
  hands and its children are called on the rest of the network; no such call comes back to the node.
  By induction on the nesting, a fetch delivers rows the request owed, keeps the rest owed, and makes
  the work left smaller; the rows keep the label of the node they are from.
\<close>

section \<open>Calls to a child\<close>

definition reply_rows :: "node_id \<Rightarrow> FetchReply \<Rightarrow> labelled list" where
  \<comment> \<open>the rows of a reply as the parent reads them\<close>
  "reply_rows n r = zip (map fromTripRow (fr_rows r)) (map (rowSource n) (fr_rows r))"

definition fetch_spec :: "topology \<Rightarrow> nat \<Rightarrow> bool" where
  "fetch_spec T d \<longleftrightarrow>
     (\<forall>N n k s R w F mx. n \<in> tp_nodes T \<and> net_ok T N \<and> req_at T N n k = Some s \<and>
        serves T d (req_at T N) n k R w F \<longrightarrow>
        (\<exists>r N' R' w' F'.
           op_FetchSubChunk (net_ops (tp_fs T) d) (tp_addr T n) \<lparr> fq_request_id = rs_queryId s, fq_max_rows = mx \<rparr> N
             = (Inr r, N') \<and> fr_found r \<and>
           moves T (insert n (tp_nodes T - visited s)) F N N' \<and>
           serves T d (req_at T N') n k R' w' F' \<and> F' \<subseteq> F \<union> fresh_locs T N \<and>
           R = mset (reply_rows n r) + R' \<and> (\<forall>x \<in> set (reply_rows n r). carried_row x) \<and>
           (if fr_done r then R' = {#} \<and> length (fr_rows r) \<le> w
            else w' + max 1 (length (fr_rows r)) \<le> w)))"

lemma moves_new_locs:
  "moves T A F N N' \<Longrightarrow> req_at T N m j = None \<Longrightarrow> req_at T N' m j \<noteq> None \<Longrightarrow> m \<in> A"
  by (auto simp: moves_def req_at_def split: if_splits)

lemma moves_lift:
  assumes top: "topology_ok T" "n \<in> tp_nodes T" and co: "N (tp_addr T n) = Some co"
    and call: "moves T A F (N(tp_addr T n \<mapsto> co0)) N'" "n \<notin> A"
    and co': "node_ok T n co'" "steps k co co'"
  shows "moves T (insert n A) (insert (n, k) F) N (N'(tp_addr T n \<mapsto> co'))" and "N' (tp_addr T n) = Some co0"
proof -
  show "N' (tp_addr T n) = Some co0" using call top(2) by (simp add: moves_def)
  show "moves T (insert n A) (insert (n, k) F) N (N'(tp_addr T n \<mapsto> co'))"
    unfolding moves_def
  proof (intro conjI allI impI ballI)
    show "net_ok T (N'(tp_addr T n \<mapsto> co'))"
      using call(1) by (intro net_ok_upd [OF top _ co'(1)]) (simp add: moves_def)
    show "(N'(tp_addr T n \<mapsto> co')) (tp_addr T m) = N (tp_addr T m)" if "m \<in> tp_nodes T" "m \<notin> insert n A" for m
      using that top call(1) by (auto simp: moves_def topology_ok_def dest: inj_onD)
    show "\<exists>s'. req_at T (N'(tp_addr T n \<mapsto> co')) m j = Some s' \<and> rs_request s' = rs_request s \<and>
        rs_queryId s' = rs_queryId s \<and> ((m, j) \<notin> insert (n, k) F \<longrightarrow> s' = s)" if s: "req_at T N m j = Some s" for m j s
    proof (cases "m = n")
      case True
      then show ?thesis using s co'(2)
        by (auto simp: req_at_upd [OF top] req_at_node [where N = N, OF top(2) co] steps_def split: if_splits)
    next
      case False
      then have "req_at T (N(tp_addr T n \<mapsto> co0)) m j = Some s" using s by (simp add: req_at_upd [OF top])
      with call(1) obtain s' where "req_at T N' m j = Some s'" "rs_request s' = rs_request s"
        "rs_queryId s' = rs_queryId s" "(m, j) \<notin> F \<longrightarrow> s' = s" unfolding moves_def by blast
      with False show ?thesis by (auto simp: req_at_upd [OF top])
    qed
  qed
qed

lemma serves_elsewhere:
  assumes "topology_ok T" and "n \<in> tp_nodes T" and "serves T d (req_at T N) c j R w F" and "n \<notin> fst ` F"
  shows "serves T d (req_at T (N(tp_addr T n \<mapsto> co))) c j R w F"
  by (rule serves_frame [OF assms(3)]) (use assms(4) in \<open>auto simp: req_at_upd [OF assms(1,2)] image_iff\<close>)

lemma child_ok_alloc: "child_ok T d (serves T d Q) Q n s c R w F \<Longrightarrow> (m, j) \<in> F \<Longrightarrow> Q m j \<noteq> None"
  by (auto simp: child_ok_def split: if_splits dest: serves_alloc)

lemma parts_child_step:
  assumes p: "parts T d (serves T d Q) Q n k s p gR gw gF"
    and c: "c \<in> set (open_children T (visited s) n)"
    and own: "Q' n k = Some s'" "own_ok T n s'" "rs_request s' = rs_request s"
    and prog: "\<And>m. m \<noteq> c \<Longrightarrow> findWorkerProgress m s' = findWorkerProgress m s"
    and frame: "\<And>m j t. m \<noteq> n \<Longrightarrow> Q m j = Some t \<Longrightarrow> (m, j) \<notin> gF c \<Longrightarrow> Q' m j = Some t"
    and ok: "child_ok T d (serves T d Q') Q' n s' c Rc wc Fc"
    and new: "Fc \<subseteq> gF c \<union> {(m, j). Q m j = None}"
  shows "parts T d (serves T d Q') Q' n k s' p (gR(c := Rc)) (gw(c := wc)) (gF(c := Fc))"
proof -
  have n: "n \<in> visited s" using p by (simp add: parts_def own_ok_def)
  have v: "visited s' = visited s" by (rule visited_cong [OF own(3)])
  have "c \<noteq> n" using c n by (auto simp: open_children_def)
  with prog p have own_prog: "findWorkerProgress n s' = Some p" by (simp add: parts_def)
  have old: "child_ok T d (serves T d Q) Q n s b (gR b) (gw b) (gF b)"
    if "b \<in> set (open_children T (visited s) n)" for b using p that by (simp add: parts_def)
  have keep: "Q' m j = Q m j" if b: "b \<in> set (open_children T (visited s) n)" "b \<noteq> c" and l: "(m, j) \<in> gF b" for b m j
  proof -
    have "m \<noteq> n" using child_ok_locs [OF old [OF b(1)]] n l by force
    moreover obtain t where "Q m j = Some t" using child_ok_alloc [OF old [OF b(1)] l] by blast
    moreover have "(m, j) \<notin> gF c" using p b c l unfolding parts_def by blast
    ultimately show ?thesis using frame by simp
  qed
  have child: "child_ok T d (serves T d Q') Q' n s' b (gR b) (gw b) (gF b)"
    if b: "b \<in> set (open_children T (visited s) n)" "b \<noteq> c" for b
    unfolding child_ok_state [OF prog [OF b(2)] own(3)]
  proof (rule child_ok_frame [OF old [OF b(1)] _ keep [OF b]])
    show "(b, j) \<in> gF b \<and> serves T d Q' b j R v F'"
      if "serves T d Q b j R v F'" "F' = gF b" for j R v F'
      using serves_root [OF that(1)] serves_frame [OF that(1)] keep [OF b] that(2) by blast
  qed
  have apart: "Fc \<inter> gF b = {}" if b: "b \<in> set (open_children T (visited s) n)" "b \<noteq> c" for b
  proof -
    have "gF c \<inter> gF b = {}" using p b c unfolding parts_def by blast
    then show ?thesis using new child_ok_alloc [OF old [OF b(1)]] by fastforce
  qed
  have "\<forall>b \<in> set (open_children T (visited s) n). \<forall>b' \<in> set (open_children T (visited s) n).
      b \<noteq> b' \<longrightarrow> (gF(c := Fc)) b \<inter> (gF(c := Fc)) b' = {}"
    using p apart apart [THEN trans [OF Int_commute]] by (auto simp: parts_def)
  then show ?thesis using p own own_prog ok child by (simp add: parts_def v)
qed

lemma sum_update:
  fixes g :: "'a \<Rightarrow> 'b :: comm_monoid_add"
  assumes "finite S" and "c \<in> S"
  shows "sum (g(c := y)) S + g c = sum g S + y"
proof -
  have "sum (g(c := y)) (S - {c}) = sum g (S - {c})" by (rule sum.cong) auto
  then show ?thesis using assms by (simp add: sum.remove [of S c] ac_simps)
qed

lemma stub_of_child:
  assumes "topology_ok T" and "n \<in> tp_nodes T" and "node_ok T n co" and "co_remoteClient co = Some cl"
    and "c \<in> set (tp_children T n)"
  obtains cl' where "getOrCreateStub (net_ops fs d) cl c = (Some (tp_addr T c), cl')"
    and "rc_overlay cl' = rc_overlay cl" and "stubs_ok cl'"
proof -
  have cl: "stubs_ok cl" "resolveTarget cl c = tp_addr T c" "tp_addr T c \<noteq> []"
    using assms node_ok_client [OF assms(3)] by (auto simp: topology_ok_def)
  obtain t cl' where g: "getOrCreateStub (net_ops fs d) cl c = (t, cl')" by fastforce
  then have "t = Some (tp_addr T c)"
    using cl by (auto simp: getOrCreateStub_def Let_def stubs_ok_def split: option.splits)
  moreover have "rc_overlay cl' = rc_overlay cl" "stubs_ok cl'"
    using getOrCreateStub_frame(2) [of "net_ops fs d" cl c] getOrCreateStub_ok [OF cl(1), of "net_ops fs d" c]
    by (simp_all add: g)
  ultimately show ?thesis using that g by blast
qed

lemma working_child:
  \<comment> \<open>a step on one child, put together from the call and the new record of the request\<close>
  assumes wk: "working T d N n k co R w F"
    and parts: "parts T d (serves T d (req_at T N)) (req_at T N) n k (state_at co k) p gR gw gF"
      "R = all_rows T n (state_at co k) p gR" "w = all_work T n (state_at co k) p gw"
      "F = all_locs T n k (state_at co k) gF"
    and c: "c \<in> set (open_children T (visited (state_at co k)) n)"
    and call: "moves T A (gF c) (N(tp_addr T n \<mapsto> co0)) N'" "A \<subseteq> tp_nodes T - visited (state_at co k)"
    and co': "node_ok T n co'" "steps k co co'" "state_at co' k = s'"
    and own: "own_ok T n s'" "rs_request s' = rs_request (state_at co k)" "unread s' = unread (state_at co k) @ X"
    and prog: "\<And>m. m \<noteq> c \<Longrightarrow> findWorkerProgress m s' = findWorkerProgress m (state_at co k)"
    and ok: "child_ok T d (serves T d (req_at T (N'(tp_addr T n \<mapsto> co')))) (req_at T (N'(tp_addr T n \<mapsto> co')))
      n s' c Rc wc Fc"
    and new: "Fc \<subseteq> gF c \<union> fresh_locs T N"
  obtains R' w' F' where "working T d (N'(tp_addr T n \<mapsto> co')) n k co' R' w' F'" and "R' + gR c = R + mset X + Rc"
    and "w' + gw c = w + length X + wc"
    and "F' \<subseteq> F \<union> fresh_locs T N" and "N' (tp_addr T n) = Some co0"
    and "moves T (insert n (tp_nodes T - visited (state_at co k))) F N (N'(tp_addr T n \<mapsto> co'))"
proof -
  let ?s = "state_at co k" and ?N' = "N'(tp_addr T n \<mapsto> co')"
  let ?S = "set (open_children T (visited ?s) n)"
  from wk have top: "topology_ok T" "n \<in> tp_nodes T" and net: "net_ok T N" and co: "N (tp_addr T n) = Some co"
    by (auto simp: working_def)
  have k: "k < length (co_queryStates co)"
    using parts(1) by (auto simp: parts_def req_at_node [where N = N, OF top(2) co] split: if_splits)
  have k': "k < length (co_queryStates co')" using k co'(2) by (simp add: steps_def)
  have n: "n \<in> visited ?s" using parts(1) by (simp add: parts_def own_ok_def)
  then have nA: "n \<notin> A" using call(2) by auto
  note lift = moves_lift [OF top co call(1) nA co'(1,2)]
  have at: "req_at T ?N' n k = Some s'" using k' co'(3) by (simp add: req_at_upd [OF top])
  have frame: "req_at T ?N' m j = Some t" if "m \<noteq> n" "req_at T N m j = Some t" "(m, j) \<notin> gF c" for m j t
    using lift(1) that unfolding moves_def by fastforce
  have new': "Fc \<subseteq> gF c \<union> {(m, j). req_at T N m j = None}" using new by (simp add: fresh_locs_def)
  have parts': "parts T d (serves T d (req_at T ?N')) (req_at T ?N') n k s' p (gR(c := Rc)) (gw(c := wc)) (gF(c := Fc))"
    by (rule parts_child_step [where Q = "req_at T N" and Q' = "req_at T ?N'", OF parts(1) c at own(1,2) prog frame ok new'])
  have v: "visited s' = visited ?s" by (rule visited_cong [OF own(2)])
  have rest: "local_rest T n s' p = local_rest T n ?s p" by (simp add: local_rest_def own(2))
  define R' where "R' = all_rows T n s' p (gR(c := Rc))"
  have R': "R' + gR c = R + mset X + Rc"
  proof -
    have "sum (gR(c := Rc)) ?S + gR c = sum gR ?S + Rc" by (rule sum_update [OF _ c]) simp
    then show ?thesis by (simp add: R'_def parts(2) all_rows_def v own(3) rest ac_simps)
  qed
  define w' where "w' = all_work T n s' p (gw(c := wc))"
  have w': "w' + gw c = w + length X + wc"
  proof -
    have "sum (gw(c := wc)) ?S + gw c = sum gw ?S + wc" by (rule sum_update [OF _ c]) simp
    then show ?thesis by (simp add: w'_def parts(3) all_work_def v own(3))
  qed
  define F' where "F' = all_locs T n k s' (gF(c := Fc))"
  have wk': "working T d ?N' n k co' R' w' F'"
    by (rule workingI [OF top _ _ parts' R'_def w'_def F'_def]) (use lift(1) in \<open>simp_all add: moves_def\<close>)
  have "F' \<subseteq> F \<union> fresh_locs T N" using new c by (auto simp: F'_def parts(4) all_locs_def v)
  moreover have "moves T (insert n (tp_nodes T - visited ?s)) F N ?N'"
    by (rule moves_mono [OF lift(1)]) (use call(2) c in \<open>auto simp: parts(4) all_locs_def\<close>)
  ultimately show ?thesis using that wk' R' w' lift(2) by blast
qed

section \<open>Submitting to a child\<close>

lemma mark_all_frame:
  "qq_scanRowBudget (fold markVisitedNode cs r) = qq_scanRowBudget r"
  "qq_chunkSize (fold markVisitedNode cs r) = qq_chunkSize r"
  "qq_totalAmountRange (fold markVisitedNode cs r) = qq_totalAmountRange r"
  "qq_tipAmountRange (fold markVisitedNode cs r) = qq_tipAmountRange r"
  "qq_paymentType (fold markVisitedNode cs r) = qq_paymentType r"
  by (induction cs arbitrary: r) simp_all

lemma mark_all_filter: "same_filter (fold markVisitedNode cs r) f = same_filter r f"
proof (induction cs arbitrary: r)
  case (Cons c cs)
  then show ?case by (simp only: fold_simps) (simp add: same_filter_def)
qed simp

lemma child_request_sendable:
  assumes "sendable req"
  shows "request_widths (child_request co req cs m)" and "same_filter (child_request co req cs m) req"
proof -
  have "chooseAdaptiveChunkSize co m < 2 ^ 32"
    using chooseAdaptiveChunkSize_bounds [of co m] by (simp add: LARGE_CHUNK_SIZE_def)
  then show "request_widths (child_request co req cs m)"
    using assms by (simp add: sendable_def request_widths_def child_request_def mark_all_frame)
  show "same_filter (child_request co req cs m) req"
    by (simp only: child_request_def mark_all_filter) (simp add: same_filter_def)
qed

lemma child_message:
  fixes self parent :: string and co :: coordinator and cs :: "node_id list" and m :: nat
  assumes "sendable req"
  defines "msg \<equiv> toProtoSubQuery self (child_request co req cs m) parent"
  shows "ssq_scan_row_budget msg < 2 ^ 32"
    and "set (ssq_visited_node_ids msg) = insert (co_selfNodeId co) (set cs) \<union> set (qq_visitedNodeIds req)"
    and "same_filter (fromProtoSubmitSubQueryRequest msg) req"
proof -
  show "ssq_scan_row_budget msg < 2 ^ 32" by (simp add: msg_def toProtoSubQuery_def)
  show "set (ssq_visited_node_ids msg) = insert (co_selfNodeId co) (set cs) \<union> set (qq_visitedNodeIds req)"
    unfolding msg_def toProtoSubQuery_def by (simp add: child_request_visited)
  show "same_filter (fromProtoSubmitSubQueryRequest msg) req"
    using subquery_roundtrip [OF child_request_sendable(1) [OF assms(1)]] child_request_sendable(2) [OF assms(1)]
    by (simp add: msg_def same_filter_def)
qed

lemma child_submitted:
  assumes wk: "working T d N n k co R w F" and c: "c \<in> set (open_children T (visited (state_at co k)) n)"
    and q: "findWorkerProgress c (state_at co k) = Some q" "\<not> wp_completed q" "\<not> wp_submitted q"
    and cl: "co_remoteClient co = Some cl" and co0: "node_ok T n co0"
  obtains rid msg cl' N' F' where
    "submitSubQuery (net_ops (tp_fs T) d) c (child_request co (rs_request (state_at co k)) (tp_children T n) mx)
       (rs_queryId (state_at co k)) cl (N(tp_addr T n \<mapsto> co0)) = ((True, rid, msg), cl', N')"
    and "let co' = on_state k (putWorkerProgress c (q\<lparr>wp_remoteRequestId := rid, wp_submitted := True\<rparr>))
               (co\<lparr>co_remoteClient := Some cl'\<rparr>)
         in working T d (N'(tp_addr T n \<mapsto> co')) n k co' R w F' \<and>
            moves T (insert n (tp_nodes T - visited (state_at co k))) F N (N'(tp_addr T n \<mapsto> co'))"
    and "F' \<subseteq> F \<union> fresh_locs T N" and "N' (tp_addr T n) = Some co0"
    and "rc_overlay cl' = rc_overlay cl" and "stubs_ok cl'" and "moves T {c} {} (N(tp_addr T n \<mapsto> co0)) N'"
proof -
  let ?s = "state_at co k"
  from wk have top: "topology_ok T" "n \<in> tp_nodes T" and net: "net_ok T N" and co: "N (tp_addr T n) = Some co"
    by (auto simp: working_def)
  from wk obtain p gR gw gF where k: "k < length (co_queryStates co)" and node: "node_ok T n co"
    and parts: "parts T d (serves T d (req_at T N)) (req_at T N) n k ?s p gR gw gF"
      "R = all_rows T n ?s p gR" "w = all_work T n ?s p gw" "F = all_locs T n k ?s gF"
    by (rule working_parts)
  have own: "own_ok T n ?s" using parts(1) by (simp add: parts_def)
  then have n: "n \<in> visited ?s" and send: "sendable (rs_request ?s)" by (simp_all add: own_ok_def)
  let ?V = "pass_on T (visited ?s) n"
  have cc: "c \<in> set (tp_children T n)" "c \<notin> visited ?s" "c \<in> tp_nodes T" "c \<noteq> n"
    using c n top by (auto simp: open_children_def topology_ok_def)
  have "child_ok T d (serves T d (req_at T N)) (req_at T N) n ?s c (gR c) (gw c) (gF c)"
    using parts(1) c by (simp add: parts_def)
  with q have g: "gR c = plan_rows T d (rs_request ?s) ?V c" "gw c = 2 * plan_work T d ?V c + 1" "gF c = {}"
    and deep: "deep_enough T d ?V c" by (auto simp: child_ok_def)
  obtain cl' where stub: "getOrCreateStub (net_ops (tp_fs T) d) cl c = (Some (tp_addr T c), cl')"
    and cl': "rc_overlay cl' = rc_overlay cl" "stubs_ok cl'"
    by (rule stub_of_child [OF top node cl cc(1)])
  define msg where "msg = toProtoSubQuery (rc_selfNodeId cl')
    (child_request co (rs_request ?s) (tp_children T n) mx) (rs_queryId ?s)"
  note m = child_message [OF send, of "rc_selfNodeId cl'" co "tp_children T n" mx "rs_queryId ?s", folded msg_def]
  have V: "insert c (set (ssq_visited_node_ids msg)) = ?V"
    using m(2) n cc(1) node by (auto simp: visited_def node_ok_def)
  let ?N = "N(tp_addr T n \<mapsto> co0)"
  have net0: "net_ok T ?N" by (rule net_ok_upd [OF top net co0])
  obtain resp N' j t where op: "op_SubmitSubQuery (net_ops (tp_fs T) d) (tp_addr T c) msg ?N = (Inr resp, N')"
    and acc: "sr_accepted resp" and mv: "moves T {c} {} ?N N'" and fr: "(c, j) \<in> fresh_locs T ?N"
    and at: "req_at T N' c j = Some t" "rs_queryId t = sr_request_id resp" "visited t = ?V"
    and sv: "serves T d (req_at T N') c j (plan_rows T d (fromProtoSubmitSubQueryRequest msg) ?V c)
      (plan_work T d ?V c) {(c, j)}"
    by (rule net_submit [where d = d, OF top(1) cc(3) net0 m(1), unfolded V]) (use deep in blast)+
  let ?q = "q\<lparr>wp_remoteRequestId := sr_request_id resp, wp_submitted := True\<rparr>"
  define co' where "co' = on_state k (putWorkerProgress c ?q) (co\<lparr>co_remoteClient := Some cl'\<rparr>)"
  define s' where "s' = putWorkerProgress c ?q ?s"
  have at': "state_at co' k = s'" using k by (simp add: co'_def s'_def)
  have st: "steps k co co'"
    unfolding co'_def
    by (rule steps_trans [OF steps_client [OF cl] steps_put [where q = q]]) (use cl' q in auto)
  have node': "node_ok T n co'" by (rule node_ok_steps [OF node st]) (simp add: co'_def cl cl')
  have request: "rs_request s' = rs_request ?s" by (simp add: s'_def)
  have own': "own_ok T n s' \<and> unread s' = unread ?s @ []"
    by (rule own_ok_append [OF own]) (use q in \<open>auto simp: s'_def\<close>)
  have "req_at T (N'(tp_addr T n \<mapsto> co')) c j = Some t" using at(1) cc(4) by (simp add: req_at_upd [OF top])
  moreover have "serves T d (req_at T (N'(tp_addr T n \<mapsto> co'))) c j (gR c) (plan_work T d ?V c) {(c, j)}"
    using serves_elsewhere [OF top sv] cc(4) by (simp add: g plan_rows_cong [OF m(3)])
  moreover have "visited ?s \<subseteq> visited t" using at(3) by simp
  ultimately have ok: "child_ok T d (serves T d (req_at T (N'(tp_addr T n \<mapsto> co')))) (req_at T (N'(tp_addr T n \<mapsto> co')))
      n s' c (gR c) (gw c) {(c, j)}"
    using q at(2) cc(2) visited_cong [OF request] by (auto simp: child_ok_def s'_def g(2))
  have mv': "moves T {c} (gF c) ?N N'" using mv by (simp add: g(3))
  have fr': "{(c, j)} \<subseteq> gF c \<union> fresh_locs T N"
    using fr cc(4) by (simp add: fresh_locs_def req_at_upd [OF top])
  obtain R' w' F' where wk': "working T d (N'(tp_addr T n \<mapsto> co')) n k co' R' w' F'" and R': "R' + gR c = R + mset [] + gR c"
    and w': "w' + gw c = w + length ([] :: labelled list) + gw c" and F': "F' \<subseteq> F \<union> fresh_locs T N"
    and N': "N' (tp_addr T n) = Some co0"
    and mvs: "moves T (insert n (tp_nodes T - visited ?s)) F N (N'(tp_addr T n \<mapsto> co'))"
    by (rule working_child [OF wk parts c mv' _ node' st at' conjunct1 [OF own'] request conjunct2 [OF own'] _ ok fr'])
      (use cc in \<open>auto simp: s'_def\<close>)
  have "submitSubQuery (net_ops (tp_fs T) d) c (child_request co (rs_request ?s) (tp_children T n) mx)
       (rs_queryId ?s) cl ?N = ((True, sr_request_id resp, sr_message resp), cl', N')"
    using stub op acc by (simp add: submitSubQuery_def msg_def)
  moreover have "w' = w" "R' = R" using w' R' by simp_all
  ultimately show ?thesis using that wk' mvs F' N' cl' mv unfolding co'_def Let_def by blast
qed

section \<open>Fetching from a child\<close>

lemma fetch_from_child_run:
  assumes k: "k < length (co_queryStates co)" and inv: "request_inv (state_at co k)"
    and stub: "getOrCreateStub (sys_ops sys) cl c = (Some a, cl')"
    and op: "op_FetchSubChunk (sys_ops sys) a
       \<lparr> fq_request_id = wp_remoteRequestId q, fq_max_rows = chooseAdaptiveChunkSize co mx mod 2 ^ 32 \<rparr> e = (Inr r, e')"
    and found: "fr_found r" and q: "findWorkerProgress c (state_at co k) = Some q"
  obtains got co' where "fetch_from_child sys k mx c q cl co e = (got, co', e')"
    and "co_remoteClient co' = Some cl'" and "rs_request (state_at co' k) = rs_request (state_at co k)"
    and "rs_state (state_at co' k) = rs_state (state_at co k)"
    and "rs_nextUnreadIndex (state_at co' k) = rs_nextUnreadIndex (state_at co k)"
    and "window (state_at co' k) = window (state_at co k) @ reply_rows c r"
    and "\<And>m. findWorkerProgress m (state_at co' k) =
       (if m = c then Some (q\<lparr>wp_hasMore := \<not> fr_done r, wp_completed := fr_done r\<rparr>)
        else findWorkerProgress m (state_at co k))"
proof -
  let ?trips = "map fromTripRow (fr_rows r)" and ?sources = "map (rowSource c) (fr_rows r)"
  define res where "res = empty_QueryResult\<lparr>qr_rowsScanned := length ?trips, qr_rowsMatched := length ?trips,
     qr_rowsEmitted := length ?trips, qr_matchedTrips := ?trips, qr_matchedTripSources := ?sources,
     qr_hasMore := \<not> fr_done r\<rparr>"
  define co' where "co' = on_state k (updateWorkerProgress c (wp_nextStartRow q) (\<not> fr_done r))
    (on_state k (mergePartialResult res) (co\<lparr>co_remoteClient := Some cl'\<rparr>))"
  have run: "fetch_from_child sys k mx c q cl co e = (?trips \<noteq> [], co', e')"
    using stub op found by (simp add: fetch_from_child_def fetchSubChunk_def co'_def res_def Let_def)
  have at: "state_at co' k = updateWorkerProgress c (wp_nextStartRow q) (\<not> fr_done r)
      (mergePartialResult res (state_at co k))" using k by (simp add: co'_def)
  have "window (state_at co' k) = window (state_at co k) @ reply_rows c r"
    by (simp add: at window_merge [OF inv] res_def reply_rows_def)
  moreover have "findWorkerProgress m (state_at co' k) =
       (if m = c then Some (q\<lparr>wp_hasMore := \<not> fr_done r, wp_completed := fr_done r\<rparr>)
        else findWorkerProgress m (state_at co k))" for m
    using q by (simp add: at)
  moreover have "co_remoteClient co' = Some cl'" by (simp add: co'_def)
  ultimately show ?thesis by (intro that [OF run]) (simp_all add: at)
qed

lemma child_linked:
  \<comment> \<open>what is known of the child's request when its parent calls\<close>
  assumes wk: "working T d N n k co R w F"
    and c: "c \<in> set (open_children T (visited (state_at co k)) n)"
    and q: "findWorkerProgress c (state_at co k) = Some q" "\<not> wp_completed q" "wp_submitted q" and co0: "node_ok T n co0"
  obtains p gR gw gF j t v where "parts T d (serves T d (req_at T N)) (req_at T N) n k (state_at co k) p gR gw gF"
    and "R = all_rows T n (state_at co k) p gR" and "w = all_work T n (state_at co k) p gw"
    and "F = all_locs T n k (state_at co k) gF"
    and "net_ok T (N(tp_addr T n \<mapsto> co0))" and "req_at T (N(tp_addr T n \<mapsto> co0)) c j = Some t"
    and "rs_queryId t = wp_remoteRequestId q" and "visited (state_at co k) \<subseteq> visited t"
    and "serves T d (req_at T (N(tp_addr T n \<mapsto> co0))) c j (gR c) v (gF c)" and "gw c = 2 * v + 1"
    and "fst ` gF c \<inter> visited (state_at co k) = {}"
proof -
  let ?s = "state_at co k" and ?N = "N(tp_addr T n \<mapsto> co0)"
  from wk have top: "topology_ok T" "n \<in> tp_nodes T" and net: "net_ok T N" by (auto simp: working_def)
  from wk obtain p gR gw gF where parts: "parts T d (serves T d (req_at T N)) (req_at T N) n k ?s p gR gw gF"
      "R = all_rows T n ?s p gR" "w = all_work T n ?s p gw" "F = all_locs T n k ?s gF"
    by (rule working_parts)
  have n: "n \<in> visited ?s" using parts(1) by (simp add: parts_def own_ok_def)
  then have cc: "c \<noteq> n" using c by (auto simp: open_children_def)
  have "child_ok T d (serves T d (req_at T N)) (req_at T N) n ?s c (gR c) (gw c) (gF c)"
    using parts(1) c by (simp add: parts_def)
  with q obtain j t v where t: "req_at T N c j = Some t" "rs_queryId t = wp_remoteRequestId q" "visited ?s \<subseteq> visited t"
    and sv: "serves T d (req_at T N) c j (gR c) v (gF c)" and gw: "gw c = 2 * v + 1"
    and away: "fst ` gF c \<inter> visited ?s = {}"
    by (auto simp: child_ok_def)
  have "req_at T ?N c j = Some t" using t(1) cc by (simp add: req_at_upd [OF top])
  moreover have "serves T d (req_at T ?N) c j (gR c) v (gF c)"
    by (rule serves_elsewhere [OF top sv]) (use away n in auto)
  ultimately show ?thesis using that parts net_ok_upd [OF top net co0] t(2,3) gw away by blast
qed

lemma child_replied:
  \<comment> \<open>a chunk of a child, merged by its parent; the call changed the requests of the child's subtree only\<close>
  assumes wk: "working T d N n k co R w F"
    and c: "c \<in> set (open_children T (visited (state_at co k)) n)"
    and q: "findWorkerProgress c (state_at co k) = Some q" "\<not> wp_completed q" "wp_submitted q"
    and cl: "co_remoteClient co = Some cl" "rc_overlay cl' = rc_overlay cl" "stubs_ok cl'"
    and stub: "getOrCreateStub (sys_ops sys) cl c = (Some (tp_addr T c), cl')"
    and parts: "parts T d (serves T d (req_at T N)) (req_at T N) n k (state_at co k) p gR gw gF"
      "R = all_rows T n (state_at co k) p gR" "w = all_work T n (state_at co k) p gw"
      "F = all_locs T n k (state_at co k) gF"
    and t0: "req_at T (N(tp_addr T n \<mapsto> co0)) c j = Some t" and t: "rs_queryId t = wp_remoteRequestId q" "visited (state_at co k) \<subseteq> visited t"
    and away: "fst ` gF c \<inter> visited (state_at co k) = {}"
    and op: "op_FetchSubChunk (sys_ops sys) (tp_addr T c)
       \<lparr> fq_request_id = wp_remoteRequestId q, fq_max_rows = chooseAdaptiveChunkSize co mx mod 2 ^ 32 \<rparr> e = (Inr r, e')"
    and found: "fr_found r" and mv: "moves T (insert c (tp_nodes T - visited t)) (gF c) (N(tp_addr T n \<mapsto> co0)) N'"
    and svc: "serves T d (req_at T N') c j Rc v' Fc" and Fc: "Fc \<subseteq> gF c \<union> fresh_locs T (N(tp_addr T n \<mapsto> co0))"
    and carried: "\<forall>x \<in> set (reply_rows c r). carried_row x"
  obtains got co' R' w' F' where "fetch_from_child sys k mx c q cl co e = (got, co', e')"
    and "working T d (N'(tp_addr T n \<mapsto> co')) n k co' R' w' F'"
    and "R' + gR c = R + mset (reply_rows c r) + (if fr_done r then {#} else Rc)"
    and "w' + gw c = w + length (fr_rows r) + (if fr_done r then 0 else 2 * v' + 1)"
    and "F' \<subseteq> F \<union> fresh_locs T N" and "N' (tp_addr T n) = Some co0"
    and "moves T (insert n (tp_nodes T - visited (state_at co k))) F N (N'(tp_addr T n \<mapsto> co'))"
    and "\<And>m. m \<noteq> c \<Longrightarrow> findWorkerProgress m (state_at co' k) = findWorkerProgress m (state_at co k)"
proof -
  let ?s = "state_at co k" and ?N = "N(tp_addr T n \<mapsto> co0)"
  from wk have top: "topology_ok T" "n \<in> tp_nodes T" and net: "net_ok T N" and co: "N (tp_addr T n) = Some co"
    by (auto simp: working_def)
  obtain k: "k < length (co_queryStates co)" and node: "node_ok T n co" by (rule working_parts [OF wk])
  have own: "own_ok T n ?s" using parts(1) by (simp add: parts_def)
  then have n: "n \<in> visited ?s" by (simp add: own_ok_def)
  have cc: "c \<in> set (tp_children T n)" "c \<notin> visited ?s" "c \<in> tp_nodes T" "c \<noteq> n"
    using c n top by (auto simp: open_children_def topology_ok_def)
  have A: "insert c (tp_nodes T - visited t) \<subseteq> tp_nodes T - visited ?s" using cc(2,3) t(2) by auto
  have loc: "m \<notin> visited ?s \<and> ((m, i) \<in> gF c \<or> (m, i) \<in> fresh_locs T N)" if l: "(m, i) \<in> Fc" for m i
  proof (cases "(m, i) \<in> gF c")
    case True
    then show ?thesis using away by force
  next
    case False
    with Fc l have fr: "req_at T ?N m i = None" by (auto simp: fresh_locs_def)
    have "m \<notin> visited ?s" using moves_new_locs [OF mv fr] serves_alloc [OF svc l] A by auto
    then show ?thesis using fr n by (auto simp: fresh_locs_def req_at_upd [OF top] split: if_splits)
  qed
  obtain got co' where run: "fetch_from_child sys k mx c q cl co e = (got, co', e')"
    and client: "co_remoteClient co' = Some cl'" and request: "rs_request (state_at co' k) = rs_request ?s"
    and st: "rs_state (state_at co' k) = rs_state ?s"
    and next_unread: "rs_nextUnreadIndex (state_at co' k) = rs_nextUnreadIndex ?s"
    and win: "window (state_at co' k) = window ?s @ reply_rows c r"
    and prog: "\<And>m. findWorkerProgress m (state_at co' k) =
       (if m = c then Some (q\<lparr>wp_hasMore := \<not> fr_done r, wp_completed := fr_done r\<rparr>) else findWorkerProgress m ?s)"
    by (rule fetch_from_child_run [OF k own_ok_request_inv [OF node k] stub op found q(1)]) blast
  have steps: "steps k co co'"
    using steps_fetch_from_child [OF cl(1), of cl k sys mx c q e] by (simp add: run)
  have node': "node_ok T n co'" by (rule node_ok_steps [OF node steps]) (simp add: client cl)
  have own': "own_ok T n (state_at co' k) \<and> unread (state_at co' k) = unread ?s @ reply_rows c r"
    by (rule own_ok_append [OF own st request _ next_unread win carried]) (simp add: prog q(1))
  let ?Q = "req_at T (N'(tp_addr T n \<mapsto> co'))"
  define Rd wd Fd where "Rd = (if fr_done r then {#} else Rc)" and "wd = (if fr_done r then 0 else 2 * v' + 1)"
    and "Fd = (if fr_done r then {} else Fc)"
  have ok: "child_ok T d (serves T d ?Q) ?Q n (state_at co' k) c Rd wd Fd"
  proof (cases "fr_done r")
    case True
    then show ?thesis by (simp add: child_ok_def prog Rd_def wd_def Fd_def)
  next
    case False
    from mv t0 obtain t' where "req_at T N' c j = Some t'" "rs_request t' = rs_request t" "rs_queryId t' = rs_queryId t"
      unfolding moves_def by blast
    then have "?Q c j = Some t'" "rs_queryId t' = wp_remoteRequestId q" "visited ?s \<subseteq> visited t'"
      using cc(4) t by (simp_all add: req_at_upd [OF top] visited_def)
    moreover have "serves T d ?Q c j Rc v' Fc"
      by (rule serves_elsewhere [OF top svc]) (use loc n in force)
    moreover have "fst ` Fc \<inter> visited ?s = {}" using loc by force
    ultimately show ?thesis
      using False q visited_cong [OF request] by (auto simp: child_ok_def prog Rd_def wd_def Fd_def)
  qed
  have new: "Fd \<subseteq> gF c \<union> fresh_locs T N" using loc by (auto simp: Fd_def)
  obtain R' w' F' where wk': "working T d (N'(tp_addr T n \<mapsto> co')) n k co' R' w' F'"
    and R': "R' + gR c = R + mset (reply_rows c r) + Rd" and w': "w' + gw c = w + length (reply_rows c r) + wd"
    and F': "F' \<subseteq> F \<union> fresh_locs T N" and N': "N' (tp_addr T n) = Some co0"
    and mvs: "moves T (insert n (tp_nodes T - visited ?s)) F N (N'(tp_addr T n \<mapsto> co'))"
    by (rule working_child [OF wk parts c mv A node' steps refl conjunct1 [OF own'] request conjunct2 [OF own'] _ ok new])
      (use prog in auto)
  have "length (reply_rows c r) = length (fr_rows r)" by (simp add: reply_rows_def)
  with R' w' show ?thesis by (intro that [OF run wk' _ _ F' N' mvs]) (simp_all add: Rd_def wd_def prog)
qed

lemma child_fetched:
  assumes spec: "fetch_spec T d" and wk: "working T d N n k co R w F"
    and c: "c \<in> set (open_children T (visited (state_at co k)) n)"
    and q: "findWorkerProgress c (state_at co k) = Some q" "\<not> wp_completed q" "wp_submitted q"
    and cl: "co_remoteClient co = Some cl" and co0: "node_ok T n co0"
    and ops: "sys_ops sys = net_ops (tp_fs T) d"
  obtains got co' N' w' F' where
    "fetch_from_child sys k mx c q cl co (N(tp_addr T n \<mapsto> co0)) = (got, co', N')"
    and "working T d (N'(tp_addr T n \<mapsto> co')) n k co' R w' F'" and "w' < w"
    and "F' \<subseteq> F \<union> fresh_locs T N" and "N' (tp_addr T n) = Some co0"
    and "moves T (insert n (tp_nodes T - visited (state_at co k))) F N (N'(tp_addr T n \<mapsto> co'))"
    and "\<And>m. m \<noteq> c \<Longrightarrow> findWorkerProgress m (state_at co' k) = findWorkerProgress m (state_at co k)"
proof -
  let ?s = "state_at co k" and ?N = "N(tp_addr T n \<mapsto> co0)"
  from wk have top: "topology_ok T" "n \<in> tp_nodes T" by (auto simp: working_def)
  obtain node: "node_ok T n co" by (rule working_parts [OF wk])
  have cc: "c \<in> set (tp_children T n)" "c \<in> tp_nodes T"
    using c top by (auto simp: open_children_def topology_ok_def)
  obtain p gR gw gF j t v where parts: "parts T d (serves T d (req_at T N)) (req_at T N) n k ?s p gR gw gF"
      "R = all_rows T n ?s p gR" "w = all_work T n ?s p gw" "F = all_locs T n k ?s gF"
    and net0: "net_ok T ?N" and t0: "req_at T ?N c j = Some t" and t: "rs_queryId t = wp_remoteRequestId q" "visited ?s \<subseteq> visited t"
    and sv0: "serves T d (req_at T ?N) c j (gR c) v (gF c)" and gw: "gw c = 2 * v + 1"
    and away: "fst ` gF c \<inter> visited ?s = {}"
    by (rule child_linked [OF wk c q co0])
  obtain cl' where stub: "getOrCreateStub (net_ops (tp_fs T) d) cl c = (Some (tp_addr T c), cl')"
    and cl': "rc_overlay cl' = rc_overlay cl" "stubs_ok cl'"
    by (rule stub_of_child [OF top node cl cc(1)])
  let ?m = "chooseAdaptiveChunkSize co mx mod 2 ^ 32"
  from spec cc(2) net0 t0 sv0 obtain r N' Rc v' Fc where
    op: "op_FetchSubChunk (net_ops (tp_fs T) d) (tp_addr T c) \<lparr> fq_request_id = rs_queryId t, fq_max_rows = ?m \<rparr> ?N = (Inr r, N')"
    and found: "fr_found r" and mv: "moves T (insert c (tp_nodes T - visited t)) (gF c) ?N N'"
    and svc: "serves T d (req_at T N') c j Rc v' Fc" and Fc: "Fc \<subseteq> gF c \<union> fresh_locs T ?N"
    and rows: "gR c = mset (reply_rows c r) + Rc" and carried: "\<forall>x \<in> set (reply_rows c r). carried_row x"
    and left: "if fr_done r then Rc = {#} \<and> length (fr_rows r) \<le> v else v' + max 1 (length (fr_rows r)) \<le> v"
    unfolding fetch_spec_def by blast
  obtain got co' R' w' F' where run: "fetch_from_child sys k mx c q cl co ?N = (got, co', N')"
    and wk': "working T d (N'(tp_addr T n \<mapsto> co')) n k co' R' w' F'"
    and R': "R' + gR c = R + mset (reply_rows c r) + (if fr_done r then {#} else Rc)"
    and w': "w' + gw c = w + length (fr_rows r) + (if fr_done r then 0 else 2 * v' + 1)"
    and F': "F' \<subseteq> F \<union> fresh_locs T N" and N': "N' (tp_addr T n) = Some co0"
    and mvs: "moves T (insert n (tp_nodes T - visited ?s)) F N (N'(tp_addr T n \<mapsto> co'))"
    and prog: "\<And>m. m \<noteq> c \<Longrightarrow> findWorkerProgress m (state_at co' k) = findWorkerProgress m ?s"
    by (rule child_replied [OF wk c q cl cl' stub [folded ops] parts t0 t away op [folded ops, unfolded t(1)] found mv svc Fc carried]) blast
  have "R' = R" using R' rows left by (cases "fr_done r") simp_all
  moreover have "w' < w" using w' left by (cases "fr_done r") (auto simp: gw)
  ultimately show ?thesis using that [OF run _ _ F' N' mvs] wk' prog by simp
qed

end
