(* ===== verification/Network_Round.thy ===== *)
theory Network_Round
  imports Network_Fetch
begin

text \<open>
  A round over all workers of a request, the refill of the cache and the whole fetch: each keeps what the
  request owes, a round before everybody is done has less work left, and a fetch delivers what it takes
  from what is owed. The induction over the nesting of calls closes here.
\<close>

section \<open>Steps of the handler\<close>

definition moved :: "topology \<Rightarrow> node_id \<Rightarrow> node_id set \<Rightarrow> network \<Rightarrow> locs \<Rightarrow> network \<Rightarrow> locs \<Rightarrow> bool" where
  "moved T n V N F N' F' \<longleftrightarrow>
     moves T (insert n (tp_nodes T - V)) F N N' \<and> F' \<subseteq> F \<union> fresh_locs T N"

lemma moved_refl: "net_ok T N \<Longrightarrow> moved T n V N F N F"
  by (simp add: moved_def moves_refl)

lemma moved_trans: "moved T n V N F N' F' \<Longrightarrow> moved T n V N' F' N'' F'' \<Longrightarrow> moved T n V N F N'' F''"
  unfolding moved_def using moves_trans [where F = F and F' = F'] moves_fresh by blast

text \<open>Bookkeeping on the request that at most takes rows from its cache and leaves its workers alone.\<close>

lemma working_take:
  assumes wk: "working T d N n k co R w F" and good: "good_update f"
    and rows: "unread (state_at co k) = X @ unread (f (state_at co k))"
    and same: "\<And>m. findWorkerProgress m (f (state_at co k)) = findWorkerProgress m (state_at co k)"
      "own_ok T n (f (state_at co k))"
  obtains R' w' where "working T d (N(tp_addr T n \<mapsto> on_state k f co)) n k (on_state k f co) R' w' F"
    and "moved T n V N F (N(tp_addr T n \<mapsto> on_state k f co)) F" and "R = mset X + R'" and "w = w' + length X"
proof -
  let ?s = "state_at co k" and ?co = "on_state k f co"
  from wk have top: "topology_ok T" "n \<in> tp_nodes T" and net: "net_ok T N" and co: "N (tp_addr T n) = Some co"
    by (auto simp: working_def)
  from wk obtain p gR gw gF where k: "k < length (co_queryStates co)" and node: "node_ok T n co"
    and parts: "parts T d (serves T d (req_at T N)) (req_at T N) n k ?s p gR gw gF"
      "R = all_rows T n ?s p gR" "w = all_work T n ?s p gw" "F = all_locs T n k ?s gF"
    by (rule working_parts)
  have st: "steps k co ?co" by (rule steps_on_state [OF good])
  have node': "node_ok T n ?co" by (rule node_ok_steps [OF node st]) simp
  have req: "rs_request (f ?s) = rs_request ?s" using good by (simp add: good_update_def)
  note v = visited_cong [OF req]
  have p: "findWorkerProgress n ?s = Some p" "wp_nextStartRow p \<le> store_size T n"
    "wp_completed p \<Longrightarrow> wp_nextStartRow p = store_size T n" using parts(1) by (auto simp: parts_def)
  have parts': "parts T d (serves T d (req_at T (N(tp_addr T n \<mapsto> ?co)))) (req_at T (N(tp_addr T n \<mapsto> ?co)))
      n k (f ?s) p gR gw gF"
    by (rule parts_own_step [OF top parts(1) _ _ same(2) req]) (use k p same(1) in simp_all)
  have "working T d (N(tp_addr T n \<mapsto> ?co)) n k ?co (all_rows T n (f ?s) p gR) (all_work T n (f ?s) p gw) F"
    by (rule workingI [OF top net_ok_upd [OF top net node'] _ parts'])
      (simp_all add: parts(4) all_locs_def v)
  moreover have "(n, k) \<in> F" by (simp add: parts(4) all_locs_def)
  then have "moved T n V N F (N(tp_addr T n \<mapsto> ?co)) F"
    using moves_mono [OF moves_node [OF top net co node' st]] by (auto simp: moved_def)
  moreover have "R = mset X + all_rows T n (f ?s) p gR" "w = all_work T n (f ?s) p gw + length X"
    by (simp_all add: parts(2,3) all_rows_def all_work_def local_rest_def v req rows)
  ultimately show ?thesis using that by blast
qed

lemma working_quiet:
  assumes wk: "working T d N n k co R w F" and good: "good_update f"
    and same: "unread (f (state_at co k)) = unread (state_at co k)"
      "\<And>m. findWorkerProgress m (f (state_at co k)) = findWorkerProgress m (state_at co k)"
      "own_ok T n (f (state_at co k))"
  shows "working T d (N(tp_addr T n \<mapsto> on_state k f co)) n k (on_state k f co) R w F"
    and "moved T n V N F (N(tp_addr T n \<mapsto> on_state k f co)) F"
proof -
  have u: "unread (state_at co k) = [] @ unread (f (state_at co k))" by (simp add: same(1))
  obtain R' w' where "working T d (N(tp_addr T n \<mapsto> on_state k f co)) n k (on_state k f co) R' w' F"
    "moved T n V N F (N(tp_addr T n \<mapsto> on_state k f co)) F" "R = mset [] + R'" "w = w' + length ([] :: labelled list)"
    by (rule working_take [OF wk good u same(2,3)])
  then show "working T d (N(tp_addr T n \<mapsto> on_state k f co)) n k (on_state k f co) R w F"
    "moved T n V N F (N(tp_addr T n \<mapsto> on_state k f co)) F" by simp_all
qed

section \<open>A round over the children\<close>

lemma working_remote_child:
  assumes spec: "fetch_spec T d" and wk: "working T d N n k co R w F"
    and c: "c \<in> set (tp_children T n)" and co0: "node_ok T n co0" and ops: "sys_ops sys = net_ops (tp_fs T) d"
  obtains got co' N' w' F' where
    "fetch_remote_child sys k mx (tp_children T n) c co (N(tp_addr T n \<mapsto> co0)) = (got, co', N'(tp_addr T n \<mapsto> co0))"
    and "working T d N' n k co' R w' F'" and "moved T n (visited (state_at co k)) N F N' F'" and "w' \<le> w"
    and "c \<notin> visited (state_at co k) \<Longrightarrow> \<not> finished (state_at co k) c \<Longrightarrow> w' < w"
    and "\<And>m. m \<noteq> c \<or> m \<in> visited (state_at co k) \<Longrightarrow>
       findWorkerProgress m (state_at co' k) = findWorkerProgress m (state_at co k)"
    and "visited (state_at co' k) = visited (state_at co k)"
proof -
  let ?s = "state_at co k" and ?N = "N(tp_addr T n \<mapsto> co0)"
  from wk have net: "net_ok T N" by (simp add: working_def)
  from wk obtain p gR gw gF where k: "k < length (co_queryStates co)" and node: "node_ok T n co"
    and parts: "parts T d (serves T d (req_at T N)) (req_at T N) n k ?s p gR gw gF" by (rule working_parts)
  show ?thesis
  proof (cases "c \<in> visited ?s")
    case True
    then have "fetch_remote_child sys k mx (tp_children T n) c co ?N = (False, co, ?N)"
      by (intro fetch_remote_visited) (simp add: hasVisitedNode_def visited_def)
    then show ?thesis using that [of False co N w F] wk moved_refl [OF net] True by simp
  next
    case False
    then have co: "c \<in> set (open_children T (visited ?s) n)" using c by (simp add: open_children_def)
    have "own_ok T n ?s" using parts by (simp add: parts_def)
    with co have "findWorkerProgress c ?s \<noteq> None" by (simp add: own_ok_def)
    then obtain q where q: "findWorkerProgress c ?s = Some q" by blast
    have nv: "\<not> hasVisitedNode (rs_request ?s) c" using False by (simp add: hasVisitedNode_def visited_def)
    have get: "getWorkerProgress c ?s = (q, ?s)"
      using q by (simp add: getWorkerProgress_def findWorkerProgress_def um_index_def)
    have same: "on_state k (\<lambda>s. snd (getWorkerProgress c s)) co = co"
      using k get by (simp add: on_state_def state_at_def)
    from node obtain cl where cl: "co_remoteClient co = Some cl" by (auto simp: node_ok_def)
    have keep: "visited (state_at co' k) = visited ?s" if "steps k co co'" for co'
      using steps_request [OF that k] by (simp add: visited_def)
    consider "wp_completed q" | "\<not> wp_completed q" "wp_submitted q" | "\<not> wp_completed q" "\<not> wp_submitted q" by blast
    then show ?thesis
    proof cases
      case 1
      then have "fetch_remote_child sys k mx (tp_children T n) c co ?N = (False, co, ?N)"
        using nv get by (simp add: fetch_remote_child_def Let_def same)
      then show ?thesis using that [of False co N w F] wk moved_refl [OF net] 1 q by (simp add: finished_def)
    next
      case 2
      obtain got co' N' w' F' where f: "fetch_from_child sys k mx c q cl co ?N = (got, co', N')"
        and wk': "working T d (N'(tp_addr T n \<mapsto> co')) n k co' R w' F'" and w': "w' < w"
        and F': "F' \<subseteq> F \<union> fresh_locs T N" and N': "N' (tp_addr T n) = Some co0"
        and mv: "moves T (insert n (tp_nodes T - visited ?s)) F N (N'(tp_addr T n \<mapsto> co'))"
        and prog: "\<And>m. m \<noteq> c \<Longrightarrow> findWorkerProgress m (state_at co' k) = findWorkerProgress m ?s"
        by (rule child_fetched [OF spec wk co q 2 cl co0 ops, where mx = mx]) blast
      have run: "fetch_remote_child sys k mx (tp_children T n) c co ?N = (got, co', N')"
        using nv get 2 cl f by (simp add: fetch_remote_child_def Let_def same)
      have st: "steps k co co'" using steps_fetch_remote_child [of k co sys mx "tp_children T n" c ?N] by (simp add: run)
      have mvd: "moved T n (visited ?s) N F (N'(tp_addr T n \<mapsto> co')) F'" using mv F' by (simp add: moved_def)
      have prog': "findWorkerProgress m (state_at co' k) = findWorkerProgress m ?s" if "m \<noteq> c" for m
        by (rule prog [OF that])
      show ?thesis
      proof (rule that)
        show "fetch_remote_child sys k mx (tp_children T n) c co ?N = (got, co', N'(tp_addr T n \<mapsto> co', tp_addr T n \<mapsto> co0))"
          using run N' by (simp add: fun_upd_idem)
        show "working T d (N'(tp_addr T n \<mapsto> co')) n k co' R w' F'" by (rule wk')
        show "moved T n (visited ?s) N F (N'(tp_addr T n \<mapsto> co')) F'" by (rule mvd)
        show "w' \<le> w" and "w' < w" using w' by simp_all
        show "findWorkerProgress m (state_at co' k) = findWorkerProgress m ?s" if "m \<noteq> c \<or> m \<in> visited ?s" for m
          using that prog' False by auto
        show "visited (state_at co' k) = visited ?s" by (rule keep [OF st])
      qed
    next
      case 3
      obtain rid msg cl' N1 F1 where
        sub: "submitSubQuery (net_ops (tp_fs T) d) c (child_request co (rs_request ?s) (tp_children T n) mx)
           (rs_queryId ?s) cl ?N = ((True, rid, msg), cl', N1)"
        and wk1: "let co' = on_state k (putWorkerProgress c (q\<lparr>wp_remoteRequestId := rid, wp_submitted := True\<rparr>))
               (co\<lparr>co_remoteClient := Some cl'\<rparr>)
           in working T d (N1(tp_addr T n \<mapsto> co')) n k co' R w F1 \<and>
              moves T (insert n (tp_nodes T - visited ?s)) F N (N1(tp_addr T n \<mapsto> co'))"
        and F1: "F1 \<subseteq> F \<union> fresh_locs T N" and N1: "N1 (tp_addr T n) = Some co0"
        by (rule child_submitted [OF wk co q 3 cl co0, where mx = mx]) blast
      let ?q = "q\<lparr>wp_remoteRequestId := rid, wp_submitted := True\<rparr>"
      define co1 where "co1 = on_state k (putWorkerProgress c ?q) (co\<lparr>co_remoteClient := Some cl'\<rparr>)"
      define M1 where "M1 = N1(tp_addr T n \<mapsto> co1)"
      have wk1': "working T d M1 n k co1 R w F1" and mv1: "moved T n (visited ?s) N F M1 F1"
        using wk1 F1 by (simp_all add: Let_def co1_def M1_def moved_def)
      have s1: "state_at co1 k = putWorkerProgress c ?q ?s" using k by (simp add: co1_def)
      then have v1: "visited (state_at co1 k) = visited ?s" by (simp add: visited_def)
      have q1: "findWorkerProgress c (state_at co1 k) = Some ?q" "\<not> wp_completed ?q" "wp_submitted ?q"
        using 3 by (simp_all add: s1)
      have cl1: "co_remoteClient co1 = Some cl'" by (simp add: co1_def)
      have M1: "M1(tp_addr T n \<mapsto> co0) = N1" by (simp add: M1_def fun_upd_idem N1)
      obtain got co' N' w' F' where f: "fetch_from_child sys k mx c ?q cl' co1 N1 = (got, co', N')"
        and wk': "working T d (N'(tp_addr T n \<mapsto> co')) n k co' R w' F'" and w': "w' < w"
        and F': "F' \<subseteq> F1 \<union> fresh_locs T M1" and N': "N' (tp_addr T n) = Some co0"
        and mv: "moves T (insert n (tp_nodes T - visited ?s)) F1 M1 (N'(tp_addr T n \<mapsto> co'))"
        and prog: "\<And>m. m \<noteq> c \<Longrightarrow> findWorkerProgress m (state_at co' k) = findWorkerProgress m (state_at co1 k)"
        by (rule child_fetched [OF spec wk1' _ q1 cl1 co0 ops, where mx = mx, unfolded M1 v1]) (use co in blast)+
      have run: "fetch_remote_child sys k mx (tp_children T n) c co ?N = (got, co', N')"
        using nv get 3 cl f sub ops by (simp add: fetch_remote_child_def Let_def same co1_def)
      have st: "steps k co co'" using steps_fetch_remote_child [of k co sys mx "tp_children T n" c ?N] by (simp add: run)
      have mvd: "moved T n (visited ?s) N F (N'(tp_addr T n \<mapsto> co')) F'"
        by (rule moved_trans [OF mv1]) (use mv F' in \<open>simp add: moved_def\<close>)
      have prog': "findWorkerProgress m (state_at co' k) = findWorkerProgress m ?s" if "m \<noteq> c" for m
        using prog [OF that] that by (simp add: s1)
      show ?thesis
      proof (rule that)
        show "fetch_remote_child sys k mx (tp_children T n) c co ?N = (got, co', N'(tp_addr T n \<mapsto> co', tp_addr T n \<mapsto> co0))"
          using run N' by (simp add: fun_upd_idem)
        show "working T d (N'(tp_addr T n \<mapsto> co')) n k co' R w' F'" by (rule wk')
        show "moved T n (visited ?s) N F (N'(tp_addr T n \<mapsto> co')) F'" by (rule mvd)
        show "w' \<le> w" and "w' < w" using w' by simp_all
        show "findWorkerProgress m (state_at co' k) = findWorkerProgress m ?s" if "m \<noteq> c \<or> m \<in> visited ?s" for m
          using that prog' False by auto
        show "visited (state_at co' k) = visited ?s" by (rule keep [OF st])
      qed
    qed
  qed
qed

lemma working_remote_loop:
  assumes spec: "fetch_spec T d" and co0: "node_ok T n co0" and ops: "sys_ops sys = net_ops (tp_fs T) d"
    and wk: "working T d N n k co R w F" and cs: "set cs \<subseteq> set (tp_children T n)"
  shows "\<exists>got co' N' w' F'.
    fetch_remote_loop sys k mx (tp_children T n) cs g co (N(tp_addr T n \<mapsto> co0)) = (got, co', N'(tp_addr T n \<mapsto> co0)) \<and>
    working T d N' n k co' R w' F' \<and> moved T n (visited (state_at co k)) N F N' F' \<and> w' \<le> w \<and>
    ((\<exists>c \<in> set cs. c \<notin> visited (state_at co k) \<and> \<not> finished (state_at co k) c) \<longrightarrow> w' < w) \<and>
    (\<forall>m. m \<notin> set cs \<or> m \<in> visited (state_at co k) \<longrightarrow>
       findWorkerProgress m (state_at co' k) = findWorkerProgress m (state_at co k)) \<and>
    visited (state_at co' k) = visited (state_at co k)"
  using wk cs
proof (induction cs arbitrary: g co N w F)
  case Nil
  then have "net_ok T N" by (simp add: working_def)
  from moved_refl [OF this] Nil.prems show ?case by (intro exI [of _ g] exI [of _ co] exI [of _ N] exI [of _ w] exI [of _ F]) auto
next
  case (Cons c cs)
  let ?s = "state_at co k"
  have c: "c \<in> set (tp_children T n)" using Cons.prems(2) by simp
  obtain got co1 N1 w1 F1 where
    run: "fetch_remote_child sys k mx (tp_children T n) c co (N(tp_addr T n \<mapsto> co0)) = (got, co1, N1(tp_addr T n \<mapsto> co0))"
    and wk1: "working T d N1 n k co1 R w1 F1" and mv1: "moved T n (visited ?s) N F N1 F1" and w1: "w1 \<le> w"
    and less1: "c \<notin> visited ?s \<Longrightarrow> \<not> finished ?s c \<Longrightarrow> w1 < w"
    and prog1: "\<And>m. m \<noteq> c \<or> m \<in> visited ?s \<Longrightarrow> findWorkerProgress m (state_at co1 k) = findWorkerProgress m ?s"
    and v1: "visited (state_at co1 k) = visited ?s"
    by (rule working_remote_child [OF spec Cons.prems(1) c co0 ops, where mx = mx]) blast
  have cs: "set cs \<subseteq> set (tp_children T n)" using Cons.prems(2) by simp
  from Cons.IH [OF wk1 cs, of "g \<or> got", unfolded v1] obtain got' co' N' w' F' where
    run': "fetch_remote_loop sys k mx (tp_children T n) cs (g \<or> got) co1 (N1(tp_addr T n \<mapsto> co0)) =
       (got', co', N'(tp_addr T n \<mapsto> co0))"
    and wk': "working T d N' n k co' R w' F'" and mv': "moved T n (visited ?s) N1 F1 N' F'" and w': "w' \<le> w1"
    and less': "(\<exists>c \<in> set cs. c \<notin> visited ?s \<and> \<not> finished (state_at co1 k) c) \<longrightarrow> w' < w1"
    and prog': "\<forall>m. m \<notin> set cs \<or> m \<in> visited ?s \<longrightarrow>
       findWorkerProgress m (state_at co' k) = findWorkerProgress m (state_at co1 k)"
    and v': "visited (state_at co' k) = visited ?s" by blast
  have "w' < w" if b: "b \<in> set (c # cs)" "b \<notin> visited ?s" "\<not> finished ?s b" for b
  proof (cases "b = c")
    case True
    with less1 b w' show ?thesis by simp
  next
    case False
    then have "\<not> finished (state_at co1 k) b" using b(3) prog1 [of b] by (simp add: finished_def)
    with False b less' w1 show ?thesis by auto
  qed
  moreover have "findWorkerProgress m (state_at co' k) = findWorkerProgress m ?s"
    if m: "m \<notin> set (c # cs) \<or> m \<in> visited ?s" for m
  proof -
    from m have "m \<noteq> c \<or> m \<in> visited ?s" and "m \<notin> set cs \<or> m \<in> visited ?s" by auto
    with prog1 prog' show ?thesis by simp
  qed
  moreover have "fetch_remote_loop sys k mx (tp_children T n) (c # cs) g co (N(tp_addr T n \<mapsto> co0)) =
      (got', co', N'(tp_addr T n \<mapsto> co0))" using run run' by simp
  ultimately show ?case
    using wk' moved_trans [OF mv1 mv'] order_trans [OF w' w1] v'
    by (intro exI [of _ got'] exI [of _ co'] exI [of _ N'] exI [of _ w'] exI [of _ F']) blast
qed

lemma working_remote:
  assumes spec: "fetch_spec T d" and co0: "node_ok T n co0" and ops: "sys_ops sys = net_ops (tp_fs T) d"
    and wk: "working T d N n k co R w F"
  obtains got co' N' w' F' where
    "fetchRemoteExecuteChunks sys k mx co (N(tp_addr T n \<mapsto> co0)) = (got, co', N'(tp_addr T n \<mapsto> co0))"
    and "working T d N' n k co' R w' F'" and "moved T n (visited (state_at co k)) N F N' F'" and "w' \<le> w"
    and "\<And>c. c \<in> set (open_children T (visited (state_at co k)) n) \<Longrightarrow> \<not> finished (state_at co k) c \<Longrightarrow> w' < w"
    and "findWorkerProgress n (state_at co' k) = findWorkerProgress n (state_at co k)"
    and "visited (state_at co' k) = visited (state_at co k)"
proof -
  from wk obtain p gR gw gF where node: "node_ok T n co"
    and parts: "parts T d (serves T d (req_at T N)) (req_at T N) n k (state_at co k) p gR gw gF" by (rule working_parts)
  from node_ok_client [OF node] obtain cl ov where "co_remoteClient co = Some cl" "co_overlay co = Some ov"
    "getChildren ov n = tp_children T n" by metis
  then have eq: "fetchRemoteExecuteChunks sys k mx co e =
      fetch_remote_loop sys k mx (tp_children T n) (tp_children T n) False co e" for e
    using node by (simp add: fetchRemoteExecuteChunks_def node_ok_def Let_def)
  have "n \<in> visited (state_at co k)" using parts by (simp add: parts_def own_ok_def)
  moreover obtain got co' N' w' F' where
    "fetch_remote_loop sys k mx (tp_children T n) (tp_children T n) False co (N(tp_addr T n \<mapsto> co0)) =
       (got, co', N'(tp_addr T n \<mapsto> co0))"
    "working T d N' n k co' R w' F'" "moved T n (visited (state_at co k)) N F N' F'" "w' \<le> w"
    "(\<exists>c \<in> set (tp_children T n). c \<notin> visited (state_at co k) \<and> \<not> finished (state_at co k) c) \<longrightarrow> w' < w"
    "\<forall>m. m \<notin> set (tp_children T n) \<or> m \<in> visited (state_at co k) \<longrightarrow>
       findWorkerProgress m (state_at co' k) = findWorkerProgress m (state_at co k)"
    "visited (state_at co' k) = visited (state_at co k)"
    using working_remote_loop [OF spec co0 ops wk subset_refl, of mx False] by blast
  ultimately show ?thesis
    by (intro that [of got co' N' w' F']) (auto simp: eq open_children_def)
qed

section \<open>A whole round\<close>

lemma own_ok_frames:
  "own_ok T n s \<Longrightarrow> own_ok T n (advanceFetchRound s)"
  "own_ok T n s \<Longrightarrow> own_ok T n (setState COMPLETED s)"
  "own_ok T n s \<Longrightarrow> own_ok T n (clearAggregatedRows s)"
  "own_ok T n s \<Longrightarrow> i \<le> length (window s) \<Longrightarrow> own_ok T n (setNextUnreadIndex i s)"
  by (simp_all add: own_ok_def visited_def)

lemma unread_frames [simp]:
  "unread (advanceFetchRound s) = unread s" "unread (setState q s) = unread s" "unread (clearAggregatedRows s) = []"
  by (simp_all add: unread_def)

lemma working_own:
  assumes "working T d N n k co R w F"
  shows "own_ok T n (state_at co k)" and "k < length (co_queryStates co)" and "node_ok T n co"
    and "(n, k) \<in> F" and "request_inv (state_at co k)"
proof -
  from assms obtain p gR gw gF where k: "k < length (co_queryStates co)" and node: "node_ok T n co"
    and "parts T d (serves T d (req_at T N)) (req_at T N) n k (state_at co k) p gR gw gF"
      "F = all_locs T n k (state_at co k) gF"
    by (rule working_parts)
  then show "own_ok T n (state_at co k)" "k < length (co_queryStates co)" "node_ok T n co" "(n, k) \<in> F"
    by (simp_all add: parts_def all_locs_def)
  show "request_inv (state_at co k)" by (rule own_ok_request_inv [OF node k])
qed

lemma working_local_moved:
  assumes wk: "working T d N n k co R w F" and fs: "sys_fs sys = tp_fs T (tp_addr T n)"
  obtains got co' w' where "fetchLocalExecuteChunk sys k m co = (got, co')"
    and "working T d (N(tp_addr T n \<mapsto> co')) n k co' R w' F"
    and "moved T n V N F (N(tp_addr T n \<mapsto> co')) F"
    and "w' \<le> w" and "\<not> finished (state_at co k) n \<Longrightarrow> w' < w"
    and "\<And>c. c \<noteq> n \<Longrightarrow> findWorkerProgress c (state_at co' k) = findWorkerProgress c (state_at co k)"
    and "visited (state_at co' k) = visited (state_at co k)"
proof -
  obtain got co' w' where l: "fetchLocalExecuteChunk sys k m co = (got, co')"
    "working T d (N(tp_addr T n \<mapsto> co')) n k co' R w' F" "moves T {n} {(n, k)} N (N(tp_addr T n \<mapsto> co'))"
    "w' \<le> w" "\<not> finished (state_at co k) n \<Longrightarrow> w' < w"
    "\<And>c. c \<noteq> n \<Longrightarrow> findWorkerProgress c (state_at co' k) = findWorkerProgress c (state_at co k)"
    by (rule working_local [OF wk fs, where m = m]) blast
  have "steps k co co'" using steps_fetchLocal [of k co sys m] by (simp add: l(1))
  from steps_request [OF this working_own(2) [OF wk]] have "visited (state_at co' k) = visited (state_at co k)"
    by (rule visited_cong)
  moreover have "moved T n V N F (N(tp_addr T n \<mapsto> co')) F"
    using moves_mono [OF l(3)] working_own(4) [OF wk] by (auto simp: moved_def)
  ultimately show ?thesis using that l by blast
qed

lemma all_finished:
  assumes "working T d N n k co R w F"
  shows "allWorkersCompleted (state_at co k) \<longleftrightarrow> finished (state_at co k) n \<and>
    (\<forall>c \<in> set (open_children T (visited (state_at co k)) n). finished (state_at co k) c)"
proof -
  let ?s = "state_at co k"
  have own: "own_ok T n ?s" and inv: "request_inv ?s" using working_own [OF assms] by auto
  then have "um_ok (rs_workerProgress ?s)" by (simp add: request_inv_def progress_ok_def)
  moreover have "rs_workerProgress ?s \<noteq> []"
  proof -
    have "findWorkerProgress n ?s \<noteq> None" using own by (simp add: own_ok_def)
    then show ?thesis by (auto simp: findWorkerProgress_def)
  qed
  ultimately have "allWorkersCompleted ?s \<longleftrightarrow> (\<forall>m p. findWorkerProgress m ?s = Some p \<longrightarrow> wp_completed p)"
    by (simp add: allWorkersCompleted_iff)
  moreover have "findWorkerProgress m ?s = None" if "m \<noteq> n" "m \<notin> set (open_children T (visited ?s) n)" for m
    using own that unfolding own_ok_def by blast
  ultimately show ?thesis unfolding finished_def by (metis option.distinct(1))
qed

lemma working_both:
  assumes spec: "fetch_spec T d" and co0: "node_ok T n co0" and ops: "sys_ops sys = net_ops (tp_fs T) d"
    and fs: "sys_fs sys = tp_fs T (tp_addr T n)" and wk: "working T d N n k co R w F"
  obtains l r co' N' w' F' where
    "(if b then case fetchRemoteExecuteChunks sys k mx co (N(tp_addr T n \<mapsto> co0)) of (r, co, e) \<Rightarrow>
                case fetchLocalExecuteChunk sys k mx co of (l, co) \<Rightarrow> (l, r, co, e)
      else case fetchLocalExecuteChunk sys k mx co of (l, co) \<Rightarrow>
           case fetchRemoteExecuteChunks sys k mx co (N(tp_addr T n \<mapsto> co0)) of (r, co, e) \<Rightarrow> (l, r, co, e)) =
     (l, r, co', N'(tp_addr T n \<mapsto> co0))"
    and "working T d N' n k co' R w' F'" and "moved T n (visited (state_at co k)) N F N' F'" and "w' \<le> w"
    and "\<not> allWorkersCompleted (state_at co k) \<Longrightarrow> w' < w"
proof (cases b)
  let ?s = "state_at co k"
  have n: "n \<in> visited ?s" using working_own(1) [OF wk] by (simp add: own_ok_def)
  case True
  obtain r co1 N1 w1 F1 where
    run1: "fetchRemoteExecuteChunks sys k mx co (N(tp_addr T n \<mapsto> co0)) = (r, co1, N1(tp_addr T n \<mapsto> co0))"
    and wk1: "working T d N1 n k co1 R w1 F1" and mv1: "moved T n (visited ?s) N F N1 F1" and le1: "w1 \<le> w"
    and less1: "\<And>c. c \<in> set (open_children T (visited ?s) n) \<Longrightarrow> \<not> finished ?s c \<Longrightarrow> w1 < w"
    and prog1: "findWorkerProgress n (state_at co1 k) = findWorkerProgress n ?s"
    by (rule working_remote [OF spec co0 ops wk, where mx = mx]) blast
  obtain l co2 w2 where run2: "fetchLocalExecuteChunk sys k mx co1 = (l, co2)"
    and wk2: "working T d (N1(tp_addr T n \<mapsto> co2)) n k co2 R w2 F1"
    and mv2: "moved T n (visited ?s) N1 F1 (N1(tp_addr T n \<mapsto> co2)) F1"
    and le2: "w2 \<le> w1" and less2: "\<not> finished (state_at co1 k) n \<Longrightarrow> w2 < w1"
    by (rule working_local_moved [OF wk1 fs, where m = mx and V = "visited ?s"]) blast
  show ?thesis
  proof (rule that [OF _ wk2 moved_trans [OF mv1 mv2] order_trans [OF le2 le1]])
    show "w2 < w" if "\<not> allWorkersCompleted ?s"
      using that less1 less2 le1 le2 prog1 unfolding all_finished [OF wk] finished_def by fastforce
  qed (use True run1 run2 in simp)
next
  let ?s = "state_at co k"
  have n: "n \<in> visited ?s" using working_own(1) [OF wk] by (simp add: own_ok_def)
  case False
  obtain l co1 w1 where run1: "fetchLocalExecuteChunk sys k mx co = (l, co1)"
    and wk1: "working T d (N(tp_addr T n \<mapsto> co1)) n k co1 R w1 F"
    and mv1: "moved T n (visited ?s) N F (N(tp_addr T n \<mapsto> co1)) F"
    and le1: "w1 \<le> w" and less1: "\<not> finished ?s n \<Longrightarrow> w1 < w"
    and prog1: "\<And>c. c \<noteq> n \<Longrightarrow> findWorkerProgress c (state_at co1 k) = findWorkerProgress c ?s"
    and v1: "visited (state_at co1 k) = visited ?s"
    by (rule working_local_moved [OF wk fs, where m = mx and V = "visited ?s"]) blast
  obtain r co2 N2 w2 F2 where
    run2: "fetchRemoteExecuteChunks sys k mx co1 (N(tp_addr T n \<mapsto> co0)) = (r, co2, N2(tp_addr T n \<mapsto> co0))"
    and wk2: "working T d N2 n k co2 R w2 F2"
    and mv2: "moved T n (visited ?s) (N(tp_addr T n \<mapsto> co1)) F N2 F2" and le2: "w2 \<le> w1"
    and less2: "\<And>c. c \<in> set (open_children T (visited ?s) n) \<Longrightarrow> \<not> finished (state_at co1 k) c \<Longrightarrow> w2 < w1"
    by (rule working_remote [OF spec co0 ops wk1, where mx = mx, unfolded v1]) (use that in simp)
  have "c \<noteq> n" if "c \<in> set (open_children T (visited ?s) n)" for c using that n by (auto simp: open_children_def)
  then have "\<not> allWorkersCompleted ?s \<Longrightarrow> w2 < w"
    using less1 less2 le1 le2 prog1 unfolding all_finished [OF wk] finished_def by fastforce
  then show ?thesis
    by (intro that [OF _ wk2 moved_trans [OF mv1 mv2] order_trans [OF le2 le1]]) (use False run1 run2 in simp_all)
qed

lemma clear_quiet:
  assumes wk: "working T d N n k co R w F"
    and used: "length (qr_matchedTrips (rs_aggregatedResult (state_at co k))) \<le> rs_nextUnreadIndex (state_at co k)"
  shows "working T d (N(tp_addr T n \<mapsto> on_state k clearAggregatedRows co)) n k (on_state k clearAggregatedRows co) R w F"
    and "moved T n V N F (N(tp_addr T n \<mapsto> on_state k clearAggregatedRows co)) F"
proof -
  have u: "unread (clearAggregatedRows (state_at co k)) = unread (state_at co k)"
    using used window_pairs [OF working_own(5) [OF wk]] by (simp add: unread_def)
  have o: "own_ok T n (clearAggregatedRows (state_at co k))"
    by (rule own_ok_frames(3) [OF working_own(1) [OF wk]])
  show "working T d (N(tp_addr T n \<mapsto> on_state k clearAggregatedRows co)) n k (on_state k clearAggregatedRows co) R w F"
    by (rule working_quiet(1) [OF wk good_update_simple(8) u _ o]) simp
  show "moved T n V N F (N(tp_addr T n \<mapsto> on_state k clearAggregatedRows co)) F"
    by (rule working_quiet(2) [OF wk good_update_simple(8) u _ o]) simp
qed

lemma end_of_round:
  assumes wk: "working T d N n k co R w F"
  defines "co1 \<equiv> on_state k advanceFetchRound co"
  defines "co2 \<equiv> (if allWorkersCompleted (state_at co1 k) then on_state k (setState COMPLETED) co1 else co1)"
  shows "working T d (N(tp_addr T n \<mapsto> co2)) n k co2 R w F" and "moved T n V N F (N(tp_addr T n \<mapsto> co2)) F"
proof -
  have o1: "own_ok T n (advanceFetchRound (state_at co k))"
    by (rule own_ok_frames(1) [OF working_own(1) [OF wk]])
  note q1 = working_quiet [OF wk good_update_simple(2) _ _ o1, folded co1_def, simplified]
  have o2: "own_ok T n (setState COMPLETED (state_at co1 k))"
    by (rule own_ok_frames(2) [OF working_own(1) [OF q1(1)]])
  note q2 = working_quiet [OF q1(1) good_update_simple(1) _ _ o2, simplified]
  show "working T d (N(tp_addr T n \<mapsto> co2)) n k co2 R w F" using q1(1) q2(1) by (simp add: co2_def)
  show "moved T n V N F (N(tp_addr T n \<mapsto> co2)) F"
    using q1(2) moved_trans [OF q1(2) q2(2)] by (simp add: co2_def)
qed

lemma working_next:
  assumes spec: "fetch_spec T d" and co0: "node_ok T n co0" and ops: "sys_ops sys = net_ops (tp_fs T) d"
    and fs: "sys_fs sys = tp_fs T (tp_addr T n)" and wk: "working T d N n k co R w F"
  obtains got co' N' w' F' where
    "fetchNextExecuteChunks sys k mx co (N(tp_addr T n \<mapsto> co0)) = (got, co', N'(tp_addr T n \<mapsto> co0))"
    and "working T d N' n k co' R w' F'" and "moved T n (visited (state_at co k)) N F N' F'" and "w' \<le> w"
    and "\<not> allWorkersCompleted (state_at co k) \<Longrightarrow> w' < w"
proof -
  let ?s = "state_at co k" and ?N0 = "N(tp_addr T n \<mapsto> co0)"
  define coc where "coc = (if rs_nextUnreadIndex ?s \<ge> length (qr_matchedTrips (rs_aggregatedResult ?s))
      then on_state k clearAggregatedRows co else co)"
  define Nc where "Nc = N(tp_addr T n \<mapsto> coc)"
  have N: "N(tp_addr T n \<mapsto> co) = N" using wk by (simp add: working_def fun_upd_idem)
  have net: "net_ok T N" using wk by (simp add: working_def)
  have k: "k < length (co_queryStates co)" by (rule working_own(2) [OF wk])
  have wkc: "working T d Nc n k coc R w F" and mvc: "moved T n (visited ?s) N F Nc F"
    using clear_quiet [OF wk] wk moved_refl [OF net] by (auto simp: coc_def Nc_def N)
  have sc: "visited (state_at coc k) = visited ?s" "allWorkersCompleted (state_at coc k) = allWorkersCompleted ?s"
    using k by (simp_all add: coc_def visited_def) (simp add: allWorkersCompleted_def clearAggregatedRows_def)
  have Nc0: "Nc(tp_addr T n \<mapsto> co0) = ?N0" by (simp add: Nc_def)
  obtain l r co1 N1 w1 F1 where
    run: "(if shouldFetchRemoteFirst (state_at coc k)
        then case fetchRemoteExecuteChunks sys k mx coc ?N0 of (r, co, e) \<Rightarrow>
             case fetchLocalExecuteChunk sys k mx co of (l, co) \<Rightarrow> (l, r, co, e)
        else case fetchLocalExecuteChunk sys k mx coc of (l, co) \<Rightarrow>
             case fetchRemoteExecuteChunks sys k mx co ?N0 of (r, co, e) \<Rightarrow> (l, r, co, e)) =
       (l, r, co1, N1(tp_addr T n \<mapsto> co0))"
    and wk1: "working T d N1 n k co1 R w1 F1" and mv1: "moved T n (visited ?s) Nc F N1 F1" and le1: "w1 \<le> w"
    and less1: "\<not> allWorkersCompleted ?s \<Longrightarrow> w1 < w"
    by (rule working_both [OF spec co0 ops fs wkc, where mx = mx and b = "shouldFetchRemoteFirst (state_at coc k)",
          unfolded Nc0 sc]) blast
  define co2 where "co2 = (if allWorkersCompleted (state_at (on_state k advanceFetchRound co1) k)
      then on_state k (setState COMPLETED) (on_state k advanceFetchRound co1) else on_state k advanceFetchRound co1)"
  note e = end_of_round [OF wk1, folded co2_def]
  have "fetchNextExecuteChunks sys k mx co ?N0 = (l \<or> r, co2, (N1(tp_addr T n \<mapsto> co2))(tp_addr T n \<mapsto> co0))"
    unfolding fetchNextExecuteChunks_def Let_def coc_def [symmetric] run co2_def by simp
  from that [OF this e(1) moved_trans [OF mvc moved_trans [OF mv1 e(2)]] le1 less1] show ?thesis .
qed

lemma working_window:
  assumes spec: "fetch_spec T d" and co0: "node_ok T n co0" and ops: "sys_ops sys = net_ops (tp_fs T) d"
    and fs: "sys_fs sys = tp_fs T (tp_addr T n)" and wk: "working T d N n k co R w F"
  obtains co' N' w' F' where
    "fetch_window sys k mx co (N(tp_addr T n \<mapsto> co0)) = (co', N'(tp_addr T n \<mapsto> co0))"
    and "working T d N' n k co' R w' F'" and "moved T n (visited (state_at co k)) N F N' F'" and "w' \<le> w"
    and "unread (state_at co k) = [] \<Longrightarrow> \<not> allWorkersCompleted (state_at co k) \<Longrightarrow> w' < w"
    and "unread (state_at co k) = [] \<and> \<not> allWorkersCompleted (state_at co k) \<or> co' = co"
proof -
  let ?s = "state_at co k"
  have net: "net_ok T N" using wk by (simp add: working_def)
  have own: "own_ok T n ?s" and inv: "request_inv ?s" by (rule working_own [OF wk])+
  then have empty: "unread ?s = [] \<longleftrightarrow> rs_nextUnreadIndex ?s \<ge> length (qr_matchedTrips (rs_aggregatedResult ?s))"
    using window_pairs [OF inv] by (auto simp: unread_def own_ok_def)
  show ?thesis
  proof (cases "unread ?s = [] \<and> \<not> allWorkersCompleted ?s")
    case True
    obtain got co' N' w' F' where
      "fetchNextExecuteChunks sys k mx co (N(tp_addr T n \<mapsto> co0)) = (got, co', N'(tp_addr T n \<mapsto> co0))"
      "working T d N' n k co' R w' F'" "moved T n (visited ?s) N F N' F'" "w' \<le> w"
      "\<not> allWorkersCompleted ?s \<Longrightarrow> w' < w"
      by (rule working_next [OF spec co0 ops fs wk, where mx = mx]) blast
    with True that show ?thesis by (simp add: fetch_window_def empty)
  next
    case False
    then have "fetch_window sys k mx co (N(tp_addr T n \<mapsto> co0)) = (co, N(tp_addr T n \<mapsto> co0))"
      by (auto simp: fetch_window_def empty)
    from that [OF this wk moved_refl [OF net]] False show ?thesis by auto
  qed
qed

section \<open>One fetch\<close>

lemma nothing_left:
  assumes wk: "working T d N n k co R w F" and "allWorkersCompleted (state_at co k)" and "unread (state_at co k) = []"
  shows "R = {#}"
proof -
  let ?s = "state_at co k"
  from wk obtain p gR gw gF where
    parts: "parts T d (serves T d (req_at T N)) (req_at T N) n k ?s p gR gw gF" "R = all_rows T n ?s p gR"
    by (rule working_parts)
  note fin = assms(2) [unfolded all_finished [OF wk]]
  have "wp_completed p" using fin parts(1) by (auto simp: parts_def finished_def)
  then have "local_rest T n ?s p = {#}"
    using parts(1) by (simp add: parts_def local_rest_def rows_from_def all_trips_def hits_def)
  moreover have "gR c = {#}" if "c \<in> set (open_children T (visited ?s) n)" for c
    using that parts(1) fin by (auto simp: parts_def child_ok_def finished_def split: if_splits)
  ultimately show ?thesis by (simp add: parts(2) all_rows_def assms(3))
qed

lemma unread_window:
  assumes "request_inv s"
  shows "unread s = zip (drop (rs_nextUnreadIndex s) (qr_matchedTrips (rs_aggregatedResult s)))
      (drop (rs_nextUnreadIndex s) (qr_matchedTripSources (rs_aggregatedResult s)))"
  by (simp add: unread_def window_def drop_zip)

lemma working_answer:
  \<comment> \<open>what a fetch takes from the window it found or filled\<close>
  assumes wk: "working T d N n k co R w F" and win: "fetch_window sys k (chooseAdaptiveChunkSize co mx) co e = (co1, e1)"
    and wk1: "working T d N1 n k co1 R1 w1 F1"
  obtains out co' R' w' where "fetchChunkForRpc sys (rs_queryId (state_at co k)) mx co e = (out, co', e1)"
    and "rp_found out" and "working T d (N1(tp_addr T n \<mapsto> co')) n k co' R' w' F1"
    and "moved T n V N1 F1 (N1(tp_addr T n \<mapsto> co')) F1"
    and "R1 = mset (zip (rp_trips out) (rp_sources out)) + R'" and "length (rp_sources out) = length (rp_trips out)"
    and "\<forall>x \<in> set (zip (rp_trips out) (rp_sources out)). carried_row x" and "w1 = w' + length (rp_trips out)"
    and "rp_done out \<Longrightarrow> R' = {#}"
    and "\<not> rp_done out \<Longrightarrow> rp_trips out = [] \<Longrightarrow> unread (state_at co1 k) = [] \<and> \<not> allWorkersCompleted (state_at co1 k)"
proof -
  let ?s = "state_at co k" and ?i = "rs_queryId (state_at co k)" and ?m = "chooseAdaptiveChunkSize co mx"
  have own: "own_ok T n ?s" and k: "k < length (co_queryStates co)" and node: "node_ok T n co"
    by (rule working_own [OF wk])+
  have find: "findRequestState co ?i = Some k" by (rule find_request [OF node k])
  have act: "active_execute co k" using own by (simp add: own_ok_def active_execute_def)
  let ?s1 = "state_at co1 k"
  let ?trips = "qr_matchedTrips (rs_aggregatedResult ?s1)" and ?sources = "qr_matchedTripSources (rs_aggregatedResult ?s1)"
  have own1: "own_ok T n ?s1" and inv1: "request_inv ?s1" and k1: "k < length (co_queryStates co1)"
    by (rule working_own [OF wk1])+
  have co1: "N1 (tp_addr T n) = Some co1" and net1: "net_ok T N1" using wk1 by (simp_all add: working_def)
  have len: "length ?sources = length ?trips" "length (window ?s1) = length ?trips"
    using window_pairs [OF inv1] by simp_all
  have ulen: "length (unread ?s1) = length ?trips - rs_nextUnreadIndex ?s1" by (simp add: unread_def len)
  note active = fetchChunk_active [OF find act win]
  show ?thesis
  proof (cases "length ?trips \<le> rs_nextUnreadIndex ?s1")
    case True
    then have empty: "unread ?s1 = []" using ulen by simp
    have "N1(tp_addr T n \<mapsto> co1) = N1" using co1 by (simp add: fun_upd_idem)
    then show ?thesis
      using that [OF active(1) [OF True], of R1 w1] wk1 moved_refl [OF net1] nothing_left [OF wk1 _ empty] empty
      by (simp add: new_RpcChunkResult_def)
  next
    case False
    then have lt: "rs_nextUnreadIndex ?s1 < length ?trips" by simp
    define i where "i = min ?m (length ?trips - rs_nextUnreadIndex ?s1)"
    have i: "0 < i" "rs_nextUnreadIndex ?s1 + i \<le> length ?trips"
      using lt chooseAdaptiveChunkSize_bounds [of co mx] by (auto simp: i_def)
    define X where "X = take i (unread ?s1)"
    have X: "X = zip (take i (drop (rs_nextUnreadIndex ?s1) ?trips)) (take i (drop (rs_nextUnreadIndex ?s1) ?sources))"
      by (simp add: X_def unread_window [OF inv1] take_zip)
    define fin where "fin \<longleftrightarrow> rs_nextUnreadIndex ?s1 + i \<ge> length ?trips \<and> allWorkersCompleted ?s1"
    define co2 where "co2 = on_state k (setNextUnreadIndex (rs_nextUnreadIndex ?s1 + i)) co1"
    define co3 where "co3 = (if fin then on_state k (setState COMPLETED) co2 else co2)"
    have rest: "unread ?s1 = X @ unread (setNextUnreadIndex (rs_nextUnreadIndex ?s1 + i) ?s1)"
      by (simp add: X_def unread_def add.commute [of _ i] flip: drop_drop)
    have own2: "own_ok T n (setNextUnreadIndex (rs_nextUnreadIndex ?s1 + i) ?s1)"
      by (rule own_ok_frames(4) [OF own1]) (use i len in simp)
    obtain R' w2 where wk2: "working T d (N1(tp_addr T n \<mapsto> co2)) n k co2 R' w2 F1"
      and mv2: "moved T n V N1 F1 (N1(tp_addr T n \<mapsto> co2)) F1" and R: "R1 = mset X + R'" and w: "w1 = w2 + length X"
      by (rule working_take [OF wk1 good_update_simple(3) rest _ own2, where V = V, folded co2_def]) simp
    have own3: "own_ok T n (setState COMPLETED (state_at co2 k))"
      by (rule own_ok_frames(2) [OF working_own(1) [OF wk2]])
    note q3 = working_quiet [OF wk2 good_update_simple(1) _ _ own3, simplified]
    have wk3: "working T d (N1(tp_addr T n \<mapsto> co3)) n k co3 R' w2 F1"
      and mv3: "moved T n V N1 F1 (N1(tp_addr T n \<mapsto> co3)) F1"
      using wk2 q3(1) mv2 moved_trans [OF mv2 q3(2)] by (simp_all add: co3_def)
    obtain out where out: "fetchChunkForRpc sys ?i mx co e = (out, co3, e1)"
      and o: "rp_found out" "rp_done out = fin" "rp_trips out = take i (drop (rs_nextUnreadIndex ?s1) ?trips)"
      "rp_sources out = take i (drop (rs_nextUnreadIndex ?s1) ?sources)"
      using active(2) [OF lt, folded i_def, unfolded Let_def, folded fin_def co2_def, folded co3_def] i len
      by (simp add: new_RpcChunkResult_def)
    have pairs: "zip (rp_trips out) (rp_sources out) = X" by (simp add: o X)
    have lenX: "length X = i" "length (rp_trips out) = i" "length (rp_sources out) = i" using i len by (simp_all add: X o)
    have done_: "R' = {#}" if fin
    proof (rule nothing_left [OF wk2])
      have s2: "state_at co2 k = setNextUnreadIndex (rs_nextUnreadIndex ?s1 + i) ?s1" using k1 by (simp add: co2_def)
      show "allWorkersCompleted (state_at co2 k)"
        using that by (simp add: fin_def s2) (simp add: allWorkersCompleted_def setNextUnreadIndex_def)
      show "unread (state_at co2 k) = []" using that len by (simp add: fin_def s2 unread_def)
    qed
    have carried: "\<forall>x \<in> set X. carried_row x"
      using own1 by (auto simp: X_def unread_def own_ok_def dest!: in_set_takeD in_set_dropD)
    show ?thesis
      using that [OF out o(1) wk3 mv3] R carried w lenX i done_ by (simp add: pairs o(2) flip: length_0_conv)
  qed
qed

lemma working_fetch:
  assumes spec: "fetch_spec T d" and co0: "node_ok T n co0" and ops: "sys_ops sys = net_ops (tp_fs T) d"
    and fs: "sys_fs sys = tp_fs T (tp_addr T n)" and wk: "working T d N n k co R w F"
  obtains out co' N' R' w' F' where
    "fetchChunkForRpc sys (rs_queryId (state_at co k)) mx co (N(tp_addr T n \<mapsto> co0)) = (out, co', N'(tp_addr T n \<mapsto> co0))"
    and "rp_found out" and "working T d N' n k co' R' w' F'" and "moved T n (visited (state_at co k)) N F N' F'"
    and "R = mset (zip (rp_trips out) (rp_sources out)) + R'" and "length (rp_sources out) = length (rp_trips out)"
    and "\<forall>x \<in> set (zip (rp_trips out) (rp_sources out)). carried_row x"
    and "if rp_done out then R' = {#} \<and> length (rp_trips out) \<le> w else w' + max 1 (length (rp_trips out)) \<le> w"
proof -
  let ?s = "state_at co k" and ?m = "chooseAdaptiveChunkSize co mx"
  obtain co1 N1 w1 F1 where win: "fetch_window sys k ?m co (N(tp_addr T n \<mapsto> co0)) = (co1, N1(tp_addr T n \<mapsto> co0))"
    and wk1: "working T d N1 n k co1 R w1 F1" and mv1: "moved T n (visited ?s) N F N1 F1" and le1: "w1 \<le> w"
    and less1: "unread ?s = [] \<Longrightarrow> \<not> allWorkersCompleted ?s \<Longrightarrow> w1 < w"
    and refill: "unread ?s = [] \<and> \<not> allWorkersCompleted ?s \<or> co1 = co"
    by (rule working_window [OF spec co0 ops fs wk, where mx = ?m]) blast
  obtain out co' R' w' where out: "fetchChunkForRpc sys (rs_queryId ?s) mx co (N(tp_addr T n \<mapsto> co0)) =
      (out, co', N1(tp_addr T n \<mapsto> co0))" and found: "rp_found out"
    and wk': "working T d (N1(tp_addr T n \<mapsto> co')) n k co' R' w' F1"
    and mv': "moved T n (visited ?s) N1 F1 (N1(tp_addr T n \<mapsto> co')) F1"
    and R: "R = mset (zip (rp_trips out) (rp_sources out)) + R'" and len: "length (rp_sources out) = length (rp_trips out)"
    and carried: "\<forall>x \<in> set (zip (rp_trips out) (rp_sources out)). carried_row x" and w1: "w1 = w' + length (rp_trips out)"
    and fin: "rp_done out \<Longrightarrow> R' = {#}"
    and idle: "\<not> rp_done out \<Longrightarrow> rp_trips out = [] \<Longrightarrow> unread (state_at co1 k) = [] \<and> \<not> allWorkersCompleted (state_at co1 k)"
    by (rule working_answer [OF wk win wk1, where V = "visited ?s"]) blast
  have "w' + max 1 (length (rp_trips out)) \<le> w" if "\<not> rp_done out"
  proof (cases "rp_trips out = []")
    case True
    then have "w1 < w" using idle [OF that] refill less1 by auto
    then show ?thesis using w1 True by simp
  next
    case False
    then have "0 < length (rp_trips out)" by simp
    then show ?thesis using w1 le1 by linarith
  qed
  then have "if rp_done out then R' = {#} \<and> length (rp_trips out) \<le> w else w' + max 1 (length (rp_trips out)) \<le> w"
    using fin w1 le1 by simp
  then show ?thesis
    using that [OF _ found wk' moved_trans [OF mv1 mv'] R len carried] out by simp
qed

lemma reply_rows_delivered:
  assumes "length (rp_sources r) = length (rp_trips r)"
    and "\<forall>x \<in> set (zip (rp_trips r) (rp_sources r)). carried_row x"
  shows "reply_rows c (fill_fetch_reply self r) = zip (rp_trips r) (rp_sources r)"
proof -
  have "\<forall>t \<in> set (rp_trips r). trip_widths t \<and> tt_airportFeeCents t = 0" and "\<forall>n \<in> set (rp_sources r). n \<noteq> []"
    using assms by (auto simp: carried_row_def set_zip in_set_conv_nth) (metis fst_conv snd_conv)+
  moreover from this have "map (\<lambda>t. t\<lparr>tt_airportFeeCents := 0\<rparr>) (rp_trips r) = rp_trips r"
    by (intro map_idI) simp
  ultimately show ?thesis
    using reply_rows_read [OF assms(1)] by (simp add: reply_rows_def fill_fetch_reply_def)
qed

theorem fetch_spec_all:
  assumes "topology_ok T"
  shows "fetch_spec T d"
proof (induction d)
  case 0
  then show ?case by (simp add: fetch_spec_def)
next
  case (Suc d)
  show ?case
    unfolding fetch_spec_def
  proof (intro allI impI, elim conjE)
    fix N n k s R w F mx
    assume n: "n \<in> tp_nodes T" and net: "net_ok T N" and at: "req_at T N n k = Some s"
      and sv: "serves T (Suc d) (req_at T N) n k R w F"
    from net n obtain co where co: "N (tp_addr T n) = Some co" and node: "node_ok T n co" by (auto simp: net_ok_def)
    have wk: "working T d N n k co R w F" using assms n net co sv by (simp add: working_def)
    have s: "s = state_at co k" using at by (auto simp: req_at_node [where N = N, OF n co] split: if_splits)
    have N: "N(tp_addr T n \<mapsto> co) = N" using co by (simp add: fun_upd_idem)
    let ?sys = "\<lparr> sys_fs = tp_fs T (tp_addr T n), sys_ops = net_ops (tp_fs T) d \<rparr>"
    obtain out co' N' R' w' F' where
      f: "fetchChunkForRpc ?sys (rs_queryId (state_at co k)) mx co (N(tp_addr T n \<mapsto> co)) = (out, co', N'(tp_addr T n \<mapsto> co))"
      and found: "rp_found out" and wk': "working T d N' n k co' R' w' F'"
      and mv: "moved T n (visited (state_at co k)) N F N' F'"
      and R: "R = mset (zip (rp_trips out) (rp_sources out)) + R'" and len: "length (rp_sources out) = length (rp_trips out)"
      and carried: "\<forall>x \<in> set (zip (rp_trips out) (rp_sources out)). carried_row x"
      and left: "if rp_done out then R' = {#} \<and> length (rp_trips out) \<le> w else w' + max 1 (length (rp_trips out)) \<le> w"
      by (rule working_fetch [OF Suc.IH node _ _ wk, where sys = ?sys and mx = mx]) simp_all
    let ?r = "fill_fetch_reply n out"
    have self: "co_selfNodeId co = n" using node by (simp add: node_ok_def)
    have "N' (tp_addr T n) = Some co'" using wk' by (simp add: working_def)
    then have op: "op_FetchSubChunk (net_ops (tp_fs T) (Suc d)) (tp_addr T n)
        \<lparr> fq_request_id = rs_queryId s, fq_max_rows = mx \<rparr> N = (Inr ?r, N')"
      using f by (simp add: on_node_def co self FetchSubChunk_def s N fun_upd_idem)
    have rows: "reply_rows n ?r = zip (rp_trips out) (rp_sources out)"
      by (rule reply_rows_delivered [OF len carried])
    have "length (fr_rows ?r) = length (rp_trips out)" "fr_done ?r = rp_done out" "fr_found ?r = rp_found out"
      by (simp_all add: fill_fetch_reply_def fill_rows_def)
    with left found R carried wk' mv show "\<exists>r N' R' w' F'.
        op_FetchSubChunk (net_ops (tp_fs T) (Suc d)) (tp_addr T n)
          \<lparr> fq_request_id = rs_queryId s, fq_max_rows = mx \<rparr> N = (Inr r, N') \<and> fr_found r \<and>
        moves T (insert n (tp_nodes T - visited s)) F N N' \<and>
        serves T (Suc d) (req_at T N') n k R' w' F' \<and> F' \<subseteq> F \<union> fresh_locs T N \<and>
        R = mset (reply_rows n r) + R' \<and> (\<forall>x \<in> set (reply_rows n r). carried_row x) \<and>
        (if fr_done r then R' = {#} \<and> length (fr_rows r) \<le> w else w' + max 1 (length (fr_rows r)) \<le> w)"
      unfolding working_def moved_def s [symmetric]
      by (intro exI [of _ ?r] exI [of _ N'] exI [of _ R'] exI [of _ w'] exI [of _ F'])
        (cases "rp_done out"; simp add: op rows del: net_ops.simps serves.simps)
  qed
qed

end
