(* ===== verification/Network_Delivery.thy ===== *)
theory Network_Delivery
  imports Network_Round
begin

text \<open>
  From the client of a network to its last chunk: the loop over \<open>FetchChunk\<close> returns, and what it
  returns are the rows of the plan, each with the node it is from. Then the network that starts from
  a set of node configurations, and what later calls keep of it.
\<close>

section \<open>The client loop\<close>

fun fetch_labelled ::
  "'e system \<Rightarrow> nat \<Rightarrow> string \<Rightarrow> nat \<Rightarrow> coordinator \<Rightarrow> 'e \<Rightarrow> (labelled list \<times> coordinator \<times> 'e) option"
where
  \<comment> \<open>\<open>fetch_all\<close>, keeping the node of each row\<close>
  "fetch_labelled sys 0 i m co e = None"
| "fetch_labelled sys (Suc fuel) i m co e =
     (case fetchChunkForRpc sys i m co e of (out, co, e) \<Rightarrow>
        if rp_done out then Some (zip (rp_trips out) (rp_sources out), co, e)
        else case fetch_labelled sys fuel i m co e of
          None \<Rightarrow> None
        | Some (rs, co, e) \<Rightarrow> Some (zip (rp_trips out) (rp_sources out) @ rs, co, e))"

lemma fetch_all_labelled:
  assumes "coordinator_inv co"
  shows "fetch_all sys fuel i m co e =
    map_option (\<lambda>(rs, r). (map fst rs, r)) (fetch_labelled sys fuel i m co e)"
  using assms
proof (induction fuel arbitrary: co e)
  case (Suc fuel)
  obtain out co' e' where f: "fetchChunkForRpc sys i m co e = (out, co', e')" by (metis prod_cases3)
  have "coordinator_inv co'" using fetchChunk_inv [OF Suc.prems, of sys i m e] by (simp add: f)
  note IH = Suc.IH [OF this, of e']
  have "length (rp_sources out) = length (rp_trips out)" by (rule fetchChunk_result(3) [OF Suc.prems f])
  then show ?case by (simp add: f IH split: option.split prod.split)
qed simp

lemma working_delivers:
  assumes top: "topology_ok T" and co0: "node_ok T n co0" and wk: "working T d N n k co R w F" and "w < fuel"
  shows "\<exists>rs co' N'. fetch_labelled (net_system (tp_fs T) d (tp_addr T n)) fuel (rs_queryId (state_at co k)) m co
      (N(tp_addr T n \<mapsto> co0)) = Some (rs, co', N') \<and> mset rs = R"
  using wk \<open>w < fuel\<close>
proof (induction fuel arbitrary: co N R w F)
  case (Suc fuel)
  let ?sys = "net_system (tp_fs T) d (tp_addr T n)"
  obtain out co' N' R' w' F' where
    f: "fetchChunkForRpc ?sys (rs_queryId (state_at co k)) m co (N(tp_addr T n \<mapsto> co0)) = (out, co', N'(tp_addr T n \<mapsto> co0))"
    and wk': "working T d N' n k co' R' w' F'" and R: "R = mset (zip (rp_trips out) (rp_sources out)) + R'"
    and left: "if rp_done out then R' = {#} \<and> length (rp_trips out) \<le> w else w' + max 1 (length (rp_trips out)) \<le> w"
    by (rule working_fetch [OF fetch_spec_all [OF top] co0 _ _ Suc.prems(1), where sys = ?sys and mx = m]) simp_all
  show ?case
  proof (cases "rp_done out")
    case True
    then show ?thesis unfolding fetch_labelled.simps f prod.case using R left by simp
  next
    case False
    have k: "k < length (co_queryStates co)" by (rule working_own(2) [OF Suc.prems(1)])
    have find: "findRequestState co (rs_queryId (state_at co k)) = Some k"
      using find_request [OF working_own(3,2) [OF Suc.prems(1)]] .
    have "steps k co co'"
      using steps_fetchChunk [OF find, of ?sys m "N(tp_addr T n \<mapsto> co0)"] by (simp add: f)
    then have id: "rs_queryId (state_at co' k) = rs_queryId (state_at co k)" using k by (simp add: steps_def)
    have "w' < fuel" using left False Suc.prems(2) by simp
    from Suc.IH [OF wk' this, unfolded id] obtain rs co2 N2 where
      "fetch_labelled ?sys fuel (rs_queryId (state_at co k)) m co' (N'(tp_addr T n \<mapsto> co0)) = Some (rs, co2, N2)"
      and "mset rs = R'" by blast
    then show ?thesis
      unfolding fetch_labelled.simps f prod.case using R False by simp
  qed
qed simp

section \<open>From submission to the last chunk\<close>

lemma client_accepted:
  "SubmitQuery sys self msg co e =
     (fillSubmitQueryReply True (''q-'' @ show_nat (co_nextQuerySeq co)) self ''accepted'',
      accepted co (fromProtoSubmitQueryRequest msg), e)"
proof -
  let ?r = "fromProtoSubmitQueryRequest msg"
  have "qq_queryId ?r = []" "qq_queryType ?r = Execute"
    by (simp_all add: fromProtoSubmitQueryRequest_def fromProtoFilter_def new_QueryRequest_def Let_def)
  then show ?thesis
    by (simp add: SubmitQuery_def submitClientQuery_def ensureQueryId_def Let_def accepted_def)
qed

lemma client_message:
  assumes "sq_scan_row_budget msg < 2 ^ 32"
  defines "r \<equiv> fromProtoSubmitQueryRequest msg"
  shows "qq_queryType r = Execute" and "qq_targetNodeId r = None" and "qq_distributedAllowed r" and "sendable r"
    and "qq_visitedNodeIds r = sq_visited_node_ids msg"
proof -
  have "to_signed 32 (to_signed 32 i) = to_signed 32 i" for i :: int by (simp add: to_signed_def)
  then have "range32 (range32 q) = range32 q" for q by (simp add: range32_def)
  then show "sendable r" using assms(1)
    by (auto simp: r_def sendable_def request_widths_def fromProtoSubmitQueryRequest_def fromProtoFilter_def
        new_QueryRequest_def Let_def to_signed_def)
qed (simp_all add: r_def fromProtoSubmitQueryRequest_def fromProtoFilter_def new_QueryRequest_def Let_def)

lemma query_working:
  assumes top: "topology_ok T" "n \<in> tp_nodes T" and net: "net_ok T N" and co: "N (tp_addr T n) = Some co"
    and budget: "sq_scan_row_budget msg < 2 ^ 32"
    and sub: "SubmitQuery (net_system (tp_fs T) d (tp_addr T n)) n msg co N = (reply, co1, N1)"
    and deep: "card (tp_nodes T) \<le> Suc d"
  defines "V \<equiv> insert n (set (sq_visited_node_ids msg))" and "k \<equiv> length (co_queryStates co)"
  shows "working T d (N(tp_addr T n \<mapsto> co1)) n k co1
      (plan_rows T (Suc d) (fromProtoSubmitQueryRequest msg) V n) (plan_work T (Suc d) V n) {(n, k)}"
    and "N1 = N" and "sr_request_id reply = rs_queryId (state_at co1 k)" and "node_ok T n co"
proof -
  let ?r = "fromProtoSubmitQueryRequest msg" and ?k = "length (co_queryStates co)"
  show node: "node_ok T n co" using net co top by (auto simp: net_ok_def)
  have n: "n \<noteq> []" "getNodeId (tp_worker T n) = n" using top by (auto simp: topology_ok_def)
  note r = client_message [OF budget]
  have co1: "co1 = accepted co ?r" and reply: "sr_request_id reply = ''q-'' @ show_nat (co_nextQuerySeq co)"
    using sub by (auto simp: client_accepted fillSubmitQueryReply_def)
  show "N1 = N" using sub by (simp add: client_accepted)
  note a = accepted_state [OF node n r(1-4), folded co1]
  note m = accepted_moves [OF top net co r(1-4), folded co1]
  let ?s = "state_at co1 ?k" and ?N' = "N(tp_addr T n \<mapsto> co1)"
  have V: "visited ?s = V" using r(5) by (simp add: visited_def a(5) V_def)
  have "card (tp_nodes T - V) < card (tp_nodes T)"
    using top by (intro psubset_card_mono) (auto simp: topology_ok_def V_def)
  then have "deep_enough T (Suc d) V n"
    using deep by (intro deep_enough_card [OF top]) (auto simp: V_def)
  then have sv: "serves T (Suc d) (req_at T ?N') n ?k (plan_rows T (Suc d) (rs_request ?s) V n)
      (plan_work T (Suc d) V n) {(n, ?k)}"
    using new_serves [where Q = "req_at T ?N'" and d = "Suc d", OF top m(3) a(6-8)] by (simp add: V del: serves.simps deep_enough.simps)
  have "same_filter (rs_request ?s) ?r" by (simp add: a(5) same_filter_def)
  from plan_rows_cong [OF this]
  show "working T d ?N' n k co1 (plan_rows T (Suc d) ?r V n) (plan_work T (Suc d) V n) {(n, k)}"
    using sv m(1) top by (simp add: working_def moves_def k_def del: serves.simps)
  show "sr_request_id reply = rs_queryId (state_at co1 k)" by (simp add: reply a(4) k_def)
qed

lemma query_delivers:
  assumes top: "topology_ok T" "n \<in> tp_nodes T" and net: "net_ok T N" and co: "N (tp_addr T n) = Some co"
    and budget: "sq_scan_row_budget msg < 2 ^ 32"
    and sub: "SubmitQuery (net_system (tp_fs T) d (tp_addr T n)) n msg co N = (reply, co1, N1)"
    and deep: "card (tp_nodes T) \<le> Suc d"
    and fuel: "plan_work T (Suc d) (insert n (set (sq_visited_node_ids msg))) n < fuel"
  shows "\<exists>rs co2 N2. fetch_labelled (net_system (tp_fs T) d (tp_addr T n)) fuel (sr_request_id reply) m co1 N1
      = Some (rs, co2, N2) \<and>
    mset rs = plan_rows T (Suc d) (fromProtoSubmitQueryRequest msg) (insert n (set (sq_visited_node_ids msg))) n"
proof -
  note q = query_working [OF top net co budget sub deep]
  have "(N(tp_addr T n \<mapsto> co1))(tp_addr T n \<mapsto> co) = N" using co by (simp add: fun_upd_idem)
  then show ?thesis
    using working_delivers [OF top(1) q(4,1) fuel, of m] by (simp add: q(2,3))
qed

end
