(* ===== verification/Deployment.thy ===== *)
theory Deployment
  imports Network_Delivery
begin

text \<open>
  A deployment is a list of node configurations, one server process each, with the address every node is
  called at and the files each of them sees. Its start is a network in good order, and whatever clients
  call on its nodes afterwards keeps it so. Every node is taken to run this server.
\<close>

section \<open>Start\<close>

definition config_of :: "NodeConfig list \<Rightarrow> node_id \<Rightarrow> NodeConfig" where
  "config_of cfgs n = (case find (\<lambda>c. nc_nodeId c = n) cfgs of Some c \<Rightarrow> c | None \<Rightarrow> empty_NodeConfig)"

definition deployed :: "(node_id \<Rightarrow> string) \<Rightarrow> (string \<Rightarrow> file_system) \<Rightarrow> NodeConfig list \<Rightarrow> topology" where
  "deployed addr fs cfgs = \<lparr> tp_addr = addr,
     tp_children = (\<lambda>n. map nb_nodeId (nc_neighbors (config_of cfgs n))),
     tp_worker = (\<lambda>n. local_worker (fs (addr n)) (config_of cfgs n)), tp_fs = fs,
     tp_nodes = set (map nc_nodeId cfgs) \<rparr>"

definition started_network :: "(node_id \<Rightarrow> string) \<Rightarrow> (string \<Rightarrow> file_system) \<Rightarrow> NodeConfig list \<Rightarrow> network" where
  "started_network addr fs cfgs a =
     map_option (start_coordinator (fs a)) (find (\<lambda>c. addr (nc_nodeId c) = a) cfgs)"

definition deployment_ok :: "(node_id \<Rightarrow> string) \<Rightarrow> NodeConfig list \<Rightarrow> bool" where
  \<comment> \<open>one configuration for each node; neighbors are nodes, and everybody calls them at the same address\<close>
  "deployment_ok addr cfgs \<longleftrightarrow> distinct (map nc_nodeId cfgs) \<and> inj_on addr (set (map nc_nodeId cfgs)) \<and>
     (\<forall>c \<in> set cfgs. valid_config c \<and> addr (nc_nodeId c) \<noteq> [] \<and>
        (\<forall>n \<in> set (nc_neighbors c). nb_nodeId n \<in> set (map nc_nodeId cfgs) \<and> addr (nb_nodeId n) = neighbor_address n))"

lemma find_distinct:
  "distinct (map f xs) \<Longrightarrow> x \<in> set xs \<Longrightarrow> find (\<lambda>y. f y = f x) xs = Some x"
  by (induction xs) (auto simp: image_iff)

lemma config_of_member:
  "deployment_ok addr cfgs \<Longrightarrow> c \<in> set cfgs \<Longrightarrow> config_of cfgs (nc_nodeId c) = c"
  by (simp add: config_of_def deployment_ok_def find_distinct)

lemma start_node_ok:
  assumes dep: "deployment_ok addr cfgs" and c: "c \<in> set cfgs"
  shows "node_ok (deployed addr fs cfgs) (nc_nodeId c) (start_coordinator (fs (addr (nc_nodeId c))) c)"
proof -
  let ?n = "nc_nodeId c" and ?co = "start_coordinator (fs (addr (nc_nodeId c))) c"
  have cfg: "config_of cfgs ?n = c" by (rule config_of_member [OF dep c])
  have v: "valid_config c" and nb: "\<And>n. n \<in> set (nc_neighbors c) \<Longrightarrow> addr (nb_nodeId n) = neighbor_address n"
    using dep c by (auto simp: deployment_ok_def)
  have co: "co_selfNodeId ?co = ?n" "co_workers ?co = [local_worker (fs (addr ?n)) c]"
    "co_overlay ?co = Some (buildOverlayFromNodeConfig c)"
    "co_remoteClient ?co = Some (new_remote_client ?n (buildOverlayFromNodeConfig c))"
    by (simp_all add: start_coordinator_def Let_def addWorker_def make_QueryCoordinator_def new_QueryCoordinator_def)
  have id: "getNodeId (local_worker (fs (addr ?n)) c) = ?n"
    by (simp add: local_worker_def getNodeId_def new_WorkerNode_def new_NodeInfo_def Let_def)
  have "resolveTarget (new_remote_client ?n (buildOverlayFromNodeConfig c)) d = addr d"
    if "d \<in> set (map nb_nodeId (nc_neighbors c))" for d
    using that built_endpoint [OF v] nb by (auto simp: resolveTarget_def new_remote_client_def)
  then show ?thesis
    using start_coordinator_inv [of "fs (addr ?n)" c] built_overlay(5) [OF v]
    by (simp add: node_ok_def deployed_def co id cfg)
qed

lemma deployed_topology_ok:
  assumes dep: "deployment_ok addr cfgs"
  shows "topology_ok (deployed addr fs cfgs)"
proof -
  have "n \<noteq> [] \<and> addr n \<noteq> [] \<and> distinct (map nb_nodeId (nc_neighbors (config_of cfgs n))) \<and>
      nb_nodeId ` set (nc_neighbors (config_of cfgs n)) \<subseteq> nc_nodeId ` set cfgs \<and>
      getNodeId (local_worker (fs (addr n)) (config_of cfgs n)) = n" if "n \<in> nc_nodeId ` set cfgs" for n
  proof -
    from that obtain c where c: "c \<in> set cfgs" "n = nc_nodeId c" by auto
    have "config_of cfgs n = c" using config_of_member [OF dep c(1)] c(2) by simp
    then show ?thesis using dep c
      by (auto simp: deployment_ok_def valid_config_def local_worker_def getNodeId_def new_WorkerNode_def
          new_NodeInfo_def Let_def)
  qed
  then show ?thesis using dep by (simp add: topology_ok_def deployed_def deployment_ok_def)
qed

lemma started_node:
  assumes dep: "deployment_ok addr cfgs" and c: "c \<in> set cfgs"
  shows "started_network addr fs cfgs (addr (nc_nodeId c)) = Some (start_coordinator (fs (addr (nc_nodeId c))) c)"
proof -
  have "distinct (map (\<lambda>c. addr (nc_nodeId c)) cfgs)"
    using dep by (auto simp: deployment_ok_def distinct_map inj_on_def)
  from find_distinct [OF this c] show ?thesis by (simp add: started_network_def)
qed

lemma started_net_ok:
  assumes dep: "deployment_ok addr cfgs"
  shows "net_ok (deployed addr fs cfgs) (started_network addr fs cfgs)"
  unfolding net_ok_def
proof
  fix n assume "n \<in> tp_nodes (deployed addr fs cfgs)"
  then obtain c where c: "c \<in> set cfgs" "n = nc_nodeId c" by (auto simp: deployed_def)
  have "tp_addr (deployed addr fs cfgs) n = addr (nc_nodeId c)" by (simp add: deployed_def c(2))
  then show "\<exists>co. started_network addr fs cfgs (tp_addr (deployed addr fs cfgs) n) = Some co \<and>
      node_ok (deployed addr fs cfgs) n co"
    using started_node [OF dep c(1)] start_node_ok [OF dep c(1)] c(2) by auto
qed

section \<open>History\<close>

text \<open>What a fetch keeps of the rest of the system, given that the calls of the stub keep it.\<close>

definition ops_keep :: "('e \<Rightarrow> bool) \<Rightarrow> 'e stub_ops \<Rightarrow> bool" where
  "ops_keep P ops \<longleftrightarrow> (\<forall>a e. P e \<longrightarrow>
     (\<forall>m. P (snd (op_SubmitSubQuery ops a m e))) \<and> (\<forall>m. P (snd (op_FetchSubChunk ops a m e))))"

abbreviation same_routes :: "coordinator \<Rightarrow> coordinator \<Rightarrow> bool" where
  "same_routes co co' \<equiv> map_option rc_overlay (co_remoteClient co') = map_option rc_overlay (co_remoteClient co)"

lemma submitSubQuery_keeps:
  "ops_keep P ops \<Longrightarrow> P e \<Longrightarrow> P (snd (snd (submitSubQuery ops c req i cl e)))"
  by (auto simp: submitSubQuery_def ops_keep_def split: prod.split option.split sum.split) (metis snd_conv)+

lemma fetchSubChunk_keeps:
  "ops_keep P ops \<Longrightarrow> P e \<Longrightarrow> P (snd (snd (fetchSubChunk ops c i m cl e)))"
  by (auto simp: fetchSubChunk_def ops_keep_def Let_def split: prod.split option.split sum.split) (metis snd_conv)+

lemma fetch_from_child_keeps:
  assumes "ops_keep P (sys_ops sys)" and "P e" and "map_option rc_overlay (co_remoteClient co) = Some (rc_overlay cl)"
  shows "case fetch_from_child sys k m c p cl co e of (got, co', e') \<Rightarrow> P e' \<and> same_routes co co'"
proof -
  obtain chunk cl' e' where f: "fetchSubChunk (sys_ops sys) c (wp_remoteRequestId p) (chooseAdaptiveChunkSize co m) cl e
      = (chunk, cl', e')" by (metis prod_cases3)
  have "P e'" using fetchSubChunk_keeps [OF assms(1,2)] f by (metis snd_conv)
  moreover have "rc_overlay cl' = rc_overlay cl"
    using fetchSubChunk_client [of "sys_ops sys" c "wp_remoteRequestId p" "chooseAdaptiveChunkSize co m" cl e] f by simp
  ultimately show ?thesis using assms(3) by (auto simp: fetch_from_child_def f Let_def fail_child_def)
qed

lemma fetch_remote_child_keeps:
  assumes keep: "ops_keep P (sys_ops sys)" and e: "P e"
  shows "case fetch_remote_child sys k m cs c co e of (got, co', e') \<Rightarrow> P e' \<and> same_routes co co'"
proof (cases "hasVisitedNode (rs_request (state_at co k)) c \<or>
    wp_completed (fst (getWorkerProgress c (state_at co k))) \<or> co_remoteClient co = None")
  case True
  then show ?thesis using e by (auto simp: fetch_remote_child_def Let_def)
next
  case False
  let ?p = "fst (getWorkerProgress c (state_at co k))"
  let ?co = "on_state k (\<lambda>s. snd (getWorkerProgress c s)) co"
  from False obtain cl where cl: "co_remoteClient co = Some cl" by auto
  show ?thesis
  proof (cases "wp_submitted ?p")
    case True
    then have "fetch_remote_child sys k m cs c co e = fetch_from_child sys k m c ?p cl ?co e"
      using False cl by (simp add: fetch_remote_child_def Let_def)
    then show ?thesis using fetch_from_child_keeps [OF keep e, where co = ?co and cl = cl and k = k and m = m and c = c and p = ?p] cl by (simp split: prod.splits)
  next
    case sub: False
    obtain ok rid msg cl' e' where s: "submitSubQuery (sys_ops sys) c (child_request ?co (rs_request (state_at co k)) cs m)
        (rs_queryId (state_at ?co k)) cl e = ((ok, rid, msg), cl', e')" by (metis prod_cases3)
    have e': "P e'" using submitSubQuery_keeps [OF keep e] s by (metis snd_conv)
    have cl': "rc_overlay cl' = rc_overlay cl"
      using submitSubQuery_client [of "sys_ops sys" c "child_request ?co (rs_request (state_at co k)) cs m"
          "rs_queryId (state_at ?co k)" cl e] s by simp
    let ?p' = "?p\<lparr>wp_remoteRequestId := rid, wp_submitted := True\<rparr>"
    let ?co' = "on_state k (putWorkerProgress c ?p') (?co\<lparr>co_remoteClient := Some cl'\<rparr>)"
    have "fetch_remote_child sys k m cs c co e =
        (if ok then fetch_from_child sys k m c ?p' cl' ?co' e'
         else (False, fail_child k c (?p\<lparr>wp_remoteRequestId := rid\<rparr>) (?co\<lparr>co_remoteClient := Some cl'\<rparr>), e'))"
      using False cl sub s by (simp add: fetch_remote_child_def Let_def)
    then show ?thesis
      using fetch_from_child_keeps [OF keep e', where co = ?co' and cl = cl' and k = k and m = m and c = c and p = ?p'] e' cl cl' by (auto simp: fail_child_def split: prod.splits)
  qed
qed

lemma fetch_remote_loop_keeps:
  assumes keep: "ops_keep P (sys_ops sys)" and e: "P e"
  shows "case fetch_remote_loop sys k m ch cs got co e of (g, co', e') \<Rightarrow> P e' \<and> same_routes co co'"
  using e
proof (induction cs arbitrary: got co e)
  case (Cons c cs)
  obtain g co1 e1 where f: "fetch_remote_child sys k m ch c co e = (g, co1, e1)" by (metis prod_cases3)
  have "P e1 \<and> same_routes co co1" using fetch_remote_child_keeps [OF keep Cons.prems, where k = k and m = m and cs = ch and c = c and co = co] f by simp
  then show ?case using Cons.IH [where e = e1 and got = "got \<or> g" and co = co1] by (simp add: f split: prod.splits)
qed simp

lemma fetchRemote_keeps:
  assumes "ops_keep P (sys_ops sys)" and "P e"
  shows "case fetchRemoteExecuteChunks sys k m co e of (g, co', e') \<Rightarrow> P e' \<and> same_routes co co'"
proof (cases "\<exists>ov cl. co_overlay co = Some ov \<and> co_remoteClient co = Some cl")
  case True
  then obtain ov cl where "co_overlay co = Some ov" "co_remoteClient co = Some cl" by auto
  then show ?thesis
    using fetch_remote_loop_keeps [OF assms, where k = k and m = m and co = co and got = False
        and ch = "getChildren ov (co_selfNodeId co)" and cs = "getChildren ov (co_selfNodeId co)"]
    by (simp add: fetchRemoteExecuteChunks_def Let_def)
next
  case False
  then have "fetchRemoteExecuteChunks sys k m co e = (False, co, e)"
    by (auto simp: fetchRemoteExecuteChunks_def split: option.split)
  then show ?thesis using assms(2) by simp
qed

lemma fetchLocal_client: "co_remoteClient (snd (fetchLocalExecuteChunk sys k m co)) = co_remoteClient co"
  by (simp add: fetchLocalExecuteChunk_def Let_def split: option.split)

lemma fetchNext_keeps:
  assumes keep: "ops_keep P (sys_ops sys)" and e: "P e"
  shows "case fetchNextExecuteChunks sys k m co e of (g, co', e') \<Rightarrow> P e' \<and> same_routes co co'"
proof -
  let ?s = "state_at co k"
  define coc where "coc = (if rs_nextUnreadIndex ?s \<ge> length (qr_matchedTrips (rs_aggregatedResult ?s))
      then on_state k clearAggregatedRows co else co)"
  have r0: "co_remoteClient coc = co_remoteClient co" by (simp add: coc_def)
  define both where "both = (if shouldFetchRemoteFirst (state_at coc k)
      then case fetchRemoteExecuteChunks sys k m coc e of (r, co, e) \<Rightarrow>
           case fetchLocalExecuteChunk sys k m co of (l, co) \<Rightarrow> (l, r, co, e)
      else case fetchLocalExecuteChunk sys k m coc of (l, co) \<Rightarrow>
           case fetchRemoteExecuteChunks sys k m co e of (r, co, e) \<Rightarrow> (l, r, co, e))"
  obtain l r co1 e1 where both: "both = (l, r, co1, e1)" by (metis prod_cases4)
  have "P e1 \<and> same_routes coc co1"
  proof (cases "shouldFetchRemoteFirst (state_at coc k)")
    case True
    obtain r' co2 e2 where f: "fetchRemoteExecuteChunks sys k m coc e = (r', co2, e2)" by (metis prod_cases3)
    then show ?thesis
      using both True fetchRemote_keeps [OF keep e, where k = k and m = m and co = coc] fetchLocal_client [of sys k m co2]
      by (auto simp: both_def split: prod.splits)
  next
    case False
    obtain l' co2 where f: "fetchLocalExecuteChunk sys k m coc = (l', co2)" by fastforce
    then show ?thesis
      using both False fetchRemote_keeps [OF keep e, where k = k and m = m and co = co2] fetchLocal_client [of sys k m coc]
      by (auto simp: both_def split: prod.splits)
  qed
  then show ?thesis
    unfolding fetchNextExecuteChunks_def Let_def coc_def [symmetric] both_def [symmetric] both by (simp add: r0)
qed

lemma fetchChunk_keeps:
  assumes keep: "ops_keep P (sys_ops sys)" and e: "P e"
  shows "case fetchChunkForRpc sys i m co e of (out, co', e') \<Rightarrow> P e' \<and> same_routes co co'"
proof (cases "findRequestState co i")
  case None
  then show ?thesis using e by (simp add: fetchChunk_unknown)
next
  case (Some k)
  show ?thesis
  proof (cases "active_execute co k")
    case False
    then show ?thesis using fetchChunk_inactive(1) [OF Some False, of sys m e] e by (simp add: case_prod_beta)
  next
    case True
    obtain co1 e1 where w: "fetch_window sys k (chooseAdaptiveChunkSize co m) co e = (co1, e1)" by fastforce
    have ok: "P e1 \<and> same_routes co co1"
      using w e fetchNext_keeps [OF keep e, where k = k and m = "chooseAdaptiveChunkSize co m" and co = co]
      by (auto simp: fetch_window_def split: if_splits prod.splits)
    note a = fetchChunk_active [OF Some True w]
    show ?thesis
    proof (cases "length (window_trips (state_at co1 k)) \<le> rs_nextUnreadIndex (state_at co1 k)")
      case True
      then show ?thesis using a(1) ok by simp
    next
      case False
      then show ?thesis using a(2) ok by (simp add: Let_def)
    qed
  qed
qed

lemma init_children_client: "co_remoteClient (snd (init_children k req cs i co)) = co_remoteClient co"
  by (induction k req cs i co rule: init_children.induct) auto

lemma initialize_client: "co_remoteClient (initializeExecuteProgress k req co) = co_remoteClient co"
  using init_children_client [of k req]
  by (auto simp: initializeExecuteProgress_def Let_def split: option.split prod.split) (metis on_state_frame(3) snd_conv)+

lemma accepted_node_ok:
  assumes "node_ok T n co"
  shows "node_ok T n (accepted co req)"
proof -
  let ?i = "''q-'' @ show_nat (co_nextQuerySeq co)"
  let ?co = "co\<lparr>co_nextQuerySeq := co_nextQuerySeq co + 1\<rparr>"
  let ?req = "markVisitedNode (co_selfNodeId co) (req\<lparr>qq_queryId := ?i\<rparr>)"
  have ids: "generated_ids co" and inv: "coordinator_inv co" using assms by (auto simp: node_ok_def)
  have fresh: "findRequestState ?co (qq_queryId ?req) = None"
    using ensureQueryId_fresh [OF ids, of "req\<lparr>qq_queryId := []\<rparr>"]
    by (simp add: ensureQueryId_def Let_def findRequestState_None)
  note b = begin_execute_fresh [OF fresh]
  have "generated_ids (?co\<lparr>co_queryStates := co_queryStates ?co @ [new_RequestState (qq_queryId ?req) ?req]\<rparr>)"
    using ids by (auto simp: generated_ids_def new_RequestState_def intro: less_SucI)
  from steps_ids [OF b(2) this] have "generated_ids (accepted co req)" by (simp add: accepted_def)
  moreover have "coordinator_inv (accepted co req)"
    unfolding accepted_def by (intro coordinator_inv_begin coordinator_inv_seq inv)
  moreover have "co_remoteClient (accepted co req) = co_remoteClient co"
    unfolding accepted_def b(1) initialize_client by simp
  ultimately show ?thesis using assms b(2) by (simp add: node_ok_def steps_def accepted_def)
qed

lemma fetch_node_ok:
  assumes "node_ok T n co" and "same_routes co (fst (snd (fetchChunkForRpc sys i m co e)))"
  shows "node_ok T n (fst (snd (fetchChunkForRpc sys i m co e)))"
proof (cases "findRequestState co i")
  case None
  then show ?thesis using assms(1) by (simp add: fetchChunk_unknown)
next
  case (Some k)
  from node_ok_steps [OF assms(1) steps_fetchChunk [OF this] assms(2)] show ?thesis .
qed

lemma cancel_node_ok: "node_ok T n co \<Longrightarrow> node_ok T n (snd (snd (cancel i co)))"
  by (auto simp: cancel_def intro!: node_ok_steps [OF _ steps_on_state] good_update_simple split: option.split)

lemma net_ok_put:
  assumes top: "topology_ok T" and net: "net_ok T N"
    and co: "\<And>n. n \<in> tp_nodes T \<Longrightarrow> tp_addr T n = a \<Longrightarrow> node_ok T n co"
  shows "net_ok T (N(a \<mapsto> co))"
proof (cases "a \<in> tp_addr T ` tp_nodes T")
  case True
  then obtain n where "n \<in> tp_nodes T" "a = tp_addr T n" by auto
  with net_ok_upd [OF top _ net] co show ?thesis by simp
next
  case False
  then show ?thesis using net by (auto simp: net_ok_def)
qed

lemma net_ok_node: "net_ok T N \<Longrightarrow> n \<in> tp_nodes T \<Longrightarrow> N (tp_addr T n) = Some co \<Longrightarrow> node_ok T n co"
  by (auto simp: net_ok_def)

lemma on_node_keeps:
  assumes top: "topology_ok T" and net: "net_ok T N"
    and step: "\<And>co r co' N'. N a = Some co \<Longrightarrow> h co N = (r, co', N') \<Longrightarrow>
       net_ok T N' \<and> (\<forall>n. node_ok T n co \<longrightarrow> node_ok T n co')"
  shows "net_ok T (snd (on_node a h N))"
proof (cases "N a")
  case None
  then show ?thesis using net by (simp add: on_node_def)
next
  case (Some co)
  obtain r co' N' where h: "h co N = (r, co', N')" by (metis prod_cases3)
  note s = step [OF Some h]
  have "net_ok T (N'(a \<mapsto> co'))"
    by (rule net_ok_put [OF top]) (use s net_ok_node [OF net] Some in auto)
  then show ?thesis by (simp add: on_node_def Some h)
qed

lemma fetch_handler_keeps:
  assumes keep: "ops_keep (net_ok T) (sys_ops sys)" and net: "net_ok T N"
    and f: "fetchChunkForRpc sys i m co N = (out, co', N')"
  shows "net_ok T N' \<and> (\<forall>n. node_ok T n co \<longrightarrow> node_ok T n co')"
  using fetchChunk_keeps [where P = "net_ok T", OF keep net, where i = i and m = m and co = co] fetch_node_ok [of T _ co sys i m N]
  by (simp add: f)

lemma net_ops_keep:
  assumes top: "topology_ok T"
  shows "ops_keep (net_ok T) (net_ops fs d)"
proof (induction d)
  case (Suc d)
  show ?case
    unfolding ops_keep_def
  proof (intro allI impI conjI)
    fix a N assume net: "net_ok T N"
    let ?sys = "\<lparr> sys_fs = fs a, sys_ops = net_ops fs d \<rparr>"
    show "net_ok T (snd (op_SubmitSubQuery (net_ops fs (Suc d)) a m N))" for m
      using on_node_keeps [OF top net, where h = "\<lambda>co. SubmitSubQuery ?sys (co_selfNodeId co) m co"]
        net accepted_node_ok by (auto simp: submit_accepted)
    show "net_ok T (snd (op_FetchSubChunk (net_ops fs (Suc d)) a m N))" for m
    proof -
      have keep: "ops_keep (net_ok T) (sys_ops ?sys)" using Suc by simp
      have "net_ok T (snd (on_node a (\<lambda>co. FetchSubChunk ?sys (co_selfNodeId co) m co) N))"
      proof (rule on_node_keeps [OF top net])
        fix co r co' N'
        assume "FetchSubChunk ?sys (co_selfNodeId co) m co N = (r, co', N')"
        then obtain out where "fetchChunkForRpc ?sys (fq_request_id m) (fq_max_rows m) co N = (out, co', N')"
          by (auto simp: FetchSubChunk_def split: prod.splits)
        from fetch_handler_keeps [OF keep net this]
        show "net_ok T N' \<and> (\<forall>n. node_ok T n co \<longrightarrow> node_ok T n co')" .
      qed
      then show ?thesis by simp
    qed
  qed
qed (simp add: ops_keep_def)

text \<open>Clients call the nodes of the network.\<close>

inductive net_step :: "(string \<Rightarrow> file_system) \<Rightarrow> nat \<Rightarrow> network \<Rightarrow> network \<Rightarrow> bool" for fs d where
  submit: "on_node a (\<lambda>co. SubmitQuery (net_system fs d a) (co_selfNodeId co) m co) N = (r, N') \<Longrightarrow> net_step fs d N N'"
| fetch: "on_node a (\<lambda>co. FetchChunk (net_system fs d a) (co_selfNodeId co) f co) N = (r', N') \<Longrightarrow> net_step fs d N N'"
| cancel: "on_node a (\<lambda>co N. case CancelQuery (co_selfNodeId co) i co of (r, co) \<Rightarrow> (r, co, N)) N = (r'', N') \<Longrightarrow>
     net_step fs d N N'"

lemma net_step_ok:
  assumes "net_step fs d N N'" and top: "topology_ok T" and net: "net_ok T N"
  shows "net_ok T N'"
  using assms(1)
proof cases
  case (submit a m r)
  then show ?thesis
    using on_node_keeps [OF top net, where h = "\<lambda>co. SubmitQuery (net_system fs d a) (co_selfNodeId co) m co" and a = a]
      net accepted_node_ok by (auto simp: client_accepted)
next
  case (fetch a f r)
  have keep: "ops_keep (net_ok T) (sys_ops (net_system fs d a))" using net_ops_keep [OF top] by simp
  have "net_ok T (snd (on_node a (\<lambda>co. FetchChunk (net_system fs d a) (co_selfNodeId co) f co) N))"
  proof (rule on_node_keeps [OF top net])
    fix co r co' N'
    assume "FetchChunk (net_system fs d a) (co_selfNodeId co) f co N = (r, co', N')"
    then obtain out where "fetchChunkForRpc (net_system fs d a) (fq_request_id f) (fq_max_rows f) co N = (out, co', N')"
      by (auto simp: FetchChunk_def split: prod.splits)
    from fetch_handler_keeps [OF keep net this]
    show "net_ok T N' \<and> (\<forall>n. node_ok T n co \<longrightarrow> node_ok T n co')" .
  qed
  then show ?thesis using fetch by simp
next
  case (cancel a i r)
  have "net_ok T (snd (on_node a (\<lambda>co N. case CancelQuery (co_selfNodeId co) i co of (r, co) \<Rightarrow> (r, co, N)) N))"
  proof (rule on_node_keeps [OF top net])
    fix co r co' N'
    assume "(case CancelQuery (co_selfNodeId co) i co of (r, co) \<Rightarrow> (r, co, N)) = (r, co', N')"
    then have "N' = N" "co' = snd (snd (cancel i co))" by (auto simp: CancelQuery_def split: prod.splits)
    then show "net_ok T N' \<and> (\<forall>n. node_ok T n co \<longrightarrow> node_ok T n co')" using net cancel_node_ok by simp
  qed
  then show ?thesis using cancel by simp
qed

lemma net_run_ok:
  assumes "(net_step fs d)\<^sup>*\<^sup>* N N'" and "topology_ok T" and "net_ok T N"
  shows "net_ok T N'"
  using assms by induction (auto intro: net_step_ok)

section \<open>Answers\<close>

definition node_answer ::
  "(node_id \<Rightarrow> string) \<Rightarrow> (string \<Rightarrow> file_system) \<Rightarrow> NodeConfig list \<Rightarrow> QueryRequest \<Rightarrow> node_id \<Rightarrow> labelled list"
where
  \<comment> \<open>the trips of the matching rows of a node's assigned files, with the node\<close>
  "node_answer addr fs cfgs req n =
     map (\<lambda>t. (t, n)) (List.map_filter (row_answer req) (node_rows (fs (addr n)) (config_of cfgs n)))"

lemma deployed_rows:
  assumes "distinct (nc_assignedFiles (config_of cfgs n))"
  shows "rows_from (deployed addr fs cfgs) req n 0 = node_answer addr fs cfgs req n"
  by (simp add: rows_from_def deployed_def store_size_def node_answer_def all_trips_rows node_rows_store [OF assms])

lemma deployed_size:
  assumes "distinct (nc_assignedFiles (config_of cfgs n))"
  shows "store_size (deployed addr fs cfgs) n = length (node_rows (fs (addr n)) (config_of cfgs n))"
  by (simp add: store_size_def deployed_def worker_rows_def row_count_def node_rows_store [OF assms])

lemma plan_nodes:
  "topology_ok T \<Longrightarrow> n \<in> tp_nodes T \<Longrightarrow> set (plan T d V n) \<subseteq> tp_nodes T"
proof (induction d arbitrary: V n)
  case (Suc d)
  then show ?case using open_children_node [OF Suc.prems] by auto
qed simp

lemma config_files:
  assumes "\<forall>c \<in> set cfgs. distinct (nc_assignedFiles c)"
  shows "distinct (nc_assignedFiles (config_of cfgs n))"
  using assms by (auto simp: config_of_def empty_NodeConfig_def find_Some_iff split: option.split)

lemma deployment_delivers:
  assumes dep: "deployment_ok addr cfgs" and files: "\<forall>c \<in> set cfgs. distinct (nc_assignedFiles c)"
    and run: "(net_step fs d)\<^sup>*\<^sup>* (started_network addr fs cfgs) N" and d: "length cfgs \<le> Suc d"
    and c: "c \<in> set cfgs" "N (addr (nc_nodeId c)) = Some co" and budget: "sq_scan_row_budget msg < 2 ^ 32"
    and sub: "SubmitQuery (net_system fs d (addr (nc_nodeId c))) (nc_nodeId c) msg co N = (reply, co1, N1)"
    and fuel: "plan_work (deployed addr fs cfgs) (Suc d) (insert (nc_nodeId c) (set (sq_visited_node_ids msg))) (nc_nodeId c) < fuel"
  shows "\<exists>rows co2 N2. fetch_labelled (net_system fs d (addr (nc_nodeId c))) fuel (sr_request_id reply) m co1 N1
      = Some (rows, co2, N2) \<and>
    mset rows = mset (concat (map (node_answer addr fs cfgs (fromProtoSubmitQueryRequest msg))
      (plan (deployed addr fs cfgs) (Suc d) (insert (nc_nodeId c) (set (sq_visited_node_ids msg))) (nc_nodeId c))))"
proof -
  let ?T = "deployed addr fs cfgs"
  have top: "topology_ok ?T" by (rule deployed_topology_ok [OF dep])
  have sel: "tp_fs ?T = fs" "tp_addr ?T = addr" by (simp_all add: deployed_def)
  have n: "nc_nodeId c \<in> tp_nodes ?T" using c(1) by (simp add: deployed_def)
  have net: "net_ok ?T N" by (rule net_run_ok [OF run top started_net_ok [OF dep]])
  have "card (tp_nodes ?T) \<le> length cfgs" by (simp add: deployed_def card_length flip: set_map) (metis card_length length_map)
  with d have deep: "card (tp_nodes ?T) \<le> Suc d" by simp
  have co: "N (tp_addr ?T (nc_nodeId c)) = Some co" using c(2) by (simp add: sel)
  have rows: "rows_from ?T req v 0 = node_answer addr fs cfgs req v" for req v
    by (rule deployed_rows [OF config_files [OF files]])
  show ?thesis
    using query_delivers [OF top n net co budget _ deep, of reply co1 N1, unfolded sel, OF sub fuel]
    by (simp add: plan_rows_def rows del: plan.simps)
qed

end
