(* ===== verification/Cxx_Numbers.thy ===== *)
theory Cxx_Numbers
  imports Cxx_Runtime
begin

text \<open>
  What implementation A uses of the C and C++ libraries: \<open>std::stof\<close> and \<open>std::stod\<close> with their
  exceptions, double precision rounding, \<open>llround\<close>, the conversion of a \<open>float\<close> to a small integer,
  and the scanning directives of \<open>sscanf\<close>. A finite double is an exact ratio.
\<close>

section \<open>The text of a number\<close>

definition c_str :: "string \<Rightarrow> string" where
  \<comment> \<open>what a C function sees of a string: up to its first NUL\<close>
  "c_str s = takeWhile (\<lambda>c. (of_char c :: nat) \<noteq> 0) s"

datatype number_text =
  No_Number
| Infinity_Text bool
| NaN_Text
| Ratio_Text bool int int   \<comment> \<open>sign, numerator and denominator of the magnitude\<close>

definition decimal_ratio :: "string \<Rightarrow> (int \<times> int) option" where
  "decimal_ratio s =
     (case parse_mantissa is_digit s of (ip, fp, n) \<Rightarrow>
        if ip = [] \<and> fp = [] then None
        else case parse_exponent (CHR ''e'') (drop n s) of (x, k) \<Rightarrow>
          let m = dec_val 0 (ip @ fp); e = x - int (length fp)
          in Some (if 0 \<le> e then m * 10 ^ nat e else m, if 0 \<le> e then 1 else 10 ^ nat (- e)))"

definition hex_ratio :: "string \<Rightarrow> (int \<times> int) option" where
  "hex_ratio s =
     (case parse_mantissa is_hex_digit s of (ip, fp, n) \<Rightarrow>
        if ip = [] \<and> fp = [] then None
        else case parse_exponent (CHR ''p'') (drop n s) of (x, k) \<Rightarrow>
          let m = hex_acc 0 (ip @ fp); e = x - 4 * int (length fp)
          in Some (if 0 \<le> e then m * 2 ^ nat e else m, if 0 \<le> e then 1 else 2 ^ nat (- e)))"

definition number_text :: "string \<Rightarrow> number_text" where
  \<comment> \<open>the longest number at the start of the text, after blanks\<close>
  "number_text s =
     (let t = dropWhile is_space s;
          signed = (t \<noteq> [] \<and> (hd t = CHR ''+'' \<or> hd t = CHR ''-''));
          neg = (signed \<and> hd t = CHR ''-'');
          u = (if signed then tl t else t)
      in if starts_nocase ''inf'' u then Infinity_Text neg
         else if starts_nocase ''nan'' u then NaN_Text
         else case (if starts_nocase ''0x'' u then hex_ratio (drop 2 u) else None) of
             Some (n, d) \<Rightarrow> Ratio_Text neg n d
           | None \<Rightarrow>
             (case decimal_ratio u of Some (n, d) \<Rightarrow> Ratio_Text neg n d | None \<Rightarrow> No_Number))"

section \<open>std::stof\<close>

definition f32_out_of_range :: "int \<Rightarrow> int \<Rightarrow> bool" where
  \<comment> \<open>\<open>ERANGE\<close>: an overflow, or a result below the normal range that is not exact\<close>
  "f32_out_of_range n d =
     (let m = f32_magnitude n d
      in 2139095040 \<le> m \<or> (m < 8388608 \<and> m * d \<noteq> n * 2 ^ 149))"

definition stof :: "string \<Rightarrow> f32 option" where
  \<comment> \<open>\<open>None\<close> for an exception\<close>
  "stof s =
     (case number_text (c_str s) of
        No_Number \<Rightarrow> None
      | Infinity_Text neg \<Rightarrow> Some (f32_make neg 2139095040)
      | NaN_Text \<Rightarrow> Some (f32_make False 2143289344)
      | Ratio_Text neg n d \<Rightarrow>
          if f32_out_of_range n d then None else Some (f32_make neg (f32_magnitude n d)))"

definition f32_trunc :: "f32 \<Rightarrow> int option" where
  \<comment> \<open>towards zero; \<open>None\<close> for a NaN or an infinity\<close>
  "f32_trunc w =
     (let m = uint w mod 2 ^ 31; e = m div 2 ^ 23; f = m mod 2 ^ 23;
          v = (if e = 0 then 0
               else if 150 \<le> e then (2 ^ 23 + f) * 2 ^ nat (e - 150)
               else (2 ^ 23 + f) div 2 ^ nat (150 - e))
      in if e = 255 then None else Some (if uint w < 2 ^ 31 then v else - v))"

definition f32_to_int16 :: "f32 \<Rightarrow> int" where
  \<comment> \<open>the cast is undefined outside the target's range; the compiled code converts to 32 bits (0x80000000
      when that fails) and keeps the low 16\<close>
  "f32_to_int16 w =
     (case f32_trunc w of
        None \<Rightarrow> 0
      | Some v \<Rightarrow> if - (2 ^ 31) \<le> v \<and> v < 2 ^ 31 then to_signed 16 v else 0)"

section \<open>std::stod and llround\<close>

datatype f64 =
  F64_NaN
| F64_Inf bool
| F64 bool int int   \<comment> \<open>sign, numerator and denominator\<close>

definition f64_nearest :: "int \<Rightarrow> int \<Rightarrow> (int \<times> int) option" where
  \<comment> \<open>the double nearest to \<open>n / d\<close>, ties to even; \<open>None\<close> for an overflow\<close>
  "f64_nearest n d =
     (if n = 0 then Some (0, 1)
      else let e = max (- 1074) (f32_floor_log n d - 52);
               num = (if 0 \<le> e then n else n * 2 ^ nat (- e));
               den = (if 0 \<le> e then d * 2 ^ nat e else d);
               q = num div den;
               r = num mod den;
               q' = (if den < 2 * r \<or> (2 * r = den \<and> odd q) then q + 1 else q)
           in if 0 \<le> e then (if 2 ^ 1024 \<le> q' * 2 ^ nat e then None else Some (q' * 2 ^ nat e, 1))
              else Some (q', 2 ^ nat (- e)))"

definition stod :: "string \<Rightarrow> f64 option" where
  "stod s =
     (case number_text (c_str s) of
        No_Number \<Rightarrow> None
      | Infinity_Text neg \<Rightarrow> Some (F64_Inf neg)
      | NaN_Text \<Rightarrow> Some F64_NaN
      | Ratio_Text neg n d \<Rightarrow>
          (case f64_nearest n d of
             None \<Rightarrow> None
           | Some (p, q) \<Rightarrow>
               if p * 2 ^ 1022 < q \<and> p * d \<noteq> n * q then None else Some (F64 neg p q)))"

definition f64_scale :: "f64 \<Rightarrow> int \<Rightarrow> f64" where
  \<comment> \<open>multiplication by a small positive integer, which is exact as a double\<close>
  "f64_scale v k =
     (case v of
        F64 neg n d \<Rightarrow> (case f64_nearest (n * k) d of None \<Rightarrow> F64_Inf neg | Some (p, q) \<Rightarrow> F64 neg p q)
      | _ \<Rightarrow> v)"

definition llround :: "f64 \<Rightarrow> int" where
  \<comment> \<open>halves away from zero; unrepresentable values give the smallest \<open>long long\<close>\<close>
  "llround v =
     (case v of
        F64 neg n d \<Rightarrow>
          let r = (2 * n + d) div (2 * d); i = (if neg then - r else r)
          in if - (2 ^ 63) \<le> i \<and> i < 2 ^ 63 then i else - (2 ^ 63)
      | _ \<Rightarrow> - (2 ^ 63))"

section \<open>sscanf\<close>

definition scan_int :: "string \<Rightarrow> (int \<times> string) option" where
  \<comment> \<open>\<open>%d\<close>: blanks, a sign, digits; a value outside \<open>int\<close> is what \<open>strtol\<close> leaves in its low half\<close>
  "scan_int s =
     (let t = dropWhile is_space s;
          signed = (t \<noteq> [] \<and> (hd t = CHR ''+'' \<or> hd t = CHR ''-''));
          u = (if signed then tl t else t);
          ds = takeWhile is_digit u;
          v = (if signed \<and> hd t = CHR ''-'' then - dec_val 0 ds else dec_val 0 ds)
      in if ds = [] then None
         else Some (to_signed 32 (max (- (2 ^ 63)) (min (2 ^ 63 - 1) v)), dropWhile is_digit u))"

definition scan_word :: "nat \<Rightarrow> string \<Rightarrow> (string \<times> string) option" where
  \<comment> \<open>\<open>%ks\<close>: blanks, then up to \<open>k\<close> characters that are not blank\<close>
  "scan_word k s =
     (let t = dropWhile is_space s; w = take k (takeWhile (\<lambda>c. \<not> is_space c) t)
      in if w = [] then None else Some (w, drop (length w) t))"

definition scan_colon :: "string \<Rightarrow> string option" where
  "scan_colon s = (if s \<noteq> [] \<and> hd s = CHR '':'' then Some (tl s) else None)"

end
