(* ===== verification/Query_Client.thy ===== *)
theory Query_Client
  imports Query_Proto Node_Config Cxx_Numbers
begin

text \<open>
  The command line client (\<open>src/basic/src/client/query_client.cc\<close>): its options, the checks between
  them, the message it builds and the one call it makes. The stub is a parameter; what is printed is kept
  as the reply it is printed from, the labels around the values are left out. Every exception ends in the
  same exit code, so its text is left out too.
\<close>

section \<open>Numbers on the command line\<close>

definition sto_signed :: "nat \<Rightarrow> string \<Rightarrow> config_error + int" where
  \<comment> \<open>\<open>std::stoi\<close> and \<open>std::stoll\<close> by the width of their result, base 10\<close>
  "sto_signed w s =
     (let t = dropWhile is_space s;
          signed = (t \<noteq> [] \<and> (hd t = CHR ''+'' \<or> hd t = CHR ''-''));
          ds = takeWhile is_digit (if signed then tl t else t);
          v = (if signed \<and> hd t = CHR ''-'' then - dec_val 0 ds else dec_val 0 ds)
      in if ds = [] then Inl Invalid_argument
         else if v < - (2 ^ (w - 1)) \<or> 2 ^ (w - 1) \<le> v then Inl Out_of_range
         else Inr v)"

definition show_int :: "int \<Rightarrow> string" where
  "show_int i = (if i < 0 then CHR ''-'' # show_nat (nat (- i)) else show_nat (nat i))"

section \<open>Options\<close>

record query_options =
  \<comment> \<open>the variables of \<open>main\<close>; a bound with its \<open>has\<close> flag is an option\<close>
  qo_target :: string
  qo_doSubmit :: bool
  qo_doFetch :: bool
  qo_doCancel :: bool
  qo_submitReq :: QueryRequest
  qo_requestId :: string
  qo_maxRows :: nat
  qo_distanceLo :: "f32 option"
  qo_distanceHi :: "f32 option"
  qo_totalLo :: "int option"
  qo_totalHi :: "int option"
  qo_pickupLo :: "int option"
  qo_pickupHi :: "int option"

definition new_query_options :: query_options where
  "new_query_options = \<lparr> qo_target = [], qo_doSubmit = False, qo_doFetch = False, qo_doCancel = False,
     qo_submitReq = new_QueryRequest [] Execute, qo_requestId = [], qo_maxRows = 64,
     qo_distanceLo = None, qo_distanceHi = None, qo_totalLo = None, qo_totalHi = None,
     qo_pickupLo = None, qo_pickupHi = None \<rparr>"

datatype 'a arg_step =
  Took 'a
| Throws
| Unknown_Arg

definition took :: "(config_error + 'b) \<Rightarrow> ('b \<Rightarrow> 'a) \<Rightarrow> 'a arg_step" where
  "took r f = (case r of Inl _ \<Rightarrow> Throws | Inr v \<Rightarrow> Took (f v))"

definition stof_arg :: "string \<Rightarrow> config_error + f32" where
  "stof_arg s = (case stof s of None \<Rightarrow> Inl Invalid_argument | Some v \<Rightarrow> Inr v)"

definition query_flag :: "string \<Rightarrow> query_options \<Rightarrow> query_options option" where
  "query_flag arg c =
     (if arg = ''--submit'' then Some (c\<lparr>qo_doSubmit := True\<rparr>)
      else if arg = ''--fetch'' then Some (c\<lparr>qo_doFetch := True\<rparr>)
      else if arg = ''--cancel'' then Some (c\<lparr>qo_doCancel := True\<rparr>)
      else None)"

definition query_value :: "string \<Rightarrow> string \<Rightarrow> query_options \<Rightarrow> query_options arg_step" where
  "query_value arg v c =
     (if arg = ''--target'' then Took (c\<lparr>qo_target := v\<rparr>)
      else if arg = ''--request-id'' then Took (c\<lparr>qo_requestId := v\<rparr>)
      else if arg = ''--max-rows'' then took (stoul32 v) (\<lambda>n. c\<lparr>qo_maxRows := n\<rparr>)
      else if arg = ''--chunk-size'' then
        took (stoul32 v) (\<lambda>n. c\<lparr>qo_submitReq := (qo_submitReq c)\<lparr>qq_chunkSize := n\<rparr>\<rparr>)
      else if arg = ''--payment-type'' then
        took (sto_signed 32 v) (\<lambda>i. c\<lparr>qo_submitReq := (qo_submitReq c)\<lparr>qq_paymentType := Some i\<rparr>\<rparr>)
      else if arg = ''--distance-lo'' then took (stof_arg v) (\<lambda>x. c\<lparr>qo_distanceLo := Some x\<rparr>)
      else if arg = ''--distance-hi'' then took (stof_arg v) (\<lambda>x. c\<lparr>qo_distanceHi := Some x\<rparr>)
      else if arg = ''--total-lo'' then took (sto_signed 32 v) (\<lambda>i. c\<lparr>qo_totalLo := Some i\<rparr>)
      else if arg = ''--total-hi'' then took (sto_signed 32 v) (\<lambda>i. c\<lparr>qo_totalHi := Some i\<rparr>)
      else if arg = ''--pickup-lo'' then took (sto_signed 64 v) (\<lambda>i. c\<lparr>qo_pickupLo := Some i\<rparr>)
      else if arg = ''--pickup-hi'' then took (sto_signed 64 v) (\<lambda>i. c\<lparr>qo_pickupHi := Some i\<rparr>)
      else Unknown_Arg)"

fun query_args :: "string list \<Rightarrow> query_options \<Rightarrow> query_options arg_step" where
  "query_args [] c = Took c"
| "query_args (arg # rest) c =
     (case query_flag arg c of
        Some c \<Rightarrow> query_args rest c
      | None \<Rightarrow>
          (case rest of
             [] \<Rightarrow> Unknown_Arg
           | v # rest \<Rightarrow> (case query_value arg v c of Took c \<Rightarrow> query_args rest c | r \<Rightarrow> r)))"

section \<open>The program\<close>

record 'e query_stub =
  qs_NewStub :: "string \<Rightarrow> bool"
  qs_SubmitQuery :: "string \<Rightarrow> SubmitQueryRequest \<Rightarrow> 'e \<Rightarrow> (string + SubmitReply) \<times> 'e"
  qs_FetchChunk :: "string \<Rightarrow> FetchRequest \<Rightarrow> 'e \<Rightarrow> (string + FetchReply) \<times> 'e"
  qs_CancelQuery :: "string \<Rightarrow> string \<Rightarrow> 'e \<Rightarrow> (string + CancelReply) \<times> 'e"

datatype query_output =
  Usage
| Message string
| Fatal
| Submitted SubmitReply
| Fetched FetchReply
| Cancelled_Reply CancelReply

definition options_message :: "query_options \<Rightarrow> string option" where
  \<comment> \<open>the complaint about a range with one bound\<close>
  "options_message c =
     (if (qo_distanceLo c = None) \<noteq> (qo_distanceHi c = None)
      then Some ''distance range requires both --distance-lo and --distance-hi''
      else if (qo_totalLo c = None) \<noteq> (qo_totalHi c = None)
      then Some ''total range requires both --total-lo and --total-hi''
      else if (qo_pickupLo c = None) \<noteq> (qo_pickupHi c = None)
      then Some ''pickup range requires both --pickup-lo and --pickup-hi''
      else None)"

definition both_bounds :: "'a option \<Rightarrow> 'a option \<Rightarrow> 'a Range option" where
  "both_bounds lo hi =
     (case (lo, hi) of (Some l, Some h) \<Rightarrow> Some \<lparr> range_lo = l, range_hi = h \<rparr> | _ \<Rightarrow> None)"

definition or_else :: "'a option \<Rightarrow> 'a option \<Rightarrow> 'a option" where
  "or_else a b = (case a of Some _ \<Rightarrow> a | None \<Rightarrow> b)"

definition options_request :: "query_options \<Rightarrow> QueryRequest" where
  "options_request c =
     (let q = qo_submitReq c;
          q = q\<lparr>qq_tripDistanceRange := or_else (both_bounds (qo_distanceLo c) (qo_distanceHi c)) (qq_tripDistanceRange q)\<rparr>;
          q = q\<lparr>qq_totalAmountRange := or_else (both_bounds (qo_totalLo c) (qo_totalHi c)) (qq_totalAmountRange q)\<rparr>;
          q = q\<lparr>qq_pickupRange := or_else (both_bounds (qo_pickupLo c) (qo_pickupHi c)) (qq_pickupRange q)\<rparr>
      in if qq_chunkSize q = 0 then q\<lparr>qq_chunkSize := 64\<rparr> else q)"

definition client_message_of :: "QueryRequest \<Rightarrow> SubmitQueryRequest" where
  "client_message_of q = \<lparr> sq_filter = \<lparr> pf_pickup_range = qq_pickupRange q, pf_dropoff_range = qq_dropoffRange q,
       pf_distance_range = qq_tripDistanceRange q, pf_total_cents_range = qq_totalAmountRange q,
       pf_tip_cents_range = qq_tipAmountRange q, pf_payment_type = qq_paymentType q \<rparr>,
     sq_preferred_chunk_size = qq_chunkSize q mod 2 ^ 32, sq_client_tag = [], sq_visited_node_ids = [],
     sq_scan_row_budget = 0 \<rparr>"

definition query_call :: "'e query_stub \<Rightarrow> query_options \<Rightarrow> 'e \<Rightarrow> nat \<times> query_output \<times> 'e" where
  \<comment> \<open>\<open>main\<close> from the options on: exit code and output\<close>
  "query_call ops c e =
     (let a = qo_target c in
      if a = [] then (1, Usage, e)
      else case options_message c of Some m \<Rightarrow> (2, Message m, e) | None \<Rightarrow>
        if \<not> qs_NewStub ops a then (3, Message ''Failed to create stub'', e)
        else if qo_doSubmit c then
          (case qs_SubmitQuery ops a (client_message_of (options_request c)) e of
             (Inl err, e) \<Rightarrow> (4, Message (''SubmitQuery failed: '' @ err), e)
           | (Inr r, e) \<Rightarrow> (0, Submitted r, e))
        else if qo_doFetch c then
          (if qo_requestId c = [] then (5, Message ''--fetch requires --request-id'', e)
           else case qs_FetchChunk ops a \<lparr> fq_request_id = qo_requestId c, fq_max_rows = qo_maxRows c \<rparr> e of
             (Inl err, e) \<Rightarrow> (6, Message (''FetchChunk failed: '' @ err), e)
           | (Inr r, e) \<Rightarrow> (0, Fetched r, e))
        else if qo_doCancel c then
          (if qo_requestId c = [] then (7, Message ''--cancel requires --request-id'', e)
           else case qs_CancelQuery ops a (qo_requestId c) e of
             (Inl err, e) \<Rightarrow> (8, Message (''CancelQuery failed: '' @ err), e)
           | (Inr r, e) \<Rightarrow> (0, Cancelled_Reply r, e))
        else (1, Usage, e))"

definition query_client :: "'e query_stub \<Rightarrow> string list \<Rightarrow> 'e \<Rightarrow> nat \<times> query_output \<times> 'e" where
  \<comment> \<open>\<open>main\<close> with the arguments after the program's name\<close>
  "query_client ops args e =
     (case query_args args new_query_options of
        Unknown_Arg \<Rightarrow> (1, Usage, e)
      | Throws \<Rightarrow> (10, Fatal, e)
      | Took c \<Rightarrow> query_call ops c e)"

section \<open>Facts\<close>

lemma show_nat_first: "\<exists>c cs. show_nat n = c # cs \<and> is_digit c"
  using show_nat_digits [of n] show_nat_nonempty [of n] by (cases "show_nat n") auto

lemma digit_no_blank: "is_digit c \<Longrightarrow> \<not> is_space c \<and> c \<noteq> CHR ''+'' \<and> c \<noteq> CHR ''-''"
  by (auto simp: is_digit_def is_space_def)

lemma show_nat_scanned: "takeWhile is_digit (show_nat n) = show_nat n"
  using show_nat_digits [of n] by (simp add: takeWhile_eq_all_conv list_all_iff)

lemma sto_signed_show:
  assumes "- (2 ^ (w - 1)) \<le> i" and "i < 2 ^ (w - 1)"
  shows "sto_signed w (show_int i) = Inr i"
proof (cases "i < 0")
  case True
  have "\<not> is_space (CHR ''-'')" by (simp add: is_space_def)
  with True assms show ?thesis
    by (simp add: sto_signed_def show_int_def show_nat_scanned show_nat_nonempty dec_val_show_nat Let_def)
next
  case False
  obtain c cs where s: "show_nat (nat i) = c # cs" and "is_digit c" using show_nat_first by blast
  from digit_no_blank [OF this(2)] False assms show ?thesis
    using show_nat_scanned [of "nat i"] dec_val_show_nat [of "nat i"]
    by (simp add: sto_signed_def show_int_def s Let_def split: if_splits)
qed

lemma stoul32_show: "n < 2 ^ 32 \<Longrightarrow> stoul32 (show_nat n) = Inr n"
proof -
  assume n: "n < 2 ^ 32"
  obtain c cs where s: "show_nat n = c # cs" and "is_digit c" using show_nat_first by blast
  from digit_no_blank [OF this(2)] have "stoul (show_nat n) = Inr (int n)"
    using show_nat_scanned [of n] dec_val_show_nat [of n] n by (simp add: stoul_def s Let_def)
  with n show ?thesis by (simp add: stoul32_def to_unsigned_id)
qed

section \<open>A command line for a query\<close>

definition range_args :: "string \<Rightarrow> string \<Rightarrow> ('a \<Rightarrow> string) \<Rightarrow> 'a Range option \<Rightarrow> string list" where
  "range_args lo hi out r =
     (case r of None \<Rightarrow> [] | Some r \<Rightarrow> [lo, out (range_lo r), hi, out (range_hi r)])"

definition submit_args :: "(f32 \<Rightarrow> string) \<Rightarrow> string \<Rightarrow> QueryRequest \<Rightarrow> string list" where
  \<comment> \<open>the options that ask for the filter and the chunk size of a request\<close>
  "submit_args show_f target q =
     [''--target'', target, ''--submit''] @
     range_args ''--pickup-lo'' ''--pickup-hi'' show_int (qq_pickupRange q) @
     range_args ''--distance-lo'' ''--distance-hi'' show_f (qq_tripDistanceRange q) @
     range_args ''--total-lo'' ''--total-hi'' show_int (qq_totalAmountRange q) @
     (case qq_paymentType q of None \<Rightarrow> [] | Some p \<Rightarrow> [''--payment-type'', show_int p]) @
     [''--chunk-size'', show_nat (qq_chunkSize q)]"

definition range_within :: "int \<Rightarrow> int \<Rightarrow> int Range option \<Rightarrow> bool" where
  "range_within lo hi r = (case r of None \<Rightarrow> True
     | Some r \<Rightarrow> lo \<le> range_lo r \<and> range_lo r < hi \<and> lo \<le> range_hi r \<and> range_hi r < hi)"

definition asked_ok :: "(f32 \<Rightarrow> string) \<Rightarrow> QueryRequest \<Rightarrow> bool" where
  \<comment> \<open>what the options can say: the fields of the filter they have, within their widths, and floats
      written so that they are read back\<close>
  "asked_ok show_f q \<longleftrightarrow>
     q = (new_QueryRequest [] Execute)\<lparr>qq_pickupRange := qq_pickupRange q, qq_tripDistanceRange := qq_tripDistanceRange q,
           qq_totalAmountRange := qq_totalAmountRange q, qq_paymentType := qq_paymentType q,
           qq_chunkSize := qq_chunkSize q\<rparr> \<and>
     qq_chunkSize q < 2 ^ 32 \<and> range_within (- (2 ^ 63)) (2 ^ 63) (qq_pickupRange q) \<and>
     range_within (- (2 ^ 31)) (2 ^ 31) (qq_totalAmountRange q) \<and>
     (case qq_paymentType q of None \<Rightarrow> True | Some p \<Rightarrow> - (2 ^ 31) \<le> p \<and> p < 2 ^ 31) \<and>
     (case qq_tripDistanceRange q of None \<Rightarrow> True
      | Some r \<Rightarrow> stof (show_f (range_lo r)) = Some (range_lo r) \<and> stof (show_f (range_hi r)) = Some (range_hi r))"

lemma query_args_value:
  "query_flag arg c = None \<Longrightarrow> query_value arg v c = Took c' \<Longrightarrow> query_args (arg # v # rest) c = query_args rest c'"
  by simp

lemma query_args_pickup:
  assumes "range_within (- (2 ^ 63)) (2 ^ 63) r"
  shows "query_args (range_args ''--pickup-lo'' ''--pickup-hi'' show_int r @ rest) c =
    query_args rest (case r of None \<Rightarrow> c
      | Some r \<Rightarrow> c\<lparr>qo_pickupLo := Some (range_lo r), qo_pickupHi := Some (range_hi r)\<rparr>)"
  using assms
  by (cases r) (simp_all add: range_args_def range_within_def query_flag_def query_value_def took_def sto_signed_show)

lemma query_args_total:
  assumes "range_within (- (2 ^ 31)) (2 ^ 31) r"
  shows "query_args (range_args ''--total-lo'' ''--total-hi'' show_int r @ rest) c =
    query_args rest (case r of None \<Rightarrow> c
      | Some r \<Rightarrow> c\<lparr>qo_totalLo := Some (range_lo r), qo_totalHi := Some (range_hi r)\<rparr>)"
  using assms
  by (cases r) (simp_all add: range_args_def range_within_def query_flag_def query_value_def took_def sto_signed_show)

lemma query_args_distance:
  assumes "case r of None \<Rightarrow> True
    | Some r \<Rightarrow> stof (show_f (range_lo r)) = Some (range_lo r) \<and> stof (show_f (range_hi r)) = Some (range_hi r)"
  shows "query_args (range_args ''--distance-lo'' ''--distance-hi'' show_f r @ rest) c =
    query_args rest (case r of None \<Rightarrow> c
      | Some r \<Rightarrow> c\<lparr>qo_distanceLo := Some (range_lo r), qo_distanceHi := Some (range_hi r)\<rparr>)"
  using assms
  by (cases r) (simp_all add: range_args_def query_flag_def query_value_def took_def stof_arg_def)

lemma query_args_payment:
  assumes "case p of None \<Rightarrow> True | Some p \<Rightarrow> - (2 ^ 31) \<le> p \<and> p < 2 ^ 31"
  shows "query_args ((case p of None \<Rightarrow> [] | Some p \<Rightarrow> [''--payment-type'', show_int p]) @ rest) c =
    query_args rest (case p of None \<Rightarrow> c
      | Some p \<Rightarrow> c\<lparr>qo_submitReq := (qo_submitReq c)\<lparr>qq_paymentType := Some p\<rparr>\<rparr>)"
  using assms
  by (cases p) (simp_all add: query_flag_def query_value_def took_def sto_signed_show)

lemma both_bounds_map:
  "or_else (both_bounds (map_option range_lo r) (map_option range_hi r)) None = (r :: 'a Range option)"
  by (cases r) (simp_all add: both_bounds_def or_else_def)

lemma query_args_last:
  "n < 2 ^ 32 \<Longrightarrow> query_args [''--chunk-size'', show_nat n] c =
     Took (c\<lparr>qo_submitReq := (qo_submitReq c)\<lparr>qq_chunkSize := n\<rparr>\<rparr>)"
  by (simp add: query_flag_def query_value_def took_def stoul32_show)

lemma submit_args_read:
  assumes "asked_ok show_f q"
  obtains c where "query_args (submit_args show_f target q) new_query_options = Took c"
    and "qo_target c = target" and "qo_doSubmit c" and "options_message c = None"
    and "options_request c = q\<lparr>qq_chunkSize := if qq_chunkSize q = 0 then 64 else qq_chunkSize q\<rparr>"
proof -
  define u where "u = (\<lambda>c :: query_options. case qq_pickupRange q of None \<Rightarrow> c
      | Some r \<Rightarrow> c\<lparr>qo_pickupLo := Some (range_lo r), qo_pickupHi := Some (range_hi r)\<rparr>)"
  define v where "v = (\<lambda>c :: query_options. case qq_tripDistanceRange q of None \<Rightarrow> c
      | Some r \<Rightarrow> c\<lparr>qo_distanceLo := Some (range_lo r), qo_distanceHi := Some (range_hi r)\<rparr>)"
  define w where "w = (\<lambda>c :: query_options. case qq_totalAmountRange q of None \<Rightarrow> c
      | Some r \<Rightarrow> c\<lparr>qo_totalLo := Some (range_lo r), qo_totalHi := Some (range_hi r)\<rparr>)"
  define p where "p = (\<lambda>c :: query_options. case qq_paymentType q of None \<Rightarrow> c
      | Some p \<Rightarrow> c\<lparr>qo_submitReq := (qo_submitReq c)\<lparr>qq_paymentType := Some p\<rparr>\<rparr>)"
  let ?init = "new_query_options\<lparr>qo_target := target, qo_doSubmit := True\<rparr>"
  let ?c = "p (w (v (u ?init)))"
  let ?e = "?c\<lparr>qo_submitReq := (qo_submitReq ?c)\<lparr>qq_chunkSize := qq_chunkSize q\<rparr>\<rparr>"
  have ok: "qq_chunkSize q < 2 ^ 32" "range_within (- (2 ^ 63)) (2 ^ 63) (qq_pickupRange q)"
    "range_within (- (2 ^ 31)) (2 ^ 31) (qq_totalAmountRange q)"
    "case qq_paymentType q of None \<Rightarrow> True | Some p \<Rightarrow> - (2 ^ 31) \<le> p \<and> p < 2 ^ 31"
    "case qq_tripDistanceRange q of None \<Rightarrow> True
      | Some r \<Rightarrow> stof (show_f (range_lo r)) = Some (range_lo r) \<and> stof (show_f (range_hi r)) = Some (range_hi r)"
    and shape: "(new_QueryRequest [] Execute)\<lparr>qq_pickupRange := qq_pickupRange q, qq_tripDistanceRange := qq_tripDistanceRange q,
           qq_totalAmountRange := qq_totalAmountRange q, qq_paymentType := qq_paymentType q,
           qq_chunkSize := qq_chunkSize q\<rparr> = q"
    using assms by (simp_all add: asked_ok_def)
  have start: "query_args (''--target'' # target # ''--submit'' # rest) new_query_options = query_args rest ?init" for rest
    by (simp add: query_flag_def query_value_def)
  have pickup: "query_args (range_args ''--pickup-lo'' ''--pickup-hi'' show_int (qq_pickupRange q) @ rest) c =
      query_args rest (u c)" for rest c
    using query_args_pickup [OF ok(2)] by (simp add: u_def)
  have distance: "query_args (range_args ''--distance-lo'' ''--distance-hi'' show_f (qq_tripDistanceRange q) @ rest) c =
      query_args rest (v c)" for rest c
    using query_args_distance [OF ok(5)] by (simp add: v_def)
  have money: "query_args (range_args ''--total-lo'' ''--total-hi'' show_int (qq_totalAmountRange q) @ rest) c =
      query_args rest (w c)" for rest c
    using query_args_total [OF ok(3)] by (simp add: w_def)
  have payment: "query_args ((case qq_paymentType q of None \<Rightarrow> [] | Some p \<Rightarrow> [''--payment-type'', show_int p]) @ rest) c =
      query_args rest (p c)" for rest c
    using query_args_payment [OF ok(4)] by (simp add: p_def)
  have "query_args (submit_args show_f target q) new_query_options = Took ?e"
    unfolding submit_args_def append_Cons append_Nil start pickup distance money payment query_args_last [OF ok(1)] ..
  moreover have "qo_target ?e = target" "qo_doSubmit ?e"
    by (simp_all add: u_def v_def w_def p_def split: option.split)
  moreover have bounds: "qo_pickupLo ?e = map_option range_lo (qq_pickupRange q)" "qo_pickupHi ?e = map_option range_hi (qq_pickupRange q)"
    "qo_distanceLo ?e = map_option range_lo (qq_tripDistanceRange q)" "qo_distanceHi ?e = map_option range_hi (qq_tripDistanceRange q)"
    "qo_totalLo ?e = map_option range_lo (qq_totalAmountRange q)" "qo_totalHi ?e = map_option range_hi (qq_totalAmountRange q)"
    by (simp_all add: u_def v_def w_def p_def new_query_options_def split: option.split)
  moreover have sub: "qo_submitReq ?e = (new_QueryRequest [] Execute)\<lparr>qq_paymentType := qq_paymentType q, qq_chunkSize := qq_chunkSize q\<rparr>"
    by (simp add: u_def v_def w_def p_def new_query_options_def new_QueryRequest_def split: option.split)
  moreover have "options_request ?e =
      ((new_QueryRequest [] Execute)\<lparr>qq_pickupRange := qq_pickupRange q, qq_tripDistanceRange := qq_tripDistanceRange q,
           qq_totalAmountRange := qq_totalAmountRange q, qq_paymentType := qq_paymentType q,
           qq_chunkSize := qq_chunkSize q\<rparr>)\<lparr>qq_chunkSize := if qq_chunkSize q = 0 then 64 else qq_chunkSize q\<rparr>"
    unfolding options_request_def Let_def sub bounds by (simp add: both_bounds_map new_QueryRequest_def)
  ultimately show thesis
    unfolding shape by (intro that [of ?e]) (simp_all add: options_message_def)
qed

section \<open>What a run may send\<close>

definition fits32 :: "int option \<Rightarrow> bool" where
  "fits32 x = (case x of None \<Rightarrow> True | Some v \<Rightarrow> - (2 ^ 31) \<le> v \<and> v < 2 ^ 31)"

definition fits64 :: "int option \<Rightarrow> bool" where
  "fits64 x = (case x of None \<Rightarrow> True | Some v \<Rightarrow> - (2 ^ 63) \<le> v \<and> v < 2 ^ 63)"

definition options_ok :: "query_options \<Rightarrow> bool" where
  "options_ok c \<longleftrightarrow> qo_maxRows c < 2 ^ 32 \<and> qq_chunkSize (qo_submitReq c) < 2 ^ 32 \<and>
     qq_pickupRange (qo_submitReq c) = None \<and> qq_dropoffRange (qo_submitReq c) = None \<and>
     qq_tripDistanceRange (qo_submitReq c) = None \<and> qq_totalAmountRange (qo_submitReq c) = None \<and>
     qq_tipAmountRange (qo_submitReq c) = None \<and> fits32 (qq_paymentType (qo_submitReq c)) \<and> fits32 (qo_totalLo c) \<and> fits32 (qo_totalHi c) \<and>
     fits64 (qo_pickupLo c) \<and> fits64 (qo_pickupHi c)"

definition message_ok :: "SubmitQueryRequest \<Rightarrow> bool" where
  \<comment> \<open>within the widths of the message, with at least one row per chunk\<close>
  "message_ok m \<longleftrightarrow> 0 < sq_preferred_chunk_size m \<and> sq_preferred_chunk_size m < 2 ^ 32 \<and>
     sq_client_tag m = [] \<and> sq_visited_node_ids m = [] \<and> sq_scan_row_budget m = 0 \<and>
     range_within (- (2 ^ 63)) (2 ^ 63) (pf_pickup_range (sq_filter m)) \<and>
     range_within (- (2 ^ 31)) (2 ^ 31) (pf_total_cents_range (sq_filter m)) \<and>
     fits32 (pf_payment_type (sq_filter m)) \<and>
     pf_dropoff_range (sq_filter m) = None \<and> pf_tip_cents_range (sq_filter m) = None"

lemma sto_signed_range: "sto_signed w s = Inr v \<Longrightarrow> - (2 ^ (w - 1)) \<le> v \<and> v < 2 ^ (w - 1)"
  by (auto simp: sto_signed_def Let_def split: if_splits)

lemma took_Took: "took r f = Took c \<longleftrightarrow> (\<exists>v. r = Inr v \<and> c = f v)"
  by (auto simp: took_def split: sum.split)

lemma query_flag_ok: "query_flag arg c = Some c' \<Longrightarrow> options_ok c \<Longrightarrow> options_ok c'"
  by (auto simp: query_flag_def options_ok_def split: if_splits)

lemma query_value_ok:
  assumes "query_value arg v c = Took c'" and "options_ok c"
  shows "options_ok c'"
  using assms sto_signed_range [of 32 v] sto_signed_range [of 64 v] stoul32_range [of v]
  by (auto simp: query_value_def options_ok_def took_Took fits32_def fits64_def split: if_splits)

lemma query_args_ok: "query_args args c = Took c' \<Longrightarrow> options_ok c \<Longrightarrow> options_ok c'"
proof (induction args c rule: query_args.induct)
  case (2 arg rest c)
  show ?case
  proof (cases "query_flag arg c")
    case (Some b)
    then show ?thesis using 2 query_flag_ok [OF Some] by simp
  next
    case None
    then obtain v rest' b where "rest = v # rest'" and b: "query_value arg v c = Took b"
      using 2(3) by (auto split: list.splits arg_step.splits)
    then show ?thesis using 2 None query_value_ok [OF b] by simp
  qed
qed simp

lemma options_message_ok:
  assumes "options_ok c"
  shows "message_ok (client_message_of (options_request c))"
proof -
  have "range_within (- (2 ^ 63)) (2 ^ 63) (or_else (both_bounds (qo_pickupLo c) (qo_pickupHi c)) None)"
    "range_within (- (2 ^ 31)) (2 ^ 31) (or_else (both_bounds (qo_totalLo c) (qo_totalHi c)) None)"
    using assms
    by (auto simp: options_ok_def range_within_def or_else_def both_bounds_def fits32_def fits64_def split: option.splits)
  then show ?thesis
    using assms by (simp add: message_ok_def client_message_of_def options_request_def options_ok_def Let_def)
qed

end
