(* ===== verification/Client_Delivery.thy ===== *)
theory Client_Delivery
  imports Deployment Query_Client
begin

text \<open>
  The command line client against a network of nodes: one run submits a query, further runs fetch until
  the printed reply says done. What is printed are the rows the network owes for the query, each as its
  message row.
\<close>

definition net_stub :: "(string \<Rightarrow> file_system) \<Rightarrow> nat \<Rightarrow> network query_stub" where
  \<comment> \<open>the stub by which a client runs the handlers of the node at an address\<close>
  "net_stub fs d = \<lparr> qs_NewStub = (\<lambda>_. True),
     qs_SubmitQuery = (\<lambda>a m. on_node a (\<lambda>co. SubmitQuery (net_system fs d a) (co_selfNodeId co) m co)),
     qs_FetchChunk = (\<lambda>a m. on_node a (\<lambda>co. FetchChunk (net_system fs d a) (co_selfNodeId co) m co)),
     qs_CancelQuery = (\<lambda>a i. on_node a (\<lambda>co N.
       case CancelQuery (co_selfNodeId co) i co of (r, co) \<Rightarrow> (r, co, N))) \<rparr>"

definition fetch_args :: "string \<Rightarrow> string \<Rightarrow> nat \<Rightarrow> string list" where
  "fetch_args target i n = [''--target'', target, ''--fetch'', ''--request-id'', i, ''--max-rows'', show_nat n]"

fun fetch_session :: "'e query_stub \<Rightarrow> nat \<Rightarrow> string \<Rightarrow> string \<Rightarrow> nat \<Rightarrow> 'e \<Rightarrow> (TripRow list \<times> 'e) option" where
  \<comment> \<open>run the client with \<open>--fetch\<close> until it prints that the query is done; the rows it printed\<close>
  "fetch_session ops 0 a i n e = None"
| "fetch_session ops (Suc fuel) a i n e =
     (case query_client ops (fetch_args a i n) e of
        (_, Fetched r, e) \<Rightarrow>
          if fr_done r then Some (fr_rows r, e)
          else map_option (\<lambda>(rows, e). (fr_rows r @ rows, e)) (fetch_session ops fuel a i n e)
      | _ \<Rightarrow> None)"

lemma fetch_args_read:
  assumes "a \<noteq> []" and "i \<noteq> []" and "n < 2 ^ 32" and "qs_NewStub ops a"
  shows "query_client ops (fetch_args a i n) e =
    (case qs_FetchChunk ops a \<lparr> fq_request_id = i, fq_max_rows = n \<rparr> e of
       (Inl err, e) \<Rightarrow> (6, Message (''FetchChunk failed: '' @ err), e)
     | (Inr r, e) \<Rightarrow> (0, Fetched r, e))"
  using assms by (simp add: query_client_def fetch_args_def query_flag_def query_value_def took_def stoul32_show
      query_call_def options_message_def new_query_options_def Let_def)

lemma submit_args_sent:
  assumes "asked_ok show_f q" and "a \<noteq> []" and "qs_NewStub ops a"
  obtains m where "fromProtoSubmitQueryRequest m = q\<lparr>qq_chunkSize := if qq_chunkSize q = 0 then 64 else qq_chunkSize q\<rparr>"
    and "sq_scan_row_budget m = 0" and "sq_visited_node_ids m = []"
    and "\<And>e. query_client ops (submit_args show_f a q) e =
      (case qs_SubmitQuery ops a m e of
         (Inl err, e) \<Rightarrow> (4, Message (''SubmitQuery failed: '' @ err), e)
       | (Inr r, e) \<Rightarrow> (0, Submitted r, e))"
proof -
  let ?q = "q\<lparr>qq_chunkSize := if qq_chunkSize q = 0 then 64 else qq_chunkSize q\<rparr>"
  obtain c where c: "query_args (submit_args show_f a q) new_query_options = Took c"
    "qo_target c = a" "qo_doSubmit c" "options_message c = None" "options_request c = ?q"
    by (rule submit_args_read [OF assms(1)])
  have "query_client ops (submit_args show_f a q) e =
      (case qs_SubmitQuery ops a (client_message_of ?q) e of
         (Inl err, e) \<Rightarrow> (4, Message (''SubmitQuery failed: '' @ err), e)
       | (Inr r, e) \<Rightarrow> (0, Submitted r, e))" for e
    using assms(2,3) by (simp add: query_client_def c query_call_def Let_def)
  moreover have "fromProtoSubmitQueryRequest (client_message_of ?q) = ?q"
  proof -
    obtain pk ds tm pt n where q: "q = (new_QueryRequest [] Execute)\<lparr>qq_pickupRange := pk, qq_tripDistanceRange := ds,
        qq_totalAmountRange := tm, qq_paymentType := pt, qq_chunkSize := n\<rparr>"
      using assms(1) unfolding asked_ok_def by blast
    have "n < 2 ^ 32" "map_option range32 tm = tm" "map_option (to_signed 32) pt = pt"
      using assms(1) by (auto simp: q asked_ok_def new_QueryRequest_def range_within_def range32_def to_signed_32_id split: option.splits)
    then show ?thesis
      by (simp add: q fromProtoSubmitQueryRequest_def fromProtoFilter_def client_message_of_def Let_def new_QueryRequest_def)
  qed
  ultimately show thesis
    by (intro that [of "client_message_of ?q"]) (simp_all add: client_message_of_def)
qed

lemma working_printed:
  assumes top: "topology_ok T" "n \<in> tp_nodes T" and mx: "mx < 2 ^ 32" and wk: "working T d N n k co R w F" and "w < fuel"
    and i: "rs_queryId (state_at co k) \<noteq> []"
  shows "\<exists>rows N'. fetch_session (net_stub (tp_fs T) d) fuel (tp_addr T n) (rs_queryId (state_at co k)) mx N = Some (rows, N') \<and>
    mset rows = image_mset (case_prod toProtoTripRow) R"
  using wk \<open>w < fuel\<close> i
proof (induction fuel arbitrary: co N R w F)
  case (Suc fuel)
  let ?sys = "net_system (tp_fs T) d (tp_addr T n)" and ?i = "rs_queryId (state_at co k)"
  have node: "node_ok T n co" and k: "k < length (co_queryStates co)" by (rule working_own [OF Suc.prems(1)])+
  have N: "N (tp_addr T n) = Some co" using Suc.prems(1) by (simp add: working_def)
  obtain out co' N' R' w' F' where
    f: "fetchChunkForRpc ?sys ?i mx co (N(tp_addr T n \<mapsto> co)) = (out, co', N'(tp_addr T n \<mapsto> co))"
    and wk': "working T d N' n k co' R' w' F'" and R: "R = mset (zip (rp_trips out) (rp_sources out)) + R'"
    and len: "length (rp_sources out) = length (rp_trips out)"
    and left: "if rp_done out then R' = {#} \<and> length (rp_trips out) \<le> w else w' + max 1 (length (rp_trips out)) \<le> w"
    by (rule working_fetch [OF fetch_spec_all [OF top(1)] node _ _ Suc.prems(1), where sys = ?sys and mx = mx]) simp_all
  have N': "N' (tp_addr T n) = Some co'" using wk' by (simp add: working_def)
  let ?r = "fill_fetch_reply (co_selfNodeId co) out"
  have "tp_addr T n \<noteq> []" using top by (simp add: topology_ok_def)
  then have run: "query_client (net_stub (tp_fs T) d) (fetch_args (tp_addr T n) ?i mx) N = (0, Fetched ?r, N')"
    using fetch_args_read [OF _ Suc.prems(3) mx, of "tp_addr T n" "net_stub (tp_fs T) d" N] f
    by (simp add: net_stub_def on_node_def N FetchChunk_def fun_upd_idem N')
  have rows: "mset (fr_rows ?r) = image_mset (case_prod toProtoTripRow) (mset (zip (rp_trips out) (rp_sources out)))"
    by (simp add: fill_fetch_reply_def fill_rows_zip len)
  show ?case
  proof (cases "rp_done out")
    case True
    then show ?thesis unfolding fetch_session.simps run prod.case query_output.case
      using R left rows by (simp add: fill_fetch_reply_def)
  next
    case False
    have find: "findRequestState co ?i = Some k" by (rule find_request [OF node k])
    have "steps k co co'" using steps_fetchChunk [OF find, of ?sys mx "N(tp_addr T n \<mapsto> co)"] by (simp add: f)
    then have id: "rs_queryId (state_at co' k) = ?i" using k by (simp add: steps_def)
    have "w' < fuel" using left False Suc.prems(2) by simp
    from Suc.IH [OF wk' this, unfolded id, OF Suc.prems(3)] obtain rs N2 where
      "fetch_session (net_stub (tp_fs T) d) fuel (tp_addr T n) ?i mx N' = Some (rs, N2)"
      and "mset rs = image_mset (case_prod toProtoTripRow) R'" by blast
    moreover have "fr_done ?r = False" using False by (simp add: fill_fetch_reply_def)
    ultimately show ?thesis
      unfolding fetch_session.simps run prod.case query_output.case using R rows by simp
  qed
qed simp

end
