(* ===== verification/Visit_Plan.thy ===== *)
theory Visit_Plan
  imports Deployment
begin

text \<open>
  Which nodes one query visits: those reachable from the node it was submitted to, each once when the
  children form a tree below that node; a node that is reached from two nodes of which neither is a child
  of an ancestor of the other is visited from both.
\<close>

definition node_edges :: "topology \<Rightarrow> (node_id \<times> node_id) set" where
  "node_edges T = {(n, c). n \<in> tp_nodes T \<and> c \<in> set (tp_children T n)}"

lemma open_children_edge:
  "n \<in> tp_nodes T \<Longrightarrow> c \<in> set (open_children T V n) \<Longrightarrow> (n, c) \<in> node_edges T"
  by (simp add: node_edges_def open_children_def)

lemma plan_reachable:
  assumes "topology_ok T"
  shows "n \<in> tp_nodes T \<Longrightarrow> m \<in> set (plan T d V n) \<Longrightarrow> (n, m) \<in> (node_edges T)\<^sup>*"
proof (induction d arbitrary: V n)
  case (Suc d)
  show ?case
  proof (cases "m = n")
    case False
    with Suc.prems(2) obtain c where c: "c \<in> set (open_children T V n)" "m \<in> set (plan T d (pass_on T V n) c)" by auto
    have e: "(n, c) \<in> node_edges T" by (rule open_children_edge [OF Suc.prems(1) c(1)])
    have "c \<in> tp_nodes T" using c(1) open_children_node [OF assms Suc.prems(1)] by blast
    from Suc.IH [OF this c(2)] show ?thesis by (rule converse_rtrancl_into_rtrancl [OF e])
  qed simp
qed simp

lemma plan_root: "deep_enough T d V n \<Longrightarrow> n \<in> set (plan T d V n)"
  by (cases d) simp_all

lemma plan_closed:
  assumes "topology_ok T"
  shows "n \<in> tp_nodes T \<Longrightarrow> deep_enough T d V n \<Longrightarrow> m \<in> set (plan T d V n) \<Longrightarrow>
    set (tp_children T m) \<subseteq> V \<union> set (plan T d V n)"
proof (induction d arbitrary: V n m)
  case (Suc d)
  have deep: "deep_enough T d (pass_on T V n) c" if "c \<in> set (open_children T V n)" for c
    using Suc.prems(2) that by (simp add: list_all_iff)
  have kids: "set (tp_children T n) \<subseteq> V \<union> set (plan T (Suc d) V n)"
    using plan_root [OF deep] by (auto simp: open_children_def)
  show ?case
  proof (cases "m = n")
    case False
    with Suc.prems(3) obtain c where c: "c \<in> set (open_children T V n)" "m \<in> set (plan T d (pass_on T V n) c)" by auto
    have "c \<in> tp_nodes T" using c(1) open_children_node [OF assms Suc.prems(1)] by blast
    from Suc.IH [OF this deep [OF c(1)] c(2)]
    have "set (tp_children T m) \<subseteq> pass_on T V n \<union> set (plan T d (pass_on T V n) c)" .
    moreover have "set (plan T d (pass_on T V n) c) \<subseteq> set (plan T (Suc d) V n)" using c(1) by auto
    ultimately show ?thesis using kids by blast
  qed (use kids in simp)
qed simp

lemma plan_covers:
  assumes top: "topology_ok T" and n: "n \<in> tp_nodes T" and d: "card (tp_nodes T) \<le> d"
  shows "set (plan T d {n} n) = {m. (n, m) \<in> (node_edges T)\<^sup>*}"
proof (intro equalityI subsetI)
  show "m \<in> {m. (n, m) \<in> (node_edges T)\<^sup>*}" if "m \<in> set (plan T d {n} n)" for m
    using plan_reachable [OF top n that] by simp
  have "card (tp_nodes T - {n}) < card (tp_nodes T)"
    using top n by (intro psubset_card_mono) (auto simp: topology_ok_def)
  then have deep: "deep_enough T d {n} n" using d by (intro deep_enough_card [OF top n]) auto
  show "m \<in> set (plan T d {n} n)" if "m \<in> {m. (n, m) \<in> (node_edges T)\<^sup>*}" for m
  proof -
    from that have "(n, m) \<in> (node_edges T)\<^sup>*" by simp
    then show ?thesis
    proof (induction rule: rtrancl_induct)
      case base
      show ?case by (rule plan_root [OF deep])
    next
      case (step y z)
      have "z \<in> set (tp_children T y)" using step.hyps(2) by (simp add: node_edges_def)
      then show ?case using plan_closed [OF top n deep step.IH] plan_root [OF deep] by auto
    qed
  qed
qed

section \<open>Trees\<close>

definition tree_like :: "topology \<Rightarrow> bool" where
  "tree_like T \<longleftrightarrow> single_valued ((node_edges T)\<inverse>) \<and> acyclic (node_edges T)"

lemma tree_disjoint:
  assumes tree: "tree_like T" and "(n, a) \<in> node_edges T" "(n, b) \<in> node_edges T" "a \<noteq> b"
    and "(a, x) \<in> (node_edges T)\<^sup>*" "(b, x) \<in> (node_edges T)\<^sup>*"
  shows False
proof -
  have below: False if "(n, c) \<in> node_edges T" "(n, c') \<in> node_edges T" "c \<noteq> c'" "(c, c') \<in> (node_edges T)\<^sup>*" for c c'
  proof -
    from that(3,4) obtain p where p: "(c, p) \<in> (node_edges T)\<^sup>*" "(p, c') \<in> node_edges T"
      by (auto elim: rtranclE)
    then have "p = n" using tree that(2) by (auto simp: tree_like_def single_valued_def)
    with that(1) p(1) have "(n, n) \<in> (node_edges T)\<^sup>+" by simp
    then show False using tree by (simp add: tree_like_def acyclic_def)
  qed
  have "(x, a) \<in> ((node_edges T)\<inverse>)\<^sup>*" "(x, b) \<in> ((node_edges T)\<inverse>)\<^sup>*"
    using assms(5,6) by (simp_all add: rtrancl_converse)
  then have "(a, b) \<in> ((node_edges T)\<inverse>)\<^sup>* \<or> (b, a) \<in> ((node_edges T)\<inverse>)\<^sup>*"
    using tree by (intro single_valued_confluent) (auto simp: tree_like_def)
  then show False using below [OF assms(2,3,4)] below [OF assms(3,2)] assms(4) by (auto simp: rtrancl_converse)
qed

lemma plan_distinct:
  assumes top: "topology_ok T" and tree: "tree_like T"
  shows "n \<in> tp_nodes T \<Longrightarrow> distinct (plan T d V n)"
proof (induction d arbitrary: V n)
  case (Suc d)
  let ?p = "plan T d (pass_on T V n)" and ?cs = "open_children T V n"
  have cs: "distinct ?cs" "set ?cs \<subseteq> tp_nodes T" using open_children_node [OF top Suc.prems] by auto
  have e: "(n, c) \<in> node_edges T" if "c \<in> set ?cs" for c by (rule open_children_edge [OF Suc.prems that])
  have r: "(c, x) \<in> (node_edges T)\<^sup>*" if "c \<in> set ?cs" "x \<in> set (?p c)" for c x
    using plan_reachable [OF top _ that(2)] that(1) cs(2) by blast
  have "n \<notin> set (?p c)" if c: "c \<in> set ?cs" for c
  proof
    assume "n \<in> set (?p c)"
    with e [OF c] r [OF c] have "(n, n) \<in> (node_edges T)\<^sup>+" by (meson rtrancl_into_trancl2)
    then show False using tree by (simp add: tree_like_def acyclic_def)
  qed
  moreover have "distinct (concat (map ?p cs'))" if "distinct cs'" "set cs' \<subseteq> set ?cs" for cs'
    using that
  proof (induction cs')
    case (Cons c cs')
    have "set (?p c) \<inter> set (?p b) = {}" if "b \<in> set cs'" for b
    proof -
      have "b \<in> set ?cs" "c \<in> set ?cs" "c \<noteq> b" using Cons.prems that by auto
      then show ?thesis using tree_disjoint [OF tree e e] r by blast
    qed
    moreover have "distinct (?p c)" using Suc.IH [of c] Cons.prems(2) cs(2) by auto
    ultimately show ?case using Cons by auto
  qed simp
  ultimately show ?case using cs by auto
qed simp

section \<open>The shipped overlay and a diamond\<close>

definition neighbor :: "node_id \<Rightarrow> nat \<Rightarrow> NeighborConfig" where
  "neighbor n p = \<lparr> nb_nodeId = n, nb_host = ''127.0.0.1'', nb_port = p \<rparr>"

definition shipped_node :: "node_id \<Rightarrow> nat \<Rightarrow> NeighborConfig list \<Rightarrow> NodeConfig" where
  "shipped_node n p ns = \<lparr> nc_nodeId = n, nc_language = (if n = ''H'' then ''python'' else ''cpp''),
     nc_listenHost = ''0.0.0.0'', nc_listenPort = p, nc_neighbors = ns,
     nc_assignedFiles = [''../basic/data/shards/'' @ n @ ''/yellow_2020_'' @ n @ ''.csv''] \<rparr>"

definition shipped :: "NodeConfig list" where
  \<comment> \<open>\<open>src/basic/config/A.conf\<close> to \<open>I.conf\<close>\<close>
  "shipped =
     [shipped_node ''A'' 50051 [neighbor ''B'' 50052, neighbor ''H'' 50058, neighbor ''G'' 50057, neighbor ''I'' 50059],
      shipped_node ''B'' 50052 [neighbor ''C'' 50053, neighbor ''D'' 50054, neighbor ''E'' 50055],
      shipped_node ''C'' 50053 [],
      shipped_node ''D'' 50054 [neighbor ''E'' 50055],
      shipped_node ''E'' 50055 [neighbor ''F'' 50056, neighbor ''G'' 50057],
      shipped_node ''F'' 50056 [], shipped_node ''G'' 50057 [], shipped_node ''H'' 50058 [],
      shipped_node ''I'' 50059 []]"

definition diamond :: "NodeConfig list" where
  "diamond =
     [shipped_node ''A'' 50051 [neighbor ''B'' 50052, neighbor ''C'' 50053],
      shipped_node ''B'' 50052 [neighbor ''D'' 50054], shipped_node ''C'' 50053 [neighbor ''D'' 50054],
      shipped_node ''D'' 50054 []]"

definition config_addr :: "NodeConfig list \<Rightarrow> node_id \<Rightarrow> string" where
  "config_addr cfgs n = neighbor_address (neighbor n (nc_listenPort (config_of cfgs n)))"

lemma shipped_children:
  "tp_children (deployed addr fs shipped) n =
     (if n = ''A'' then [''B'', ''H'', ''G'', ''I''] else if n = ''B'' then [''C'', ''D'', ''E'']
      else if n = ''D'' then [''E''] else if n = ''E'' then [''F'', ''G''] else [])"
  by (simp add: deployed_def config_of_def shipped_def shipped_node_def neighbor_def empty_NodeConfig_def)

lemma shipped_plan:
  "plan (deployed addr fs shipped) 9 {''A''} ''A'' =
     [''A'', ''B'', ''C'', ''D'', ''E'', ''F'', ''H'', ''G'', ''I'']"
  by (simp add: numeral_eq_Suc open_children_def shipped_children)

lemma diamond_children:
  "tp_children (deployed addr fs diamond) n =
     (if n = ''A'' then [''B'', ''C''] else if n = ''B'' \<or> n = ''C'' then [''D''] else [])"
  by (simp add: deployed_def config_of_def diamond_def shipped_node_def neighbor_def empty_NodeConfig_def)

lemma diamond_plan:
  "plan (deployed addr fs diamond) 4 {''A''} ''A'' = [''A'', ''B'', ''D'', ''C'', ''D'']"
  by (simp add: numeral_eq_Suc open_children_def diamond_children)

lemma show_nat_eq: "show_nat a = show_nat b \<longleftrightarrow> a = b"
  using show_nat_inj by blast

lemma shipped_addr:
  "config_addr shipped n = ''127.0.0.1'' @ '':'' @ show_nat (
     if n = ''A'' then 50051 else if n = ''B'' then 50052 else if n = ''C'' then 50053 else if n = ''D'' then 50054
     else if n = ''E'' then 50055 else if n = ''F'' then 50056 else if n = ''G'' then 50057
     else if n = ''H'' then 50058 else if n = ''I'' then 50059 else 0)"
  by (simp add: config_addr_def config_of_def shipped_def shipped_node_def empty_NodeConfig_def neighbor_address_def
      neighbor_def)

lemma shipped_ids: "map nc_nodeId shipped = [''A'', ''B'', ''C'', ''D'', ''E'', ''F'', ''G'', ''H'', ''I'']"
  by (simp add: shipped_def shipped_node_def)

lemma shipped_ok: "deployment_ok (config_addr shipped) shipped"
proof -
  let ?ports = "[50051, 50052, 50053, 50054, 50055, 50056, 50057, 50058, 50059]"
  have "map (config_addr shipped) (map nc_nodeId shipped) = map (\<lambda>p. ''127.0.0.1'' @ '':'' @ show_nat p) ?ports"
    unfolding shipped_ids by (simp add: shipped_addr)
  moreover have "distinct (map (\<lambda>p. ''127.0.0.1'' @ '':'' @ show_nat p) ?ports)"
    by (rule distinct_map [THEN iffD2]) (auto simp: inj_on_def show_nat_eq)
  ultimately have "distinct (map (config_addr shipped) (map nc_nodeId shipped))" by simp
  then have inj: "inj_on (config_addr shipped) (set (map nc_nodeId shipped))" by (simp only: distinct_map)
  moreover define f where "f = config_addr shipped"
  note addr = shipped_addr [folded f_def]
  have "list_all (\<lambda>c. valid_config c \<and> f (nc_nodeId c) \<noteq> [] \<and>
      list_all (\<lambda>n. nb_nodeId n \<in> set [''A'', ''B'', ''C'', ''D'', ''E'', ''F'', ''G'', ''H'', ''I''] \<and>
         f (nb_nodeId n) = neighbor_address n) (nc_neighbors c)) shipped"
    by (simp add: addr shipped_def shipped_node_def neighbor_def valid_config_def neighbor_address_def)
  ultimately show ?thesis by (simp add: deployment_ok_def shipped_ids list_all_iff f_def)
qed

lemma diamond_ok: "deployment_ok (config_addr diamond) diamond"
  by (simp add: deployment_ok_def diamond_def shipped_node_def neighbor_def config_addr_def config_of_def
      valid_config_def neighbor_address_def show_nat_eq)

end
