(* ===== verification/Ingest.thy ===== *)
theory Ingest
  imports Model_Types
begin

text \<open>
  \<open>IngestQueue\<close> and \<open>IngestDispatcher\<close> (\<open>src/basic/src/ingest\<close>): a first-in first-out queue of
  shard assignments and the least-loaded assignment of shards to workers. The locale
  \<open>fifo\<close> is what the dispatcher relies on in a queue; it is interpreted on \<open>IngestQueue\<close>.
\<close>

section \<open>IngestQueue\<close>

record IngestQueue =
  iq_jobs :: "ShardAssignment list"

definition new_IngestQueue :: IngestQueue where
  "new_IngestQueue = \<lparr> iq_jobs = [] \<rparr>"

definition queue_empty :: "IngestQueue \<Rightarrow> bool" where
  "queue_empty q \<longleftrightarrow> iq_jobs q = []"

definition queue_size :: "IngestQueue \<Rightarrow> nat" where
  "queue_size q = length (iq_jobs q)"

definition queue_clear :: "IngestQueue \<Rightarrow> IngestQueue" where
  "queue_clear q = q\<lparr>iq_jobs := []\<rparr>"

definition push :: "ShardAssignment \<Rightarrow> IngestQueue \<Rightarrow> IngestQueue" where
  "push job q = q\<lparr>iq_jobs := iq_jobs q @ [job]\<rparr>"

definition pushAll :: "ShardAssignment list \<Rightarrow> IngestQueue \<Rightarrow> IngestQueue" where
  "pushAll jobs q = fold push jobs q"

definition popNext :: "IngestQueue \<Rightarrow> ShardAssignment option \<times> IngestQueue" where
  "popNext q = (case iq_jobs q of [] \<Rightarrow> (None, q) | job # rest \<Rightarrow> (Some job, q\<lparr>iq_jobs := rest\<rparr>))"

locale fifo =
  fixes contents :: "'q \<Rightarrow> 'a list"
    and put :: "'a \<Rightarrow> 'q \<Rightarrow> 'q"
    and get :: "'q \<Rightarrow> 'a option \<times> 'q"
  assumes contents_put: "contents (put x q) = contents q @ [x]"
    and get_None: "fst (get q) = None \<longleftrightarrow> contents q = []"
    and get_Some: "fst (get q) = Some x \<Longrightarrow> contents q = x # contents (snd (get q))"
begin

lemma contents_put_all: "contents (fold put xs q) = contents q @ xs"
  by (induction xs arbitrary: q) (simp_all add: contents_put)

lemma get_cases: "(fst (get q) = None \<and> contents q = []) \<or>
    (\<exists>x. fst (get q) = Some x \<and> contents q = x # contents (snd (get q)))"
  by (cases "fst (get q)") (auto simp: get_None dest: get_Some)

lemma get_after_put_all:
  "contents q = [] \<Longrightarrow> xs \<noteq> [] \<Longrightarrow> fst (get (fold put xs q)) = Some (hd xs)"
  using get_cases [of "fold put xs q"] by (cases xs) (auto simp: contents_put_all contents_put)

end

interpretation ingest_queue: fifo iq_jobs push popNext
  by unfold_locales (auto simp: push_def popNext_def split: list.splits)

section \<open>IngestDispatcher\<close>

record IngestDispatcher =
  id_workerNodeIds :: "node_id list"
  id_workerAssignedBytes :: "(node_id, nat) umap"
  id_workerAssignedTrips :: "(node_id, nat) umap"

definition new_IngestDispatcher :: IngestDispatcher where
  "new_IngestDispatcher = \<lparr> id_workerNodeIds = [], id_workerAssignedBytes = [], id_workerAssignedTrips = [] \<rparr>"

definition setWorkers :: "node_id list \<Rightarrow> IngestDispatcher \<Rightarrow> IngestDispatcher" where
  "setWorkers ws d = \<lparr> id_workerNodeIds = ws,
     id_workerAssignedBytes = fold (\<lambda>w. um_put w 0) ws [],
     id_workerAssignedTrips = fold (\<lambda>w. um_put w 0) ws [] \<rparr>"

definition hasWorkers :: "IngestDispatcher \<Rightarrow> bool" where
  "hasWorkers d \<longleftrightarrow> id_workerNodeIds d \<noteq> []"

definition getAssignedBytes :: "IngestDispatcher \<Rightarrow> node_id \<Rightarrow> nat" where
  "getAssignedBytes d w = (case um_find (id_workerAssignedBytes d) w of None \<Rightarrow> 0 | Some n \<Rightarrow> n)"

definition getAssignedTrips :: "IngestDispatcher \<Rightarrow> node_id \<Rightarrow> nat" where
  "getAssignedTrips d w = (case um_find (id_workerAssignedTrips d) w of None \<Rightarrow> 0 | Some n \<Rightarrow> n)"

fun select_loop :: "IngestDispatcher \<Rightarrow> node_id list \<Rightarrow> node_id \<Rightarrow> nat \<Rightarrow> nat \<Rightarrow> node_id" where
  "select_loop d [] best lowestBytes lowestTrips = best"
| "select_loop d (w # ws) best lowestBytes lowestTrips =
     (let b = getAssignedBytes d w; t = getAssignedTrips d w in
      if b < lowestBytes \<or> (b = lowestBytes \<and> t < lowestTrips)
      then select_loop d ws w b t else select_loop d ws best lowestBytes lowestTrips)"

definition selectLeastLoadedWorker :: "IngestDispatcher \<Rightarrow> node_id" where
  "selectLeastLoadedWorker d = select_loop d (id_workerNodeIds d) (hd (id_workerNodeIds d)) size_max size_max"

definition size_add :: "nat \<Rightarrow> nat \<Rightarrow> nat" where
  \<comment> \<open>\<open>+=\<close> on \<open>std::size_t\<close>: addition modulo \<open>2 ^ 64\<close>\<close>
  "size_add x y = (x + y) mod (Suc size_max)"

definition assignNext ::
  "IngestDispatcher \<Rightarrow> IngestQueue \<Rightarrow> ShardAssignment option \<times> IngestDispatcher \<times> IngestQueue"
where
  "assignNext d q =
     (if id_workerNodeIds d = [] then (None, d, q)
      else case popNext q of
        (None, q) \<Rightarrow> (None, d, q)
      | (Some shard, q) \<Rightarrow>
          let w = selectLeastLoadedWorker d;
              shard = shard\<lparr>sa_nodeId := w\<rparr>;
              (b, bs) = um_index 0 w (id_workerAssignedBytes d);
              (t, ts) = um_index 0 w (id_workerAssignedTrips d)
          in (Some shard, d\<lparr>id_workerAssignedBytes := um_put w (size_add b (sa_fileSizeBytes shard)) bs,
                            id_workerAssignedTrips := um_put w (size_add t (sa_tripCount shard)) ts\<rparr>, q))"

section \<open>Loads\<close>

text \<open>Load, ordered by bytes and then by trips: the order of the dispatcher's comparison.\<close>

datatype load = Load (load_bytes: nat) (load_trips: nat)

instantiation load :: linorder
begin

definition less_eq_load :: "load \<Rightarrow> load \<Rightarrow> bool" where
  "less_eq_load a b \<longleftrightarrow>
     load_bytes a < load_bytes b \<or> load_bytes a = load_bytes b \<and> load_trips a \<le> load_trips b"

definition less_load :: "load \<Rightarrow> load \<Rightarrow> bool" where
  "less_load a b \<longleftrightarrow>
     load_bytes a < load_bytes b \<or> load_bytes a = load_bytes b \<and> load_trips a < load_trips b"

instance
  by intro_classes (auto simp: less_eq_load_def less_load_def load.expand)

end

definition worker_load :: "IngestDispatcher \<Rightarrow> node_id \<Rightarrow> load" where
  "worker_load d w = Load (getAssignedBytes d w) (getAssignedTrips d w)"

lemma less_eq_Load: "Load b t \<le> worker_load d w \<longleftrightarrow>
    b < getAssignedBytes d w \<or> b = getAssignedBytes d w \<and> t \<le> getAssignedTrips d w"
  by (simp add: less_eq_load_def worker_load_def)

lemma select_loop_cases:
  "(select_loop d ws best b t = best \<and> (\<forall>w \<in> set ws. Load b t \<le> worker_load d w)) \<or>
   (let s = select_loop d ws best b t in
      s \<in> set ws \<and> worker_load d s < Load b t \<and> (\<forall>w \<in> set ws. worker_load d s \<le> worker_load d w))"
proof (induction ws arbitrary: best b t)
  case (Cons w ws)
  show ?case
  proof (cases "worker_load d w < Load b t")
    case True
    then have step: "select_loop d (w # ws) best b t =
        select_loop d ws w (getAssignedBytes d w) (getAssignedTrips d w)"
      by (auto simp: less_load_def worker_load_def)
    show ?thesis
      using Cons.IH [of w "getAssignedBytes d w" "getAssignedTrips d w"] True
      unfolding step worker_load_def [symmetric] Let_def
      by (auto intro: less_trans less_imp_le)
  next
    case False
    then have step: "select_loop d (w # ws) best b t = select_loop d ws best b t"
      by (auto simp: less_load_def worker_load_def)
    show ?thesis
      using Cons.IH [of best b t] False unfolding step Let_def
      by (auto simp: not_less intro: less_imp_le less_le_trans)
  qed
qed simp

definition loads_fit :: "IngestDispatcher \<Rightarrow> bool" where
  "loads_fit d \<longleftrightarrow> (\<forall>w \<in> set (id_workerNodeIds d).
     getAssignedBytes d w \<le> size_max \<and> getAssignedTrips d w \<le> size_max)"

lemma selected_least:
  assumes "id_workerNodeIds d \<noteq> []" and "loads_fit d"
  shows "selectLeastLoadedWorker d \<in> set (id_workerNodeIds d) \<and>
         (\<forall>w \<in> set (id_workerNodeIds d). worker_load d (selectLeastLoadedWorker d) \<le> worker_load d w)"
proof -
  let ?ws = "id_workerNodeIds d"
  have top: "worker_load d w \<le> Load size_max size_max" if "w \<in> set ?ws" for w
    using assms(2) that by (auto simp: loads_fit_def worker_load_def less_eq_load_def)
  have hd_in: "hd ?ws \<in> set ?ws" using assms(1) by simp
  show ?thesis
    using select_loop_cases [of d ?ws "hd ?ws" size_max size_max] hd_in top [OF hd_in]
    unfolding selectLeastLoadedWorker_def [symmetric] Let_def by (auto intro: order_trans)
qed

section \<open>Balance\<close>

lemma assigned_after:
  assumes "assignNext d q = (Some shard, d', q')"
  shows "\<exists>job. fst (popNext q) = Some job \<and> q' = snd (popNext q) \<and>
           shard = job\<lparr>sa_nodeId := selectLeastLoadedWorker d\<rparr> \<and>
           id_workerNodeIds d \<noteq> [] \<and> id_workerNodeIds d' = id_workerNodeIds d \<and>
           (\<forall>w. getAssignedBytes d' w =
              (if w = sa_nodeId shard then size_add (getAssignedBytes d w) (sa_fileSizeBytes shard)
               else getAssignedBytes d w)) \<and>
           (\<forall>w. getAssignedTrips d' w =
              (if w = sa_nodeId shard then size_add (getAssignedTrips d w) (sa_tripCount shard)
               else getAssignedTrips d w))"
proof -
  from assms obtain job where job: "popNext q = (Some job, q')" and ne: "id_workerNodeIds d \<noteq> []"
    by (auto simp: assignNext_def Let_def split: if_splits prod.splits option.splits)
  have put: "(case um_find (um_put k v (snd (um_index 0 k m))) w of None \<Rightarrow> 0 | Some n \<Rightarrow> n) =
      (if w = k then v else (case um_find m w of None \<Rightarrow> 0 | Some n \<Rightarrow> n))"
    for k w :: node_id and v :: nat and m
    by (simp add: um_index_find)
  have get: "fst (um_index 0 k m) = (case um_find m k of None \<Rightarrow> 0 | Some n \<Rightarrow> n)"
    for k :: node_id and m :: "(node_id, nat) umap"
    by (simp add: um_index_def split: option.split)
  let ?w = "selectLeastLoadedWorker d"
  have d': "d' = d\<lparr>
      id_workerAssignedBytes := um_put ?w (size_add (getAssignedBytes d ?w) (sa_fileSizeBytes job))
        (snd (um_index 0 ?w (id_workerAssignedBytes d))),
      id_workerAssignedTrips := um_put ?w (size_add (getAssignedTrips d ?w) (sa_tripCount job))
        (snd (um_index 0 ?w (id_workerAssignedTrips d)))\<rparr>"
    and shard: "shard = job\<lparr>sa_nodeId := ?w\<rparr>"
    using assms ne job
    by (auto simp: assignNext_def Let_def getAssignedBytes_def getAssignedTrips_def get [symmetric]
        split: prod.splits)
  have eqs: "getAssignedBytes d' w = (if w = ?w then
        size_add (getAssignedBytes d w) (sa_fileSizeBytes job) else getAssignedBytes d w)"
    "getAssignedTrips d' w = (if w = ?w then
        size_add (getAssignedTrips d w) (sa_tripCount job) else getAssignedTrips d w)" for w
    unfolding d' getAssignedBytes_def [of "d\<lparr>id_workerAssignedBytes := x,
        id_workerAssignedTrips := y\<rparr>" for x y] getAssignedTrips_def [of "d\<lparr>id_workerAssignedBytes := x,
        id_workerAssignedTrips := y\<rparr>" for x y] IngestDispatcher.simps put
    by (simp_all add: getAssignedBytes_def getAssignedTrips_def um_index_find)
  have "id_workerNodeIds d' = id_workerNodeIds d" unfolding d' by simp
  then show ?thesis using job ne eqs shard by simp
qed

lemma size_add_eq: "x + y \<le> size_max \<Longrightarrow> size_add x y = x + y"
  by (simp add: size_add_def)

lemma assignNext_None: "fst (assignNext d q) = None \<longleftrightarrow> id_workerNodeIds d = [] \<or> iq_jobs q = []"
  by (auto simp: assignNext_def popNext_def Let_def split: list.splits prod.splits)

text \<open>
  Assigning until the queue is empty, as a client of \<open>assignNext\<close> does (the recursion is on the
  number of shards that are still asked for).
\<close>

fun assign_times ::
  "nat \<Rightarrow> IngestDispatcher \<Rightarrow> IngestQueue \<Rightarrow> ShardAssignment list \<times> IngestDispatcher \<times> IngestQueue"
where
  "assign_times 0 d q = ([], d, q)"
| "assign_times (Suc n) d q =
     (case assignNext d q of
        (None, d, q) \<Rightarrow> ([], d, q)
      | (Some shard, d, q) \<Rightarrow>
          (case assign_times n d q of (shards, d, q) \<Rightarrow> (shard # shards, d, q)))"

definition bytes_for :: "node_id \<Rightarrow> ShardAssignment list \<Rightarrow> nat" where
  "bytes_for w shards = (\<Sum>s \<leftarrow> filter (\<lambda>s. sa_nodeId s = w) shards. sa_fileSizeBytes s)"

definition queued_bytes :: "IngestQueue \<Rightarrow> nat" where
  "queued_bytes q = (\<Sum>s \<leftarrow> iq_jobs q. sa_fileSizeBytes s)"

definition queued_trips :: "IngestQueue \<Rightarrow> nat" where
  "queued_trips q = (\<Sum>s \<leftarrow> iq_jobs q. sa_tripCount s)"

definition dispatch_ok :: "nat \<Rightarrow> IngestDispatcher \<Rightarrow> IngestQueue \<Rightarrow> bool" where
  "dispatch_ok m d q \<longleftrightarrow>
     (\<forall>w \<in> set (id_workerNodeIds d).
        getAssignedBytes d w + queued_bytes q \<le> size_max \<and>
        getAssignedTrips d w + queued_trips q \<le> size_max) \<and>
     (\<forall>job \<in> set (iq_jobs q). sa_fileSizeBytes job \<le> m) \<and>
     (\<forall>v \<in> set (id_workerNodeIds d). \<forall>w \<in> set (id_workerNodeIds d).
        getAssignedBytes d v \<le> getAssignedBytes d w + m)"

lemma assignNext_step:
  assumes run: "assignNext d q = (Some shard, d', q')" and ok: "dispatch_ok m d q"
  shows "dispatch_ok m d' q' \<and> sa_nodeId shard \<in> set (id_workerNodeIds d) \<and>
         id_workerNodeIds d' = id_workerNodeIds d \<and>
         (\<exists>job. iq_jobs q = job # iq_jobs q' \<and> shard = job\<lparr>sa_nodeId := sa_nodeId shard\<rparr>) \<and>
         (\<forall>w. getAssignedBytes d' w = getAssignedBytes d w + bytes_for w [shard])"
proof -
  from assigned_after [OF run] obtain job where job: "fst (popNext q) = Some job"
    and q': "q' = snd (popNext q)" and shard: "shard = job\<lparr>sa_nodeId := selectLeastLoadedWorker d\<rparr>"
    and ne: "id_workerNodeIds d \<noteq> []" and ws: "id_workerNodeIds d' = id_workerNodeIds d"
    and bytes: "\<And>w. getAssignedBytes d' w = (if w = sa_nodeId shard
        then size_add (getAssignedBytes d w) (sa_fileSizeBytes shard) else getAssignedBytes d w)"
    and trips: "\<And>w. getAssignedTrips d' w = (if w = sa_nodeId shard
        then size_add (getAssignedTrips d w) (sa_tripCount shard) else getAssignedTrips d w)"
    by auto
  have jobs: "iq_jobs q = job # iq_jobs q'" using ingest_queue.get_Some [OF job] q' by simp
  have sizes: "sa_fileSizeBytes shard = sa_fileSizeBytes job" "sa_tripCount shard = sa_tripCount job"
    and node: "sa_nodeId shard = selectLeastLoadedWorker d" using shard by simp_all
  have least: "sa_nodeId shard \<in> set (id_workerNodeIds d)"
    "\<forall>w \<in> set (id_workerNodeIds d). getAssignedBytes d (sa_nodeId shard) \<le> getAssignedBytes d w"
    using selected_least [OF ne] ok unfolding node
    by (force simp: dispatch_ok_def loads_fit_def worker_load_def less_eq_load_def)+
  have queued: "queued_bytes q = sa_fileSizeBytes job + queued_bytes q'"
    "queued_trips q = sa_tripCount job + queued_trips q'"
    using jobs by (simp_all add: queued_bytes_def queued_trips_def)
  have bytes': "getAssignedBytes d' w = getAssignedBytes d w + bytes_for w [shard]" for w
    using ok least(1) queued unfolding bytes
    by (auto simp: dispatch_ok_def bytes_for_def sizes intro!: size_add_eq)
  have trips': "getAssignedTrips d' w =
      getAssignedTrips d w + (if w = sa_nodeId shard then sa_tripCount job else 0)" for w
    using ok least(1) queued unfolding trips
    by (auto simp: dispatch_ok_def sizes intro!: size_add_eq)
  have near: "getAssignedBytes d v \<le> getAssignedBytes d (sa_nodeId shard) + (sa_fileSizeBytes job + m)"
    if "v \<in> set (id_workerNodeIds d)" for v
    using ok that least(1) by (fastforce simp: dispatch_ok_def)
  have "dispatch_ok m d' q'"
    using near ok queued jobs least unfolding dispatch_ok_def ws bytes' trips'
    by (auto simp: bytes_for_def sizes add.assoc intro: order_trans le_add1 add_mono)
  then show ?thesis using least(1) ws jobs shard node bytes' by auto
qed

lemma bytes_for_append: "bytes_for w (xs @ ys) = bytes_for w xs + bytes_for w ys"
  by (simp add: bytes_for_def)

lemma assign_times_props:
  assumes "dispatch_ok m d q" and "id_workerNodeIds d \<noteq> []"
    and "assign_times n d q = (shards, d', q')"
  shows "dispatch_ok m d' q' \<and> id_workerNodeIds d' = id_workerNodeIds d \<and>
         iq_jobs q' = drop n (iq_jobs q) \<and>
         list_all2 (\<lambda>s job. sa_nodeId s \<in> set (id_workerNodeIds d) \<and> s = job\<lparr>sa_nodeId := sa_nodeId s\<rparr>)
           shards (take n (iq_jobs q)) \<and>
         (\<forall>w. getAssignedBytes d' w = getAssignedBytes d w + bytes_for w shards)"
  using assms
proof (induction n arbitrary: d q shards)
  case 0
  then show ?case by (simp add: bytes_for_def)
next
  case (Suc n)
  show ?case
  proof (cases "iq_jobs q")
    case Nil
    then have "assign_times (Suc n) d q = ([], d, q)"
      by (auto simp: assignNext_def popNext_def)
    then show ?thesis using Suc.prems Nil by (simp add: bytes_for_def)
  next
    case (Cons job rest)
    then obtain s d1 q1 where step: "assignNext d q = (Some s, d1, q1)"
      using assignNext_None [of d q] Suc.prems(2) by (cases "assignNext d q") auto
    obtain ss where later: "assign_times n d1 q1 = (ss, d', q')" and shards: "shards = s # ss"
      using Suc.prems(3) step by (auto split: prod.splits)
    note one = assignNext_step [OF step Suc.prems(1)]
    then have ws: "id_workerNodeIds d1 = id_workerNodeIds d" "id_workerNodeIds d1 \<noteq> []"
      using Suc.prems(2) by simp_all
    note many = Suc.IH [OF _ ws(2) later]
    show ?thesis
      using one many Cons ws(1) bytes_for_append [of _ "[s]" ss] unfolding shards by auto
  qed
qed

lemma setWorkers_zero: "getAssignedBytes (setWorkers ws d) w = 0 \<and> getAssignedTrips (setWorkers ws d) w = 0"
proof -
  have "um_find (fold (\<lambda>w. um_put w 0) vs m) w \<in> {None, Some 0}"
    if "um_find m w \<in> {None, Some (0::nat)}" for vs m
    using that by (induction vs arbitrary: m) auto
  from this [of "[]" ws] show ?thesis
    by (auto simp: setWorkers_def getAssignedBytes_def getAssignedTrips_def)
qed

lemma setWorkers_dispatch_ok:
  assumes "queued_bytes q \<le> size_max" and "queued_trips q \<le> size_max"
    and "\<And>job. job \<in> set (iq_jobs q) \<Longrightarrow> sa_fileSizeBytes job \<le> m"
  shows "dispatch_ok m (setWorkers ws d) q"
  using assms setWorkers_zero [of ws d] by (auto simp: dispatch_ok_def)

end
