(* ===== verification/Basecamp_Service.thy ===== *)
theory Basecamp_Service
  imports Node_Config
begin

text \<open>
  The node service (\<open>src/basic/src/server/BasecampServiceImpl.cpp\<close>, \<open>src/basic/src/transport/node_stub.cc\<close>):
  the connections made at start, \<open>Ping\<close>, \<open>GatherNeighbors\<close> and the recursive \<open>ForwardProbe\<close>. gRPC
  is a parameter: \<open>channel\<close> says whether a stub for a target can be made, \<open>remote\<close> gives the
  reply of the service behind a target, \<open>None\<close> when the status is not OK. \<open>probe_net\<close> closes the
  recursion over a network whose nodes all run this service.
\<close>

section \<open>Messages and state\<close>

record PingReply =
  pr_node_id :: string
  pr_host :: string
  pr_port :: nat
  pr_language :: string

record NeighborInfo =
  nf_node_id :: string
  nf_target :: string

record NeighborReply =
  nr_node_id :: string
  nr_neighbors :: "NeighborInfo list"

record ProbeRequest =
  pb_origin_id :: string
  pb_ttl :: nat
  pb_payload :: string

record ProbeReply =
  rp_responder_id :: string
  rp_accepted :: bool
  rp_message :: string

record NodeServiceImpl =
  ns_cfg :: NodeConfig
  ns_peers :: "(node_id, string) umap"

definition new_NodeServiceImpl :: "NodeConfig \<Rightarrow> NodeServiceImpl" where
  "new_NodeServiceImpl cfg = \<lparr> ns_cfg = cfg, ns_peers = [] \<rparr>"

section \<open>Stubs\<close>

definition stub_connect :: "(string \<Rightarrow> bool) \<Rightarrow> string \<Rightarrow> nat \<Rightarrow> string option" where
  \<comment> \<open>the stub of a connected \<open>NodeStub\<close> is its target\<close>
  "stub_connect channel host port =
     (let target = host @ '':'' @ show_nat port in if channel target then Some target else None)"

fun setup_loop :: "(string \<Rightarrow> bool) \<Rightarrow> NeighborConfig list \<Rightarrow> NodeServiceImpl \<Rightarrow> bool \<times> NodeServiceImpl" where
  "setup_loop channel [] s = (True, s)"
| "setup_loop channel (n # ns) s =
     (case stub_connect channel (nb_host n) (nb_port n) of
        None \<Rightarrow> (False, s)
      | Some stub \<Rightarrow> setup_loop channel ns (s\<lparr>ns_peers := um_put (nb_nodeId n) stub (ns_peers s)\<rparr>))"

definition setup_peers :: "(string \<Rightarrow> bool) \<Rightarrow> NodeServiceImpl \<Rightarrow> bool \<times> NodeServiceImpl" where
  "setup_peers channel s = setup_loop channel (nc_neighbors (ns_cfg s)) s"

section \<open>Handlers\<close>

definition Ping :: "NodeServiceImpl \<Rightarrow> PingReply" where
  "Ping s = \<lparr> pr_node_id = nc_nodeId (ns_cfg s), pr_host = nc_listenHost (ns_cfg s),
     pr_port = nc_listenPort (ns_cfg s), pr_language = nc_language (ns_cfg s) \<rparr>"

definition GatherNeighbors :: "NodeServiceImpl \<Rightarrow> NeighborReply" where
  "GatherNeighbors s = \<lparr> nr_node_id = nc_nodeId (ns_cfg s),
     nr_neighbors = map (\<lambda>n. \<lparr> nf_node_id = nb_nodeId n, nf_target = neighbor_target n \<rparr>)
       (nc_neighbors (ns_cfg s)) \<rparr>"

definition child_reply :: "node_id \<Rightarrow> ProbeReply option \<Rightarrow> string" where
  "child_reply peerId r =
     (case r of Some resp \<Rightarrow> peerId @ '':ok('' @ rp_message resp @ '')''
      | None \<Rightarrow> peerId @ '':fail'')"

fun join_children :: "string list \<Rightarrow> string" where
  "join_children [] = []"
| "join_children [r] = r"
| "join_children (r # rs) = r @ ''; '' @ join_children rs"

definition ForwardProbe ::
  "(string \<Rightarrow> ProbeRequest \<Rightarrow> ProbeReply option) \<Rightarrow> NodeServiceImpl \<Rightarrow> ProbeRequest \<Rightarrow> ProbeReply"
where
  "ForwardProbe remote s request =
     (let childReplies =
            (if pb_ttl request > 0
             then map (\<lambda>(peerId, stub). child_reply peerId
                    (remote stub \<lparr> pb_origin_id = pb_origin_id request, pb_ttl = pb_ttl request - 1,
                                   pb_payload = pb_payload request \<rparr>)) (ns_peers s)
             else []);
          summary = ''node='' @ nc_nodeId (ns_cfg s) @ '', ttl='' @ show_nat (pb_ttl request) @
            '', fanout='' @ show_nat (length (ns_peers s)) @
            (if childReplies \<noteq> [] then '', children=['' @ join_children childReplies @ '']'' else [])
      in \<lparr> rp_responder_id = nc_nodeId (ns_cfg s), rp_accepted = True, rp_message = summary \<rparr>)"

text \<open>The network: every target either runs a node or does not answer.\<close>

fun probe_net ::
  "(string \<Rightarrow> NodeServiceImpl option) \<Rightarrow> nat \<Rightarrow> string \<Rightarrow> ProbeRequest \<Rightarrow> ProbeReply option"
where
  "probe_net net 0 target request = None"
| "probe_net net (Suc fuel) target request =
     (case net target of None \<Rightarrow> None
      | Some s \<Rightarrow> Some (ForwardProbe (probe_net net fuel) s request))"

fun probe_calls :: "(string \<Rightarrow> NodeServiceImpl option) \<Rightarrow> nat \<Rightarrow> string \<Rightarrow> nat" where
  \<comment> \<open>the \<open>ForwardProbe\<close> calls a probe with this ttl causes, itself included\<close>
  "probe_calls net 0 target = 1"
| "probe_calls net (Suc ttl) target =
     (case net target of None \<Rightarrow> 1
      | Some s \<Rightarrow> 1 + (\<Sum>p \<leftarrow> ns_peers s. probe_calls net ttl (snd p)))"

section \<open>Facts\<close>

lemma probe_net_fuel:
  "pb_ttl request < fuel \<Longrightarrow> probe_net net fuel target request = probe_net net (Suc (pb_ttl request)) target request"
proof (induction fuel arbitrary: target request)
  case (Suc fuel)
  have inner: "probe_net net fuel stub r = probe_net net (pb_ttl request) stub r"
    if "pb_ttl r = pb_ttl request - 1" "0 < pb_ttl request" for stub r
    using Suc.IH [of r stub] Suc.prems that by simp
  show ?case
  proof (cases "pb_ttl request")
    case 0
    then show ?thesis by (simp add: ForwardProbe_def split: option.split)
  next
    case (Suc n)
    then show ?thesis using inner by (simp add: ForwardProbe_def case_prod_unfold split: option.split)
  qed
qed simp

lemma probe_calls_bound:
  assumes "\<And>t s. net t = Some s \<Longrightarrow> length (ns_peers s) \<le> k"
  shows "probe_calls net ttl target \<le> (\<Sum>i \<le> ttl. k ^ i)"
proof (induction ttl arbitrary: target)
  case (Suc ttl)
  let ?b = "\<Sum>i \<le> ttl. k ^ i"
  have geo: "(\<Sum>i \<le> Suc ttl. k ^ i) = 1 + k * ?b"
    by (subst sum.atMost_Suc_shift) (simp add: sum_distrib_left)
  have peers: "(\<Sum>p \<leftarrow> ps. probe_calls net ttl (snd p)) \<le> length ps * ?b" for ps :: "(node_id \<times> string) list"
    by (induction ps) (auto intro: add_mono Suc.IH)
  have "(\<Sum>p \<leftarrow> ns_peers s. probe_calls net ttl (snd p)) \<le> k * ?b" if "net target = Some s" for s
    using peers [of "ns_peers s"] mult_le_mono1 [OF assms [OF that], of ?b] by (rule order_trans)
  then show ?case unfolding geo by (auto split: option.split)
qed simp

lemma setup_loop_peers:
  assumes "setup_loop channel ns s = (ok, s')"
  shows "ns_cfg s' = ns_cfg s \<and> (um_ok (ns_peers s) \<longrightarrow> um_ok (ns_peers s')) \<and>
         (ok \<longleftrightarrow> (\<forall>n \<in> set ns. channel (neighbor_target n))) \<and>
         (ok \<longrightarrow> distinct (map nb_nodeId ns) \<longrightarrow>
            um_find (ns_peers s') = um_find (ns_peers s) ++ map_of (map (\<lambda>n. (nb_nodeId n, neighbor_target n)) ns))"
  using assms
proof (induction ns arbitrary: s)
  case (Cons n ns)
  show ?case
  proof (cases "channel (neighbor_target n)")
    case True
    then have step: "stub_connect channel (nb_host n) (nb_port n) = Some (neighbor_target n)"
      by (simp add: stub_connect_def neighbor_target_def)
    have fresh: "nb_nodeId n \<notin> nb_nodeId ` set ns \<Longrightarrow>
        map_of (map (\<lambda>n. (nb_nodeId n, neighbor_target n)) ns) (nb_nodeId n) = None"
      by (force simp: map_of_eq_None_iff)
    show ?thesis
      using Cons.IH [of "s\<lparr>ns_peers := um_put (nb_nodeId n) (neighbor_target n) (ns_peers s)\<rparr>"]
        Cons.prems True step fresh
      by (auto simp: um.lookup_store map_add_def fun_eq_iff split: option.split)
  next
    case False
    then show ?thesis using Cons.prems by (simp add: stub_connect_def neighbor_target_def)
  qed
qed simp

end
