(* ===== verification/Examples.thy ===== *)
theory Examples
  imports Node_Server Ingest Basecamp_Service
begin

text \<open>
  A small deployment the properties are instantiated on: one CSV file of three trips in both
  time formats, the configuration file of a leaf node that owns it, and the shipped
  configurations of \<open>src/basic/config\<close> reduced to their overlay lines. The values are computed
  by the kernel from the definitions.
\<close>

definition ex_header :: string where
  "ex_header = ''tpep_pickup_datetime,tpep_dropoff_datetime,trip_distance,payment_type,tip_amount,total_amount''"

definition ex_rows :: "string list" where
  "ex_rows = [''2020-01-01 00:28:15,2020-01-01 00:33:03,1.20,1,1.47,11.27'',
              ''2020-01-01 00:35:39,2020-01-01 00:43:04,1.20,2,0.00,12.30'',
              ''2020 Jan 01 12:47:41 AM,2020 Jan 01 12:53:52 AM,.60,1,1.00,10.80'']"

definition unlines :: "string list \<Rightarrow> string" where
  "unlines ls = concat (map (\<lambda>l. l @ [chr_newline]) ls)"

definition ex_csv :: string where
  "ex_csv = unlines (ex_header # ex_rows)"

definition ex_conf :: string where
  "ex_conf = unlines [''node_id=A'', ''language=cpp'', ''listen_host=0.0.0.0'', ''listen_port=81'',
     '''', ''# a leaf'', ''neighbors='', ''assigned_files=a.csv'']"

definition ex_fs :: file_system where
  "ex_fs p =
     (if p = ''a.csv'' then Some (RegularFile ex_csv True)
      else if p = ''A.conf'' then Some (RegularFile ex_conf True)
      else if p = ''data'' then Some (Directory [''z.csv'', ''notes.txt'', ''a.csv''])
      else if p = ''data/a.csv'' \<or> p = ''data/z.csv'' then Some (RegularFile ex_csv True)
      else if p = ''data/notes.txt'' then Some (RegularFile ''x'' True)
      else None)"

definition ex_cfg :: NodeConfig where
  "ex_cfg = \<lparr> nc_nodeId = ''A'', nc_language = ''cpp'', nc_listenHost = ''0.0.0.0'',
     nc_listenPort = 81, nc_neighbors = [], nc_assignedFiles = [''a.csv''] \<rparr>"

definition ex_store :: PartitionStore where
  "ex_store = snd (loadFiles ex_fs [''a.csv''] (new_PartitionStore ''A''))"

definition ex_card :: QueryRequest where
  \<comment> \<open>trips paid by card\<close>
  "ex_card = (new_QueryRequest [] Execute)\<lparr>qq_paymentType := Some 1\<rparr>"

lemma ex_config: "loadConfig ex_fs ''A.conf'' = Inr ex_cfg"
  by code_simp

lemma ex_getlines: "getlines ex_csv = ex_header # ex_rows"
  by code_simp

lemma ex_store_rows: "length (store_rows ex_fs ex_store) = 3"
  by code_simp

lemma ex_store_valid: "store_isValid ex_store"
  by code_simp

definition ex_coordinator :: coordinator where
  "ex_coordinator = start_coordinator ex_fs ex_cfg"

definition no_ops :: "unit stub_ops" where
  \<comment> \<open>a network in which nothing answers\<close>
  "no_ops = \<lparr> op_NewStub = (\<lambda>_. True),
     op_SubmitSubQuery = (\<lambda>_ _ e. (Inl ''unavailable'', e)),
     op_FetchSubChunk = (\<lambda>_ _ e. (Inl ''unavailable'', e)),
     op_CancelSubQuery = (\<lambda>_ _ e. (Inl ''unavailable'', e)) \<rparr>"

definition ex_sys :: "unit system" where
  "ex_sys = \<lparr> sys_fs = ex_fs, sys_ops = no_ops \<rparr>"

definition ex_parser :: PartitionCsvParser where
  "ex_parser = snd (initFromHeader ex_header)"

lemma ex_row_list: "store_rows ex_fs (wn_store (local_worker ex_fs ex_cfg)) = map (Pair ex_parser) ex_rows"
  by code_simp

lemma ex_worker_rows: "worker_rows ex_fs (local_worker ex_fs ex_cfg) = 3"
  by (simp add: worker_rows_def row_count_def ex_row_list ex_rows_def)

lemma ex_card_positions: "positions_from 0 (row_hit ex_card) (map (Pair ex_parser) ex_rows) = [0, 2]"
  by code_simp

lemma ex_card_hits: "hits ex_fs (wn_store (local_worker ex_fs ex_cfg)) ex_card 0 3 = [0, 2]"
  using hits_all [of ex_fs "wn_store (local_worker ex_fs ex_cfg)" ex_card] ex_worker_rows ex_card_positions
  by (simp add: ex_row_list worker_rows_def)

text \<open>The same node with one child, and a request it has just accepted.\<close>

definition ex_parent_cfg :: NodeConfig where
  "ex_parent_cfg = ex_cfg\<lparr>nc_neighbors := [\<lparr> nb_nodeId = ''B'', nb_host = ''127.0.0.1'', nb_port = 82 \<rparr>]\<rparr>"

definition ex_message :: SubmitQueryRequest where
  "ex_message = \<lparr> sq_filter = empty_filter\<lparr>pf_payment_type := Some 1\<rparr>, sq_preferred_chunk_size = 0,
     sq_client_tag = ''test'', sq_visited_node_ids = [], sq_scan_row_budget = 0 \<rparr>"

definition ex_parent :: coordinator where
  "ex_parent = start_coordinator ex_fs ex_parent_cfg"

definition ex_parent_submitted :: coordinator where
  "ex_parent_submitted = fst (snd (SubmitQuery ex_sys ''A'' ex_message ex_parent ()))"

end
