(* ===== verification/Network_Properties.thy ===== *)
theory Network_Properties
  imports Visit_Plan Examples
begin

text \<open>
  What a client of a whole deployment gets: the properties that span the nodes. They hold from the start
  of all nodes on, after any history of calls by any clients, with the nodes calling each other as the
  code does; a node's answer is the list of the matching rows of its assigned files.
\<close>

lemma plan_sum:
  assumes "topology_ok T" and "tree_like T" and "n \<in> tp_nodes T" and "card (tp_nodes T) \<le> d"
  shows "mset (concat (map g (plan T d {n} n))) = (\<Sum>v \<in> {v. (n, v) \<in> (node_edges T)\<^sup>*}. mset (g v))"
  using mset_concat_sum [OF plan_distinct [OF assms(1,2,3)], of g d "{n}"] plan_covers [OF assms(1,3,4)] by simp

lemma deployed_card: "card (tp_nodes (deployed addr fs cfgs)) \<le> length cfgs"
proof -
  have "card (set (map nc_nodeId cfgs)) \<le> length (map nc_nodeId cfgs)" by (rule card_length)
  then show ?thesis by (simp add: deployed_def)
qed

section \<open>Examples\<close>

definition ex_second :: NodeConfig where
  "ex_second = \<lparr> nc_nodeId = ''B'', nc_language = ''cpp'', nc_listenHost = ''0.0.0.0'',
     nc_listenPort = 82, nc_neighbors = [], nc_assignedFiles = [''a.csv''] \<rparr>"

definition ex_duo :: "NodeConfig list" where
  "ex_duo = [ex_parent_cfg, ex_second]"

definition ex_duo_addr :: "node_id \<Rightarrow> string" where
  "ex_duo_addr n = ''127.0.0.1:8'' @ (if n = ''A'' then ''1'' else ''2'')"

lemma ex_duo_ok: "deployment_ok ex_duo_addr ex_duo"
proof -
  have "show_nat 82 = ''82''" by code_simp
  then show ?thesis
    by (simp add: deployment_ok_def ex_duo_def ex_parent_cfg_def ex_cfg_def ex_second_def valid_config_def
        ex_duo_addr_def neighbor_address_def)
qed

lemma ex_duo_config: "config_of ex_duo ''A'' = ex_parent_cfg" "config_of ex_duo ''B'' = ex_second"
  by (simp_all add: config_of_def ex_duo_def ex_parent_cfg_def ex_cfg_def ex_second_def)

abbreviation ex_duo_net :: topology where
  "ex_duo_net \<equiv> deployed ex_duo_addr (\<lambda>_. ex_fs) ex_duo"

lemma ex_duo_children: "tp_children ex_duo_net n = (if n = ''A'' then [''B''] else [])"
  by (simp add: deployed_def config_of_def ex_duo_def ex_parent_cfg_def ex_cfg_def ex_second_def empty_NodeConfig_def)

lemma ex_duo_plan: "plan ex_duo_net (Suc 1) {''A''} ''A'' = [''A'', ''B'']"
  by (simp add: open_children_def ex_duo_children)

lemma ex_duo_rows:
  "node_rows ex_fs ex_parent_cfg = node_rows ex_fs ex_cfg" "node_rows ex_fs ex_second = node_rows ex_fs ex_cfg"
  by (simp_all add: node_rows_def ex_parent_cfg_def ex_cfg_def ex_second_def)

lemma ex_duo_matches:
  "length (List.map_filter (row_answer (fromProtoSubmitQueryRequest ex_message)) (node_rows ex_fs ex_cfg)) = 2"
proof -
  let ?w = "local_worker ex_fs ex_cfg"
  have "same_filter (fromProtoSubmitQueryRequest ex_message) ex_card"
    by (simp add: same_filter_def fromProtoSubmitQueryRequest_def fromProtoFilter_def ex_message_def
        empty_filter_def ex_card_def new_QueryRequest_def Let_def to_signed_def)
  then have "row_answer (fromProtoSubmitQueryRequest ex_message) = row_answer ex_card" by (rule same_filter_answer)
  moreover have "node_rows ex_fs ex_cfg = store_rows ex_fs (wn_store ?w)"
    by (rule node_rows_store [symmetric]) (simp add: ex_cfg_def)
  moreover have "length (all_trips ex_fs ?w ex_card 0 (worker_rows ex_fs ?w)) = 2"
    by (simp add: all_trips_def ex_worker_rows ex_card_hits)
  ultimately show ?thesis by (simp add: all_trips_rows)
qed

lemma ex_duo_answers:
  "length (node_answer ex_duo_addr (\<lambda>_. ex_fs) ex_duo (fromProtoSubmitQueryRequest ex_message) ''A'') = 2"
  "length (node_answer ex_duo_addr (\<lambda>_. ex_fs) ex_duo (fromProtoSubmitQueryRequest ex_message) ''B'') = 2"
  by (simp_all add: node_answer_def ex_duo_config ex_duo_rows ex_duo_matches)

lemma ex_duo_start:
  "started_network ex_duo_addr (\<lambda>_. ex_fs) ex_duo (ex_duo_addr (nc_nodeId ex_parent_cfg)) = Some ex_parent"
  using started_node [OF ex_duo_ok, of ex_parent_cfg "\<lambda>_. ex_fs"] by (simp add: ex_duo_def ex_parent_def)

lemma size_mset_sum: "size (\<Sum>n \<in> S. mset (g n)) = (\<Sum>n \<in> S. length (g n))"
  by (induction S rule: infinite_finite_induct) simp_all

text \<open>Deployments in which every file is the example file.\<close>

definition ex_same_file :: file_system where
  "ex_same_file p = Some (RegularFile ex_csv True)"

lemma ex_same_rows:
  assumes "nc_assignedFiles cfg = [f]" and "isCsvFile f"
  shows "node_rows ex_same_file cfg = node_rows ex_fs ex_cfg"
proof -
  have some: "filter hasNonWhitespaceContent ex_rows \<noteq> []" by code_simp
  have "isCsvFile ''a.csv''" by code_simp
  moreover have "loaded_metadata ex_same_file f 0 \<noteq> None" "loaded_metadata ex_fs ''a.csv'' 0 \<noteq> None" if "isCsvFile ''a.csv''"
    using some assms(2) that
    by (simp_all add: loaded_metadata_def ex_same_file_def ex_fs_def ex_getlines Let_def)
  moreover have "file_rows ex_same_file f = file_rows ex_fs ''a.csv''"
    by (simp add: file_rows_def open_lines_def ex_same_file_def ex_fs_def)
  ultimately show ?thesis using assms(1) by (simp add: node_rows_def ex_cfg_def)
qed

lemma ex_same_answer:
  assumes "nc_assignedFiles (config_of cfgs n) = [f]" and "isCsvFile f"
  shows "length (node_answer addr (\<lambda>_. ex_same_file) cfgs (fromProtoSubmitQueryRequest ex_message) n) = 2"
  by (simp add: node_answer_def ex_same_rows [OF assms] ex_duo_matches)

lemma shipped_csv:
  "list_all (\<lambda>n. isCsvFile (''../basic/data/shards/'' @ n @ ''/yellow_2020_'' @ n @ ''.csv''))
     [''A'', ''B'', ''C'', ''D'', ''E'', ''F'', ''G'', ''H'', ''I'']"
  by code_simp

lemma shipped_files:
  "list_all (\<lambda>c. nc_assignedFiles c = [''../basic/data/shards/'' @ nc_nodeId c @ ''/yellow_2020_'' @ nc_nodeId c @ ''.csv''])
     shipped"
  "list_all (\<lambda>c. nc_assignedFiles c = [''../basic/data/shards/'' @ nc_nodeId c @ ''/yellow_2020_'' @ nc_nodeId c @ ''.csv''])
     diamond"
  by (simp_all add: shipped_def diamond_def shipped_node_def)

lemma same_file_answer:
  assumes dep: "deployment_ok dep_addr cfgs" and n: "n \<in> set (map nc_nodeId cfgs)"
    and files: "list_all (\<lambda>c. nc_assignedFiles c =
       [''../basic/data/shards/'' @ nc_nodeId c @ ''/yellow_2020_'' @ nc_nodeId c @ ''.csv'']) cfgs"
    and known: "set (map nc_nodeId cfgs) \<subseteq> set [''A'', ''B'', ''C'', ''D'', ''E'', ''F'', ''G'', ''H'', ''I'']"
  shows "length (node_answer addr (\<lambda>_. ex_same_file) cfgs (fromProtoSubmitQueryRequest ex_message) n) = 2"
proof (rule ex_same_answer)
  obtain c where c: "c \<in> set cfgs" "nc_nodeId c = n" using n by auto
  have "config_of cfgs n = c" using config_of_member [OF dep c(1)] c(2) by simp
  then show "nc_assignedFiles (config_of cfgs n) = [''../basic/data/shards/'' @ n @ ''/yellow_2020_'' @ n @ ''.csv'']"
    using files c by (simp add: list_all_iff)
  show "isCsvFile (''../basic/data/shards/'' @ n @ ''/yellow_2020_'' @ n @ ''.csv'')"
    using n known shipped_csv unfolding list_all_iff by blast
qed

lemma diamond_ids: "map nc_nodeId diamond = [''A'', ''B'', ''C'', ''D'']"
  by (simp add: diamond_def shipped_node_def)

lemma shipped_answer:
  "n \<in> set (map nc_nodeId shipped) \<Longrightarrow>
     length (node_answer addr (\<lambda>_. ex_same_file) shipped (fromProtoSubmitQueryRequest ex_message) n) = 2"
  by (rule same_file_answer [OF shipped_ok _ shipped_files(1)]) (simp_all add: shipped_ids)

lemma diamond_answer:
  "n \<in> set (map nc_nodeId diamond) \<Longrightarrow>
     length (node_answer addr (\<lambda>_. ex_same_file) diamond (fromProtoSubmitQueryRequest ex_message) n) = 2"
  by (rule same_file_answer [OF diamond_ok _ shipped_files(2)]) (simp_all add: diamond_ids)

section \<open>Properties\<close>




lemma ex_duo_edges: "node_edges ex_duo_net = {(''A'', ''B'')}"
proof -
  have "tp_nodes ex_duo_net = {''A'', ''B''}"
    by (simp add: deployed_def ex_duo_def ex_parent_cfg_def ex_cfg_def ex_second_def)
  then show ?thesis by (auto simp: node_edges_def ex_duo_children split: if_splits)
qed

lemma ex_duo_tree: "tree_like ex_duo_net"
  by (simp add: tree_like_def ex_duo_edges single_valued_def acyclic_insert wf_acyclic)


text \<open>
  C3: the shipped overlay of nine nodes is no tree, E being a child of B and of D and G a child of A and
  of E, and still a fresh query to A returns every matching row of every node exactly once, as far as all
  nine run this server.
\<close>

theorem shipped_query_once:
  assumes "(net_step fs 8)\<^sup>*\<^sup>* (started_network (config_addr shipped) fs shipped) N"
    and "N (config_addr shipped ''A'') = Some co" and "sq_scan_row_budget msg < 2 ^ 32" and "sq_visited_node_ids msg = []"
    and "SubmitQuery (net_system fs 8 (config_addr shipped ''A'')) ''A'' msg co N = (reply, co1, N1)"
    and "plan_work (deployed (config_addr shipped) fs shipped) 9 {''A''} ''A'' < fuel"
  shows "\<exists>rows co2 N2. fetch_labelled (net_system fs 8 (config_addr shipped ''A'')) fuel (sr_request_id reply) m co1 N1
      = Some (rows, co2, N2) \<and>
    mset rows = (\<Sum>n \<in> set (map nc_nodeId shipped).
      mset (node_answer (config_addr shipped) fs shipped (fromProtoSubmitQueryRequest msg) n))"
proof -
  define c where "c = shipped_node ''A'' 50051 [neighbor ''B'' 50052, neighbor ''H'' 50058, neighbor ''G'' 50057, neighbor ''I'' 50059]"
  have c: "c \<in> set shipped" "nc_nodeId c = ''A''" by (simp_all add: c_def shipped_def shipped_node_def)
  have files: "\<forall>c \<in> set shipped. distinct (nc_assignedFiles c)" by (simp add: shipped_def shipped_node_def)
  let ?g = "node_answer (config_addr shipped) fs shipped (fromProtoSubmitQueryRequest msg)"
  have "mset (concat (map ?g (plan (deployed (config_addr shipped) fs shipped) 9 {''A''} ''A''))) =
      (\<Sum>n \<in> set (map nc_nodeId shipped). mset (?g n))"
    unfolding shipped_plan shipped_ids by (subst mset_concat_sum) (simp_all add: insert_commute)
  moreover have "Suc 8 = 9" by simp
  ultimately show ?thesis
    using deployment_delivers [OF shipped_ok files assms(1) _ c(1), unfolded c(2), OF _ assms(2,3,5), of fuel m]
      assms(4,6) by (simp add: shipped_def del: plan.simps plan_work.simps)
qed

lemma shipped_query_once_witness:
  "\<exists>fuel i co0 rows co N. fetch_labelled (net_system (\<lambda>_. ex_same_file) 8 (config_addr shipped ''A'')) fuel i 1
      (accepted co0 (fromProtoSubmitQueryRequest ex_message)) (started_network (config_addr shipped) (\<lambda>_. ex_same_file) shipped)
     = Some (rows, co, N) \<and> length rows = 18"
proof -
  let ?N = "started_network (config_addr shipped) (\<lambda>_. ex_same_file) shipped"
  let ?sys = "net_system (\<lambda>_. ex_same_file) 8 (config_addr shipped ''A'')"
  have c: "hd shipped \<in> set shipped" "nc_nodeId (hd shipped) = ''A''" by (simp_all add: shipped_def shipped_node_def)
  obtain co where co: "?N (config_addr shipped ''A'') = Some co"
    using started_node [OF shipped_ok c(1), of "\<lambda>_. ex_same_file"] unfolding c(2) ..
  have msg: "sq_visited_node_ids ex_message = []" "sq_scan_row_budget ex_message < 2 ^ 32" by (simp_all add: ex_message_def)
  let ?req = "fromProtoSubmitQueryRequest ex_message" and ?id = "''q-'' @ show_nat (co_nextQuerySeq co)"
  define reply where "reply = fillSubmitQueryReply True ?id ''A'' ''accepted''"
  have id: "sr_request_id reply = ?id" by (simp add: reply_def fillSubmitQueryReply_def)
  have sub: "SubmitQuery ?sys ''A'' ex_message co ?N = (reply, accepted co ?req, ?N)"
    unfolding reply_def by (rule client_accepted)
  obtain fuel where fuel: "plan_work (deployed (config_addr shipped) (\<lambda>_. ex_same_file) shipped) 9 {''A''} ''A'' < fuel" by blast
  note all = shipped_query_once [OF rtranclp.rtrancl_refl [of "net_step (\<lambda>_. ex_same_file) 8" ?N] co msg(2,1) sub fuel]
  from all [of 1] obtain rows co2 N2 where r: "fetch_labelled ?sys fuel (sr_request_id reply) 1 (accepted co ?req) ?N
      = Some (rows, co2, N2)"
    and rows: "mset rows = (\<Sum>n \<in> set (map nc_nodeId shipped).
      mset (node_answer (config_addr shipped) (\<lambda>_. ex_same_file) shipped ?req n))"
    by (elim exE conjE)
  have "length rows = 18"
  proof -
    have "size (mset rows) = (\<Sum>n \<in> set (map nc_nodeId shipped). 2)"
      unfolding rows size_mset_sum by (rule sum.cong [OF refl]) (use shipped_answer in simp)
    then show ?thesis unfolding shipped_ids by simp
  qed
  with r show ?thesis unfolding id by blast
qed



end
