(* ===== verification/Client_Properties.thy ===== *)
theory Client_Properties
  imports Client_Delivery Network_Properties
begin

text \<open>
  What the command line client does: its options arrive as the request they spell, and one run with
  \<open>--submit\<close> followed by runs with \<open>--fetch\<close> prints what the whole deployment answers.
\<close>

lemma ex_asked: "asked_ok show_f (fromProtoSubmitQueryRequest ex_message)"
  by (simp add: asked_ok_def fromProtoSubmitQueryRequest_def fromProtoFilter_def ex_message_def new_QueryRequest_def
      empty_filter_def range_within_def Let_def to_signed_def)

section \<open>Properties\<close>

text \<open>
  C20: a command line reaches the server as it was meant. For every filter the options can express, within
  the widths of its fields and with floats written so that \<open>stof\<close> reads them back, the client makes
  one call, to the target given, with a message that the server converts back to exactly this request (the
  chunk size 0 standing for 64), prints the reply, and exits with 0, or with 4 when the call fails.
\<close>

theorem command_line_roundtrip:
  assumes "asked_ok show_f q" and "target \<noteq> []" and "qs_NewStub ops target"
  shows "\<exists>m. fromProtoSubmitQueryRequest m = q\<lparr>qq_chunkSize := if qq_chunkSize q = 0 then 64 else qq_chunkSize q\<rparr> \<and>
    query_client ops (submit_args show_f target q) e =
      (case qs_SubmitQuery ops target m e of
         (Inl err, e) \<Rightarrow> (4, Message (''SubmitQuery failed: '' @ err), e)
       | (Inr r, e) \<Rightarrow> (0, Submitted r, e))"
  by (rule submit_args_sent [OF assms]) blast

lemma command_line_roundtrip_witness:
  "query_client (net_stub (\<lambda>_. ex_fs) 1) (submit_args (\<lambda>_. []) ''127.0.0.1:81'' (fromProtoSubmitQueryRequest ex_message)) (\<lambda>_. None)
     = (4, Message ''SubmitQuery failed: unavailable'', \<lambda>_. None)"
proof -
  have "qs_NewStub (net_stub (\<lambda>_. ex_fs) 1) ''127.0.0.1:81''" by (simp add: net_stub_def)
  from command_line_roundtrip [OF ex_asked _ this, of "\<lambda>_. []" "\<lambda>_. None"] obtain m where
    "query_client (net_stub (\<lambda>_. ex_fs) 1) (submit_args (\<lambda>_. []) ''127.0.0.1:81'' (fromProtoSubmitQueryRequest ex_message)) (\<lambda>_. None) =
      (case qs_SubmitQuery (net_stub (\<lambda>_. ex_fs) 1) ''127.0.0.1:81'' m (\<lambda>_. None) of
         (Inl err, e) \<Rightarrow> (4, Message (''SubmitQuery failed: '' @ err), e)
       | (Inr r, e) \<Rightarrow> (0, Submitted r, e))" by blast
  then show ?thesis by (simp add: net_stub_def on_node_def)
qed



text \<open>
  A run of the client makes at most one call. Whatever the arguments, the outside world is left alone
  unless the exit code is 0, 4, 6 or 8; then it has changed by one call: a submission within the widths of
  its message, with complete ranges only and at least one row per chunk, or a fetch or a cancellation with a
  request id.
\<close>

lemma client_calls_once:
  fixes ops :: "'e query_stub"
  assumes "query_client ops args e = (code, out, e')"
  shows "if code \<in> {1, 2, 3, 5, 7, 10} then e' = e
    else code \<in> {0, 4, 6, 8} \<and>
      ((\<exists>a m. message_ok m \<and> e' = snd (qs_SubmitQuery ops a m e)) \<or>
       (\<exists>a i n. i \<noteq> [] \<and> n < 2 ^ 32 \<and> e' = snd (qs_FetchChunk ops a \<lparr> fq_request_id = i, fq_max_rows = n \<rparr> e)) \<or>
       (\<exists>a i. i \<noteq> [] \<and> e' = snd (qs_CancelQuery ops a i e)))"
proof (cases "query_args args new_query_options")
  case (Took c)
  have "options_ok new_query_options"
    by (simp add: options_ok_def new_query_options_def new_QueryRequest_def fits32_def fits64_def)
  with Took have ok: "options_ok c" by (rule query_args_ok)
  then have "message_ok (client_message_of (options_request c))" "qo_maxRows c < 2 ^ 32"
    by (simp_all add: options_message_ok) (simp add: options_ok_def)
  with assms Took show ?thesis
    by (auto simp: query_client_def query_call_def Let_def split: if_splits option.splits prod.splits sum.splits) (metis snd_conv)+
qed (use assms in \<open>simp_all add: query_client_def\<close>)

lemma client_calls_once_witness:
  "snd (snd (query_client (net_stub fs 1) [''--target'', ''a:1'', ''--submit'', ''--total-lo'', ''5''] N)) = N"
proof -
  have "query_client (net_stub fs 1) [''--target'', ''a:1'', ''--submit'', ''--total-lo'', ''5''] N =
      (2, Message ''total range requires both --total-lo and --total-hi'', N)"
    by (simp add: query_client_def query_flag_def query_value_def took_def sto_signed_def is_space_def is_digit_def
        digit_val_def query_call_def options_message_def new_query_options_def Let_def)
  from this client_calls_once [OF this] show ?thesis by simp
qed

end
