(* ===== verification/Node_Programs.thy ===== *)
theory Node_Programs
  imports Node_Server Basecamp_Service Query_Client
begin

text \<open>
  Two more programs: the node server from its command line to the point where it serves
  (\<open>src/basic/src/server/main.cpp\<close>), and the client of the node service
  (\<open>src/basic/src/client/basecamp_client.cc\<close>). gRPC's part is a parameter: whether a channel can be
  made, whether a server can listen on an address, what a service answers.
\<close>

section \<open>The node server\<close>

datatype server_end =
  Exit nat
| Serving NodeConfig NodeServiceImpl coordinator

definition server_main :: "file_system \<Rightarrow> (string \<Rightarrow> bool) \<Rightarrow> (string \<Rightarrow> bool) \<Rightarrow> string list \<Rightarrow> server_end" where
  \<comment> \<open>the arguments after the program's name; a serving process has the two registered services\<close>
  "server_main fs channel listens args =
     (case args of
        [flag, configPath] \<Rightarrow>
          if flag \<noteq> ''--config'' then Exit 1
          else (case loadConfig fs configPath of
            Inl _ \<Rightarrow> Exit 10
          | Inr cfg \<Rightarrow>
              let coordinator = start_coordinator fs cfg in
              case setup_peers channel (new_NodeServiceImpl cfg) of
                (False, _) \<Rightarrow> Exit 2
              | (True, basecampService) \<Rightarrow>
                  if \<not> listens (listenTarget cfg) then Exit 3
                  else Serving cfg basecampService coordinator)
      | _ \<Rightarrow> Exit 1)"

section \<open>The client of the node service\<close>

definition parseTarget :: "string \<Rightarrow> config_error + (string \<times> nat) option" where
  \<comment> \<open>\<open>Inl\<close> for an exception of \<open>std::stoul\<close>, \<open>None\<close> for the result false\<close>
  "parseTarget target =
     (case rfind_char (CHR '':'') target of
        None \<Rightarrow> Inr None
      | Some pos \<Rightarrow>
          let host = take pos target; portStr = drop (pos + 1) target
          in if host = [] \<or> portStr = [] then Inr None
             else case stoul32 portStr of Inl e \<Rightarrow> Inl e | Inr port \<Rightarrow> Inr (Some (host, port)))"

record probe_options =
  po_target :: string
  po_doPing :: bool
  po_doNeighbors :: bool
  po_doProbe :: bool
  po_ttl :: nat
  po_payload :: string

definition new_probe_options :: probe_options where
  "new_probe_options = \<lparr> po_target = [], po_doPing = False, po_doNeighbors = False, po_doProbe = False,
     po_ttl = 0, po_payload = ''hello'' \<rparr>"

definition probe_flag :: "string \<Rightarrow> probe_options \<Rightarrow> probe_options option" where
  "probe_flag arg c =
     (if arg = ''--ping'' then Some (c\<lparr>po_doPing := True\<rparr>)
      else if arg = ''--neighbors'' then Some (c\<lparr>po_doNeighbors := True\<rparr>)
      else if arg = ''--probe'' then Some (c\<lparr>po_doProbe := True\<rparr>)
      else None)"

definition probe_value :: "string \<Rightarrow> string \<Rightarrow> probe_options \<Rightarrow> probe_options arg_step" where
  "probe_value arg v c =
     (if arg = ''--target'' then Took (c\<lparr>po_target := v\<rparr>)
      else if arg = ''--ttl'' then took (stoul32 v) (\<lambda>n. c\<lparr>po_ttl := n\<rparr>)
      else if arg = ''--payload'' then Took (c\<lparr>po_payload := v\<rparr>)
      else Unknown_Arg)"

fun probe_args :: "string list \<Rightarrow> probe_options \<Rightarrow> probe_options arg_step" where
  "probe_args [] c = Took c"
| "probe_args (arg # rest) c =
     (case probe_flag arg c of
        Some c \<Rightarrow> probe_args rest c
      | None \<Rightarrow>
          (case rest of
             [] \<Rightarrow> Unknown_Arg
           | v # rest \<Rightarrow> (case probe_value arg v c of Took c \<Rightarrow> probe_args rest c | r \<Rightarrow> r)))"

record node_service_stub =
  \<comment> \<open>what the service behind a target answers; \<open>None\<close> when the status is not OK\<close>
  nss_channel :: "string \<Rightarrow> bool"
  nss_ping :: "string \<Rightarrow> PingReply option"
  nss_gatherNeighbors :: "string \<Rightarrow> NeighborReply option"
  nss_forwardProbe :: "string \<Rightarrow> ProbeRequest \<Rightarrow> ProbeReply option"

text \<open>The calls of a \<open>NodeStub\<close> (\<open>transport/node_stub.cc\<close>): they fail before \<open>connect\<close> has made a stub.\<close>

definition NodeStub_ping :: "node_service_stub \<Rightarrow> string option \<Rightarrow> PingReply option" where
  "NodeStub_ping ops stub = (case stub of None \<Rightarrow> None | Some t \<Rightarrow> nss_ping ops t)"

definition NodeStub_gatherNeighbors :: "node_service_stub \<Rightarrow> string option \<Rightarrow> NeighborReply option" where
  "NodeStub_gatherNeighbors ops stub = (case stub of None \<Rightarrow> None | Some t \<Rightarrow> nss_gatherNeighbors ops t)"

definition NodeStub_forwardProbe :: "node_service_stub \<Rightarrow> string option \<Rightarrow> ProbeRequest \<Rightarrow> ProbeReply option" where
  "NodeStub_forwardProbe ops stub req = (case stub of None \<Rightarrow> None | Some t \<Rightarrow> nss_forwardProbe ops t req)"

datatype probe_output =
  Probe_Usage
| Probe_Message string
| Probe_Fatal
| Pinged PingReply
| Gathered NeighborReply
| Probed ProbeReply

definition probe_call :: "node_service_stub \<Rightarrow> probe_options \<Rightarrow> nat \<times> probe_output" where
  "probe_call ops c =
     (if po_target c = [] then (1, Probe_Usage)
      else case parseTarget (po_target c) of
        Inl _ \<Rightarrow> (10, Probe_Fatal)
      | Inr None \<Rightarrow> (2, Probe_Message ''Invalid target, expected host:port'')
      | Inr (Some (host, port)) \<Rightarrow>
          (case stub_connect (nss_channel ops) host port of
             None \<Rightarrow> (3, Probe_Message ''Failed to connect stub'')
           | Some stub \<Rightarrow>
               if po_doPing c then
                 (case NodeStub_ping ops (Some stub) of None \<Rightarrow> (4, Probe_Message ''Ping failed'') | Some r \<Rightarrow> (0, Pinged r))
               else if po_doNeighbors c then
                 (case NodeStub_gatherNeighbors ops (Some stub) of
                    None \<Rightarrow> (5, Probe_Message ''GatherNeighbors failed'') | Some r \<Rightarrow> (0, Gathered r))
               else if po_doProbe c then
                 (case NodeStub_forwardProbe ops (Some stub) \<lparr> pb_origin_id = ''client'', pb_ttl = po_ttl c, pb_payload = po_payload c \<rparr> of
                    None \<Rightarrow> (6, Probe_Message ''ForwardProbe failed'') | Some r \<Rightarrow> (0, Probed r))
               else (1, Probe_Usage)))"

definition basecamp_client :: "node_service_stub \<Rightarrow> string list \<Rightarrow> nat \<times> probe_output" where
  "basecamp_client ops args =
     (case probe_args args new_probe_options of
        Unknown_Arg \<Rightarrow> (1, Probe_Usage)
      | Throws \<Rightarrow> (10, Probe_Fatal)
      | Took c \<Rightarrow> probe_call ops c)"

section \<open>Facts\<close>

lemma server_main_serves:
  "server_main fs channel listens args = Serving cfg svc co \<longleftrightarrow>
     (\<exists>path. args = [''--config'', path] \<and> loadConfig fs path = Inr cfg \<and>
        setup_peers channel (new_NodeServiceImpl cfg) = (True, svc) \<and> listens (listenTarget cfg) \<and>
        co = start_coordinator fs cfg)"
  by (auto simp: server_main_def Let_def split: list.splits sum.splits prod.splits bool.splits)

lemma find_char_append:
  "x \<notin> set s \<Longrightarrow> find_char x (s @ x # t) = Some (length s)"
  unfolding find_char_def by (induction s) (auto simp: find_char_def)

lemma parseTarget_show:
  assumes "host \<noteq> []" and "port < 2 ^ 32"
  shows "parseTarget (host @ '':'' @ show_nat port) = Inr (Some (host, port))"
proof -
  have "CHR '':'' \<notin> set (show_nat port)"
    using show_nat_digits [of port] by (auto simp: list_all_iff is_digit_def)
  then have "rfind_char (CHR '':'') (host @ '':'' @ show_nat port) = Some (length host)"
    using find_char_append [of "CHR '':''" "rev (show_nat port)" "rev host"] by (simp add: rfind_char_def)
  with assms show ?thesis by (simp add: parseTarget_def show_nat_nonempty stoul32_show Let_def)
qed

end
