(* ===== verification/Query_Programs.thy ===== *)
theory Query_Programs
  imports Node_Server
begin

text \<open>
  The two test programs of the query engine: \<open>src/basic/src/apps/localquery_main.cpp\<close> runs COUNT and
  EXECUTE on one store with all five files, \<open>src/basic/src/apps/distributedquery_main.cpp\<close> gives the
  files to three workers of one coordinator in the same process. Timing and console output are left out;
  a program is the values it prints.
\<close>

section \<open>The programs\<close>

definition subset_files :: "string list" where
  "subset_files = [''../basic/data/subset/yellow_tripdata_2019-01.csv'',
     ''../basic/data/subset/yellow_tripdata_2019-02.csv'',
     ''../basic/data/subset/yellow_tripdata_2019-03.csv'',
     ''../basic/data/subset/yellow_tripdata_2019-04.csv'',
     ''../basic/data/subset/yellow_tripdata_2019-05.csv'']"

definition one_to_ten :: "f32 Range" where
  \<comment> \<open>\<open>Range<float>{1.0f, 10.0f}\<close>\<close>
  "one_to_ten = \<lparr> range_lo = 0x3F800000, range_hi = 0x41200000 \<rparr>"

definition program_count :: "string \<Rightarrow> node_id \<Rightarrow> QueryRequest" where
  "program_count i n = (new_QueryRequest i Count)\<lparr>qq_originNodeId := n, qq_entryNodeId := n,
     qq_tripDistanceRange := Some one_to_ten\<rparr>"

definition program_execute :: "string \<Rightarrow> node_id \<Rightarrow> QueryRequest" where
  "program_execute i n = (new_QueryRequest i Execute)\<lparr>qq_originNodeId := n, qq_entryNodeId := n,
     qq_tripDistanceRange := Some one_to_ten, qq_offset := 10, qq_limit := 10\<rparr>"

definition local_baseline :: "file_system \<Rightarrow> LoadStats \<times> LocalQueryResult \<times> LocalQueryResult" where
  "local_baseline fs =
     (case loadFiles fs subset_files (new_PartitionStore []) of (loadStats, store) \<Rightarrow>
        (loadStats, local_count fs store (program_count ''local-count'' ''local''),
         local_execute fs store (program_execute ''local-execute'' ''local'')))"

definition program_worker :: "file_system \<Rightarrow> node_id \<Rightarrow> int \<Rightarrow> bool \<Rightarrow> string list \<Rightarrow> WorkerNode" where
  "program_worker fs n port e files =
     (let w = new_WorkerNode ((new_NodeInfo n ''localhost'' port e)\<lparr>ni_ownedFiles := files\<rparr>)
      in w\<lparr>wn_store := snd (loadFiles fs files (wn_store w))\<rparr>)"

definition program_coordinator :: "file_system \<Rightarrow> coordinator" where
  "program_coordinator fs =
     addWorker (program_worker fs ''C'' 50053 False [subset_files ! 2, subset_files ! 4])
      (addWorker (program_worker fs ''B'' 50052 False [subset_files ! 1])
        (addWorker (program_worker fs ''A'' 50051 True [subset_files ! 0, subset_files ! 3]) new_QueryCoordinator))"

definition distributed_test :: "'e system \<Rightarrow> 'e \<Rightarrow> nat list \<times> QueryResult \<times> QueryResult \<times> coordinator \<times> 'e" where
  "distributed_test sys e =
     (let co = program_coordinator (sys_fs sys);
          counts = map (\<lambda>w. fileCount (wn_store w)) (co_workers co)
      in case runCount sys (program_count ''Q1'' ''A'') co e of (countResult, co, e) \<Rightarrow>
         case runExecute sys (program_execute ''Q2'' ''A'') co e of (execResult, co, e) \<Rightarrow>
           (counts, countResult, execResult, co, e))"

section \<open>Rows of the files\<close>

definition loaded_rows :: "file_system \<Rightarrow> string list \<Rightarrow> (PartitionCsvParser \<times> string) list" where
  \<comment> \<open>the rows of the files that load, in the order given\<close>
  "loaded_rows fs ps = concat (map (file_rows fs) (filter (\<lambda>p. loaded_metadata fs p 0 \<noteq> None) ps))"

lemma loaded_rows_append: "loaded_rows fs (ps @ qs) = loaded_rows fs ps @ loaded_rows fs qs"
  by (simp add: loaded_rows_def)

lemma store_rows_loaded:
  assumes "distinct ps" and "ps_files s = []"
  shows "store_rows fs (snd (loadFiles fs ps s)) = loaded_rows fs ps"
proof -
  have files: "ps_files (snd (loadFiles fs ps s)) = loaded_list fs 0 ps"
    using loadFiles_eq [where fs = fs and ps = ps and s = s] assms(2) by (auto split: prod.splits)
  have paths: "map fm_filePath (loaded_list fs 0 ps) = filter (\<lambda>p. loaded_metadata fs p 0 \<noteq> None) ps"
    by (rule loaded_list_paths)
  have "distinct (map fm_filePath (loaded_list fs 0 ps))" using assms(1) by (simp add: paths)
  then have "store_isValid (snd (loadFiles fs ps s))"
    using loaded_list_valid [of fs 0 ps] by (simp add: store_isValid_iff files list_all_iff)
  then show ?thesis
    using arg_cong [OF paths, of "\<lambda>l. concat (map (file_rows fs) l)"]
    by (simp add: store_rows_def files loaded_rows_def comp_def)
qed

section \<open>What the engine and the coordinator answer\<close>

lemma all_trips_take:
  assumes "m \<le> worker_rows fs w"
  shows "all_trips fs w req 0 m = List.map_filter (row_answer req) (take m (store_rows fs (wn_store w)))"
proof -
  let ?rows = "store_rows fs (wn_store w)"
  have "take m ?rows = map ((!) ?rows) [0..<m]"
    using assms window_upt [of 0 m ?rows] by (simp add: worker_rows_def row_count_def)
  then show ?thesis
    by (simp add: map_filter_map all_trips_def hits_def is_hit_def [abs_def] row_hit_def trip_at_def [abs_def])
qed

lemma execute_from_start:
  assumes "qq_startRow req = 0" and "qq_chunkSize req = 0" and "qq_scanRowBudget req = 0"
  shows "lr_matchedTrips (local_execute fs s req) = List.map_filter (row_answer req) (take 50000 (store_rows fs s))"
    and "lr_rowsScanned (local_execute fs s req) = min 50000 (length (store_rows fs s))"
proof -
  let ?w = "\<lparr> wn_info = new_NodeInfo [] [] 0 False, wn_store = s \<rparr>"
  have "qq_startRow req \<le> row_count fs s" by (simp add: assms)
  then obtain m again where m: "m \<le> row_count fs s" and run: "local_execute fs s req = chunk_result fs s req 0 m again"
    and budget: "m \<le> 50000" and stop: "again \<Longrightarrow> m = 50000 \<and> m < row_count fs s \<or> length (hits fs s req 0 m) = size_max"
    and fin: "\<not> again \<Longrightarrow> m = row_count fs s"
    by (rule local_execute_window) (simp add: assms exec_scanRowBudget_def exec_chunkSize_def)
  have "length (hits fs s req 0 m) \<noteq> size_max"
    using hits_length [of fs s req 0 m] budget by (simp add: size_max_def)
  then have "m = min 50000 (length (store_rows fs s))"
    using m budget stop fin by (cases again) (auto simp: row_count_def)
  then show "lr_rowsScanned (local_execute fs s req) = min 50000 (length (store_rows fs s))"
    and "lr_matchedTrips (local_execute fs s req) = List.map_filter (row_answer req) (take 50000 (store_rows fs s))"
    using all_trips_take [of m fs ?w req] m
    by (auto simp: run chunk_result_def all_trips_def worker_rows_def row_count_def min_def)
qed

lemma mark_local_frame:
  "co_workers (mark_local_start i co) = co_workers co" "co_workers (mark_local_end i co) = co_workers co"
  "co_overlay (mark_local_end i (mark_local_start i co)) = co_overlay co"
  "co_selfNodeId (mark_local_end i (mark_local_start i co)) = co_selfNodeId co"
  "map rs_queryId (co_queryStates (mark_local_start i co)) = map rs_queryId (co_queryStates co)"
  "map rs_queryId (co_queryStates (mark_local_end i co)) = map rs_queryId (co_queryStates co)"
  by (auto simp: mark_local_start_def mark_local_end_def incrementCompletedWorkers_def setExpectedWorkers_def
      intro!: on_state_ids split: option.split)

lemma runCount_first_worker:
  assumes fresh: "findRequestState co (qq_queryId req) = None" and ov: "co_overlay co = None"
    and target: "qq_targetNodeId req = None" and ws: "co_workers co = w # ws"
  shows "case runCount sys req co e of (r, co', e') \<Rightarrow> r = worker_runCount (sys_fs sys) w req \<and> e' = e \<and>
    co_workers co' = co_workers co \<and> co_overlay co' = None \<and> co_selfNodeId co' = co_selfNodeId co \<and>
    map rs_queryId (co_queryStates co') = map rs_queryId (co_queryStates co) @ [qq_queryId req]"
proof -
  define k where "k = length (co_queryStates co)"
  define co1 where "co1 = on_state k (setState IN_PROGRESS)
    (co\<lparr>co_queryStates := co_queryStates co @ [new_RequestState (qq_queryId req) req]\<rparr>)"
  have c: "createRequestState req co =
      (k, co\<lparr>co_queryStates := co_queryStates co @ [new_RequestState (qq_queryId req) req]\<rparr>)"
    by (simp add: createRequestState_def fresh k_def)
  have f: "co_workers co1 = w # ws" "co_overlay co1 = None" "co_selfNodeId co1 = co_selfNodeId co"
    "map rs_queryId (co_queryStates co1) = map rs_queryId (co_queryStates co) @ [qq_queryId req]"
    by (simp_all add: co1_def on_state_ids ws ov new_RequestState_def)
  have "canProcessLocally co1 req" by (simp add: canProcessLocally_def f target)
  moreover obtain co2 where p: "processLocalCount sys req co1 = (worker_runCount (sys_fs sys) w req, co2)"
    and g: "co_workers co2 = w # ws" "co_overlay co2 = None" "co_selfNodeId co2 = co_selfNodeId co"
      "map rs_queryId (co_queryStates co2) = map rs_queryId (co_queryStates co) @ [qq_queryId req]"
  proof -
    have "determineTargetWorkers co1 req = 0 # [1..<Suc (length ws)]"
      by (simp add: determineTargetWorkers_def f target upt_conv_Cons del: upt_Suc)
    then show thesis
      by (intro that [of "mark_local_end (qq_queryId req) (mark_local_start (qq_queryId req) co1)"])
        (simp_all add: processLocalCount_def Let_def mark_local_frame f)
  qed
  ultimately show ?thesis
    unfolding runCount_def c prod.case Let_def co1_def [symmetric]
    by (simp add: p g ws ov on_state_ids)
qed

lemma runExecute_local:
  assumes fresh: "findRequestState co (qq_queryId req) = None" and target: "qq_targetNodeId req = None"
    and nc: "no_children co"
    and w: "find (\<lambda>w. co_selfNodeId co \<noteq> [] \<longrightarrow> getNodeId w = co_selfNodeId co) (co_workers co) = Some w"
  obtains m co' where "m \<le> worker_rows (sys_fs sys) w" and "snd (runExecute sys req co e) = (co', e)"
    and "qr_matchedTrips (fst (runExecute sys req co e)) = all_trips (sys_fs sys) w req 0 m"
proof -
  let ?k = "length (co_queryStates co)" and ?co = "begin_execute req co"
  note b = begin_execute_local [OF fresh target nc w]
  have k: "fst (createRequestState req co) = ?k" by (simp add: createRequestState_def fresh)
  have open_: "\<not> wp_completed new_WorkerProgress" by (simp add: new_WorkerProgress_def)
  obtain got co1 q where f: "fetchNextExecuteChunks sys ?k (qq_chunkSize req) ?co e = (got, co1, e)"
    and inv: "local_inv (sys_fs sys) w [] (state_at co1 ?k) q" and u: "rs_nextUnreadIndex (state_at co1 ?k) = 0"
    by (rule fetchNext_window [OF b(6) refl _ b(8) b(1) refl _ open_, where m = "qq_chunkSize req" and e = e])
      (use b in simp_all)
  have req: "rs_request (state_at co1 ?k) = req"
    using steps_fetchNext [of ?k ?co sys "qq_chunkSize req" e] f b(4,6) by (simp add: steps_def)
  have trips: "qr_matchedTrips (rs_aggregatedResult (state_at co1 ?k)) = all_trips (sys_fs sys) w req 0 (wp_nextStartRow q)"
    using inv u req by (simp add: local_inv_def)
  have k1: "?k < length (co_queryStates co1)"
    using steps_fetchNext [of ?k ?co sys "qq_chunkSize req" e] f b(6) by (simp add: steps_def)
  define co2 where "co2 = (if allWorkersCompleted (state_at co1 ?k) \<and>
      rs_nextUnreadIndex (state_at co1 ?k) \<ge> length (qr_matchedTrips (rs_aggregatedResult (state_at co1 ?k)))
    then on_state ?k (setState COMPLETED) co1 else co1)"
  have "runExecute sys req co e = (rs_aggregatedResult (state_at co2 ?k), co2, e)"
    using f unfolding runExecute_def begin_execute_def co2_def
    by (simp add: Let_def createRequestState_def fresh)
  moreover have "rs_aggregatedResult (state_at co2 ?k) = rs_aggregatedResult (state_at co1 ?k)"
    using k1 by (simp add: co2_def)
  ultimately show thesis using trips inv by (intro that) (simp_all add: local_inv_def)
qed

end
