(* ===== verification/Program_Properties.thy ===== *)
theory Program_Properties
  imports Query_Programs
begin

text \<open>
  What the two test programs of the query engine report, and how their answers compare.
\<close>

lemma subset_files_distinct: "distinct subset_files"
  by (simp add: subset_files_def)

lemma subset_files_parts:
  "subset_files = [subset_files ! 0, subset_files ! 1, subset_files ! 2, subset_files ! 3, subset_files ! 4]"
  by (simp add: subset_files_def)

lemma loaded_rows_parts: "loaded_rows fs (p # q # ps) = loaded_rows fs [p] @ loaded_rows fs (q # ps)"
  using loaded_rows_append [of fs "[p]" "q # ps"] by simp

lemma subset_files_length: "length subset_files = 5"
  by (simp add: subset_files_def)

definition one_to_ten_miles :: QueryRequest where
  \<comment> \<open>the filter both programs ask for\<close>
  "one_to_ten_miles = (new_QueryRequest [] Execute)\<lparr>qq_tripDistanceRange := Some one_to_ten\<rparr>"

lemma program_answers:
  "row_answer (program_count i n) = row_answer one_to_ten_miles"
  "row_answer (program_execute i n) = row_answer one_to_ten_miles"
proof -
  have "same_filter (program_count i n) one_to_ten_miles" "same_filter (program_execute i n) one_to_ten_miles"
    by (simp_all add: same_filter_def program_count_def program_execute_def one_to_ten_miles_def new_QueryRequest_def)
  from this [THEN same_filter_answer(1)] show "row_answer (program_count i n) = row_answer one_to_ten_miles"
    "row_answer (program_execute i n) = row_answer one_to_ten_miles" .
qed

lemma program_hits:
  "row_hit (program_count i n) = row_hit one_to_ten_miles"
  by (intro ext) (simp add: row_hit_def program_answers)

lemma program_worker_rows:
  assumes "distinct files"
  shows "store_rows fs (wn_store (program_worker fs n port e files)) = loaded_rows fs files"
    and "getNodeId (program_worker fs n port e files) = n"
  using store_rows_loaded [OF assms, of "new_PartitionStore n" fs]
  by (simp_all add: program_worker_def new_WorkerNode_def new_NodeInfo_def new_PartitionStore_def getNodeId_def Let_def)

section \<open>Properties\<close>

text \<open>
  The local baseline reads every loadable file of the five once and counts the rows with a distance
  from one to ten miles; its EXECUTE returns all matches among the first 50000 rows: the offset and the
  limit of ten that the program sets are not applied.
\<close>

lemma local_baseline_exact:
  "case local_baseline fs of (stats, c, x) \<Rightarrow>
     ls_filesDiscovered stats = 5 \<and> ls_filesAssigned stats + ls_filesFailed stats = 5 \<and>
     lr_rowsScanned c = length (loaded_rows fs subset_files) \<and>
     lr_rowsMatched c = length (filter (row_hit one_to_ten_miles) (loaded_rows fs subset_files)) \<and>
     lr_rowsScanned x = min 50000 (length (loaded_rows fs subset_files)) \<and>
     lr_matchedTrips x = List.map_filter (row_answer one_to_ten_miles) (take 50000 (loaded_rows fs subset_files))"
proof -
  obtain stats s where l: "loadFiles fs subset_files (new_PartitionStore []) = (stats, s)" by fastforce
  have rows: "store_rows fs s = loaded_rows fs subset_files"
    using store_rows_loaded [OF subset_files_distinct, of "new_PartitionStore []" fs] unfolding l
    by (simp add: new_PartitionStore_def)
  let ?x = "program_execute ''local-execute'' ''local''"
  have "qq_startRow ?x = 0" "qq_chunkSize ?x = 0" "qq_scanRowBudget ?x = 0"
    by (simp_all add: program_execute_def new_QueryRequest_def)
  note x = execute_from_start [OF this, of fs s]
  have "ls_filesDiscovered stats = 5 \<and> ls_filesAssigned stats + ls_filesFailed stats = 5"
    using loadFiles_eq [where fs = fs and ps = subset_files and s = "new_PartitionStore []"] subset_files_length
    unfolding l prod.case by (elim conjE) simp
  then show ?thesis
    by (simp add: local_baseline_def l x rows program_answers local_count_eq program_hits)
qed

text \<open>
  C21: the distributed test asks one worker only. Its three workers hold the same five files, but COUNT and
  EXECUTE answer from the two files of worker A: the count falls short of the local baseline by every match
  in the other three files, and the trips are a prefix of the matches in A's files.
\<close>

theorem distributed_test_first_worker:
  "case (distributed_test sys e, local_baseline (sys_fs sys)) of ((_, c, x, _, e'), (_, local, _)) \<Rightarrow>
     let rows = \<lambda>is. loaded_rows (sys_fs sys) (map ((!) subset_files) is);
         matches = \<lambda>is. length (filter (row_hit one_to_ten_miles) (rows is))
     in e' = e \<and> qr_rowsScanned c = length (rows [0, 3]) \<and> qr_rowsMatched c = matches [0, 3] \<and>
        lr_rowsMatched local = qr_rowsMatched c + matches [1] + matches [2, 4] \<and>
        (\<exists>n \<le> length (rows [0, 3]). qr_matchedTrips x = List.map_filter (row_answer one_to_ten_miles) (take n (rows [0, 3])))"
proof -
  let ?fs = "sys_fs sys" and ?co = "program_coordinator (sys_fs sys)" and ?q = "program_count ''Q1'' ''A''"
    and ?x = "program_execute ''Q2'' ''A''"
  let ?A = "program_worker ?fs ''A'' 50051 True [subset_files ! 0, subset_files ! 3]"
  have A: "store_rows ?fs (wn_store ?A) = loaded_rows ?fs [subset_files ! 0, subset_files ! 3]"
    by (rule program_worker_rows) (simp add: subset_files_def)
  obtain ws where ws: "co_workers ?co = ?A # ws" by (simp add: program_coordinator_def addWorker_def new_QueryCoordinator_def)
  have co: "co_overlay ?co = None" "co_queryStates ?co = []" "co_selfNodeId ?co = []"
    by (simp_all add: program_coordinator_def addWorker_def new_QueryCoordinator_def)
  have q: "qq_targetNodeId ?q = None" "qq_queryId ?q = ''Q1''" "qq_targetNodeId ?x = None" "qq_queryId ?x = ''Q2''"
    by (simp_all add: program_count_def program_execute_def new_QueryRequest_def)
  have "findRequestState ?co (qq_queryId ?q) = None" by (simp add: findRequestState_None co)
  note first = runCount_first_worker [OF this co(1) q(1) ws, of sys e]
  obtain r co1 e1 where run: "runCount sys ?q ?co e = (r, co1, e1)" by (metis prod_cases3)
  have c: "runCount sys ?q ?co e = (worker_runCount ?fs ?A ?q, co1, e)"
    and co1: "co_workers co1 = ?A # ws" "co_overlay co1 = None" "co_selfNodeId co1 = []"
      "map rs_queryId (co_queryStates co1) = [''Q1'']"
    using first unfolding run prod.case ws co q list.map append_Nil by (elim conjE, simp only:)+
  have fresh: "findRequestState co1 (qq_queryId ?x) = None" by (simp only: findRequestState_None co1 q) simp
  have nc: "no_children co1" by (simp add: no_children_def co1)
  have "find (\<lambda>w. co_selfNodeId co1 \<noteq> [] \<longrightarrow> getNodeId w = co_selfNodeId co1) (co_workers co1) = Some ?A"
    by (simp add: co1)
  then obtain m co2 where m: "m \<le> worker_rows ?fs ?A" and same: "snd (runExecute sys ?x co1 e) = (co2, e)"
    and trips: "qr_matchedTrips (fst (runExecute sys ?x co1 e)) = all_trips ?fs ?A ?x 0 m"
    by (rule runExecute_local [OF fresh q(3) nc, where sys = sys and e = e])
  have x: "qr_matchedTrips (fst (runExecute sys ?x co1 e)) = List.map_filter (row_answer one_to_ten_miles)
      (take m (loaded_rows ?fs [subset_files ! 0, subset_files ! 3]))"
    unfolding trips all_trips_take [OF m] program_answers A ..
  have m: "m \<le> length (loaded_rows ?fs [subset_files ! 0, subset_files ! 3])"
    using m by (simp add: worker_rows_def row_count_def A)
  have split: "length (filter P (loaded_rows ?fs subset_files)) =
      length (filter P (loaded_rows ?fs [subset_files ! 0, subset_files ! 3])) +
      length (filter P (loaded_rows ?fs [subset_files ! 1])) +
      length (filter P (loaded_rows ?fs [subset_files ! 2, subset_files ! 4]))" for P
    by (subst subset_files_parts) (simp only: loaded_rows_parts filter_append length_append ac_simps)
  obtain rx where rx: "runExecute sys ?x co1 e = (rx, co2, e)" using same by (metis prod.collapse)
  obtain stats lc lx where l: "local_baseline ?fs = (stats, lc, lx)" by (metis prod_cases3)
  have lc: "lr_rowsMatched lc = length (filter (row_hit one_to_ten_miles) (loaded_rows ?fs subset_files))"
    using local_baseline_exact [of ?fs] unfolding l by simp
  have count: "qr_rowsScanned (worker_runCount ?fs ?A ?q) = length (loaded_rows ?fs [subset_files ! 0, subset_files ! 3])"
    "qr_rowsMatched (worker_runCount ?fs ?A ?q) =
       length (filter (row_hit one_to_ten_miles) (loaded_rows ?fs [subset_files ! 0, subset_files ! 3]))"
    by (simp_all add: worker_runCount_def local_count_eq A program_hits Let_def)
  show ?thesis
    unfolding distributed_test_def Let_def c rx l prod.case list.map
    using x m unfolding rx fst_conv by (intro conjI exI [of _ m]) (simp_all only: count lc split)
qed

end
