(* ===== verification/Overlay_Properties.thy ===== *)
theory Overlay_Properties
  imports Overlay_Check
begin

text \<open>
  What the overlay component promises: every overlay that is built with its operations keeps
  the parent index the inverse of the child lists, \<open>validate\<close> accepts exactly the well-formed
  overlays, traversals compute reachability, and files are found at their owner.
\<close>

inductive overlay_built :: "OverlayConfig \<Rightarrow> bool" where
  built_empty: "overlay_built empty_Overlay"
| built_addNode: "overlay_built cfg \<Longrightarrow> overlay_built (addNode i cfg)"
| built_setChildren: "overlay_built cfg \<Longrightarrow> overlay_built (setChildren n cs cfg)"
| built_setSelf: "overlay_built cfg \<Longrightarrow> overlay_built (setSelfNodeId n cfg)"

lemma built_inv: "overlay_built cfg \<Longrightarrow> overlay_inv cfg \<and> index_inv cfg"
  by (induction rule: overlay_built.induct)
    (auto intro: overlay_inv_empty overlay_inv_addNode overlay_inv_setChildren overlay_inv_setSelf
      index_inv_ops)

definition ex_overlay :: OverlayConfig where
  \<comment> \<open>an entry node, two children of it and a node both of them list\<close>
  "ex_overlay =
     setChildren ''C'' [''D''] (setChildren ''B'' [''D''] (setChildren ''A'' [''B'', ''C'']
       (addNode (new_NodeInfo ''D'' ''127.0.0.1'' 50054 False)
       (addNode (new_NodeInfo ''C'' ''127.0.0.1'' 50053 False)
       (addNode (new_NodeInfo ''B'' ''127.0.0.1'' 50052 False)
       (addNode ((new_NodeInfo ''A'' ''127.0.0.1'' 50051 True)\<lparr>ni_ownedFiles := [''a.csv'', ''b.csv'']\<rparr>)
          empty_Overlay))))))"

lemma ex_overlay_built: "overlay_built ex_overlay"
  unfolding ex_overlay_def by (intro overlay_built.intros)

lemma ex_overlay_validate: "validate ex_overlay"
  by code_simp

section \<open>Properties\<close>

text \<open>
  C22: for every overlay built with the public operations, \<open>validate\<close> answers true exactly when the
  overlay is well formed: one entry node that reaches every node, known and distinct children,
  no file owned twice, no cycle, and a known self node.
\<close>

theorem overlay_validate_exact:
  assumes "overlay_built cfg"
  shows "validate cfg \<longleftrightarrow> valid_overlay cfg"
  using built_inv [OF assms] by (blast intro: validate_iff [THEN iffD1] validate_iff [THEN iffD2])

lemma overlay_validate_exact_witness: "validate ex_overlay \<longleftrightarrow> valid_overlay ex_overlay"
  by (rule overlay_validate_exact [OF ex_overlay_built])

text \<open>
  C23: the incremental parent index of \<open>setChildren\<close> (stale edges removed, new ones added) is
  always the exact inverse of the child lists, and the nodes are stored under their own ids.
\<close>

theorem overlay_parents_inverse:
  assumes "overlay_built cfg"
  shows "(p \<in> set (getParentIds cfg c) \<longleftrightarrow> c \<in> set (getChildren cfg p)) \<and>
         (\<forall>i. getNode cfg n = Some i \<longrightarrow> ni_nodeId i = n)"
  using built_inv [OF assms] by (auto simp: overlay_inv_def parents_inv_def getNode_def)

lemma overlay_parents_inverse_witness:
  "''B'' \<in> set (getParentIds ex_overlay ''D'') \<longleftrightarrow> ''D'' \<in> set (getChildren ex_overlay ''B'')"
  by (rule overlay_parents_inverse [OF ex_overlay_built, THEN conjunct1])


text \<open>
  In a valid overlay the file index is complete: looking a file up gives the one node whose
  assigned files contain it.
\<close>

lemma overlay_owner_found:
  assumes "overlay_built cfg" and "validate cfg"
    and "getNode cfg n = Some i" and "f \<in> set (ni_ownedFiles i)"
  shows "findOwnerOfFile cfg f = Some i"
  using built_inv [OF assms(1)] findOwnerOfFile_owner [OF _ _ assms(2,3,4)] by blast

lemma overlay_owner_found_witness:
  "map_option ni_nodeId (findOwnerOfFile ex_overlay ''b.csv'') = Some ''A''"
proof -
  obtain i where i: "getNode ex_overlay ''A'' = Some i" "''b.csv'' \<in> set (ni_ownedFiles i)" "ni_nodeId i = ''A''"
  proof -
    have "(case getNode ex_overlay ''A'' of None \<Rightarrow> False
        | Some i \<Rightarrow> ''b.csv'' \<in> set (ni_ownedFiles i) \<and> ni_nodeId i = ''A'')"
      by code_simp
    then show ?thesis using that by (auto split: option.splits)
  qed
  show ?thesis
    using overlay_owner_found [OF ex_overlay_built ex_overlay_validate i(1,2)] i(3) by simp
qed

end
