(* ===== verification/Data_Properties.thy ===== *)
theory Data_Properties
  imports Examples
begin

text \<open>
  What the data side of a node promises: loading files into a store, reading rows of a CSV file,
  the values of its fields, and the local engine's COUNT and EXECUTE over the loaded rows.
\<close>

section \<open>Stores\<close>

text \<open>
  The function \<open>loadFiles\<close> appends exactly the loadable files in order, its statistics account for every
  file it was given, and a store loaded from scratch is valid exactly when no loadable file is
  listed twice.
\<close>

theorem loadFiles_exact:
  "case loadFiles fs ps (new_PartitionStore n) of (st, s) \<Rightarrow>
     map fm_filePath (ps_files s) = filter (\<lambda>p. loaded_metadata fs p 0 \<noteq> None) ps \<and>
     (store_isValid s = distinct (filter (\<lambda>p. loaded_metadata fs p 0 \<noteq> None) ps)) \<and>
     ls_filesDiscovered st = length ps \<and>
     ls_filesDiscovered st = ls_filesAssigned st + ls_filesFailed st \<and>
     ls_filesAssigned st = fileCount s \<and>
     ls_totalBytesAssigned st = totalAssignedBytes s \<and> ls_totalTripsAssigned st = totalTripCount s"
proof -
  obtain st s where l: "loadFiles fs ps (new_PartitionStore n) = (st, s)" by (cases "loadFiles fs ps (new_PartitionStore n)")
  have files: "ps_files s = loaded_list fs 0 ps"
    using loadFiles_eq [where fs = fs and ps = ps and s = "new_PartitionStore n"] l by (simp add: new_PartitionStore_def)
  then show ?thesis
    using loadFiles_eq [where fs = fs and ps = ps and s = "new_PartitionStore n"] l loaded_list_paths [of fs 0 ps] loaded_list_valid [of fs 0 ps]
    by (simp add: store_isValid_iff totals_sum fileCount_def)
qed

text \<open>
  \<open>loadDirectory\<close> on a directory gives a valid store whose files are exactly the loadable
  regular CSV files of the directory, once each and in ascending path order.
\<close>

lemma loadDirectory_sorted:
  assumes "fs d = Some (Directory names)" and "distinct names"
  shows "case loadDirectory fs d (new_PartitionStore n) of (st, s) \<Rightarrow>
    store_isValid s \<and> sorted (map fm_filePath (ps_files s)) \<and> distinct (map fm_filePath (ps_files s)) \<and>
    set (map fm_filePath (ps_files s)) =
      {p \<in> path_append d ` set names. is_regular fs p \<and> isCsvFile p \<and> loaded_metadata fs p 0 \<noteq> None}"
proof -
  obtain st s where l: "loadDirectory fs d (new_PartitionStore n) = (st, s)"
    by (cases "loadDirectory fs d (new_PartitionStore n)")
  let ?ps = "directory_csv_files fs d names"
  have files: "ps_files s = loaded_list fs 0 ?ps"
    using loadFiles_eq [where fs = fs and ps = ?ps and s = "new_PartitionStore n"] l assms(1)
    by (simp add: loadDirectory_def new_PartitionStore_def)
  have srt: "distinct ?ps \<and> sorted ?ps" by (rule directory_csv_files_distinct [OF assms(2)])
  then have "distinct (filter P ?ps) \<and> sorted (filter P ?ps)" for P
    using sorted_filter [of "\<lambda>x. x" ?ps P] by simp
  moreover have paths: "map fm_filePath (ps_files s) = filter (\<lambda>p. loaded_metadata fs p 0 \<noteq> None) ?ps"
    unfolding files by (rule loaded_list_paths)
  moreover have "set ?ps = {p \<in> path_append d ` set names. is_regular fs p \<and> isCsvFile p}"
    by (auto simp: directory_csv_files_def)
  ultimately have "sorted (map fm_filePath (ps_files s)) \<and> distinct (map fm_filePath (ps_files s)) \<and>
      set (map fm_filePath (ps_files s)) =
      {p \<in> path_append d ` set names. is_regular fs p \<and> isCsvFile p \<and> loaded_metadata fs p 0 \<noteq> None}"
    unfolding paths by auto
  then show ?thesis
    using l loaded_list_valid [of fs 0 ?ps] files by (simp add: store_isValid_iff del: set_map)
qed

lemma loadDirectory_sorted_witness:
  "sorted (map fm_filePath (ps_files (snd (loadDirectory ex_fs ''data'' (new_PartitionStore ''A'')))))"
  using loadDirectory_sorted [of ex_fs "''data''" "[''z.csv'', ''notes.txt'', ''a.csv'']" "''A''"]
  by (simp add: ex_fs_def split: prod.splits)

section \<open>Rows\<close>

text \<open>
  The function \<open>initFromHeader\<close> accepts a header exactly when its quotes are balanced and all six required
  columns occur, and then every index points at a column with that name.
\<close>

theorem header_exact:
  "fst (initFromHeader line) = (even (quotes line) \<and>
       set header_names \<subseteq> set (map splitHeaderFieldNormalize (fields_of line))) \<and>
   cp_hasHeaderIndex (snd (initFromHeader line)) = fst (initFromHeader line) \<and>
   (if fst (initFromHeader line) then header_ok (fields_of line) (cp_idx (snd (initFromHeader line))) else True)"
  using initFromHeader_cases [of line] by auto

text \<open>
  C25: with an accepted header, parsing a balanced row is looking its fields up by position: one
  left to right scan with quote handling gives the same row as splitting the line at its unquoted
  commas, and the row is good exactly when its pickup time parses.
\<close>

theorem parseRow_is_lookup:
  assumes "initFromHeader header = (True, p)" and "line \<noteq> []" and "even (quotes line)"
  shows "parseRow p line =
    (pr_pickupDatetime (row_of (cp_idx p) (fields_of line)) \<noteq> 0, row_of (cp_idx p) (fields_of line))"
proof -
  have "cp_hasHeaderIndex p" "columns_distinct (cp_idx p)"
    using initFromHeader_cases [of header] assms(1) header_ok_distinct by auto
  then show ?thesis by (rule parseRow_lookup [OF _ _ assms(2,3)])
qed

lemma parseRow_is_lookup_witness:
  "parseRow (snd (initFromHeader ex_header)) (hd ex_rows) =
    (let r = row_of (cp_idx (snd (initFromHeader ex_header))) (fields_of (hd ex_rows)) in (pr_pickupDatetime r \<noteq> 0, r))"
proof -
  have "fst (initFromHeader ex_header)" by code_simp
  then have "initFromHeader ex_header = (True, snd (initFromHeader ex_header))" by (metis prod.collapse)
  moreover have "hd ex_rows \<noteq> []" by code_simp
  moreover have "even (quotes (hd ex_rows))" by code_simp
  ultimately show ?thesis unfolding Let_def by (rule parseRow_is_lookup)
qed

text \<open>
  C26: whatever the line, the parsed fields stay inside the widths of their types, and a line that
  is empty or has an open quote is rejected.
\<close>

theorem parseRow_bounded:
  "row_in_range (snd (parseRow p line)) \<and>
   (if line \<noteq> [] \<and> even (quotes line) then True else fst (parseRow p line) = False)"
  using parseRow_range parseRow_rejects by auto


definition ex_time :: tm where
  "ex_time = \<lparr> tm_year = 120, tm_mon = 1, tm_mday = 29, tm_hour = 12, tm_min = 0, tm_sec = 5 \<rparr>"


text \<open>
  From 1970 on the epoch milliseconds order times as the calendar does, so the pickup and
  dropoff ranges of a query are calendar ranges.
\<close>

theorem epoch_order:
  assumes "tm_valid s" "tm_valid t" "70 \<le> tm_year s" "70 \<le> tm_year t"
  shows "epoch_ms s < epoch_ms t \<longleftrightarrow> tm_lt s t"
  by (rule epoch_ms_less_iff [OF assms])

lemma epoch_order_witness:
  "epoch_ms ex_time < epoch_ms (ex_time\<lparr>tm_hour := 13\<rparr>) \<longleftrightarrow> tm_lt ex_time (ex_time\<lparr>tm_hour := 13\<rparr>)"
  by (rule epoch_order) (code_simp)+

text \<open>
  C28: a decimal amount is read to the nearest cent, halves away from zero, and clamped to 32 bits,
  as long as the whole part is below \<open>10 ^ 16\<close> dollars.
\<close>

theorem money_rounds:
  assumes "list_all is_digit ip" and "list_all is_digit fp" and "ip \<noteq> [] \<or> fp \<noteq> []"
    and "dec_val 0 ip < 10 ^ 16"
  shows "parseMoneyCents (money_text neg ip fp) =
     clamp_int32 (if neg then - round_cents ip fp else round_cents ip fp)"
  by (rule parse_money_text [OF assms])

lemma money_rounds_witness: "parseMoneyCents (money_text True ''12'' ''345'') = - 1235"
proof -
  have "parseMoneyCents (money_text True ''12'' ''345'') = clamp_int32 (- round_cents ''12'' ''345'')"
    using money_rounds [of "''12''" "''345''" True] by (simp add: is_digit_def digit_val_def)
  also have "\<dots> = - 1235" by code_simp
  finally show ?thesis .
qed

text \<open>Every 32-bit amount of cents survives being printed and parsed.\<close>

theorem money_roundtrip:
  assumes "- (2 ^ 31) \<le> n" and "n < 2 ^ 31"
  shows "parseMoneyCents (money_show n) = n"
  by (rule parse_money_show [OF assms])

lemma money_roundtrip_witness: "parseMoneyCents (money_show (- 5)) = - 5"
  by (rule money_roundtrip) simp_all

section \<open>The local engine\<close>


text \<open>
  A row matches exactly when every filter the request has admits it: closed integer ranges,
  the payment type, and the distance not below the lower and not above the upper bound.
\<close>

theorem matchesRow_exact:
  "matchesRow row req = (
     (case qq_pickupRange req of None \<Rightarrow> True | Some r \<Rightarrow> pr_pickupDatetime row \<in> {range_lo r..range_hi r}) \<and>
     (case qq_dropoffRange req of None \<Rightarrow> True | Some r \<Rightarrow> pr_dropoffDatetime row \<in> {range_lo r..range_hi r}) \<and>
     (case qq_tripDistanceRange req of None \<Rightarrow> True
      | Some r \<Rightarrow> \<not> f32_lt (pr_tripDistance row) (range_lo r) \<and> \<not> f32_lt (range_hi r) (pr_tripDistance row)) \<and>
     (case qq_tipAmountRange req of None \<Rightarrow> True | Some r \<Rightarrow> pr_tipAmountCents row \<in> {range_lo r..range_hi r}) \<and>
     (case qq_totalAmountRange req of None \<Rightarrow> True | Some r \<Rightarrow> pr_totalAmountCents row \<in> {range_lo r..range_hi r}) \<and>
     (case qq_paymentType req of None \<Rightarrow> True | Some p \<Rightarrow> pr_paymentType row = p))"
  by (simp add: matchesRow_iff int_range_rejects_iff float_range_rejects_iff split: option.split)

text \<open>
  C15: one EXECUTE call answers a window of the rows: it starts at the resume point, never scans
  more rows than the budget or emits more trips than the chunk size, returns the trips of exactly
  the matching rows of the window, and says there is more unless it reached the last row.
\<close>

theorem execute_window_bounds:
  assumes "qq_startRow req \<le> row_count fs s"
  shows "let r = local_execute fs s req in
    qq_startRow req \<le> lr_nextStartRow r \<and> lr_nextStartRow r \<le> row_count fs s \<and>
    lr_rowsScanned r = lr_nextStartRow r - qq_startRow req \<and>
    lr_rowsScanned r \<le> exec_scanRowBudget req \<and>
    length (lr_matchedTrips r) \<le> exec_chunkSize req \<and>
    lr_matchedLocalRowIds r = filter (\<lambda>i. row_hit req (store_rows fs s ! i)) [qq_startRow req..<lr_nextStartRow r] \<and>
    lr_matchedTrips r = map (trip_at fs s req) (lr_matchedLocalRowIds r) \<and>
    (lr_hasMore r \<or> lr_nextStartRow r = row_count fs s)"
proof -
  from assms obtain m again where m: "qq_startRow req \<le> m" "m \<le> row_count fs s"
    and eq: "local_execute fs s req = chunk_result fs s req (qq_startRow req) m again"
    and lim: "m - qq_startRow req \<le> exec_scanRowBudget req"
      "length (hits fs s req (qq_startRow req) m) \<le> exec_chunkSize req"
    and fin: "\<not> again \<Longrightarrow> m = row_count fs s"
    by (rule local_execute_window) blast
  then show ?thesis
    unfolding eq by (auto simp: chunk_result_def Let_def hits_def is_hit_def [abs_def])
qed

lemma execute_window_bounds_witness:
  "lr_matchedLocalRowIds (local_execute ex_fs ex_store ex_card) = [0, 2] \<or>
   lr_hasMore (local_execute ex_fs ex_store ex_card)"
proof -
  have start: "qq_startRow ex_card = 0" by code_simp
  have rows: "row_count ex_fs ex_store = 3" using ex_store_rows by (simp add: row_count_def)
  have hits: "filter (\<lambda>i. row_hit ex_card (store_rows ex_fs ex_store ! i)) [0..<3] = [0, 2]" by code_simp
  show ?thesis
    using execute_window_bounds [of ex_card ex_fs ex_store] start rows hits by (auto simp: Let_def)
qed

text \<open>
  C14: resuming EXECUTE at the row it reports until it says there is no more terminates, visits
  every matching row of the store exactly once and in order, and finds as many as COUNT.
\<close>

theorem execute_drains_once:
  assumes "row_count fs s < fuel"
  shows "\<exists>cs. drain fuel (\<lambda>n. local_execute fs s (req\<lparr>qq_startRow := n\<rparr>)) lr_nextStartRow lr_hasMore 0 = Some cs \<and>
     distinct (concat (map lr_matchedLocalRowIds cs)) \<and> sorted (concat (map lr_matchedLocalRowIds cs)) \<and>
     set (concat (map lr_matchedLocalRowIds cs)) = {i. i < row_count fs s \<and> row_hit req (store_rows fs s ! i)} \<and>
     length (concat (map lr_matchedLocalRowIds cs)) = lr_rowsMatched (local_count fs s req)"
proof -
  have "row_count fs s - 0 < fuel" using assms by simp
  from execute_chunks.drain_all [where fs = fs and s = s and req = req, OF le0 this] obtain cs where
    cs: "drain fuel (\<lambda>n. local_execute fs s (req\<lparr>qq_startRow := n\<rparr>)) lr_nextStartRow lr_hasMore 0 = Some cs"
    "concat (map lr_matchedLocalRowIds cs) = hits fs s req 0 (row_count fs s)"
    by (auto simp: hits_def)
  moreover note execute_chunks.drain_once [where fs = fs and s = s and req = req, OF le0 \<open>row_count fs s - 0 < fuel\<close> cs(1)]
  moreover have "length (concat (map lr_matchedLocalRowIds cs)) = lr_rowsMatched (local_count fs s req)"
    unfolding cs(2) local_count_hits ..
  ultimately show ?thesis by (intro exI [of _ cs]) (simp add: is_hit_def)
qed

lemma execute_drains_once_witness:
  "\<exists>cs. drain 4 (\<lambda>n. local_execute ex_fs ex_store (ex_card\<lparr>qq_startRow := n\<rparr>)) lr_nextStartRow lr_hasMore 0 = Some cs \<and>
     length (concat (map lr_matchedLocalRowIds cs)) = 2"
proof -
  have "row_count ex_fs ex_store < 4" using ex_store_rows by (simp add: row_count_def)
  moreover have "lr_rowsMatched (local_count ex_fs ex_store ex_card) = 2" by code_simp
  ultimately show ?thesis using execute_drains_once [of ex_fs ex_store 4 ex_card] by auto
qed

end
