(* ===== verification/Service_Machine.thy ===== *)
theory Service_Machine
  imports Query_Service
begin

text \<open>
  A node's query service as a state machine: its state is the coordinator together with the rest
  of the system, its steps are the six RPC handlers, each taken as one atomic step, and the moves
  of the other nodes. Runs are sequences of steps; the lemmas transfer one-step facts to runs.
\<close>

section \<open>Submitting\<close>

lemma submitSub_eq_submitClient:
  "co_submitSubQuery sys req p co e = submitClientQuery sys (req\<lparr>qq_distributedAllowed := True\<rparr>) co e"
proof -
  have comm: "req\<lparr>qq_queryId := i, qq_distributedAllowed := True\<rparr> = req\<lparr>qq_distributedAllowed := True, qq_queryId := i\<rparr>" for i
    by (cases req) simp
  show ?thesis by (simp add: comm co_submitSubQuery_def submitClientQuery_def ensureQueryId_def Let_def)
qed

definition submits :: "coordinator \<Rightarrow> string \<Rightarrow> QueryRequest \<Rightarrow> coordinator \<Rightarrow> bool" where
  \<comment> \<open>\<open>co'\<close> is \<open>co\<close> with one new EXECUTE request \<open>i\<close>\<close>
  "submits co i req co' \<longleftrightarrow>
     findRequestState co i = None \<and> findRequestState co' i = Some (length (co_queryStates co)) \<and>
     length (co_queryStates co') = Suc (length (co_queryStates co)) \<and>
     (\<forall>j < length (co_queryStates co). state_at co' j = state_at co j) \<and>
     (rs_state (state_at co' (length (co_queryStates co))) = IN_PROGRESS) \<and>
     rs_request (state_at co' (length (co_queryStates co))) = markVisitedNode (co_selfNodeId co) (req\<lparr>qq_queryId := i\<rparr>) \<and>
     co_workers co' = co_workers co \<and> co_overlay co' = co_overlay co \<and>
     co_selfNodeId co' = co_selfNodeId co \<and> (co_remoteClient co' = None \<longleftrightarrow> co_remoteClient co = None)"

lemma on_state_same_state:
  "(\<And>s. rs_state (f s) = rs_state s) \<Longrightarrow> rs_state (state_at (on_state k f co) j) = rs_state (state_at co j)"
  by (cases "k < length (co_queryStates co)") (simp_all add: on_state_beyond)

lemma init_same_state [simp]:
  "rs_state (setExpectedWorkers n s) = rs_state s" "rs_state (initializeWorker c s) = rs_state s"
  by (simp_all add: setExpectedWorkers_def initializeWorker_def)

lemma init_children_state: "rs_state (state_at (snd (init_children k req cs n co)) k) = rs_state (state_at co k)"
  by (induction k req cs n co rule: init_children.induct) (simp_all add: on_state_same_state)

lemma initialize_state: "rs_state (state_at (initializeExecuteProgress k req co) k) = rs_state (state_at co k)"
  unfolding initializeExecuteProgress_def Let_def
  by (auto simp: on_state_same_state case_prod_unfold init_children_state split: option.split)

lemma submitClient_submits:
  assumes ids: "generated_ids co" and q: "qq_queryId req = []" "qq_queryType req = Execute"
    and sub: "submitClientQuery sys req co e = (i, co', e')"
  shows "submits co i req co'" and "e' = e" and "generated_ids co'"
proof -
  let ?k = "length (co_queryStates co)"
  note new = submitClient_execute [OF assms]
  let ?co = "co\<lparr>co_nextQuerySeq := co_nextQuerySeq co + 1\<rparr>"
  let ?req = "markVisitedNode (co_selfNodeId co) (req\<lparr>qq_queryId := i\<rparr>)"
  have co': "co' = begin_execute ?req ?co"
    using q sub by (auto simp: submitClientQuery_def ensureQueryId_def Let_def)
  have i: "i \<noteq> []" using q sub by (auto simp: submitClientQuery_def ensureQueryId_def Let_def)
  have fresh: "findRequestState ?co (qq_queryId ?req) = None"
    using new(1) by (simp add: findRequestState_None)
  note b = begin_execute_fresh [OF fresh]
  have "rs_state (state_at co' ?k) = IN_PROGRESS"
    unfolding co' b(1) by (simp add: initialize_state setState_def)
  moreover have "state_at co' j = state_at co j" if "j < ?k" for j
    using b(2) that by (auto simp: co' steps_def state_at_def nth_append)
  moreover have "co_workers co' = co_workers co \<and> co_overlay co' = co_overlay co \<and> co_selfNodeId co' = co_selfNodeId co \<and>
      (co_remoteClient co' = None \<longleftrightarrow> co_remoteClient co = None)"
    using b(2) by (simp add: co' steps_def)
  ultimately show "submits co i req co'"
    using new b(3,4) by (simp add: submits_def co')
  show "e' = e" "generated_ids co'" by (rule new(4), rule new(3))
qed

section \<open>Steps\<close>

datatype rpc =
  RpcSubmit SubmitQueryRequest
| RpcSubmitSub SubmitSubQueryRequest
| RpcFetch FetchRequest
| RpcFetchSub FetchRequest
| RpcCancel string
| RpcCancelSub string
| Elsewhere

inductive service_step ::
  "'e system \<Rightarrow> node_id \<Rightarrow> coordinator \<times> 'e \<Rightarrow> rpc \<Rightarrow> coordinator \<times> 'e \<Rightarrow> bool" for sys self
where
  step_submit: "SubmitQuery sys self m co e = (reply, co', e') \<Longrightarrow>
     service_step sys self (co, e) (RpcSubmit m) (co', e')"
| step_submitSub: "SubmitSubQuery sys self m' co e = (reply, co', e') \<Longrightarrow>
     service_step sys self (co, e) (RpcSubmitSub m') (co', e')"
| step_fetch: "FetchChunk sys self f co e = (freply, co', e') \<Longrightarrow>
     service_step sys self (co, e) (RpcFetch f) (co', e')"
| step_fetchSub: "FetchSubChunk sys self f co e = (freply, co', e') \<Longrightarrow>
     service_step sys self (co, e) (RpcFetchSub f) (co', e')"
| step_cancel: "CancelQuery self i co = (creply, co') \<Longrightarrow>
     service_step sys self (co, e) (RpcCancel i) (co', e)"
| step_cancelSub: "CancelSubQuery self i co = (creply, co') \<Longrightarrow>
     service_step sys self (co, e) (RpcCancelSub i) (co', e)"
| step_elsewhere: "service_step sys self (co, e) Elsewhere (co, e')"

inductive_cases service_step_cases: "service_step sys self st ev st'"

inductive service_run ::
  "'e system \<Rightarrow> node_id \<Rightarrow> coordinator \<times> 'e \<Rightarrow> rpc list \<Rightarrow> coordinator \<times> 'e \<Rightarrow> bool" for sys self
where
  run_nil: "service_run sys self st [] st"
| run_cons: "service_step sys self st ev st1 \<Longrightarrow> service_run sys self st1 evs st2 \<Longrightarrow>
     service_run sys self st (ev # evs) st2"

lemma run_invariant:
  assumes "service_run sys self st evs st'" and "P st"
    and "\<And>s ev s'. service_step sys self s ev s' \<Longrightarrow> ev \<in> set evs \<Longrightarrow> P s \<Longrightarrow> P s'"
  shows "P st'"
  using assms by (induction rule: service_run.induct) auto

section \<open>What a step can do\<close>

text \<open>
  Every step either adds one request or steps one request that is there, or leaves the coordinator
  as it is.
\<close>

definition cancels :: "coordinator \<Rightarrow> string \<Rightarrow> coordinator \<Rightarrow> bool" where
  "cancels co i co' \<longleftrightarrow> (\<exists>k. findRequestState co i = Some k \<and> co' = on_state k (setState CANCELLED) co)"

lemma proto_request:
  "qq_queryId (fromProtoSubmitQueryRequest m) = []" "qq_queryType (fromProtoSubmitQueryRequest m) = Execute"
  "qq_queryId (fromProtoSubmitSubQueryRequest m') = []" "qq_queryType (fromProtoSubmitSubQueryRequest m') = Execute"
  by (simp_all add: fromProtoSubmitQueryRequest_def fromProtoSubmitSubQueryRequest_def Let_def
      fromProtoFilter_def new_QueryRequest_def)

lemma step_shape:
  assumes "service_step sys self (co, e) ev (co', e')" and "generated_ids co"
  obtains (submitted) i req where "submits co i req co'" "qq_queryType req = Execute" "generated_ids co'"
      "(\<exists>m. ev = RpcSubmit m) \<or> (\<exists>m. ev = RpcSubmitSub m)"
  | (fetched) f k where "ev = RpcFetch f \<or> ev = RpcFetchSub f" "findRequestState co (fq_request_id f) = Some k"
      "fst (snd (fetchChunkForRpc sys (fq_request_id f) (fq_max_rows f) co e)) = co'"
      "steps k co co'" "generated_ids co'"
  | (cancelled) i where "ev = RpcCancel i \<or> ev = RpcCancelSub i" "cancels co i co'" "generated_ids co'"
  | (same) "co' = co"
  using assms(1)
proof (cases rule: service_step.cases)
  case (step_submit m reply)
  then obtain i where "submitClientQuery sys (fromProtoSubmitQueryRequest m) co e = (i, co', e')"
    by (auto simp: SubmitQuery_def split: prod.splits)
  from submitClient_submits [OF assms(2) proto_request(1,2) this] show ?thesis
    using step_submit(1) proto_request(2) by (intro submitted) auto
next
  case (step_submitSub m reply)
  then obtain i where "submitClientQuery sys
      ((fromProtoSubmitSubQueryRequest m)\<lparr>qq_distributedAllowed := True\<rparr>) co e = (i, co', e')"
    by (auto simp: SubmitSubQuery_def submitSub_eq_submitClient split: prod.splits)
  from submitClient_submits [OF assms(2) _ _ this] show ?thesis
    using step_submitSub(1) proto_request(3,4) by (intro submitted) auto
next
  case (step_fetch f reply)
  then have eq: "fst (snd (fetchChunkForRpc sys (fq_request_id f) (fq_max_rows f) co e)) = co'"
    by (auto simp: FetchChunk_def split: prod.splits)
  show ?thesis
  proof (cases "findRequestState co (fq_request_id f)")
    case None
    then show ?thesis using eq by (intro same) (simp add: fetchChunk_unknown)
  next
    case (Some k)
    from steps_fetchChunk [OF Some, of sys "fq_max_rows f" e] eq have "steps k co co'" by simp
    with Some eq step_fetch(1) assms(2) show ?thesis by (intro fetched) (auto intro: steps_ids)
  qed
next
  case (step_fetchSub f reply)
  then have eq: "fst (snd (fetchChunkForRpc sys (fq_request_id f) (fq_max_rows f) co e)) = co'"
    by (auto simp: FetchSubChunk_def split: prod.splits)
  show ?thesis
  proof (cases "findRequestState co (fq_request_id f)")
    case None
    then show ?thesis using eq by (intro same) (simp add: fetchChunk_unknown)
  next
    case (Some k)
    from steps_fetchChunk [OF Some, of sys "fq_max_rows f" e] eq have "steps k co co'" by simp
    with Some eq step_fetchSub(1) assms(2) show ?thesis by (intro fetched) (auto intro: steps_ids)
  qed
next
  case (step_cancel i reply)
  then have "co' = snd (snd (cancel i co))" by (auto simp: CancelQuery_def split: prod.splits)
  then show ?thesis
    using step_cancel(1) assms(2) steps_ids [OF steps_on_state [OF good_update_simple(1)] assms(2)]
    by (cases "findRequestState co i") (auto simp: cancel_def cancels_def intro: same cancelled)
next
  case (step_cancelSub i reply)
  then have "co' = snd (snd (cancel i co))" by (auto simp: CancelSubQuery_def split: prod.splits)
  then show ?thesis
    using step_cancelSub(1) assms(2) steps_ids [OF steps_on_state [OF good_update_simple(1)] assms(2)]
    by (cases "findRequestState co i") (auto simp: cancel_def cancels_def intro: same cancelled)
next
  case step_elsewhere
  then show ?thesis by (intro same)
qed

end
