(* ===== verification/Service_Properties.thy ===== *)
theory Service_Properties
  imports Service_Machine Examples
begin

text \<open>
  What a node's query service promises over whole runs of its RPC handlers: the state invariant,
  the identity of requests, their isolation from each other, and the finality of cancellation.
\<close>

section \<open>Lemmas on steps\<close>

definition service_inv :: "coordinator \<Rightarrow> bool" where
  "service_inv co \<longleftrightarrow> coordinator_inv co \<and> generated_ids co \<and>
     (\<forall>k < length (co_queryStates co). qq_queryType (rs_request (state_at co k)) = Execute \<and>
        co_selfNodeId co \<in> set (qq_visitedNodeIds (rs_request (state_at co k))))"

lemma service_inv_ids: "service_inv co \<Longrightarrow> generated_ids co"
  by (simp add: service_inv_def)

lemma cancels_steps: "cancels co i co' \<Longrightarrow> \<exists>k. findRequestState co i = Some k \<and> steps k co co'"
  using steps_on_state [OF good_update_simple(1)] by (auto simp: cancels_def)

lemma step_coordinator_inv:
  assumes "service_step sys self (co, e) ev (co', e')" and "coordinator_inv co"
  shows "coordinator_inv co'"
  using assms(1)
proof (cases rule: service_step.cases)
  case (step_submit m reply)
  then show ?thesis
    using coordinator_inv_submitClient [OF assms(2), of sys "fromProtoSubmitQueryRequest m" e]
    by (auto simp: SubmitQuery_def split: prod.splits)
next
  case (step_submitSub m reply)
  then show ?thesis
    using coordinator_inv_submitSub [OF assms(2), of sys "fromProtoSubmitSubQueryRequest m" "ssq_parent_request_id m" e]
    by (auto simp: SubmitSubQuery_def split: prod.splits)
next
  case (step_fetch f reply)
  then show ?thesis
    using fetchChunk_inv [OF assms(2), of sys "fq_request_id f" "fq_max_rows f" e]
    by (auto simp: FetchChunk_def split: prod.splits)
next
  case (step_fetchSub f reply)
  then show ?thesis
    using fetchChunk_inv [OF assms(2), of sys "fq_request_id f" "fq_max_rows f" e]
    by (auto simp: FetchSubChunk_def split: prod.splits)
next
  case (step_cancel i reply)
  then show ?thesis
    using coordinator_inv_cancel [OF assms(2), of i] by (auto simp: CancelQuery_def split: prod.splits)
next
  case (step_cancelSub i reply)
  then show ?thesis
    using coordinator_inv_cancel [OF assms(2), of i] by (auto simp: CancelSubQuery_def split: prod.splits)
qed (use assms(2) in simp)

lemma step_service_inv:
  assumes step: "service_step sys self (co, e) ev (co', e')" and inv: "service_inv co"
  shows "service_inv co'"
proof -
  have c: "coordinator_inv co'" using step_coordinator_inv [OF step] inv by (simp add: service_inv_def)
  have keep: "service_inv co'" if "steps k co co'" "generated_ids co'" for k
    using that inv c by (auto simp: service_inv_def steps_def)
  from step service_inv_ids [OF inv] show ?thesis
  proof (cases rule: step_shape)
    case (submitted i req)
    have "qq_queryType (rs_request (state_at co' k)) = Execute \<and>
        co_selfNodeId co' \<in> set (qq_visitedNodeIds (rs_request (state_at co' k)))"
      if "k < length (co_queryStates co')" for k
      using that submitted(1,2) inv by (cases "k = length (co_queryStates co)") (auto simp: submits_def service_inv_def less_Suc_eq)
    with c submitted(3) show ?thesis by (simp add: service_inv_def)
  next
    case (cancelled i)
    with cancels_steps show ?thesis using keep by blast
  qed (use keep inv in auto)
qed

lemma step_find:
  assumes step: "service_step sys self (co, e) ev (co', e')" and inv: "service_inv co"
    and find: "findRequestState co i = Some k"
  shows "findRequestState co' i = Some k \<and> rs_request (state_at co' k) = rs_request (state_at co k)"
proof -
  have k: "k < length (co_queryStates co)" using findRequestState_Some [OF find] by simp
  have keep: ?thesis if "steps j co co'" for j
    using steps_find [OF that, of i] find k that by (simp add: steps_def)
  from step service_inv_ids [OF inv] show ?thesis
  proof (cases rule: step_shape)
    case (submitted j req)
    have same: "state_at co' n = state_at co n" if "n < length (co_queryStates co)" for n
      using submitted(1) that by (simp add: submits_def)
    have len: "length (co_queryStates co') = Suc (length (co_queryStates co))"
      using submitted(1) by (simp add: submits_def)
    have "findRequestState co' i = Some k"
      using findRequestState_Some [OF find] same k len
      unfolding findRequestState_def find_Some_iff state_at_def
      by (intro exI [of _ k]) (auto simp: nth_append)
    with same k show ?thesis by simp
  next
    case (cancelled j)
    with cancels_steps show ?thesis using keep by blast
  qed (use keep find in auto)
qed

lemma step_isolated:
  assumes step: "service_step sys self (co, e) ev (co', e')" and inv: "service_inv co"
    and find: "findRequestState co i = Some k"
    and other: "\<And>f. ev = RpcFetch f \<or> ev = RpcFetchSub f \<Longrightarrow> fq_request_id f \<noteq> i"
      "ev \<noteq> RpcCancel i" "ev \<noteq> RpcCancelSub i"
  shows "state_at co' k = state_at co k"
proof -
  have k: "k < length (co_queryStates co)" "rs_queryId (state_at co k) = i"
    using findRequestState_Some [OF find] by simp_all
  have keep: ?thesis if "steps j co co'" "j \<noteq> k" for j
    using that k by (auto simp: steps_def)
  from step service_inv_ids [OF inv] show ?thesis
  proof (cases rule: step_shape)
    case (submitted j req)
    then show ?thesis using k by (simp add: submits_def)
  next
    case (fetched f j)
    then have "fq_request_id f \<noteq> i" using other(1) by blast
    then have "j \<noteq> k" using findRequestState_Some [OF fetched(2)] k by auto
    with fetched(4) show ?thesis by (rule keep)
  next
    case (cancelled j)
    then have "j \<noteq> i" using other(2,3) by blast
    obtain n where n: "findRequestState co j = Some n" "co' = on_state n (setState CANCELLED) co"
      using cancelled(2) by (auto simp: cancels_def)
    then have "n \<noteq> k" using findRequestState_Some [OF n(1)] k \<open>j \<noteq> i\<close> by auto
    then show ?thesis using n(2) findRequestState_Some [OF n(1)] by simp
  qed simp
qed

lemma step_stays_cancelled:
  assumes step: "service_step sys self (co, e) ev (co', e')" and inv: "service_inv co"
    and find: "findRequestState co i = Some k" and c: "rs_state (state_at co k) = CANCELLED"
  shows "rs_state (state_at co' k) = CANCELLED"
proof -
  have k: "k < length (co_queryStates co)" "rs_queryId (state_at co k) = i"
    using findRequestState_Some [OF find] by simp_all
  from step service_inv_ids [OF inv] show ?thesis
  proof (cases rule: step_shape)
    case (submitted j req)
    then show ?thesis using k c by (simp add: submits_def)
  next
    case (fetched f j)
    show ?thesis
    proof (cases "j = k")
      case True
      then have "\<not> active_execute co j" using c by (simp add: active_execute_def)
      from fetchChunk_inactive(1) [where sys = sys and e = e and m = "fq_max_rows f", OF fetched(2) this] fetched(3)
      have "co' = co" by simp
      with c show ?thesis by simp
    next
      case False
      with fetched(4) k c show ?thesis by (auto simp: steps_def)
    qed
  next
    case (cancelled j)
    then obtain n where "co' = on_state n (setState CANCELLED) co" by (auto simp: cancels_def)
    then show ?thesis using c by (cases "n < length (co_queryStates co)") (auto simp: on_state_beyond setState_def)
  qed (use c in simp)
qed

lemma run_service_inv:
  assumes "service_run sys self (co, e) evs (co', e')" and "service_inv co"
  shows "service_inv co'"
proof -
  have "service_inv (fst (co', e'))"
    by (rule run_invariant [OF assms(1), where P = "\<lambda>st. service_inv (fst st)"])
      (use assms(2) step_service_inv in \<open>auto simp: split_paired_all\<close>)
  then show ?thesis by simp
qed

lemma start_service_inv: "service_inv (start_coordinator fs cfg)"
proof -
  have "co_queryStates (start_coordinator fs cfg) = []"
    by (simp add: start_coordinator_def addWorker_def make_QueryCoordinator_def new_QueryCoordinator_def Let_def)
  then show ?thesis using start_coordinator_inv by (simp add: service_inv_def)
qed

lemma run_find:
  assumes "service_run sys self (co, e) evs (co', e')" and "service_inv co"
    and "findRequestState co i = Some k"
  shows "findRequestState co' i = Some k \<and> rs_request (state_at co' k) = rs_request (state_at co k)"
proof -
  let ?P = "\<lambda>st :: coordinator \<times> 'a. service_inv (fst st) \<and> findRequestState (fst st) i = Some k \<and>
      rs_request (state_at (fst st) k) = rs_request (state_at co k)"
  have "?P (co', e')"
    by (rule run_invariant [OF assms(1)])
      (use assms(2,3) in \<open>auto simp: split_paired_all intro: step_service_inv dest: step_find\<close>)
  then show ?thesis by simp
qed

definition ex_submitted :: "SubmitReply \<times> coordinator \<times> unit" where
  "ex_submitted = SubmitQuery ex_sys ''A'' ex_message ex_coordinator ()"

definition ex_cancelled :: "CancelReply \<times> coordinator" where
  "ex_cancelled = CancelQuery ''A'' ''q-1'' (fst (snd ex_submitted))"

lemma ex_submit_step:
  "service_step ex_sys ''A'' (ex_coordinator, ()) (RpcSubmit ex_message) (fst (snd ex_submitted), ())"
  by (rule step_submit [where reply = "fst ex_submitted"]) (simp add: ex_submitted_def [symmetric] prod_eq_iff)

lemma ex_submit_run:
  "service_run ex_sys ''A'' (ex_coordinator, ()) [RpcSubmit ex_message] (fst (snd ex_submitted), ())"
  by (rule run_cons [OF ex_submit_step run_nil])

lemma ex_submitted_inv: "service_inv (fst (snd ex_submitted))"
  using run_service_inv [OF ex_submit_run] start_service_inv by (simp add: ex_coordinator_def)

lemma ex_submitted_find: "findRequestState (fst (snd ex_submitted)) ''q-1'' = Some 0"
  by code_simp

lemma ex_submitted_reply: "sr_accepted (fst ex_submitted) \<and> sr_request_id (fst ex_submitted) = ''q-1''"
  by code_simp

section \<open>Runs keep what a node is\<close>

definition same_node :: "coordinator \<Rightarrow> coordinator \<Rightarrow> bool" where
  "same_node a b \<longleftrightarrow> co_workers a = co_workers b \<and> co_overlay a = co_overlay b \<and>
     co_selfNodeId a = co_selfNodeId b \<and> (co_remoteClient a = None \<longleftrightarrow> co_remoteClient b = None)"

lemma same_node_refl: "same_node a a"
  by (simp add: same_node_def)

lemma same_node_trans: "same_node a b \<Longrightarrow> same_node b c \<Longrightarrow> same_node a c"
  by (simp add: same_node_def)

lemma same_node_steps: "steps k co co' \<Longrightarrow> same_node co co'"
  by (simp add: steps_def same_node_def)

lemma same_node_no_children: "same_node a b \<Longrightarrow> no_children a \<longleftrightarrow> no_children b"
  by (simp add: same_node_def no_children_def)

lemma step_same_node:
  assumes "service_step sys self (co, e) ev (co', e')" and "service_inv co"
  shows "same_node co co'"
  using assms(1) service_inv_ids [OF assms(2)]
proof (cases rule: step_shape)
  case (submitted i req)
  then show ?thesis by (simp add: submits_def same_node_def)
next
  case (cancelled i)
  with cancels_steps show ?thesis using same_node_steps by blast
qed (auto intro: same_node_steps same_node_refl)

lemma run_same_node:
  assumes "service_run sys self (co, e) evs (co', e')" and "service_inv co"
  shows "same_node co co'"
proof -
  let ?P = "\<lambda>st :: coordinator \<times> 'a. service_inv (fst st) \<and> same_node co (fst st)"
  have "?P (co', e')"
    by (rule run_invariant [OF assms(1)])
      (use assms(2) same_node_refl in \<open>auto simp: split_paired_all intro: step_service_inv same_node_trans step_same_node\<close>)
  then show ?thesis by simp
qed

section \<open>Properties\<close>

text \<open>
  C10: from the start of a node on, after any sequence of RPCs and whatever the other nodes do, its
  coordinator is well formed: request ids are unique and generated, completed is the negation of
  hasMore for every worker, one source per cached trip, stubs at the addresses of the overlay; and
  every request is an EXECUTE that has this node in its visited list.
\<close>

theorem service_invariant:
  assumes "service_run sys self (start_coordinator fs cfg, e) evs (co, e')"
  shows "service_inv co"
  by (rule run_service_inv [OF assms start_service_inv])

lemma service_invariant_witness: "service_inv (fst (snd ex_submitted))"
  by (rule service_invariant [OF ex_submit_run [unfolded ex_coordinator_def]])

text \<open>
  C13: an accepted request keeps its identity: whatever is called later, its id finds the same
  entry with the request it was submitted with, and a second submission gets a different id.
\<close>

theorem request_identity:
  assumes "service_run sys self (start_coordinator fs cfg, e0) evs0 (co, e)"
    and "SubmitQuery sys self m co e = (reply, co1, e1)"
    and "service_run sys self (co1, e2) evs (co2, e3)"
    and "SubmitQuery sys self m' co2 e3 = (reply', co3, e4)"
  shows "sr_accepted reply \<and> sr_request_id reply \<noteq> sr_request_id reply' \<and>
    (\<exists>k. findRequestState co1 (sr_request_id reply) = Some k \<and>
         findRequestState co2 (sr_request_id reply) = Some k \<and>
         rs_request (state_at co2 k) = rs_request (state_at co1 k))"
proof -
  have inv: "service_inv co" by (rule run_service_inv [OF assms(1) start_service_inv])
  have inv1: "service_inv co1" using step_service_inv [OF step_submit [OF assms(2)] inv] .
  have inv2: "service_inv co2" by (rule run_service_inv [OF assms(3) inv1])
  obtain i j where i: "submitClientQuery sys (fromProtoSubmitQueryRequest m) co e = (i, co1, e1)"
      "sr_accepted reply" "sr_request_id reply = i"
    and j: "submitClientQuery sys (fromProtoSubmitQueryRequest m') co2 e3 = (j, co3, e4)"
      "sr_request_id reply' = j"
    using assms(2,4) by (auto simp: SubmitQuery_def fillSubmitQueryReply_def split: prod.splits)
  let ?k = "length (co_queryStates co)"
  have new: "findRequestState co1 i = Some ?k"
    using submitClient_submits(1) [OF service_inv_ids [OF inv] proto_request(1,2) i(1)] by (simp add: submits_def)
  have fresh: "findRequestState co2 j = None"
    using submitClient_submits(1) [OF service_inv_ids [OF inv2] proto_request(1,2) j(1)] by (simp add: submits_def)
  note kept = run_find [OF assms(3) inv1 new]
  with fresh have "i \<noteq> j" by auto
  then show ?thesis using i j new kept by auto
qed

lemma request_identity_witness:
  "sr_request_id (fst ex_submitted) \<noteq>
   sr_request_id (fst (SubmitQuery ex_sys ''A'' ex_message (fst (snd ex_submitted)) ()))"
proof -
  have one: "SubmitQuery ex_sys ''A'' ex_message (start_coordinator ex_fs ex_cfg) () =
      (fst ex_submitted, fst (snd ex_submitted), ())"
    by (simp add: ex_submitted_def ex_coordinator_def prod_eq_iff)
  have two: "SubmitQuery ex_sys ''A'' ex_message co () =
      (fst (SubmitQuery ex_sys ''A'' ex_message co ()), fst (snd (SubmitQuery ex_sys ''A'' ex_message co ())), ())" for co
    by (simp add: prod_eq_iff)
  from request_identity [OF run_nil one run_nil two] show ?thesis by simp
qed

text \<open>
  C12: requests do not disturb each other: a step that is not a fetch or a cancellation of request
  \<open>i\<close> leaves the whole state of \<open>i\<close> unchanged: cursors, cached rows and progress.
\<close>

theorem request_isolation:
  assumes "service_run sys self (start_coordinator fs cfg, e0) evs (co, e)"
    and "service_step sys self (co, e) ev (co', e')" and "findRequestState co i = Some k"
    and "ev \<notin> {RpcCancel i, RpcCancelSub i}" and "\<forall>f. ev \<in> {RpcFetch f, RpcFetchSub f} \<longrightarrow> fq_request_id f \<noteq> i"
  shows "state_at co' k = state_at co k"
  by (rule step_isolated [OF assms(2) _ assms(3)])
    (use assms(4,5) run_service_inv [OF assms(1) start_service_inv] in auto)

lemma request_isolation_witness:
  "state_at (fst (snd (SubmitQuery ex_sys ''A'' ex_message (fst (snd ex_submitted)) ()))) 0 =
   state_at (fst (snd ex_submitted)) 0"
proof -
  have "service_step ex_sys ''A'' (fst (snd ex_submitted), ()) (RpcSubmit ex_message)
      (fst (snd (SubmitQuery ex_sys ''A'' ex_message (fst (snd ex_submitted)) ())), ())"
    by (rule step_submit [where reply = "fst (SubmitQuery ex_sys ''A'' ex_message (fst (snd ex_submitted)) ())"])
      (simp add: prod_eq_iff)
  from request_isolation [OF ex_submit_run [unfolded ex_coordinator_def] this ex_submitted_find] show ?thesis
    by simp
qed

text \<open>
  C11: cancellation is final: once \<open>CancelQuery\<close> has reported success, every later fetch of the
  request, after any run of RPCs, finds it, says it is done and returns no row, and changes nothing.
\<close>

theorem cancel_final:
  assumes "service_run sys self (start_coordinator fs cfg, e0) evs0 (co, e)"
    and "CancelQuery self i co = (reply, co1)" and "cr_success reply"
    and "service_run sys self (co1, e1) evs (co2, e2)" and "fq_request_id f = i"
    and "FetchChunk sys self f co2 e2 = (freply, co3, e3)"
  shows "fr_found freply \<and> fr_done freply \<and> fr_rows freply = [] \<and> co3 = co2 \<and> e3 = e2"
proof -
  have inv: "service_inv co" by (rule run_service_inv [OF assms(1) start_service_inv])
  have inv1: "service_inv co1" using step_service_inv [OF step_cancel [OF assms(2)] inv] .
  obtain k where k: "findRequestState co i = Some k" and co1: "co1 = on_state k (setState CANCELLED) co"
    using assms(2,3) by (auto simp: CancelQuery_def cancel_def fillCancelQueryReply_def split: option.splits)
  have find1: "findRequestState co1 i = Some k"
    using step_find [OF step_cancel [OF assms(2)] inv k] by simp
  have c1: "rs_state (state_at co1 k) = CANCELLED"
    using findRequestState_Some [OF k] by (simp add: co1 setState_def)
  let ?P = "\<lambda>st :: coordinator \<times> 'a. service_inv (fst st) \<and> findRequestState (fst st) i = Some k \<and>
      rs_state (state_at (fst st) k) = CANCELLED"
  have "?P (co2, e2)"
    by (rule run_invariant [OF assms(4)])
      (use inv1 find1 c1 in \<open>auto simp: split_paired_all intro: step_service_inv step_stays_cancelled dest: step_find\<close>)
  then have find2: "findRequestState co2 i = Some k" and off: "\<not> active_execute co2 k"
    by (simp_all add: active_execute_def)
  note r = fetchChunk_inactive [where sys = sys and e = e2 and m = "fq_max_rows f", OF find2 off]
  obtain out where out: "fetchChunkForRpc sys i (fq_max_rows f) co2 e2 = (out, co2, e2)"
    using r(1) by (metis prod.collapse)
  with r assms(5,6) show ?thesis
    by (auto simp: FetchChunk_def fill_fetch_reply_def fill_rows_def)
qed

lemma ex_cancel_reply: "cr_success (fst ex_cancelled)"
  by code_simp

lemma cancel_final_witness:
  "fr_done (fst (FetchChunk ex_sys ''A'' \<lparr> fq_request_id = ''q-1'', fq_max_rows = 7 \<rparr> (snd ex_cancelled) ()))"
proof -
  have c: "CancelQuery ''A'' ''q-1'' (fst (snd ex_submitted)) = (fst ex_cancelled, snd ex_cancelled)"
    by (simp add: ex_cancelled_def)
  have f: "FetchChunk ex_sys ''A'' f co () =
      (fst (FetchChunk ex_sys ''A'' f co ()), fst (snd (FetchChunk ex_sys ''A'' f co ())), ())" for f co
    by (simp add: prod_eq_iff)
  from cancel_final [OF ex_submit_run [unfolded ex_coordinator_def] c ex_cancel_reply run_nil _ f] show ?thesis
    by simp
qed

end
