(* ===== verification/Coordinator_Properties.thy ===== *)
theory Coordinator_Properties
  imports Service_Properties
begin

text \<open>
  What the coordinator promises: the size of its answers, the adaptive chunk size, what a child
  is asked and what happens when it fails, the messages between parent and child, and the bound
  of the distributed COUNT.
\<close>

section \<open>Windows\<close>

text \<open>
  C16: a fetch reply reports the exact number of its rows, never more than 5000 and never more than
  the caller asked for, echoes the request id, and is found exactly when the id is known.
\<close>

theorem fetch_reply_bounded:
  assumes "service_run sys self (start_coordinator fs cfg, e0) evs (co, e)"
    and "FetchChunk sys self f co e = (reply, co', e')"
  shows "fr_rows_returned reply = length (fr_rows reply) \<and> length (fr_rows reply) \<le> LARGE_CHUNK_SIZE \<and>
    (fq_max_rows f = 0 \<or> length (fr_rows reply) \<le> fq_max_rows f) \<and>
    fr_request_id reply = fq_request_id f \<and>
    (fr_found reply = (fq_request_id f \<in> set (map rs_queryId (co_queryStates co))))"
proof -
  have inv: "coordinator_inv co"
    using run_service_inv [OF assms(1) start_service_inv] by (simp add: service_inv_def)
  obtain out where out: "fetchChunkForRpc sys (fq_request_id f) (fq_max_rows f) co e = (out, co', e')"
    and reply: "reply = fill_fetch_reply self out"
    using assms(2) by (auto simp: FetchChunk_def split: prod.splits)
  note found = findRequestState_None [of co "fq_request_id f"]
  show ?thesis
    using rows_returned_exact [OF inv assms(2)] fetchChunk_result(4,5) [OF inv out] found
    by (cases "fq_max_rows f = 0") (simp_all add: reply fill_fetch_reply_def)
qed

lemma fetch_reply_bounded_witness:
  "length (fr_rows (fst (FetchChunk ex_sys ''A'' \<lparr> fq_request_id = ''q-1'', fq_max_rows = 7 \<rparr>
     (fst (snd ex_submitted)) ()))) \<le> 7"
proof -
  have f: "FetchChunk ex_sys ''A'' f co () =
      (fst (FetchChunk ex_sys ''A'' f co ()), fst (snd (FetchChunk ex_sys ''A'' f co ())), ())" for f co
    by (simp add: prod_eq_iff)
  from fetch_reply_bounded [OF ex_submit_run [unfolded ex_coordinator_def] f,
      of "\<lparr> fq_request_id = ''q-1'', fq_max_rows = 7 \<rparr>"] show ?thesis by simp
qed

text \<open>
  The adaptive chunk size is 500 when at least 8 requests are active or 8000 rows are cached,
  5000 when at most 2 are active and at most 2000 cached, 1000 in between; a positive request lowers
  but never raises it, and it is never zero.
\<close>

lemma adaptive_chunk_exact:
  "chooseAdaptiveChunkSize co m =
     (let n = (if 8 \<le> activeRequests co \<or> 8000 \<le> cachedRows co then 500
               else if activeRequests co \<le> 2 \<and> cachedRows co \<le> 2000 then 5000 else 1000)
      in if m = 0 then n else min m n) \<and> 0 < chooseAdaptiveChunkSize co m"
proof -
  have "0 < chooseAdaptiveChunkSize co m" using chooseAdaptiveChunkSize_bounds by blast
  then show ?thesis
    unfolding chooseAdaptiveChunkSize_def Let_def pressure_high pressure_low
      SMALL_CHUNK_SIZE_def DEFAULT_CHUNK_SIZE_def LARGE_CHUNK_SIZE_def
    by auto
qed

section \<open>Children\<close>

text \<open>
  A child is asked with this node, all its siblings and every node visited before in the
  visited list, keeps every filter of the request, and a child that is already in the list is
  never contacted.
\<close>

lemma child_request_routing:
  "set (qq_visitedNodeIds (child_request co req cs m)) =
     insert (co_selfNodeId co) (set cs) \<union> set (qq_visitedNodeIds req) \<and>
   same_filter (child_request co req cs m) req \<and>
   (if c \<in> set (qq_visitedNodeIds (rs_request (state_at co k)))
    then fetch_remote_child sys k m cs c co e = (False, co, e) else True)"
proof -
  have mark: "same_filter (fold markVisitedNode xs r) req = same_filter r req" for xs r
    by (induction xs arbitrary: r) (simp_all add: same_filter_def)
  have "same_filter (child_request co req cs m) req"
    unfolding child_request_def mark by (simp add: same_filter_def)
  moreover have "hasVisitedNode r c = (c \<in> set (qq_visitedNodeIds r))" for r
    by (simp add: hasVisitedNode_def)
  moreover note fetch_remote_visited [of co k c sys m cs e]
  ultimately show ?thesis by (simp add: child_request_visited)
qed

text \<open>
  C19: the messages lose nothing that matters: a subquery read back by the child has the parent's
  filters, chunk size, scan budget and visited list, is an EXECUTE from the parent, and has no id.
\<close>

theorem subquery_message_roundtrip:
  assumes "request_widths req"
  shows "fromProtoSubmitSubQueryRequest (toProtoSubQuery self req parent) =
    req\<lparr>qq_queryId := [], qq_queryType := Execute, qq_originNodeId := self, qq_entryNodeId := [],
        qq_targetNodeId := None, qq_distributedAllowed := True, qq_offset := 0, qq_limit := 0,
        qq_startRow := 0\<rparr>"
  by (rule subquery_roundtrip [OF assms])

lemma subquery_message_roundtrip_witness:
  "qq_paymentType (fromProtoSubmitSubQueryRequest (toProtoSubQuery ''A'' ex_card ''q-1'')) = Some 1"
proof -
  have "request_widths ex_card"
    by (simp add: request_widths_def ex_card_def new_QueryRequest_def to_signed_def)
  from subquery_message_roundtrip [OF this] show ?thesis by (simp add: ex_card_def)
qed

text \<open>
  The rows of a fetch reply, read by the parent, are the trips the child delivered, with the
  nodes they came from; only the airport fee is not carried.
\<close>

lemma reply_rows_roundtrip:
  assumes "length (rp_sources r) = length (rp_trips r)" and "\<forall>t \<in> set (rp_trips r). trip_widths t"
    and "\<forall>n \<in> set (rp_sources r). n \<noteq> []"
  shows "map fromTripRow (fr_rows (fill_fetch_reply self r)) = map (\<lambda>t. t\<lparr>tt_airportFeeCents := 0\<rparr>) (rp_trips r) \<and>
         map (rowSource c) (fr_rows (fill_fetch_reply self r)) = rp_sources r"
  using reply_rows_read [OF assms] by (simp add: fill_fetch_reply_def)

lemma reply_rows_roundtrip_witness:
  "map (rowSource ''C'') (fr_rows (fill_fetch_reply ''B''
     (new_RpcChunkResult\<lparr>rp_trips := [empty_trip], rp_sources := [''D'']\<rparr>))) = [''D'']"
proof -
  have "trip_widths empty_trip" by (simp add: trip_widths_def empty_trip_def)
  then show ?thesis
    using reply_rows_roundtrip [of "new_RpcChunkResult\<lparr>rp_trips := [empty_trip], rp_sources := [''D'']\<rparr>" "''B''" "''C''"]
    by (simp add: new_RpcChunkResult_def)
qed

section \<open>Failures and counts\<close>


definition ex_parent_client :: remote_client where
  "ex_parent_client = the (co_remoteClient ex_parent_submitted)"

lemma ex_ops_fail:
  "\<exists>msg client'. submitSubQuery (sys_ops ex_sys) c req parent client () = ((False, [], msg), client', ())"
  by (simp add: submitSubQuery_def ex_sys_def no_ops_def split: prod.split option.split)

lemma ex_parent_remote: "co_remoteClient ex_parent_submitted = Some ex_parent_client"
proof -
  have g: "generated_ids ex_parent" using start_coordinator_inv by (simp add: ex_parent_def)
  obtain i where "submitClientQuery ex_sys (fromProtoSubmitQueryRequest ex_message) ex_parent () =
      (i, ex_parent_submitted, ())"
    by (cases "submitClientQuery ex_sys (fromProtoSubmitQueryRequest ex_message) ex_parent ()")
      (auto simp: ex_parent_submitted_def SubmitQuery_def)
  from submitClient_submits(1) [OF g proto_request(1,2) this]
  have "co_remoteClient ex_parent_submitted \<noteq> None"
    by (simp add: submits_def ex_parent_def start_coordinator_def addWorker_def make_QueryCoordinator_def Let_def)
  then show ?thesis by (simp add: ex_parent_client_def)
qed


lemma fetchSubChunk_trips:
  assumes "\<And>t f s. case fst (op_FetchSubChunk ops t f s) of Inl _ \<Rightarrow> True | Inr r \<Rightarrow> length (fr_rows r) \<le> b"
  shows "length (sc_trips (fst (fetchSubChunk ops t i m c e))) \<le> b"
  unfolding fetchSubChunk_def
  using assms [of _ "\<lparr> fq_request_id = i, fq_max_rows = m mod 2 ^ 32 \<rparr>" e]
  by (auto simp: failed_chunk_def split: option.split prod.split sum.split)
    (metis fst_conv sum.simps(6))

lemma count_children_bound:
  assumes "\<And>t f s. case fst (op_FetchSubChunk (sys_ops sys) t f s) of Inl _ \<Rightarrow> True | Inr r \<Rightarrow> length (fr_rows r) \<le> b"
  shows "(\<Sum>r \<leftarrow> fst (count_children sys req cs ps client e). qr_rowsMatched r) \<le>
    (\<Sum>r \<leftarrow> ps. qr_rowsMatched r) + b * length cs"
proof (induction cs arbitrary: ps client e)
  case (Cons c cs)
  obtain ok i msg client1 e1 where sub: "submitSubQuery (sys_ops sys) c
      (req\<lparr>qq_queryType := Count, qq_distributedAllowed := True\<rparr>) (qq_queryId req) client e = ((ok, i, msg), client1, e1)"
    by (metis prod_cases3)
  obtain chunk client2 e2 where f: "fetchSubChunk (sys_ops sys) c i 0 client1 e1 = (chunk, client2, e2)"
    by (metis prod_cases3)
  have len: "length (sc_trips chunk) \<le> b"
    using fetchSubChunk_trips [OF assms, of c i 0 client1 e1] f by simp
  show ?case
  proof (cases "ok \<and> sc_ok chunk")
    case True
    let ?r = "empty_QueryResult\<lparr>qr_rowsMatched := length (sc_trips chunk), qr_rowsScanned := length (sc_trips chunk)\<rparr>"
    have "count_children sys req (c # cs) ps client e = count_children sys req cs (ps @ [?r]) client2 e2"
      using sub f True by simp
    then show ?thesis using Cons.IH [of "ps @ [?r]" client2 e2] len by simp
  next
    case False
    then obtain cl s where "count_children sys req (c # cs) ps client e = count_children sys req cs ps cl s"
      using sub f by (cases ok) auto
    then show ?thesis using Cons.IH [of ps cl s] by (simp del: count_children.simps)
  qed
qed simp



end
