(* ===== verification/Node_Properties.thy ===== *)
theory Node_Properties
  imports Coordinator_Properties
begin

text \<open>
  What the parts around the coordinator promise: configuration files, the overlay and the store a
  node starts with, the ingest dispatcher, and the probes of the node service.
\<close>

section \<open>Configuration\<close>

text \<open>
  C30: \<open>loadConfig\<close> returns only valid configurations: a name, a known language, a listen address
  and port, complete neighbors with distinct names other than the node's own, ports inside 32 bits,
  no empty file name; and \<open>validateConfig\<close> rejects nothing else.
\<close>

theorem config_exact:
  "(validateConfig cfg = None) = valid_config cfg \<and>
   (case loadConfig fs path of Inl err \<Rightarrow> True | Inr c \<Rightarrow> valid_config c \<and> ports_fit c)"
  using validateConfig_iff loadConfig_sound by (auto split: sum.split)

text \<open>
  The overlay a node builds from a valid configuration is a star around the node; it passes
  \<open>validate\<close> exactly on the node named A and when no assigned file is listed twice, since only A is
  ever marked as an entry node.
\<close>

lemma node_overlay_exact:
  assumes "valid_config cfg"
  shows "getChildren (buildOverlayFromNodeConfig cfg) (nc_nodeId cfg) = map nb_nodeId (nc_neighbors cfg) \<and>
    validate (buildOverlayFromNodeConfig cfg) = (nc_nodeId cfg = ''A'' \<and> distinct (nc_assignedFiles cfg))"
  using built_overlay(5) [OF assms] built_overlay_validate [OF assms] by simp

lemma ex_parent_cfg_valid: "valid_config ex_parent_cfg"
  by (simp add: valid_config_def ex_parent_cfg_def ex_cfg_def)

lemma node_overlay_exact_witness: "getChildren (buildOverlayFromNodeConfig ex_parent_cfg) ''A'' = [''B'']"
  using node_overlay_exact [OF ex_parent_cfg_valid] by (simp add: ex_parent_cfg_def ex_cfg_def)

text \<open>
  The address a child is called at is its host and its port modulo \<open>2 ^ 16\<close>: the 32-bit port of
  the configuration is stored in 16 bits, so it is the configured target exactly for ports below
  65536, although \<open>validateConfig\<close> accepts larger ones.
\<close>

lemma child_address_truncated:
  assumes "valid_config cfg" and "n \<in> set (nc_neighbors cfg)"
  shows "endpointFor (buildOverlayFromNodeConfig cfg) (nb_nodeId n) = nb_host n @ '':'' @ show_nat (nb_port n mod 65536) \<and>
    (endpointFor (buildOverlayFromNodeConfig cfg) (nb_nodeId n) = neighbor_target n) = (nb_port n < 65536)"
proof -
  have e: "endpointFor (buildOverlayFromNodeConfig cfg) (nb_nodeId n) =
      nb_host n @ '':'' @ show_nat (nb_port n mod 65536)"
    using built_endpoint [OF assms] by (simp add: neighbor_address_def)
  have "show_nat (nb_port n mod 65536) = show_nat (nb_port n) \<longleftrightarrow> nb_port n mod 65536 = nb_port n"
    by (auto dest: show_nat_inj)
  moreover have "nb_port n mod 65536 = nb_port n \<longleftrightarrow> nb_port n < 65536"
    by (metis mod_less mod_less_divisor zero_less_numeral)
  ultimately show ?thesis by (simp add: e neighbor_target_def)
qed

definition ex_big_port :: NodeConfig where
  "ex_big_port = ex_cfg\<lparr>nc_neighbors := [\<lparr> nb_nodeId = ''B'', nb_host = ''h'', nb_port = 65617 \<rparr>]\<rparr>"

lemma child_address_truncated_witness:
  "endpointFor (buildOverlayFromNodeConfig ex_big_port) ''B'' = ''h:81'' \<and> validateConfig ex_big_port = None"
proof -
  have v: "valid_config ex_big_port" by (simp add: valid_config_def ex_big_port_def ex_cfg_def)
  have "show_nat 81 = ''81''" by code_simp
  then show ?thesis
    using child_address_truncated [OF v, of "\<lparr> nb_nodeId = ''B'', nb_host = ''h'', nb_port = 65617 \<rparr>"] v
    by (simp add: validateConfig_iff ex_big_port_def)
qed

text \<open>
  A starting node loads exactly its loadable assigned files in order; its store is usable
  exactly when none of them is listed twice, and otherwise the node answers every query with no row.
\<close>

lemma node_store_exact:
  "map fm_filePath (ps_files (wn_store (local_worker fs cfg))) =
     filter (\<lambda>p. loaded_metadata fs p 0 \<noteq> None) (nc_assignedFiles cfg) \<and>
   (if distinct (filter (\<lambda>p. loaded_metadata fs p 0 \<noteq> None) (nc_assignedFiles cfg))
    then store_isValid (wn_store (local_worker fs cfg))
    else local_execute fs (wn_store (local_worker fs cfg)) req = empty_LocalQueryResult \<and>
         local_count fs (wn_store (local_worker fs cfg)) req = empty_LocalQueryResult)"
  using local_worker_valid_store [of fs cfg] loaded_list_paths [of fs 0 "nc_assignedFiles cfg"]
  by (simp add: local_worker_files local_execute_def local_count_def)

section \<open>Ingest\<close>

text \<open>
  C31: dispatching a queue over the workers just set hands the shards out in queue order, each
  once and to a known worker, counts every byte to the worker that got it, and keeps the byte loads
  of any two workers within the size of one shard, as long as the totals stay inside \<open>size_t\<close>.
\<close>

theorem dispatch_balanced:
  assumes "ws \<noteq> []" and "queued_bytes q \<le> size_max" and "queued_trips q \<le> size_max"
    and "\<And>job. job \<in> set (iq_jobs q) \<Longrightarrow> sa_fileSizeBytes job \<le> m"
    and "assign_times n (setWorkers ws d) q = (shards, d', q')"
  shows "iq_jobs q' = drop n (iq_jobs q) \<and>
     list_all2 (\<lambda>s job. sa_nodeId s \<in> set ws \<and> s = job\<lparr>sa_nodeId := sa_nodeId s\<rparr>) shards (take n (iq_jobs q)) \<and>
     (\<forall>w. getAssignedBytes d' w = bytes_for w shards) \<and>
     (\<forall>v \<in> set ws. \<forall>w \<in> set ws. getAssignedBytes d' v \<le> getAssignedBytes d' w + m)"
proof -
  have ws: "id_workerNodeIds (setWorkers ws d) = ws" by (simp add: setWorkers_def)
  have "dispatch_ok m (setWorkers ws d) q" using assms(2-4) by (rule setWorkers_dispatch_ok)
  from assign_times_props [OF this _ assms(5)] show ?thesis
    using assms(1) setWorkers_zero [of ws d] unfolding ws by (auto simp: dispatch_ok_def)
qed

definition ex_queue :: IngestQueue where
  "ex_queue = pushAll [\<lparr> sa_shardId = 0, sa_sourceFile = ''a.csv'', sa_nodeId = [], sa_tripCount = 2, sa_fileSizeBytes = 9 \<rparr>,
     \<lparr> sa_shardId = 1, sa_sourceFile = ''b.csv'', sa_nodeId = [], sa_tripCount = 1, sa_fileSizeBytes = 4 \<rparr>] new_IngestQueue"

lemma dispatch_balanced_witness:
  "let (shards, d, q) = assign_times 2 (setWorkers [''B'', ''C''] new_IngestDispatcher) ex_queue in
     iq_jobs q = [] \<and> getAssignedBytes d ''B'' \<le> getAssignedBytes d ''C'' + 9"
proof -
  have jobs: "iq_jobs ex_queue = [\<lparr> sa_shardId = 0, sa_sourceFile = ''a.csv'', sa_nodeId = [], sa_tripCount = 2, sa_fileSizeBytes = 9 \<rparr>,
     \<lparr> sa_shardId = 1, sa_sourceFile = ''b.csv'', sa_nodeId = [], sa_tripCount = 1, sa_fileSizeBytes = 4 \<rparr>]"
    by (simp add: ex_queue_def pushAll_def push_def new_IngestQueue_def)
  obtain shards d q where run: "assign_times 2 (setWorkers [''B'', ''C''] new_IngestDispatcher) ex_queue = (shards, d, q)"
    by (metis prod_cases3)
  have "iq_jobs q = drop 2 (iq_jobs ex_queue) \<and>
     list_all2 (\<lambda>s job. sa_nodeId s \<in> set [''B'', ''C''] \<and> s = job\<lparr>sa_nodeId := sa_nodeId s\<rparr>) shards (take 2 (iq_jobs ex_queue)) \<and>
     (\<forall>w. getAssignedBytes d w = bytes_for w shards) \<and>
     (\<forall>v \<in> set [''B'', ''C'']. \<forall>w \<in> set [''B'', ''C'']. getAssignedBytes d v \<le> getAssignedBytes d w + 9)"
    by (rule dispatch_balanced [OF _ _ _ _ run]) (auto simp: jobs queued_bytes_def queued_trips_def size_max_def)
  then show ?thesis unfolding run by (auto simp: jobs)
qed

section \<open>Probes\<close>


definition ex_ring :: "string \<Rightarrow> NodeServiceImpl option" where
  \<comment> \<open>two nodes that are each other's neighbor\<close>
  "ex_ring t = (if t = ''h:1'' then Some \<lparr> ns_cfg = ex_cfg, ns_peers = [(''B'', ''h:2'')] \<rparr>
     else if t = ''h:2'' then Some \<lparr> ns_cfg = ex_cfg\<lparr>nc_nodeId := ''B''\<rparr>, ns_peers = [(''A'', ''h:1'')] \<rparr>
     else None)"


text \<open>
  The function \<open>setup\<close> succeeds exactly when every neighbor's channel can be made, and then the service has
  one stub per neighbor, at the neighbor's configured target.
\<close>

theorem setup_exact:
  assumes "valid_config cfg"
  shows "case setup_peers channel (new_NodeServiceImpl cfg) of (ok, s) \<Rightarrow>
    ok = (\<forall>n \<in> set (nc_neighbors cfg). channel (neighbor_target n)) \<and> ns_cfg s = cfg \<and>
    (if ok then um_find (ns_peers s) = map_of (map (\<lambda>n. (nb_nodeId n, neighbor_target n)) (nc_neighbors cfg)) else True)"
proof -
  obtain ok s where run: "setup_loop channel (nc_neighbors cfg) (new_NodeServiceImpl cfg) = (ok, s)" by force
  have "distinct (map nb_nodeId (nc_neighbors cfg))" using assms by (simp add: valid_config_def)
  moreover have "um_find [] = (Map.empty :: node_id \<rightharpoonup> string)" by (simp add: fun_eq_iff)
  ultimately show ?thesis
    using setup_loop_peers [OF run] run by (simp add: setup_peers_def new_NodeServiceImpl_def)
qed

lemma setup_exact_witness: "fst (setup_peers (\<lambda>_. True) (new_NodeServiceImpl ex_parent_cfg))"
  using setup_exact [OF ex_parent_cfg_valid, of "\<lambda>_. True"] by (auto split: prod.splits)

end
