(* ===== verification/Taxi_Csv.thy ===== *)
theory Taxi_Csv
  imports Csv_Values
begin

text \<open>
  \<open>TaxiTripCSVParser\<close> (\<open>src/basic/src/taxi_implementation\<close>): the parser of the stand-alone data
  set. It fills all fields of a \<open>TaxiTrip\<close>, by the columns of an accepted header or else by the
  fixed column order. The scanning loop is that of \<open>PartitionCsvParser\<close>; the field parsers
  differ in what they call a blank, in the checks on dates, and in their widths.
\<close>

section \<open>Data\<close>

record TripColumns =
  tc_vendorId :: int
  tc_pickupDatetime :: int
  tc_dropoffDatetime :: int
  tc_passengerCount :: int
  tc_tripDistance :: int
  tc_rateCodeId :: int
  tc_storeAndFwdFlag :: int
  tc_pickupLocationId :: int
  tc_dropLocationId :: int
  tc_paymentType :: int
  tc_fareAmount :: int
  tc_extra :: int
  tc_mtaTax :: int
  tc_tipAmount :: int
  tc_tollsAmount :: int
  tc_improvementSurcharge :: int
  tc_totalAmount :: int
  tc_congestionSurcharge :: int
  tc_airportFee :: int

definition no_columns :: TripColumns where
  "no_columns = \<lparr> tc_vendorId = - 1, tc_pickupDatetime = - 1, tc_dropoffDatetime = - 1,
     tc_passengerCount = - 1, tc_tripDistance = - 1, tc_rateCodeId = - 1, tc_storeAndFwdFlag = - 1,
     tc_pickupLocationId = - 1, tc_dropLocationId = - 1, tc_paymentType = - 1,
     tc_fareAmount = - 1, tc_extra = - 1, tc_mtaTax = - 1, tc_tipAmount = - 1,
     tc_tollsAmount = - 1, tc_improvementSurcharge = - 1, tc_totalAmount = - 1,
     tc_congestionSurcharge = - 1, tc_airportFee = - 1 \<rparr>"

record TaxiTripCSVParser =
  tp_hasHeaderIndex :: bool
  tp_idx :: TripColumns

definition new_trip_parser :: TaxiTripCSVParser where
  "new_trip_parser = \<lparr> tp_hasHeaderIndex = False, tp_idx = no_columns \<rparr>"

section \<open>Field parsers\<close>

definition is_gap :: "char \<Rightarrow> bool" where
  "is_gap c \<longleftrightarrow> c = CHR '' '' \<or> c = chr_tab"

definition trip_trimSpaces :: "string \<Rightarrow> string" where
  "trip_trimSpaces s = rev (dropWhile is_gap (rev (dropWhile is_gap s)))"

definition trip_unquote :: "string \<Rightarrow> string" where
  \<comment> \<open>the step after trimming, alike in the header, the rows and the amounts; no field the scanner
      hands over is a lone quotation mark\<close>
  "trip_unquote s =
     (if s \<noteq> [] \<and> hd s = chr_quote \<and> last s = chr_quote then trip_trimSpaces (butlast (tl s)) else s)"

definition trip_to2 :: "string \<Rightarrow> nat \<Rightarrow> int" where
  "trip_to2 s i =
     (if i + 1 \<ge> length s then 0
      else if \<not> is_digit (s ! i) \<or> \<not> is_digit (s ! (i + 1)) then 0
      else digit_val (s ! i) * 10 + digit_val (s ! (i + 1)))"

fun trip_to4_loop :: "int \<Rightarrow> string \<Rightarrow> int" where
  "trip_to4_loop v [] = v"
| "trip_to4_loop v (c # cs) = (if \<not> is_digit c then 0 else trip_to4_loop (v * 10 + digit_val c) cs)"

definition trip_to4 :: "string \<Rightarrow> nat \<Rightarrow> int" where
  "trip_to4 s i = (if i + 3 \<ge> length s then 0 else trip_to4_loop 0 (take 4 (drop i s)))"

definition trip_parseEpochMs :: "string \<Rightarrow> int" where
  "trip_parseEpochMs s =
     (if length s < 19 then 0
      else if s ! 4 \<noteq> CHR ''-'' \<or> s ! 7 \<noteq> CHR ''-'' \<or> s ! 10 \<noteq> CHR '' '' \<or>
              s ! 13 \<noteq> CHR '':'' \<or> s ! 16 \<noteq> CHR '':'' then 0
      else epoch_ms \<lparr> tm_year = trip_to4 s 0 - 1900, tm_mon = trip_to2 s 5 - 1,
                      tm_mday = trip_to2 s 8, tm_hour = trip_to2 s 11, tm_min = trip_to2 s 14,
                      tm_sec = trip_to2 s 17 \<rparr>)"

definition trip_parseU8 :: "string \<Rightarrow> int" where
  "trip_parseU8 s =
     (if s = [] then 0
      else case from_chars_int s of
        None \<Rightarrow> 0
      | Some (v, n) \<Rightarrow>
          if n \<noteq> length s then 0 else if v < 0 then 0 else if v > 255 then 255 else v)"

definition trip_parseU16 :: "string \<Rightarrow> int" where
  "trip_parseU16 s =
     (if s = [] then 0
      else case from_chars_int s of
        None \<Rightarrow> 0
      | Some (v, n) \<Rightarrow>
          if n \<noteq> length s then 0 else if v < 0 then 0 else if v > 65535 then 65535 else v)"

definition trip_parseFloat :: "string \<Rightarrow> f32" where
  "trip_parseFloat s = (if s = [] then 0 else fst (strtof (take 63 s)))"

definition parseStoreAndFwdFlag :: "string \<Rightarrow> int" where
  "parseStoreAndFwdFlag s =
     (if s = [] then 0
      else if hd s = CHR ''Y'' \<or> hd s = CHR ''y'' then 1
      else if hd s = CHR ''N'' \<or> hd s = CHR ''n'' then 0
      else trip_parseU8 s)"

definition trip_money_finish :: "bool \<Rightarrow> int \<Rightarrow> int \<Rightarrow> string \<Rightarrow> int" where
  "trip_money_finish neg dollars cents a =
     (if dropWhile is_gap a \<noteq> [] then 0
      else let total = to_signed 64 (dollars * 100 + cents);
               total = (if neg then to_signed 64 (- total) else total)
           in clamp_int32 total)"

definition trip_money_amount :: "bool \<Rightarrow> string \<Rightarrow> int" where
  "trip_money_amount neg a =
     (case money_dollars 0 False a of (dollars, sawDigit, a) \<Rightarrow>
        if a \<noteq> [] \<and> hd a = CHR ''.'' then
          (case money_fraction 0 0 (tl a) of (cents, fracDigits, a) \<Rightarrow>
             let cents = (if fracDigits = 1 then cents * 10 else cents);
                 roundUp = (a \<noteq> [] \<and> is_digit (hd a) \<and> 5 \<le> digit_val (hd a));
                 a = dropWhile is_digit a
             in if \<not> sawDigit \<and> fracDigits = 0 then 0
                else if roundUp then
                  (if cents + 1 \<ge> 100 then trip_money_finish neg (to_signed 64 (dollars + 1)) 0 a
                   else trip_money_finish neg dollars (cents + 1) a)
                else trip_money_finish neg dollars cents a)
        else if \<not> sawDigit then 0
        else trip_money_finish neg dollars 0 a)"

definition trip_parseMoneyCents :: "string \<Rightarrow> int" where
  "trip_parseMoneyCents s =
     (if s = [] then 0
      else let a = trip_trimSpaces s
           in if a = [] then 0
              else let a = trip_unquote a
                   in if a = [] then 0
                      else if hd a = CHR ''+'' \<or> hd a = CHR ''-''
                           then (if tl a = [] then 0 else trip_money_amount (hd a = CHR ''-'') (tl a))
                           else trip_money_amount False a)"

section \<open>The header\<close>

definition isHeaderLine :: "string \<Rightarrow> bool" where
  "isHeaderLine line =
     (list_ex (\<lambda>i. take 8 (drop i line) = ''VendorID'') [0..<length line] \<or>
      list_ex (\<lambda>i. take 8 (drop i line) = ''vendorid'') [0..<length line])"

definition trip_splitHeaderFieldNormalize :: "string \<Rightarrow> string" where
  "trip_splitHeaderFieldNormalize s = map to_lower (trip_unquote (trip_trimSpaces s))"

definition trip_applyHeaderFieldToIndex :: "string \<Rightarrow> int \<Rightarrow> TripColumns \<Rightarrow> TripColumns" where
  "trip_applyHeaderFieldToIndex keyLower col idx =
     (if keyLower = ''vendorid'' then idx\<lparr>tc_vendorId := col\<rparr>
      else if keyLower = ''tpep_pickup_datetime'' then idx\<lparr>tc_pickupDatetime := col\<rparr>
      else if keyLower = ''tpep_dropoff_datetime'' then idx\<lparr>tc_dropoffDatetime := col\<rparr>
      else if keyLower = ''passenger_count'' then idx\<lparr>tc_passengerCount := col\<rparr>
      else if keyLower = ''trip_distance'' then idx\<lparr>tc_tripDistance := col\<rparr>
      else if keyLower = ''ratecodeid'' then idx\<lparr>tc_rateCodeId := col\<rparr>
      else if keyLower = ''store_and_fwd_flag'' then idx\<lparr>tc_storeAndFwdFlag := col\<rparr>
      else if keyLower = ''pulocationid'' then idx\<lparr>tc_pickupLocationId := col\<rparr>
      else if keyLower = ''dolocationid'' then idx\<lparr>tc_dropLocationId := col\<rparr>
      else if keyLower = ''payment_type'' then idx\<lparr>tc_paymentType := col\<rparr>
      else if keyLower = ''fare_amount'' then idx\<lparr>tc_fareAmount := col\<rparr>
      else if keyLower = ''extra'' then idx\<lparr>tc_extra := col\<rparr>
      else if keyLower = ''mta_tax'' then idx\<lparr>tc_mtaTax := col\<rparr>
      else if keyLower = ''tip_amount'' then idx\<lparr>tc_tipAmount := col\<rparr>
      else if keyLower = ''tolls_amount'' then idx\<lparr>tc_tollsAmount := col\<rparr>
      else if keyLower = ''improvement_surcharge'' then idx\<lparr>tc_improvementSurcharge := col\<rparr>
      else if keyLower = ''total_amount'' then idx\<lparr>tc_totalAmount := col\<rparr>
      else if keyLower = ''congestion_surcharge'' then idx\<lparr>tc_congestionSurcharge := col\<rparr>
      else if keyLower = ''airport_fee'' then idx\<lparr>tc_airportFee := col\<rparr>
      else idx)"

definition trip_handleHeaderField :: "int \<Rightarrow> string \<Rightarrow> TripColumns \<Rightarrow> TripColumns" where
  "trip_handleHeaderField col s idx =
     trip_applyHeaderFieldToIndex (trip_splitHeaderFieldNormalize s) col idx"

definition trip_initFromHeader :: "string \<Rightarrow> bool \<times> TaxiTripCSVParser" where
  \<comment> \<open>the parser before the call does not matter: its columns and its flag are reset first\<close>
  "trip_initFromHeader headerLine =
     (case scan_fields trip_handleHeaderField False 0 [] headerLine no_columns of
        (inQuotes, col, field, idx) \<Rightarrow>
          if inQuotes then (False, \<lparr> tp_hasHeaderIndex = False, tp_idx = idx \<rparr>)
          else let idx = trip_handleHeaderField col field idx
               in if tc_vendorId idx < 0 \<or> tc_pickupDatetime idx < 0 \<or> tc_dropoffDatetime idx < 0
                  then (False, \<lparr> tp_hasHeaderIndex = False, tp_idx = idx \<rparr>)
                  else (True, \<lparr> tp_hasHeaderIndex = True, tp_idx = idx \<rparr>))"

section \<open>Rows\<close>

definition trip_field_text :: "string \<Rightarrow> string" where
  "trip_field_text s = trip_unquote (trip_trimSpaces s)"

definition parseFieldByFixedOrder :: "int \<Rightarrow> string \<Rightarrow> TaxiTrip \<Rightarrow> TaxiTrip" where
  "parseFieldByFixedOrder idxCol s out =
     (let f = trip_field_text s in
      if idxCol = 0 then out\<lparr>tt_vendorId := trip_parseU8 f\<rparr>
      else if idxCol = 1 then out\<lparr>tt_pickupEpochMs := trip_parseEpochMs f\<rparr>
      else if idxCol = 2 then out\<lparr>tt_dropoffEpochMs := trip_parseEpochMs f\<rparr>
      else if idxCol = 3 then out\<lparr>tt_passengerCount := trip_parseU8 f\<rparr>
      else if idxCol = 4 then out\<lparr>tt_tripDistance := trip_parseFloat f\<rparr>
      else if idxCol = 5 then out\<lparr>tt_rateCodeId := trip_parseU8 f\<rparr>
      else if idxCol = 6 then out\<lparr>tt_storeAndFwd := parseStoreAndFwdFlag f\<rparr>
      else if idxCol = 7 then out\<lparr>tt_pickupLocationId := trip_parseU16 f\<rparr>
      else if idxCol = 8 then out\<lparr>tt_dropLocationId := trip_parseU16 f\<rparr>
      else if idxCol = 9 then out\<lparr>tt_paymentType := trip_parseU8 f\<rparr>
      else if idxCol = 10 then out\<lparr>tt_fareAmountCents := trip_parseMoneyCents f\<rparr>
      else if idxCol = 11 then out\<lparr>tt_extraCents := trip_parseMoneyCents f\<rparr>
      else if idxCol = 12 then out\<lparr>tt_mtaTaxCents := trip_parseMoneyCents f\<rparr>
      else if idxCol = 13 then out\<lparr>tt_tipAmountCents := trip_parseMoneyCents f\<rparr>
      else if idxCol = 14 then out\<lparr>tt_tollsAmountCents := trip_parseMoneyCents f\<rparr>
      else if idxCol = 15 then out\<lparr>tt_improvementSurchargeCents := trip_parseMoneyCents f\<rparr>
      else if idxCol = 16 then out\<lparr>tt_totalAmountCents := trip_parseMoneyCents f\<rparr>
      else if idxCol = 17 then out\<lparr>tt_congestionSurchargeCents := trip_parseMoneyCents f\<rparr>
      else if idxCol = 18 then out\<lparr>tt_airportFeeCents := trip_parseMoneyCents f\<rparr>
      else out)"

definition parseFieldByHeaderIndex :: "TripColumns \<Rightarrow> int \<Rightarrow> string \<Rightarrow> TaxiTrip \<Rightarrow> TaxiTrip" where
  "parseFieldByHeaderIndex ix idxCol s out =
     (let f = trip_field_text s in
      if idxCol = tc_vendorId ix then out\<lparr>tt_vendorId := trip_parseU8 f\<rparr>
      else if idxCol = tc_pickupDatetime ix then out\<lparr>tt_pickupEpochMs := trip_parseEpochMs f\<rparr>
      else if idxCol = tc_dropoffDatetime ix then out\<lparr>tt_dropoffEpochMs := trip_parseEpochMs f\<rparr>
      else if idxCol = tc_passengerCount ix then out\<lparr>tt_passengerCount := trip_parseU8 f\<rparr>
      else if idxCol = tc_tripDistance ix then out\<lparr>tt_tripDistance := trip_parseFloat f\<rparr>
      else if idxCol = tc_rateCodeId ix then out\<lparr>tt_rateCodeId := trip_parseU8 f\<rparr>
      else if idxCol = tc_storeAndFwdFlag ix then out\<lparr>tt_storeAndFwd := parseStoreAndFwdFlag f\<rparr>
      else if idxCol = tc_pickupLocationId ix then out\<lparr>tt_pickupLocationId := trip_parseU16 f\<rparr>
      else if idxCol = tc_dropLocationId ix then out\<lparr>tt_dropLocationId := trip_parseU16 f\<rparr>
      else if idxCol = tc_paymentType ix then out\<lparr>tt_paymentType := trip_parseU8 f\<rparr>
      else if idxCol = tc_fareAmount ix then out\<lparr>tt_fareAmountCents := trip_parseMoneyCents f\<rparr>
      else if idxCol = tc_extra ix then out\<lparr>tt_extraCents := trip_parseMoneyCents f\<rparr>
      else if idxCol = tc_mtaTax ix then out\<lparr>tt_mtaTaxCents := trip_parseMoneyCents f\<rparr>
      else if idxCol = tc_tipAmount ix then out\<lparr>tt_tipAmountCents := trip_parseMoneyCents f\<rparr>
      else if idxCol = tc_tollsAmount ix then out\<lparr>tt_tollsAmountCents := trip_parseMoneyCents f\<rparr>
      else if idxCol = tc_improvementSurcharge ix
        then out\<lparr>tt_improvementSurchargeCents := trip_parseMoneyCents f\<rparr>
      else if idxCol = tc_totalAmount ix then out\<lparr>tt_totalAmountCents := trip_parseMoneyCents f\<rparr>
      else if idxCol = tc_congestionSurcharge ix
        then out\<lparr>tt_congestionSurchargeCents := trip_parseMoneyCents f\<rparr>
      else if idxCol = tc_airportFee ix then out\<lparr>tt_airportFeeCents := trip_parseMoneyCents f\<rparr>
      else out)"

definition trip_handleField :: "TaxiTripCSVParser \<Rightarrow> int \<Rightarrow> string \<Rightarrow> TaxiTrip \<Rightarrow> TaxiTrip" where
  "trip_handleField p idxCol s out =
     (if tp_hasHeaderIndex p then parseFieldByHeaderIndex (tp_idx p) idxCol s out
      else parseFieldByFixedOrder idxCol s out)"

definition parse_trip :: "TaxiTripCSVParser \<Rightarrow> string \<Rightarrow> bool \<times> TaxiTrip" where
  "parse_trip p line =
     (if line = [] then (False, empty_trip)
      else case scan_fields (trip_handleField p) False 0 [] line empty_trip of
        (inQuotes, col, field, out) \<Rightarrow>
          if inQuotes then (False, out)
          else let out = trip_handleField p col field out
               in if tt_pickupEpochMs out = 0 then (False, out) else (True, out))"

end
