(* ===== verification/Taxi_Fields.thy ===== *)
theory Taxi_Fields
  imports Taxi_Csv
begin

text \<open>
  \<open>TaxiTripCSVParser\<close> against column lookup: both ways of assigning fields are one chain over a
  list of columns, the header gives each known name its last column, and a row is what its
  columns hold.
\<close>

section \<open>Columns as a list\<close>

definition trip_columns :: "TripColumns \<Rightarrow> int list" where
  "trip_columns ix = [tc_vendorId ix, tc_pickupDatetime ix, tc_dropoffDatetime ix,
     tc_passengerCount ix, tc_tripDistance ix, tc_rateCodeId ix, tc_storeAndFwdFlag ix,
     tc_pickupLocationId ix, tc_dropLocationId ix, tc_paymentType ix, tc_fareAmount ix,
     tc_extra ix, tc_mtaTax ix, tc_tipAmount ix, tc_tollsAmount ix, tc_improvementSurcharge ix,
     tc_totalAmount ix, tc_congestionSurcharge ix, tc_airportFee ix]"

definition trip_names :: "string list" where
  "trip_names = [''vendorid'', ''tpep_pickup_datetime'', ''tpep_dropoff_datetime'',
     ''passenger_count'', ''trip_distance'', ''ratecodeid'', ''store_and_fwd_flag'',
     ''pulocationid'', ''dolocationid'', ''payment_type'', ''fare_amount'', ''extra'', ''mta_tax'',
     ''tip_amount'', ''tolls_amount'', ''improvement_surcharge'', ''total_amount'',
     ''congestion_surcharge'', ''airport_fee'']"

fun slot :: "nat \<Rightarrow> 'a list \<Rightarrow> 'a \<Rightarrow> nat" where
  \<comment> \<open>where an if-chain over a list stops\<close>
  "slot n [] c = n"
| "slot n (k # ks) c = (if c = k then n else slot (n + 1) ks c)"

definition parser_columns :: "TaxiTripCSVParser \<Rightarrow> int list" where
  "parser_columns p = (if tp_hasHeaderIndex p then trip_columns (tp_idx p) else map int [0..<19])"

lemma slot_shift: "slot n ks c = n + slot 0 ks c"
proof (induction ks arbitrary: n)
  case (Cons k ks)
  show ?case using Cons.IH [of "n + 1"] Cons.IH [of 1] by simp
qed simp

lemma slot_missing: "c \<notin> set ks \<Longrightarrow> slot 0 ks c = length ks"
proof (induction ks)
  case (Cons k ks)
  then show ?case using slot_shift [of 1 ks c] by simp
qed simp

lemma slot_iff:
  assumes "j < length ks" and "\<And>i j. i < j \<Longrightarrow> j < length ks \<Longrightarrow> ks ! i = ks ! j \<Longrightarrow> \<not> P (ks ! i)" and "P c"
  shows "slot 0 ks c = j \<longleftrightarrow> c = ks ! j"
  using assms(1,2)
proof (induction ks arbitrary: j)
  case (Cons k ks)
  have shift: "slot (Suc 0) ks c = Suc (slot 0 ks c)" using slot_shift [of "Suc 0"] by simp
  have d: "\<not> P (ks ! i)" if "i < j" "j < length ks" "ks ! i = ks ! j" for i j
    using Cons.prems(2) [of "Suc i" "Suc j"] that by simp
  show ?case
  proof (cases j)
    case 0
    then show ?thesis by (simp add: shift)
  next
    case (Suc i)
    then have "i < length ks" using Cons.prems(1) by simp
    note IH = Cons.IH [OF this d]
    show ?thesis
    proof (cases "c = k")
      case True
      then have "k \<noteq> ks ! i"
        using Cons.prems(2) [of 0 "Suc i"] \<open>i < length ks\<close> assms(3) by auto
      then show ?thesis using True Suc by simp
    next
      case False
      then show ?thesis using IH Suc by (simp add: shift)
    qed
  qed
qed simp

lemma header_order_is_slot:
  "parseFieldByHeaderIndex ix c s out = parseFieldByFixedOrder (int (slot 0 (trip_columns ix) c)) s out"
  unfolding parseFieldByHeaderIndex_def trip_columns_def slot.simps Let_def
  by (simp add: parseFieldByFixedOrder_def Let_def if_distrib [of int]
      if_distrib [of "\<lambda>x. parseFieldByFixedOrder x s out"] cong: if_cong)

lemma fixed_order_is_slot:
  "parseFieldByFixedOrder (int c) s out = parseFieldByFixedOrder (int (slot 0 (map int [0..<19]) (int c))) s out"
proof (cases "c < 19")
  case True
  have "slot 0 (map int [0..<19]) (int c) = c \<longleftrightarrow> int c = map int [0..<19] ! c"
    by (rule slot_iff [where P = "\<lambda>_. True"]) (use True in \<open>auto simp: nth_append\<close>)
  then show ?thesis using True by simp
next
  case False
  have "int c \<notin> set (map int [0..<19])" using False by auto
  then have "slot 0 (map int [0..<19]) (int c) = length (map int [0..<19])" by (rule slot_missing)
  then have "slot 0 (map int [0..<19]) (int c) = 19" by simp
  then show ?thesis using False by (simp add: parseFieldByFixedOrder_def Let_def)
qed

lemma handler_slot:
  "trip_handleField p (int c) s out = parseFieldByFixedOrder (int (slot 0 (parser_columns p) (int c))) s out"
  using fixed_order_is_slot [of c s out]
  by (simp add: trip_handleField_def parser_columns_def header_order_is_slot)

section \<open>A row by its columns\<close>

definition trip_value :: "(string \<Rightarrow> 'b) \<Rightarrow> 'b \<Rightarrow> string list \<Rightarrow> int \<Rightarrow> 'b" where
  "trip_value v d fs c = (if 0 \<le> c \<and> c < int (length fs) then v (trip_field_text (fs ! nat c)) else d)"

definition trip_of :: "int list \<Rightarrow> string list \<Rightarrow> TaxiTrip" where
  "trip_of cs fs = \<lparr>
     tt_pickupEpochMs = trip_value trip_parseEpochMs 0 fs (cs ! 1),
     tt_dropoffEpochMs = trip_value trip_parseEpochMs 0 fs (cs ! 2),
     tt_vendorId = trip_value trip_parseU8 0 fs (cs ! 0),
     tt_passengerCount = trip_value trip_parseU8 0 fs (cs ! 3),
     tt_paymentType = trip_value trip_parseU8 0 fs (cs ! 9),
     tt_storeAndFwd = trip_value parseStoreAndFwdFlag 0 fs (cs ! 6),
     tt_rateCodeId = trip_value trip_parseU8 0 fs (cs ! 5),
     tt_pickupLocationId = trip_value trip_parseU16 0 fs (cs ! 7),
     tt_dropLocationId = trip_value trip_parseU16 0 fs (cs ! 8),
     tt_tripDistance = trip_value trip_parseFloat 0 fs (cs ! 4),
     tt_fareAmountCents = trip_value trip_parseMoneyCents 0 fs (cs ! 10),
     tt_extraCents = trip_value trip_parseMoneyCents 0 fs (cs ! 11),
     tt_mtaTaxCents = trip_value trip_parseMoneyCents 0 fs (cs ! 12),
     tt_tipAmountCents = trip_value trip_parseMoneyCents 0 fs (cs ! 13),
     tt_tollsAmountCents = trip_value trip_parseMoneyCents 0 fs (cs ! 14),
     tt_improvementSurchargeCents = trip_value trip_parseMoneyCents 0 fs (cs ! 15),
     tt_totalAmountCents = trip_value trip_parseMoneyCents 0 fs (cs ! 16),
     tt_congestionSurchargeCents = trip_value trip_parseMoneyCents 0 fs (cs ! 17),
     tt_airportFeeCents = trip_value trip_parseMoneyCents 0 fs (cs ! 18) \<rparr>"

definition columns_ok :: "int list \<Rightarrow> bool" where
  "columns_ok cs \<longleftrightarrow> length cs = 19 \<and> (\<forall>i j. i < j \<and> j < length cs \<and> cs ! i = cs ! j \<longrightarrow> cs ! i < 0)"

lemma trip_column_fold:
  assumes ok: "columns_ok (parser_columns p)" and k: "k < 19"
    and h: "\<And>j x a. g (parseFieldByFixedOrder (int j) x a) = (if j = k then v (trip_field_text x) else g a)"
  shows "g (fold (\<lambda>(i, x). trip_handleField p (int i) x) (enumerate 0 fs) a) =
     trip_value v (g a) fs (parser_columns p ! k)"
proof -
  have "slot 0 (parser_columns p) (int c) = k \<longleftrightarrow> int c = parser_columns p ! k" for c
    by (rule slot_iff [where P = "\<lambda>c. 0 \<le> c"]) (use ok k in \<open>auto simp: columns_ok_def not_le\<close>)
  then have "g (trip_handleField p (int c) x a) =
      (if int c = parser_columns p ! k then v (trip_field_text x) else g a)" for c x a
    by (simp add: handler_slot h)
  from fold_column [of g "trip_handleField p", OF this, of 0 fs a]
  show ?thesis by (simp add: trip_value_def)
qed

lemma trip_fold:
  assumes "columns_ok (parser_columns p)"
  shows "fold (\<lambda>(i, x). trip_handleField p (int i) x) (enumerate 0 fs) empty_trip =
    trip_of (parser_columns p) fs" (is "?r = _")
proof -
  note col = trip_column_fold [OF assms, where a = empty_trip and fs = fs]
  note fixed = parseFieldByFixedOrder_def Let_def
  show ?thesis
    apply (rule TaxiTrip.equality)
    apply (simp_all only: trip_of_def TaxiTrip.select_convs)
    subgoal by (rule col [where g = tt_pickupEpochMs, THEN trans]) (simp_all add: fixed empty_trip_def)
    subgoal by (rule col [where g = tt_dropoffEpochMs, THEN trans]) (simp_all add: fixed empty_trip_def)
    subgoal by (rule col [where g = tt_vendorId, THEN trans]) (simp_all add: fixed empty_trip_def)
    subgoal by (rule col [where g = tt_passengerCount, THEN trans]) (simp_all add: fixed empty_trip_def)
    subgoal by (rule col [where g = tt_paymentType, THEN trans]) (simp_all add: fixed empty_trip_def)
    subgoal by (rule col [where g = tt_storeAndFwd, THEN trans]) (simp_all add: fixed empty_trip_def)
    subgoal by (rule col [where g = tt_rateCodeId, THEN trans]) (simp_all add: fixed empty_trip_def)
    subgoal by (rule col [where g = tt_pickupLocationId, THEN trans]) (simp_all add: fixed empty_trip_def)
    subgoal by (rule col [where g = tt_dropLocationId, THEN trans]) (simp_all add: fixed empty_trip_def)
    subgoal by (rule col [where g = tt_tripDistance, THEN trans]) (simp_all add: fixed empty_trip_def)
    subgoal by (rule col [where g = tt_fareAmountCents, THEN trans]) (simp_all add: fixed empty_trip_def)
    subgoal by (rule col [where g = tt_extraCents, THEN trans]) (simp_all add: fixed empty_trip_def)
    subgoal by (rule col [where g = tt_mtaTaxCents, THEN trans]) (simp_all add: fixed empty_trip_def)
    subgoal by (rule col [where g = tt_tipAmountCents, THEN trans]) (simp_all add: fixed empty_trip_def)
    subgoal by (rule col [where g = tt_tollsAmountCents, THEN trans]) (simp_all add: fixed empty_trip_def)
    subgoal by (rule col [where g = tt_improvementSurchargeCents, THEN trans]) (simp_all add: fixed empty_trip_def)
    subgoal by (rule col [where g = tt_totalAmountCents, THEN trans]) (simp_all add: fixed empty_trip_def)
    subgoal by (rule col [where g = tt_congestionSurchargeCents, THEN trans]) (simp_all add: fixed empty_trip_def)
    subgoal by (rule col [where g = tt_airportFeeCents, THEN trans]) (simp_all add: fixed empty_trip_def)
    subgoal by simp
    done
qed

lemma parse_trip_lookup:
  assumes "columns_ok (parser_columns p)" and "line \<noteq> []" and "even (quotes line)"
  shows "parse_trip p line =
    (tt_pickupEpochMs (trip_of (parser_columns p) (fields_of line)) \<noteq> 0, trip_of (parser_columns p) (fields_of line))"
proof -
  obtain q col f out where s: "scan_fields (trip_handleField p) False 0 [] line empty_trip = (q, col, f, out)"
    by (metis prod_cases4)
  note all = scan_fields_all [OF s, unfolded trip_fold [OF assms(1)]]
  show ?thesis using assms all by (simp add: parse_trip_def s Let_def)
qed

lemma parse_trip_rejects:
  assumes "line = [] \<or> odd (quotes line)"
  shows "\<not> fst (parse_trip p line)"
proof (cases "line = []")
  case False
  obtain q col f out where s: "scan_fields (trip_handleField p) False 0 [] line empty_trip = (q, col, f, out)"
    by (metis prod_cases4)
  show ?thesis using False assms scan_fields_all(1) [OF s] by (simp add: parse_trip_def s)
qed (simp add: parse_trip_def)

section \<open>The header\<close>

definition last_column :: "(string \<Rightarrow> string) \<Rightarrow> string \<Rightarrow> string list \<Rightarrow> int" where
  \<comment> \<open>the last column with this name, \<open>- 1\<close> when there is none\<close>
  "last_column v name fs = fold (\<lambda>(i, x) c. if v x = name then int i else c) (enumerate 0 fs) (- 1)"

definition header_columns :: "string list \<Rightarrow> int list" where
  "header_columns fs = map (\<lambda>name. last_column trip_splitHeaderFieldNormalize name fs) trip_names"

lemma apply_header_columns:
  "trip_columns (trip_applyHeaderFieldToIndex key col idx) =
     (trip_columns idx)[slot 0 trip_names key := col]"
  unfolding trip_names_def slot.simps trip_applyHeaderFieldToIndex_def
  by (simp add: trip_columns_def if_distrib [of trip_columns] if_distrib [of "\<lambda>n. list_update _ n col"]
      cong: if_cong)

lemma length_trip_columns [simp]: "length (trip_columns ix) = 19"
  by (simp add: trip_columns_def)

lemma trip_names_facts: "length trip_names = 19" "distinct trip_names"
  by (simp_all add: trip_names_def)

lemma slot_name: "k < 19 \<Longrightarrow> slot 0 trip_names key = k \<longleftrightarrow> key = trip_names ! k"
  by (rule slot_iff [where P = "\<lambda>_. True"])
    (use trip_names_facts in \<open>auto simp: nth_eq_iff_index_eq\<close>)

lemma handle_header_column:
  assumes "k < 19"
  shows "trip_columns (trip_handleHeaderField c x a) ! k =
    (if trip_splitHeaderFieldNormalize x = trip_names ! k then c else trip_columns a ! k)"
proof (cases "trip_splitHeaderFieldNormalize x = trip_names ! k")
  case True
  then have "slot 0 trip_names (trip_splitHeaderFieldNormalize x) = k"
    using slot_name [OF assms] by simp
  then show ?thesis using True assms by (simp add: trip_handleHeaderField_def apply_header_columns)
next
  case False
  then have "slot 0 trip_names (trip_splitHeaderFieldNormalize x) \<noteq> k"
    using slot_name [OF assms] by simp
  then show ?thesis using False by (simp add: trip_handleHeaderField_def apply_header_columns)
qed

lemma header_fold_column:
  assumes "k < 19"
  shows "trip_columns (fold (\<lambda>(i, x). trip_handleHeaderField (int i) x) (enumerate n fs) a) ! k =
    fold (\<lambda>(i, x) c. if trip_splitHeaderFieldNormalize x = trip_names ! k then int i else c)
      (enumerate n fs) (trip_columns a ! k)"
proof (induction fs arbitrary: n a)
  case (Cons x fs)
  then show ?case by (simp add: handle_header_column [OF assms])
qed simp

lemma no_columns_nth: "k < 19 \<Longrightarrow> trip_columns no_columns ! k = - 1"
proof -
  have "trip_columns no_columns = replicate 19 (- 1)"
    by (simp add: trip_columns_def no_columns_def numeral_eq_Suc)
  then show "k < 19 \<Longrightarrow> trip_columns no_columns ! k = - 1" by simp
qed

lemma header_fold_columns:
  "trip_columns (fold (\<lambda>(i, x). trip_handleHeaderField (int i) x) (enumerate 0 fs) no_columns) =
    header_columns fs"
  by (rule nth_equalityI)
    (simp_all add: header_columns_def trip_names_facts header_fold_column last_column_def no_columns_nth)

lemma last_column_cases:
  "(name \<notin> set (map v fs) \<longrightarrow> last_column v name fs = - 1) \<and>
   (name \<in> set (map v fs) \<longrightarrow> 0 \<le> last_column v name fs \<and> last_column v name fs < int (length fs) \<and>
      v (fs ! nat (last_column v name fs)) = name)"
  using fold_last_name [where g = "\<lambda>c. c" and h = "\<lambda>c x a. if v x = name then c else a" and v = v
      and key = name and n = 0 and fs = fs and a = "- 1"]
  by (simp add: last_column_def)

lemma last_column_neg: "last_column v name fs < 0 \<longleftrightarrow> name \<notin> set (map v fs)"
  using last_column_cases [of name v fs] by linarith

lemma last_column_name: "0 \<le> last_column v name fs \<Longrightarrow> v (fs ! nat (last_column v name fs)) = name"
  using last_column_cases [of name v fs] by linarith

lemma columns_ok_header: "columns_ok (header_columns fs)"
proof -
  let ?f = "\<lambda>name. last_column trip_splitHeaderFieldNormalize name fs"
  have "?f (trip_names ! i) < 0" if "i < j" "j < 19" "?f (trip_names ! i) = ?f (trip_names ! j)" for i j
  proof (rule ccontr)
    assume "\<not> ?f (trip_names ! i) < 0"
    then have "trip_names ! i = trip_names ! j"
      using that(3) last_column_name [of trip_splitHeaderFieldNormalize] by (metis not_less)
    then show False using that trip_names_facts by (simp add: nth_eq_iff_index_eq)
  qed
  then show ?thesis
    by (auto simp: columns_ok_def header_columns_def trip_names_facts nth_map)
qed

lemma columns_ok_fixed: "columns_ok (map int [0..<19])"
  by (auto simp: columns_ok_def nth_append simp del: upt_Suc upt_rec_numeral)

definition core_names :: "string list" where
  "core_names = [''vendorid'', ''tpep_pickup_datetime'', ''tpep_dropoff_datetime'']"

lemma trip_initFromHeader_cases:
  assumes "trip_initFromHeader h = (ok, p)"
  shows "ok \<longleftrightarrow> even (quotes h) \<and> list_all (\<lambda>n. n \<in> set (map trip_splitHeaderFieldNormalize (fields_of h))) core_names"
    and "parser_columns p = (if ok then header_columns (fields_of h) else map int [0..<19])"
proof -
  let ?fs = "fields_of h"
  let ?c = "\<lambda>name. last_column trip_splitHeaderFieldNormalize name ?fs"
  obtain q col f out where s: "scan_fields trip_handleHeaderField False 0 [] h no_columns = (q, col, f, out)"
    by (metis prod_cases4)
  note all = scan_fields_all [OF s]
  let ?idx = "trip_handleHeaderField col f out"
  have cols: "trip_columns ?idx = header_columns ?fs" unfolding all(2) by (rule header_fold_columns)
  have "tc_vendorId ?idx = trip_columns ?idx ! 0" "tc_pickupDatetime ?idx = trip_columns ?idx ! 1"
    "tc_dropoffDatetime ?idx = trip_columns ?idx ! 2" by (simp_all add: trip_columns_def)
  then have core: "tc_vendorId ?idx = ?c ''vendorid''" "tc_pickupDatetime ?idx = ?c ''tpep_pickup_datetime''"
    "tc_dropoffDatetime ?idx = ?c ''tpep_dropoff_datetime''"
    unfolding cols by (simp_all add: header_columns_def trip_names_def)
  have missing: "?c n < 0 \<longleftrightarrow> n \<notin> set (map trip_splitHeaderFieldNormalize ?fs)" for n
    by (rule last_column_neg)
  show "ok \<longleftrightarrow> even (quotes h) \<and> list_all (\<lambda>n. n \<in> set (map trip_splitHeaderFieldNormalize ?fs)) core_names"
    using assms all(1) unfolding trip_initFromHeader_def s prod.case Let_def core missing
    by (auto simp: core_names_def split: if_splits simp del: set_map)
  show "parser_columns p = (if ok then header_columns ?fs else map int [0..<19])"
    using assms cols unfolding trip_initFromHeader_def s prod.case Let_def
    by (auto simp: parser_columns_def split: if_splits simp del: upt_Suc upt_rec_numeral)
qed

lemma columns_ok_parser:
  assumes "trip_initFromHeader h = (ok, p)"
  shows "columns_ok (parser_columns p)"
  using trip_initFromHeader_cases(2) [OF assms] columns_ok_header columns_ok_fixed by simp

end
