(* ===== verification/Taxi_Agree.thy ===== *)
theory Taxi_Agree
  imports Taxi_Fields Local_Engine
begin

text \<open>
  The two row parsers of the repository against each other: on rows without carriage returns,
  with well-formed dates and a payment type of one byte, \<open>TaxiTripCSVParser\<close> and
  \<open>PartitionCsvParser\<close> accept the same rows and agree on the fields both of them read.
\<close>

section \<open>Blanks\<close>

lemma dropWhile_cong_set:
  "(\<And>c. c \<in> set s \<Longrightarrow> P c = Q c) \<Longrightarrow> dropWhile P s = dropWhile Q s"
  by (induction s) auto

lemma gap_blank: "chr_return \<notin> set s \<Longrightarrow> c \<in> set s \<Longrightarrow> is_gap c = is_blank c"
  by (auto simp: is_gap_def is_blank_def)

lemma dropWhile_gap: "chr_return \<notin> set s \<Longrightarrow> dropWhile is_gap s = dropWhile is_blank s"
  by (rule dropWhile_cong_set) (rule gap_blank)

lemma trimSpaces_subset: "set (trimSpaces s) \<subseteq> set s"
  unfolding trimSpaces_def by (auto dest!: set_dropWhileD)

lemma trip_trimSpaces_eq:
  assumes "chr_return \<notin> set s"
  shows "trip_trimSpaces s = trimSpaces s"
proof -
  have "chr_return \<notin> set (rev (dropWhile is_blank s))"
    using assms set_dropWhileD by fastforce
  then show ?thesis using assms by (simp add: trip_trimSpaces_def trimSpaces_def dropWhile_gap)
qed

lemma tl_subset: "set (tl s) \<subseteq> set s"
  by (cases s) auto

lemma butlast_tl_subset: "set (butlast (tl s)) \<subseteq> set s"
  by (rule subset_trans [OF _ tl_subset]) (auto dest: in_set_butlastD)

lemma trip_unquote_eq:
  assumes "chr_return \<notin> set s"
  shows "trip_unquote s = strip_quotes s"
proof -
  have "chr_return \<notin> set (butlast (tl s))" using assms butlast_tl_subset [of s] by (rule contra_subsetD [rotated])
  from trip_trimSpaces_eq [OF this] show ?thesis by (simp only: trip_unquote_def strip_quotes_def)
qed

lemma strip_quotes_subset: "set (strip_quotes s) \<subseteq> set s"
  using trimSpaces_subset [of "butlast (tl s)"] butlast_tl_subset [of s]
  by (auto simp: strip_quotes_def)

lemma trip_field_text_eq:
  assumes "chr_return \<notin> set s"
  shows "trip_field_text s = clean_field s" and "chr_return \<notin> set (clean_field s)"
proof -
  have n: "chr_return \<notin> set (trimSpaces s)" using assms trimSpaces_subset [of s] by (rule contra_subsetD [rotated])
  show "trip_field_text s = clean_field s"
    by (simp add: trip_field_text_def clean_field_def trip_trimSpaces_eq [OF assms] trip_unquote_eq [OF n])
  show "chr_return \<notin> set (clean_field s)"
    unfolding clean_field_def using n strip_quotes_subset [of "trimSpaces s"] by (rule contra_subsetD [rotated])
qed

lemma trip_header_name_eq:
  "chr_return \<notin> set s \<Longrightarrow> trip_splitHeaderFieldNormalize s = splitHeaderFieldNormalize s"
  using trip_field_text_eq(1) [of s]
  by (simp add: trip_splitHeaderFieldNormalize_def splitHeaderFieldNormalize_def trip_field_text_def clean_field_def)

section \<open>Values\<close>

lemma money_dollars_rest: "money_dollars d g a = (d', g', r) \<Longrightarrow> set r \<subseteq> set a"
  by (induction d g a rule: money_dollars.induct) (auto split: if_splits)

lemma money_fraction_rest: "money_fraction c n a = (c', n', r) \<Longrightarrow> set r \<subseteq> set a"
  by (induction c n a rule: money_fraction.induct) (auto split: if_splits)

lemma trip_money_finish_eq:
  "chr_return \<notin> set a \<Longrightarrow> trip_money_finish neg d c a = money_finish neg d c a"
  by (simp add: trip_money_finish_def money_finish_def dropWhile_gap)

lemma trip_money_amount_eq:
  assumes "chr_return \<notin> set a"
  shows "trip_money_amount neg a = money_amount neg a"
proof -
  obtain d g r where d: "money_dollars 0 False a = (d, g, r)" by (metis prod_cases3)
  have r: "chr_return \<notin> set r" using assms money_dollars_rest [OF d] by (rule contra_subsetD [rotated])
  obtain c n u where f: "money_fraction 0 0 (tl r) = (c, n, u)" by (metis prod_cases3)
  have "chr_return \<notin> set (tl r)" using r tl_subset [of r] by (rule contra_subsetD [rotated])
  then have "chr_return \<notin> set u" using money_fraction_rest [OF f] by (rule contra_subsetD [rotated])
  then have "chr_return \<notin> set (dropWhile is_digit u)" by (meson set_dropWhileD)
  then show ?thesis
    using r by (simp add: trip_money_amount_def money_amount_def d f trip_money_finish_eq Let_def)
qed

lemma trip_money_eq:
  assumes "chr_return \<notin> set s"
  shows "trip_parseMoneyCents s = parseMoneyCents s"
proof -
  let ?a = "strip_quotes (trimSpaces s)"
  have t: "chr_return \<notin> set (trimSpaces s)" using assms trimSpaces_subset [of s] by (rule contra_subsetD [rotated])
  then have a: "chr_return \<notin> set ?a" using strip_quotes_subset [of "trimSpaces s"] by (rule contra_subsetD [rotated])
  then have "chr_return \<notin> set (tl ?a)" using tl_subset [of ?a] by (rule contra_subsetD [rotated])
  with a show ?thesis
    by (simp add: trip_parseMoneyCents_def parseMoneyCents_def money_signed_def Let_def
        trip_trimSpaces_eq [OF assms] trip_unquote_eq [OF t] trip_money_amount_eq)
qed

lemma parse_decimal_consumes: "parse_decimal u = Some (m, n) \<Longrightarrow> 0 < n"
  by (auto simp: parse_decimal_def parse_mantissa_def Let_def split: prod.splits if_splits)

lemma strtof_shape:
  assumes "r = (if a then (x, p + 8) else if b then (y, p + 3) else if c then (z, p + 3)
    else case h of Some (m, n) \<Rightarrow> (w m, p + 2 + n)
         | None \<Rightarrow> (case parse_decimal u of Some (m, n) \<Rightarrow> (w m, p + n) | None \<Rightarrow> (0 :: f32, 0 :: nat)))"
    and "snd r = 0"
  shows "fst r = 0"
  using assms parse_decimal_consumes [of u]
  by (cases a; cases b; cases c; cases h; cases "parse_decimal u") auto

lemma strtof_none: "snd (strtof s) = 0 \<Longrightarrow> fst (strtof s) = 0"
  by (rule strtof_shape [OF strtof_def [unfolded Let_def]])

lemma trip_parseFloat_eq: "trip_parseFloat s = parseFloat s"
  using strtof_none [of "take 63 s"] by (auto simp: trip_parseFloat_def parseFloat_def Let_def split: prod.splits)

definition payment_field :: "string \<Rightarrow> bool" where
  \<comment> \<open>not a number outside a byte\<close>
  "payment_field f = (case from_chars_int f of None \<Rightarrow> True | Some (v, n) \<Rightarrow> 0 \<le> v \<and> v \<le> 255)"

lemma trip_payment_eq: "payment_field f \<Longrightarrow> to_unsigned 8 (parseI16 f) = trip_parseU8 f"
  by (auto simp: payment_field_def parseI16_def trip_parseU8_def to_unsigned_id to_unsigned_def
      split: option.splits)

definition date_field :: "string \<Rightarrow> bool" where
  \<comment> \<open>too short for a date, or digits and separators of the ISO form with every part in range\<close>
  "date_field f \<longleftrightarrow> length f < 19 \<or>
     (list_all (\<lambda>i. is_digit (f ! i)) [0, 1, 2, 3, 5, 6, 8, 9, 11, 12, 14, 15, 17, 18] \<and>
      f ! 4 = CHR ''-'' \<and> f ! 7 = CHR ''-'' \<and> f ! 10 = CHR '' '' \<and> f ! 13 = CHR '':'' \<and> f ! 16 = CHR '':'' \<and>
      1 \<le> two_digits f 5 \<and> two_digits f 5 \<le> 12 \<and> 1 \<le> two_digits f 8 \<and> two_digits f 8 \<le> 31 \<and>
      two_digits f 11 \<le> 23 \<and> two_digits f 14 \<le> 59 \<and> two_digits f 17 \<le> 60)"

lemma trip_date_eq:
  assumes "date_field f"
  shows "trip_parseEpochMs f = parseEpochMsFlexibleUTC f"
proof (cases "length f < 19")
  case True
  then show ?thesis
    by (simp add: trip_parseEpochMs_def parseEpochMsFlexibleUTC_def Let_def
        parseEpochMs_YYYYMMDD_HHMMSS_UTC_def parseEpochMs_YYYYMonDD_HHMMSS_AMPM_UTC_def)
next
  case False
  with assms have d: "list_all (\<lambda>i. is_digit (f ! i)) [0, 1, 2, 3, 5, 6, 8, 9, 11, 12, 14, 15, 17, 18]"
    and s: "f ! 4 = CHR ''-''" "f ! 7 = CHR ''-''" "f ! 10 = CHR '' ''" "f ! 13 = CHR '':''" "f ! 16 = CHR '':''"
    and r: "1 \<le> two_digits f 5" "two_digits f 5 \<le> 12" "1 \<le> two_digits f 8" "two_digits f 8 \<le> 31"
      "two_digits f 11 \<le> 23" "two_digits f 14 \<le> 59" "two_digits f 17 \<le> 60"
    by (simp_all add: date_field_def)
  have two: "trip_to2 f i = two_digits f i \<and> 0 \<le> two_digits f i"
    if "i + 1 < length f" "is_digit (f ! i)" "is_digit (f ! (i + 1))" for i
    using that digit_val_range [OF that(2)] digit_val_range [OF that(3)]
    by (simp add: trip_to2_def two_digits_def)
  have "length f \<ge> 4" using False by simp
  then have "take 4 f = [f ! 0, f ! 1, f ! 2, f ! 3]"
    by (auto simp: numeral_eq_Suc Suc_le_length_iff)
  then have four: "trip_to4 f 0 = digit_val (f ! 0) * 1000 + digit_val (f ! 1) * 100
      + digit_val (f ! 2) * 10 + digit_val (f ! 3)"
    using d False by (simp add: trip_to4_def)
  have am: "parseEpochMs_YYYYMonDD_HHMMSS_AMPM_UTC f = 0"
    using s(1) by (simp add: parseEpochMs_YYYYMonDD_HHMMSS_AMPM_UTC_def)
  have "trip_parseEpochMs f = parseEpochMs_YYYYMMDD_HHMMSS_UTC f"
    using False d s r two [of 5] two [of 8] two [of 11] two [of 14] two [of 17]
    by (simp add: trip_parseEpochMs_def parseEpochMs_YYYYMMDD_HHMMSS_UTC_def four Let_def)
  then show ?thesis by (simp add: parseEpochMsFlexibleUTC_def Let_def am)
qed

section \<open>Headers and rows\<close>

lemma csv_fields_chars: "x \<in> set (csv_fields q f s) \<Longrightarrow> set x \<subseteq> set f \<union> set s"
proof (induction q f s rule: csv_fields.induct)
  case (2 q f c cs)
  then show ?case by (fastforce split: if_splits)
qed simp

lemma fields_chars: "chr_return \<notin> set line \<Longrightarrow> x \<in> set (fields_of line) \<Longrightarrow> chr_return \<notin> set x"
  using csv_fields_chars [of x False "[]" line] by (auto simp: fields_of_def)

lemma fold_is_last_column:
  assumes h: "\<And>c x a. g (h c x a) = (if v x = key then c else g a)"
  shows "g (fold (\<lambda>(i, x). h (int i) x) (enumerate n fs) a) =
    fold (\<lambda>(i, x) c. if v x = key then int i else c) (enumerate n fs) (g a)"
  by (induction fs arbitrary: n a) (simp_all add: h)

lemma partition_columns:
  assumes "initFromHeader h = (True, p)"
  defines "col \<equiv> \<lambda>name. last_column splitHeaderFieldNormalize name (fields_of h)"
  shows "cp_idx p = \<lparr> ci_pickupDatetime = col ''tpep_pickup_datetime'',
     ci_dropoffDatetime = col ''tpep_dropoff_datetime'', ci_tripDistance = col ''trip_distance'',
     ci_paymentType = col ''payment_type'', ci_tipAmount = col ''tip_amount'',
     ci_totalAmount = col ''total_amount'' \<rparr>"
proof -
  obtain q c f out where s: "scan_fields handleHeaderField False 0 [] h empty_index = (q, c, f, out)"
    by (metis prod_cases4)
  have p: "cp_idx p = handleHeaderField c f out"
    using assms(1) by (auto simp: initFromHeader_def s Let_def split: if_splits)
  note defs = handleHeaderField_def applyHeaderFieldToIndex_def
  show ?thesis
    unfolding p scan_fields_all(2) [OF s] col_def last_column_def
    by (rule ColumnIndex.equality)
      (simp_all add: empty_index_def defs
        fold_is_last_column [of ci_pickupDatetime handleHeaderField splitHeaderFieldNormalize "''tpep_pickup_datetime''"]
        fold_is_last_column [of ci_dropoffDatetime handleHeaderField splitHeaderFieldNormalize "''tpep_dropoff_datetime''"]
        fold_is_last_column [of ci_tripDistance handleHeaderField splitHeaderFieldNormalize "''trip_distance''"]
        fold_is_last_column [of ci_paymentType handleHeaderField splitHeaderFieldNormalize "''payment_type''"]
        fold_is_last_column [of ci_tipAmount handleHeaderField splitHeaderFieldNormalize "''tip_amount''"]
        fold_is_last_column [of ci_totalAmount handleHeaderField splitHeaderFieldNormalize "''total_amount''"])
qed

lemma last_column_cong:
  assumes "\<And>x. x \<in> set fs \<Longrightarrow> v x = w x"
  shows "last_column v name fs = last_column w name fs"
proof -
  have "fold (\<lambda>(i, x) c. if v x = name then int i else c) (enumerate n fs) a =
      fold (\<lambda>(i, x) c. if w x = name then int i else c) (enumerate n fs) a" for n a
    using assms by (induction fs arbitrary: n a) simp_all
  then show ?thesis by (simp add: last_column_def)
qed

lemma trip_columns_shared:
  assumes "trip_initFromHeader h = (True, t)" and "chr_return \<notin> set h"
  shows "parser_columns t = map (\<lambda>name. last_column splitHeaderFieldNormalize name (fields_of h)) trip_names"
proof -
  have "last_column trip_splitHeaderFieldNormalize name (fields_of h) =
      last_column splitHeaderFieldNormalize name (fields_of h)" for name
    by (rule last_column_cong, rule trip_header_name_eq, rule fields_chars [OF assms(2)])
  then show ?thesis using trip_initFromHeader_cases(2) [OF assms(1)] by (simp add: header_columns_def)
qed

definition plain_row :: "ColumnIndex \<Rightarrow> string \<Rightarrow> bool" where
  \<comment> \<open>balanced quotes, no carriage return, dates in the ISO form, a payment type of one byte\<close>
  "plain_row idx line \<longleftrightarrow>
     line \<noteq> [] \<and> even (quotes line) \<and> chr_return \<notin> set line \<and>
     field_value date_field True (fields_of line) (ci_pickupDatetime idx) \<and>
     field_value date_field True (fields_of line) (ci_dropoffDatetime idx) \<and>
     field_value payment_field True (fields_of line) (ci_paymentType idx)"

lemma trip_value_eq:
  assumes "chr_return \<notin> set line"
    and "\<And>f. chr_return \<notin> set f \<Longrightarrow> field_value Q True (fields_of line) c \<Longrightarrow> Q f \<Longrightarrow> v f = u (w f)"
    and "field_value Q True (fields_of line) c" and "d = u e"
  shows "trip_value v d (fields_of line) c = u (field_value w e (fields_of line) c)"
proof (cases "0 \<le> c \<and> c < int (length (fields_of line))")
  case True
  then have "fields_of line ! nat c \<in> set (fields_of line)" by (intro nth_mem) linarith
  from fields_chars [OF assms(1) this] trip_field_text_eq [of "fields_of line ! nat c"]
  show ?thesis using assms(2) [OF _ assms(3)] assms(3) True by (simp add: trip_value_def field_value_def)
qed (use assms(4) in \<open>auto simp: trip_value_def field_value_def\<close>)

definition shared_fields :: "TaxiTrip \<Rightarrow> TaxiTrip" where
  \<comment> \<open>the six fields \<open>PartitionCsvParser\<close> reads, the others at their defaults\<close>
  "shared_fields t = empty_trip\<lparr>
     tt_pickupEpochMs := tt_pickupEpochMs t, tt_dropoffEpochMs := tt_dropoffEpochMs t,
     tt_paymentType := tt_paymentType t, tt_tripDistance := tt_tripDistance t,
     tt_tipAmountCents := tt_tipAmountCents t, tt_totalAmountCents := tt_totalAmountCents t\<rparr>"

lemma parsers_agree_on:
  assumes "trip_initFromHeader h = (True, t)" and "initFromHeader h = (True, p)"
    and "chr_return \<notin> set h" and "plain_row (cp_idx p) line"
  shows "fst (parse_trip t line) = fst (parseRow p line)"
    and "shared_fields (snd (parse_trip t line)) = toTaxiTrip (snd (parseRow p line))"
proof -
  let ?fs = "fields_of line"
  let ?t = "trip_of (parser_columns t) ?fs" and ?r = "row_of (cp_idx p) ?fs"
  have cr: "chr_return \<notin> set line" and ne: "line \<noteq> []" and ev: "even (quotes line)"
    using assms(4) by (simp_all add: plain_row_def)
  let ?c = "\<lambda>k. parser_columns t ! k"
  have cols: "?c 1 = ci_pickupDatetime (cp_idx p)" "?c 2 = ci_dropoffDatetime (cp_idx p)"
    "?c 9 = ci_paymentType (cp_idx p)" "?c 4 = ci_tripDistance (cp_idx p)"
    "?c 13 = ci_tipAmount (cp_idx p)" "?c 16 = ci_totalAmount (cp_idx p)"
    unfolding trip_columns_shared [OF assms(1,3)] partition_columns [OF assms(2)]
    by (simp_all add: trip_names_def)
  have plain: "field_value date_field True ?fs (ci_pickupDatetime (cp_idx p))"
    "field_value date_field True ?fs (ci_dropoffDatetime (cp_idx p))"
    "field_value payment_field True ?fs (ci_paymentType (cp_idx p))"
    using assms(4) by (simp_all add: plain_row_def)
  have any: "field_value (\<lambda>_. True) True ?fs c" for c by (simp add: field_value_def)
  have fields: "tt_pickupEpochMs ?t = pr_pickupDatetime ?r" "tt_dropoffEpochMs ?t = pr_dropoffDatetime ?r"
    "tt_paymentType ?t = to_unsigned 8 (pr_paymentType ?r)" "tt_tripDistance ?t = pr_tripDistance ?r"
    "tt_tipAmountCents ?t = pr_tipAmountCents ?r" "tt_totalAmountCents ?t = pr_totalAmountCents ?r"
    unfolding trip_of_def row_of_def TaxiTrip.select_convs ParsedPartitionRow.select_convs cols
    using trip_value_eq [where u = "\<lambda>x. x", OF cr trip_date_eq plain(1) refl]
      trip_value_eq [where u = "\<lambda>x. x", OF cr trip_date_eq plain(2) refl]
      trip_value_eq [where u = "to_unsigned 8" and d = 0 and e = 0, OF cr trip_payment_eq [symmetric] plain(3)]
      trip_value_eq [where u = "\<lambda>x. x", OF cr trip_parseFloat_eq any refl]
      trip_value_eq [where u = "\<lambda>x. x", OF cr trip_money_eq any refl]
    by (simp_all add: to_unsigned_def)
  have ok: "cp_hasHeaderIndex p" "columns_distinct (cp_idx p)"
    using initFromHeader_cases [of h] assms(2) header_ok_distinct by auto
  note parsed = parse_trip_lookup [OF columns_ok_parser [OF assms(1)] ne ev] parseRow_lookup [OF ok ne ev]
  show "fst (parse_trip t line) = fst (parseRow p line)" by (simp add: parsed fields)
  show "shared_fields (snd (parse_trip t line)) = toTaxiTrip (snd (parseRow p line))"
    by (simp add: parsed fields shared_fields_def toTaxiTrip_def)
qed

end
