(* ===== verification/Taxi_Dataset.thy ===== *)
theory Taxi_Dataset
  imports Taxi_Csv Partition_Store
begin

text \<open>
  The stand-alone data set: the trip predicates (\<open>src/basic/src/query\<close>), the buffered line reader
  (\<open>src/basic/src/taxi\<close>) and \<open>TaxiTripDataset\<close> (\<open>src/basic/src/dataset\<close>) with its serial, collecting
  and OpenMP scans.

  A stop flag is a sequence: what its loads return in the order the code makes them; a null pointer
  is the sequence that never stops. An OpenMP loop is a schedule: the iterations of each thread, in
  its order; the reduction adds the partial sums of the threads.
\<close>

section \<open>Predicates\<close>

datatype trip_predicate =
  TruePredicate
| AndPredicate "trip_predicate option list"   \<comment> \<open>shared pointers, which may be null\<close>
| PickupTimeRangePredicate int int
| IntFieldRangePredicate int int "TaxiTrip \<Rightarrow> int"   \<comment> \<open>the accessor with the cast to the value type\<close>
| FloatFieldRangePredicate f32 f32 "TaxiTrip \<Rightarrow> f32"

definition new_PickupTimeRangePredicate :: "int \<Rightarrow> int \<Rightarrow> trip_predicate" where
  "new_PickupTimeRangePredicate startMs endMs =
     (if startMs \<le> endMs then PickupTimeRangePredicate startMs endMs
      else PickupTimeRangePredicate endMs startMs)"

fun and_add :: "trip_predicate option \<Rightarrow> trip_predicate \<Rightarrow> trip_predicate" where
  "and_add p (AndPredicate ps) = AndPredicate (ps @ [p])"
| "and_add p q = q"

definition pickup_range_matches :: "int \<Rightarrow> int \<Rightarrow> TaxiTrip \<Rightarrow> bool" where
  "pickup_range_matches lo hi t \<longleftrightarrow> tt_pickupEpochMs t \<ge> lo \<and> tt_pickupEpochMs t \<le> hi"

definition field_range_matches :: "('v \<Rightarrow> 'v \<Rightarrow> bool) \<Rightarrow> 'v \<Rightarrow> 'v \<Rightarrow> (TaxiTrip \<Rightarrow> 'v) \<Rightarrow> TaxiTrip \<Rightarrow> bool" where
  \<comment> \<open>with the order of the value type\<close>
  "field_range_matches le lo hi acc t = (let v = acc t in le lo v \<and> le v hi)"

fun trip_matches :: "trip_predicate \<Rightarrow> TaxiTrip \<Rightarrow> bool"
and all_match :: "trip_predicate option list \<Rightarrow> TaxiTrip \<Rightarrow> bool" where
  "trip_matches TruePredicate t = True"
| "trip_matches (AndPredicate ps) t = all_match ps t"
| "trip_matches (PickupTimeRangePredicate lo hi) t = pickup_range_matches lo hi t"
| "trip_matches (IntFieldRangePredicate lo hi acc) t = field_range_matches (\<le>) lo hi acc t"
| "trip_matches (FloatFieldRangePredicate lo hi acc) t = field_range_matches f32_le lo hi acc t"
| "all_match [] t = True"
| "all_match (None # ps) t = all_match ps t"
| "all_match (Some p # ps) t = (if \<not> trip_matches p t then False else all_match ps t)"

section \<open>BufferedFileReader\<close>

type_synonym line_reader = "string list option"   \<comment> \<open>open on the lines still to come, or closed\<close>

definition reader_open :: "file_system \<Rightarrow> string \<Rightarrow> line_reader" where
  \<comment> \<open>a directory opens, but no line can be read from it\<close>
  "reader_open fs path =
     (case fs path of
        Some (RegularFile content True) \<Rightarrow> Some (getlines content)
      | Some (Directory _) \<Rightarrow> Some []
      | _ \<Rightarrow> None)"

definition strip_return :: "string \<Rightarrow> string" where
  "strip_return l = (if l \<noteq> [] \<and> last l = chr_return then butlast l else l)"

fun nextLine :: "line_reader \<Rightarrow> string option \<times> line_reader" where
  "nextLine None = (None, None)"
| "nextLine (Some []) = (None, Some [])"
| "nextLine (Some (l # ls)) = (Some (strip_return l), Some ls)"

section \<open>Results\<close>

record DatasetResult =
  dr_rows_scanned :: nat
  dr_rows_matched :: nat
  dr_rows_parse_failed :: nat
  dr_matchedTrips :: "TaxiTrip list option"

definition empty_DatasetResult :: DatasetResult where
  "empty_DatasetResult = \<lparr> dr_rows_scanned = 0, dr_rows_matched = 0, dr_rows_parse_failed = 0,
     dr_matchedTrips = None \<rparr>"

definition add_counts :: "DatasetResult \<Rightarrow> DatasetResult \<Rightarrow> DatasetResult" where
  "add_counts tot r = tot\<lparr>
     dr_rows_scanned := dr_rows_scanned tot + dr_rows_scanned r,
     dr_rows_matched := dr_rows_matched tot + dr_rows_matched r,
     dr_rows_parse_failed := dr_rows_parse_failed tot + dr_rows_parse_failed r\<rparr>"

section \<open>Serial scans\<close>

type_synonym stop_flag = "nat \<Rightarrow> bool"

definition never :: stop_flag where
  "never n = False"

definition scan_row :: "TaxiTripCSVParser \<Rightarrow> trip_predicate \<Rightarrow> string \<Rightarrow> DatasetResult \<Rightarrow> DatasetResult" where
  \<comment> \<open>one line that is not empty\<close>
  "scan_row p pred line res =
     (let res = res\<lparr>dr_rows_scanned := dr_rows_scanned res + 1\<rparr>
      in case parse_trip p line of (ok, trip) \<Rightarrow>
        if \<not> ok then res\<lparr>dr_rows_parse_failed := dr_rows_parse_failed res + 1\<rparr>
        else if trip_matches pred trip then res\<lparr>dr_rows_matched := dr_rows_matched res + 1\<rparr>
        else res)"

function (sequential) scan_rows ::
  "stop_flag \<Rightarrow> nat \<Rightarrow> TaxiTripCSVParser \<Rightarrow> trip_predicate \<Rightarrow> line_reader \<Rightarrow> DatasetResult \<Rightarrow> DatasetResult \<times> nat"
where
  "scan_rows stop n p pred reader res =
     (if stop n then (res, n + 1)
      else case nextLine reader of
        (None, _) \<Rightarrow> (res, n + 1)
      | (Some line, reader) \<Rightarrow>
          if line = [] then scan_rows stop (n + 1) p pred reader res
          else scan_rows stop (n + 1) p pred reader (scan_row p pred line res))"
  by pat_completeness auto

definition reader_left :: "line_reader \<Rightarrow> nat" where
  "reader_left r = (case r of None \<Rightarrow> 0 | Some ls \<Rightarrow> length ls)"

lemma nextLine_left: "nextLine r = (Some l, r') \<Longrightarrow> reader_left r' < reader_left r"
  by (cases r rule: nextLine.cases) (auto simp: reader_left_def)

termination scan_rows
  by (relation "measure (\<lambda>(stop, n, p, pred, reader, res). reader_left reader)") (auto dest!: sym [of "(_, _)"] nextLine_left)

declare scan_rows.simps [simp del]

definition queryFile ::
  "file_system \<Rightarrow> stop_flag \<Rightarrow> nat \<Rightarrow> string \<Rightarrow> trip_predicate \<Rightarrow> TaxiTripCSVParser \<Rightarrow>
     DatasetResult \<times> nat \<times> TaxiTripCSVParser"
where
  "queryFile fs stop n path pred p =
     (if stop n then (empty_DatasetResult, n + 1, p)
      else case reader_open fs path of
        None \<Rightarrow> (empty_DatasetResult, n + 1, p)
      | Some ls \<Rightarrow>
          (case nextLine (Some ls) of
             (None, _) \<Rightarrow> (empty_DatasetResult, n + 1, p)
           | (Some header, reader) \<Rightarrow>
               let p = snd (trip_initFromHeader header)
               in case scan_rows stop (n + 1) p pred reader empty_DatasetResult of (res, n) \<Rightarrow> (res, n, p)))"

fun queryFiles_loop ::
  "file_system \<Rightarrow> stop_flag \<Rightarrow> nat \<Rightarrow> trip_predicate \<Rightarrow> TaxiTripCSVParser \<Rightarrow> string list \<Rightarrow> DatasetResult \<Rightarrow> DatasetResult"
where
  "queryFiles_loop fs stop n pred p [] tot = tot"
| "queryFiles_loop fs stop n pred p (path # paths) tot =
     (if stop n then tot
      else if fs path = None \<or> \<not> is_regular fs path then queryFiles_loop fs stop (n + 1) pred p paths tot
      else case queryFile fs stop (n + 1) path pred p of (r, n, p) \<Rightarrow>
        queryFiles_loop fs stop n pred p paths (add_counts tot r))"

definition queryFiles :: "file_system \<Rightarrow> stop_flag \<Rightarrow> string list \<Rightarrow> trip_predicate \<Rightarrow> DatasetResult" where
  "queryFiles fs stop csv_files pred =
     queryFiles_loop fs stop 0 pred new_trip_parser csv_files empty_DatasetResult"

definition dir_entries :: "file_system \<Rightarrow> string \<Rightarrow> string list \<Rightarrow> string list" where
  \<comment> \<open>the regular entries of a directory with extension \<open>.csv\<close>, in the order of the iterator\<close>
  "dir_entries fs dir names =
     filter (\<lambda>p. is_regular fs p \<and> path_extension p = ''.csv'') (map (path_append dir) names)"

definition queryDir :: "file_system \<Rightarrow> stop_flag \<Rightarrow> string \<Rightarrow> trip_predicate \<Rightarrow> DatasetResult" where
  "queryDir fs stop dir pred =
     (case fs dir of
        Some (Directory names) \<Rightarrow> queryFiles fs stop (sort (dir_entries fs dir names)) pred
      | _ \<Rightarrow> empty_DatasetResult)"

section \<open>Collecting matches\<close>

definition collected :: "DatasetResult \<Rightarrow> TaxiTrip list" where
  "collected r = (case dr_matchedTrips r of None \<Rightarrow> [] | Some ts \<Rightarrow> ts)"

definition full :: "nat \<Rightarrow> DatasetResult \<Rightarrow> bool" where
  "full maxMatches r \<longleftrightarrow> 0 < maxMatches \<and> dr_matchedTrips r \<noteq> None \<and> length (collected r) \<ge> maxMatches"

definition collect_row ::
  "nat \<Rightarrow> TaxiTripCSVParser \<Rightarrow> trip_predicate \<Rightarrow> string \<Rightarrow> DatasetResult \<Rightarrow> DatasetResult \<times> bool"
where
  \<comment> \<open>the sums after a line that is not empty, and whether the loop breaks\<close>
  "collect_row maxMatches p pred line tot =
     (let tot = tot\<lparr>dr_rows_scanned := dr_rows_scanned tot + 1\<rparr>
      in case parse_trip p line of (ok, trip) \<Rightarrow>
        if \<not> ok then (tot\<lparr>dr_rows_parse_failed := dr_rows_parse_failed tot + 1\<rparr>, False)
        else if trip_matches pred trip then
          let tot = tot\<lparr>dr_rows_matched := dr_rows_matched tot + 1\<rparr>;
              tot = (if 0 < maxMatches \<and> dr_matchedTrips tot \<noteq> None \<and> length (collected tot) < maxMatches
                       then tot\<lparr>dr_matchedTrips := Some (collected tot @ [trip])\<rparr> else tot)
          in (tot, full maxMatches tot)
        else (tot, False))"

fun collect_rows ::
  "nat \<Rightarrow> stop_flag \<Rightarrow> nat \<Rightarrow> TaxiTripCSVParser \<Rightarrow> trip_predicate \<Rightarrow> string list \<Rightarrow> DatasetResult \<Rightarrow> DatasetResult \<times> nat"
where
  \<comment> \<open>over the lines the reader still has; here a line is read before the flag is loaded\<close>
  "collect_rows maxMatches stop n p pred [] tot = (tot, n)"
| "collect_rows maxMatches stop n p pred (l # ls) tot =
     (let line = strip_return l in
      if stop n then (tot, n + 1)
      else if line = [] then collect_rows maxMatches stop (n + 1) p pred ls tot
      else case collect_row maxMatches p pred line tot of (tot, done) \<Rightarrow>
        if done then (tot, n + 1) else collect_rows maxMatches stop (n + 1) p pred ls tot)"

fun collect_files ::
  "file_system \<Rightarrow> nat \<Rightarrow> stop_flag \<Rightarrow> nat \<Rightarrow> trip_predicate \<Rightarrow> string list \<Rightarrow> DatasetResult \<Rightarrow> DatasetResult"
where
  "collect_files fs maxMatches stop n pred [] tot = tot"
| "collect_files fs maxMatches stop n pred (path # paths) tot =
     (if stop n then tot
      else if full maxMatches tot then tot
      else if fs path = None \<or> \<not> is_regular fs path then collect_files fs maxMatches stop (n + 1) pred paths tot
      else case reader_open fs path of
        None \<Rightarrow> collect_files fs maxMatches stop (n + 1) pred paths tot
      | Some [] \<Rightarrow> collect_files fs maxMatches stop (n + 1) pred paths tot
      | Some (header # ls) \<Rightarrow>
          (case collect_rows maxMatches stop (n + 1) (snd (trip_initFromHeader (strip_return header))) pred ls tot of
             (tot, n) \<Rightarrow> collect_files fs maxMatches stop n pred paths tot))"

definition queryFilesCollect ::
  "file_system \<Rightarrow> stop_flag \<Rightarrow> string list \<Rightarrow> trip_predicate \<Rightarrow> nat \<Rightarrow> DatasetResult"
where
  "queryFilesCollect fs stop csv_files pred maxMatches =
     (let tot = (if 0 < maxMatches then empty_DatasetResult\<lparr>dr_matchedTrips := Some []\<rparr> else empty_DatasetResult)
      in collect_files fs maxMatches stop 0 pred csv_files tot)"

definition queryDirCollect ::
  "file_system \<Rightarrow> stop_flag \<Rightarrow> string \<Rightarrow> trip_predicate \<Rightarrow> nat \<Rightarrow> DatasetResult"
where
  "queryDirCollect fs stop dir pred maxMatches =
     (case fs dir of
        Some (Directory names) \<Rightarrow> queryFilesCollect fs stop (sort (dir_entries fs dir names)) pred maxMatches
      | _ \<Rightarrow> empty_DatasetResult)"

section \<open>OpenMP scans\<close>

type_synonym schedule = "nat list list"   \<comment> \<open>the iterations of each thread of the team\<close>

definition schedule_ok :: "schedule \<Rightarrow> nat \<Rightarrow> bool" where
  \<comment> \<open>every iteration below \<open>n\<close> runs once, on some thread\<close>
  "schedule_ok sched n \<longleftrightarrow> distinct (concat sched) \<and> set (concat sched) = {..<n}"

definition omp_sum :: "(nat \<Rightarrow> DatasetResult \<Rightarrow> DatasetResult) \<Rightarrow> schedule \<Rightarrow> DatasetResult" where
  \<comment> \<open>a parallel loop with a reduction: each thread accumulates from zero, then the sums are added\<close>
  "omp_sum body sched =
     fold (\<lambda>is tot. add_counts tot (fold body is empty_DatasetResult)) sched empty_DatasetResult"

definition parallel_file ::
  "file_system \<Rightarrow> (nat \<Rightarrow> stop_flag) \<Rightarrow> trip_predicate \<Rightarrow> string list \<Rightarrow> nat \<Rightarrow> DatasetResult \<Rightarrow> DatasetResult"
where
  \<comment> \<open>iteration \<open>i\<close>, with the loads of the flag its thread makes meanwhile\<close>
  "parallel_file fs stop pred csv_files i tot =
     (if stop i 0 then tot
      else add_counts tot (fst (queryFile fs (stop i) 1 (csv_files ! i) pred new_trip_parser)))"

definition queryFilesParallel ::
  "file_system \<Rightarrow> (nat \<Rightarrow> stop_flag) \<Rightarrow> string list \<Rightarrow> trip_predicate \<Rightarrow> schedule \<Rightarrow> DatasetResult"
where
  "queryFilesParallel fs stop csv_files pred sched =
     (if csv_files = [] then empty_DatasetResult
      else omp_sum (parallel_file fs stop pred csv_files) sched)"

definition queryDirParallel ::
  "file_system \<Rightarrow> (nat \<Rightarrow> stop_flag) \<Rightarrow> string \<Rightarrow> trip_predicate \<Rightarrow> schedule \<Rightarrow> DatasetResult"
where
  "queryDirParallel fs stop dir pred sched =
     (case fs dir of
        Some (Directory names) \<Rightarrow> queryFilesParallel fs stop (sort (dir_entries fs dir names)) pred sched
      | _ \<Rightarrow> empty_DatasetResult)"

fun fill_batch :: "nat \<Rightarrow> string list \<Rightarrow> string list \<Rightarrow> string list \<times> string list" where
  \<comment> \<open>the \<open>single\<close> block: reads at most so many lines and keeps those that are not empty\<close>
  "fill_batch 0 ls batch = (batch, ls)"
| "fill_batch (Suc k) [] batch = (batch, [])"
| "fill_batch (Suc k) (l # ls) batch =
     (if strip_return l = [] then fill_batch k ls batch
      else fill_batch k ls (batch @ [strip_return l]))"

lemma fill_batch_rest: "snd (fill_batch k ls batch) = drop k ls"
  by (induction k ls batch rule: fill_batch.induct) simp_all

function batch_loop ::
  "nat \<Rightarrow> stop_flag \<Rightarrow> (nat \<Rightarrow> nat \<Rightarrow> schedule) \<Rightarrow> nat \<Rightarrow> TaxiTripCSVParser \<Rightarrow> trip_predicate \<Rightarrow>
     string list \<Rightarrow> DatasetResult \<Rightarrow> DatasetResult"
where
  \<comment> \<open>round \<open>k\<close> of the team; its threads see one value of the stop flag in a round, and each has its
      own parser, made from the same header\<close>
  "batch_loop batchSize stop sched k p pred ls tot =
     (if batchSize = 0 \<or> stop k then tot
      else case fill_batch batchSize ls [] of (batch, rest) \<Rightarrow>
        if batch = [] then tot
        else batch_loop batchSize stop sched (k + 1) p pred rest
               (add_counts tot (omp_sum (\<lambda>i. scan_row p pred (batch ! i)) (sched k (length batch)))))"
  by pat_completeness auto

lemma fill_batch_Nil: "fill_batch k [] batch = (batch, [])"
  by (cases k) simp_all

termination batch_loop
proof (relation "measure (\<lambda>(b, stop, sched, k, p, pred, ls, tot). length ls)", simp, clarsimp)
  fix b ls batch rest
  assume "0 < b" and f: "(batch, rest) = fill_batch b ls []" and "batch \<noteq> []"
  then have "rest = drop b ls" using fill_batch_rest [of b ls "[]"] by (metis snd_conv)
  moreover have "ls \<noteq> []" using f \<open>batch \<noteq> []\<close> by (auto simp: fill_batch_Nil)
  ultimately show "length rest < length ls" using \<open>0 < b\<close> by simp
qed

declare batch_loop.simps [simp del]

definition queryFileBatchParallelOMP ::
  "file_system \<Rightarrow> stop_flag \<Rightarrow> string \<Rightarrow> trip_predicate \<Rightarrow> nat \<Rightarrow> (nat \<Rightarrow> nat \<Rightarrow> schedule) \<Rightarrow> DatasetResult"
where
  "queryFileBatchParallelOMP fs stop path pred batchSize sched =
     (if stop 0 then empty_DatasetResult
      else let batchSize = (if batchSize = 0 then 50000 else batchSize)
      in case reader_open fs path of
        None \<Rightarrow> empty_DatasetResult
      | Some [] \<Rightarrow> empty_DatasetResult
      | Some (header # ls) \<Rightarrow>
          batch_loop batchSize stop sched 1 (snd (trip_initFromHeader (strip_return header))) pred ls
            empty_DatasetResult)"

end
