(* ===== verification/Taxi_Scans.thy ===== *)
theory Taxi_Scans
  imports Taxi_Dataset "HOL-Library.Multiset"
begin

text \<open>
  What the scans of \<open>TaxiTripDataset\<close> compute: the counts of the data lines of the files. The serial
  scan visits them in file order, the parallel scans sum them over any schedule, the collecting scan
  stops behind the match that fills its bound.
\<close>

section \<open>Data lines and their counts\<close>

type_synonym data_line = "TaxiTripCSVParser \<times> string"

definition data_lines :: "TaxiTripCSVParser \<Rightarrow> string list \<Rightarrow> data_line list" where
  "data_lines p ls = map (Pair p) (filter (\<lambda>l. l \<noteq> []) (map strip_return ls))"

definition file_data :: "file_system \<Rightarrow> string \<Rightarrow> data_line list" where
  "file_data fs path =
     (case reader_open fs path of
        Some (header # ls) \<Rightarrow> data_lines (snd (trip_initFromHeader (strip_return header))) ls
      | _ \<Rightarrow> [])"

definition files_data :: "file_system \<Rightarrow> string list \<Rightarrow> data_line list" where
  "files_data fs paths = concat (map (file_data fs) (filter (is_regular fs) paths))"

definition line_parses :: "data_line \<Rightarrow> bool" where
  "line_parses r = fst (parse_trip (fst r) (snd r))"

definition line_trip :: "trip_predicate \<Rightarrow> data_line \<Rightarrow> TaxiTrip option" where
  "line_trip pred r =
     (case parse_trip (fst r) (snd r) of (ok, t) \<Rightarrow> if ok \<and> trip_matches pred t then Some t else None)"

definition counts_of :: "trip_predicate \<Rightarrow> data_line list \<Rightarrow> DatasetResult" where
  "counts_of pred rows = \<lparr> dr_rows_scanned = length rows,
     dr_rows_matched = length (List.map_filter (line_trip pred) rows),
     dr_rows_parse_failed = length (filter (\<lambda>r. \<not> line_parses r) rows), dr_matchedTrips = None \<rparr>"

lemma add_counts_sel [simp]:
  "dr_rows_scanned (add_counts a b) = dr_rows_scanned a + dr_rows_scanned b"
  "dr_rows_matched (add_counts a b) = dr_rows_matched a + dr_rows_matched b"
  "dr_rows_parse_failed (add_counts a b) = dr_rows_parse_failed a + dr_rows_parse_failed b"
  "dr_matchedTrips (add_counts a b) = dr_matchedTrips a"
  by (simp_all add: add_counts_def)

lemma add_counts_assoc: "add_counts (add_counts a b) c = add_counts a (add_counts b c)"
  by (rule DatasetResult.equality) simp_all

lemma map_filter_append: "List.map_filter f (xs @ ys) = List.map_filter f xs @ List.map_filter f ys"
  by (induction xs) (simp_all add: List.map_filter_simps split: option.splits)

lemma counts_append: "add_counts (counts_of pred xs) (counts_of pred ys) = counts_of pred (xs @ ys)"
  by (rule DatasetResult.equality) (simp_all add: counts_of_def map_filter_append)

lemma counts_empty [simp]: "counts_of pred [] = empty_DatasetResult" "add_counts r empty_DatasetResult = r"
  by (simp_all add: counts_of_def empty_DatasetResult_def List.map_filter_simps add_counts_def)

lemma add_counts_from_empty [simp]: "add_counts empty_DatasetResult (counts_of pred xs) = counts_of pred xs"
  using counts_append [of pred "[]" xs] by simp

lemma add_counts_append:
  "add_counts (add_counts r (counts_of pred xs)) (counts_of pred ys) = add_counts r (counts_of pred (xs @ ys))"
  by (simp add: add_counts_assoc counts_append)

lemma scan_row_counts: "scan_row p pred line r = add_counts r (counts_of pred [(p, line)])"
  by (rule DatasetResult.equality)
    (auto simp: scan_row_def counts_of_def line_trip_def line_parses_def List.map_filter_simps Let_def
      split: prod.splits)

lemma data_lines_simps [simp]:
  "data_lines p [] = []"
  "data_lines p (l # ls) = (if strip_return l = [] then data_lines p ls else (p, strip_return l) # data_lines p ls)"
  by (simp_all add: data_lines_def)

lemma data_lines_append: "data_lines p (xs @ ys) = data_lines p xs @ data_lines p ys"
  by (simp add: data_lines_def)

section \<open>The serial scan\<close>

lemma scan_rows_never:
  "fst (scan_rows never n p pred (Some ls) r) = add_counts r (counts_of pred (data_lines p ls))"
proof (induction ls arbitrary: n r)
  case Nil
  show ?case by (subst scan_rows.simps) (simp add: never_def)
next
  case (Cons l ls)
  show ?case
    by (subst scan_rows.simps)
      (simp add: never_def [of n] Cons.IH scan_row_counts add_counts_append)
qed

lemma queryFile_never: "fst (queryFile fs never n path pred p) = counts_of pred (file_data fs path)"
proof (cases "reader_open fs path")
  case (Some ls)
  show ?thesis
  proof (cases ls)
    case (Cons h rest)
    let ?p = "snd (trip_initFromHeader (strip_return h))"
    obtain q m where q: "scan_rows never (n + 1) ?p pred (Some rest) empty_DatasetResult = (q, m)"
      by (metis prod.exhaust)
    then have "q = counts_of pred (data_lines ?p rest)" using scan_rows_never [of "n + 1" ?p] by (metis fst_conv add_counts_from_empty)
    then show ?thesis using Some Cons q by (simp add: queryFile_def never_def [of n] file_data_def Let_def)
  qed (use Some in \<open>simp add: queryFile_def never_def file_data_def\<close>)
qed (simp add: queryFile_def never_def file_data_def)

lemma queryFiles_loop_never:
  "queryFiles_loop fs never n pred p paths r = add_counts r (counts_of pred (files_data fs paths))"
proof (induction paths arbitrary: n p r)
  case (Cons path paths)
  show ?case
  proof (cases "is_regular fs path")
    case True
    then obtain y where "fs path = Some y" by (auto simp: is_regular_def split: option.splits)
    obtain q m p' where f: "queryFile fs never (n + 1) path pred p = (q, m, p')" by (metis prod_cases3)
    then have "q = counts_of pred (file_data fs path)" using queryFile_never by (metis fst_conv)
    then show ?thesis using True \<open>fs path = Some y\<close> f
      by (simp add: never_def [of n] Cons.IH add_counts_append) (simp add: files_data_def)
  qed (simp add: never_def [of n] Cons.IH, simp add: files_data_def)
qed (simp add: files_data_def)

lemma queryFiles_never: "queryFiles fs never paths pred = counts_of pred (files_data fs paths)"
  by (simp add: queryFiles_def queryFiles_loop_never)

section \<open>Schedules\<close>

lemma fold_counts:
  assumes "\<And>i r. i \<in> set xs \<Longrightarrow> body i r = add_counts r (counts_of pred (rows i))"
  shows "fold body xs r = add_counts r (counts_of pred (concat (map rows xs)))"
  using assms by (induction xs arbitrary: r) (simp_all add: add_counts_append)

lemma counts_mset:
  assumes "mset xs = mset ys"
  shows "counts_of pred xs = counts_of pred ys"
proof -
  have len: "length (List.map_filter f zs) = size (filter_mset (\<lambda>z. f z \<noteq> None) (mset zs))"
    for f :: "data_line \<Rightarrow> TaxiTrip option" and zs
    by (induction zs) (auto simp: List.map_filter_simps split: option.splits)
  have fil: "length (filter P zs) = size (filter_mset P (mset zs))" for P :: "data_line \<Rightarrow> bool" and zs
    by (metis mset_filter size_mset)
  have "length xs = length ys" using assms by (metis size_mset)
  then show ?thesis unfolding counts_of_def len fil assms by simp
qed

lemma mset_concat_map:
  assumes "mset xs = mset ys"
  shows "mset (concat (map f xs)) = mset (concat (map f ys))"
proof -
  have "mset (concat (map f zs)) = sum_mset (image_mset (\<lambda>z. mset (f z)) (mset zs))" for zs
    by (induction zs) simp_all
  then show ?thesis using assms by simp
qed

lemma schedule_mset: "schedule_ok sched n \<Longrightarrow> mset (concat sched) = mset [0..<n]"
  using set_eq_iff_mset_eq_distinct [of "concat sched" "[0..<n]"]
  by (simp add: schedule_ok_def atLeast0LessThan del: set_concat mset_upt)

lemma omp_sum_counts:
  assumes "schedule_ok sched n" and "\<And>i r. i < n \<Longrightarrow> body i r = add_counts r (counts_of pred (rows i))"
  shows "omp_sum body sched = counts_of pred (concat (map rows [0..<n]))"
proof -
  have thread: "fold body xs empty_DatasetResult = counts_of pred (concat (map rows xs))"
    if "xs \<in> set sched" for xs
  proof -
    have "i < n" if "i \<in> set xs" for i
      using assms(1) that \<open>xs \<in> set sched\<close> by (auto simp: schedule_ok_def)
    then show ?thesis using fold_counts [of xs body pred rows] assms(2) by simp
  qed
  have "fold (\<lambda>is tot. add_counts tot (fold body is empty_DatasetResult)) ts r =
      add_counts r (counts_of pred (concat (map rows (concat ts))))" if "set ts \<subseteq> set sched" for ts r
    using that by (induction ts arbitrary: r) (simp_all add: thread add_counts_append)
  then have "omp_sum body sched = counts_of pred (concat (map rows (concat sched)))"
    by (simp add: omp_sum_def)
  also have "\<dots> = counts_of pred (concat (map rows [0..<n]))"
    by (intro counts_mset mset_concat_map schedule_mset assms(1))
  finally show ?thesis .
qed

section \<open>The parallel scans\<close>

lemma file_data_irregular: "\<not> is_regular fs path \<Longrightarrow> file_data fs path = []"
  by (auto simp: is_regular_def file_data_def reader_open_def split: option.splits fs_node.splits)

lemma files_data_all: "files_data fs paths = concat (map (file_data fs) paths)"
  by (induction paths) (simp_all add: files_data_def file_data_irregular)

lemma queryFilesParallel_never:
  assumes "schedule_ok sched (length paths)"
  shows "queryFilesParallel fs (\<lambda>_. never) paths pred sched = counts_of pred (files_data fs paths)"
proof (cases "paths = []")
  case False
  have "parallel_file fs (\<lambda>_. never) pred paths i r = add_counts r (counts_of pred (file_data fs (paths ! i)))" for i r
    by (simp add: parallel_file_def queryFile_never) (simp add: never_def)
  from omp_sum_counts [OF assms this]
  have "omp_sum (parallel_file fs (\<lambda>_. never) pred paths) sched =
      counts_of pred (concat (map (file_data fs) (map ((!) paths) [0..<length paths])))"
    by (simp add: comp_def)
  then show ?thesis using False by (simp only: map_nth files_data_all queryFilesParallel_def if_False)
qed (simp add: queryFilesParallel_def files_data_def)

fun batches_read :: "nat \<Rightarrow> string list \<Rightarrow> string list" where
  \<comment> \<open>the lines of the batches before the first one with nothing but empty lines\<close>
  "batches_read b [] = []"
| "batches_read b (l # ls) =
     (if b = 0 \<or> list_all (\<lambda>x. strip_return x = []) (take b (l # ls)) then []
      else take b (l # ls) @ batches_read b (drop (b - 1) ls))"

lemma fill_batch_lines: "fst (fill_batch k ls batch) = batch @ map snd (data_lines p (take k ls))"
  by (induction k ls batch rule: fill_batch.induct) simp_all

lemma data_lines_pairs: "map (\<lambda>x. (p, x)) (map snd (data_lines p ls)) = data_lines p ls"
  by (simp add: data_lines_def)

lemma data_lines_Nil: "data_lines p ls = [] \<longleftrightarrow> list_all (\<lambda>x. strip_return x = []) ls"
  by (induction ls) simp_all

lemma batch_loop_never:
  assumes sched: "\<And>k n. schedule_ok (sched k n) n" and b: "0 < b"
  shows "batch_loop b never sched k p pred ls r = add_counts r (counts_of pred (data_lines p (batches_read b ls)))"
  using b
proof (induction b ls arbitrary: k r rule: batches_read.induct)
  case (1 b)
  then show ?case by (subst batch_loop.simps) (simp add: fill_batch_Nil)
next
  case (2 b l ls)
  let ?w = "take b (l # ls)"
  obtain batch rest where f: "fill_batch b (l # ls) [] = (batch, rest)" by (metis prod.exhaust)
  have batch: "batch = map snd (data_lines p ?w)" using fill_batch_lines [of b "l # ls" "[]" p] f by simp
  have rest: "rest = drop (b - 1) ls" using fill_batch_rest [of b "l # ls" "[]"] f 2(2) by (cases b) simp_all
  show ?case
  proof (cases "list_all (\<lambda>x. strip_return x = []) ?w")
    case True
    then have "batch = []" using batch data_lines_Nil [of p ?w] by simp
    then show ?thesis using f True by (subst batch_loop.simps) simp
  next
    case False
    have "omp_sum (\<lambda>i. scan_row p pred (batch ! i)) (sched k (length batch)) =
        counts_of pred (concat (map (\<lambda>i. [(p, batch ! i)]) [0..<length batch]))"
      by (rule omp_sum_counts [OF sched]) (rule scan_row_counts)
    also have "concat (map (\<lambda>i. [(p, batch ! i)]) [0..<length batch]) = map (\<lambda>x. (p, x)) (map ((!) batch) [0..<length batch])"
      by (simp add: comp_def concat_map_singleton)
    also have "\<dots> = data_lines p ?w" by (simp only: map_nth batch data_lines_pairs)
    finally have sum: "omp_sum (\<lambda>i. scan_row p pred (batch ! i)) (sched k (length batch)) = counts_of pred (data_lines p ?w)" .
    have "batch \<noteq> []" using False batch data_lines_Nil [of p ?w] by simp
    have step: "\<not> (b = 0 \<or> list_all (\<lambda>x. strip_return x = []) ?w)" using False 2(2) by simp
    have "batch_loop b never sched k p pred (l # ls) r =
        batch_loop b never sched (k + 1) p pred rest (add_counts r (counts_of pred (data_lines p ?w)))"
      by (subst batch_loop.simps) (use 2(2) \<open>batch \<noteq> []\<close> in \<open>simp add: f never_def [of k] sum\<close>)
    also have "\<dots> = add_counts r (counts_of pred (data_lines p ?w @ data_lines p (batches_read b rest)))"
      unfolding rest 2(1) [OF step 2(2)] by (rule add_counts_append)
    also have "data_lines p ?w @ data_lines p (batches_read b rest) = data_lines p (batches_read b (l # ls))"
      unfolding batches_read.simps(2) if_not_P [OF step] data_lines_append rest ..
    finally show ?thesis .
  qed
qed

definition schedules_ok :: "(nat \<Rightarrow> nat \<Rightarrow> schedule) \<Rightarrow> bool" where
  "schedules_ok sched \<longleftrightarrow> (\<forall>k n. schedule_ok (sched k n) n)"

lemma batch_query_never:
  assumes "schedules_ok sched" and "fs path = Some (RegularFile content True)"
    and "getlines content = header # ls" and "0 < b"
  shows "queryFileBatchParallelOMP fs never path pred b sched =
    counts_of pred (data_lines (snd (trip_initFromHeader (strip_return header))) (batches_read b ls))"
  using assms(2,3,4) batch_loop_never [of sched b] assms(1)
  by (simp add: queryFileBatchParallelOMP_def never_def [of 0] reader_open_def schedules_ok_def)

lemma batches_read_all:
  \<comment> \<open>without a run of so many empty lines every line that counts is read\<close>
  assumes "\<And>k. k + b \<le> length ls \<Longrightarrow> \<not> list_all (\<lambda>x. strip_return x = []) (take b (drop k ls))" and "0 < b"
  shows "data_lines p (batches_read b ls) = data_lines p ls"
  using assms
proof (induction b ls rule: batches_read.induct)
  case (2 b l ls)
  let ?w = "take b (l # ls)"
  have split: "l # ls = ?w @ drop (b - 1) ls" using 2(3) by (cases b) simp_all
  show ?case
  proof (cases "list_all (\<lambda>x. strip_return x = []) ?w")
    case True
    then have "\<not> b \<le> length (l # ls)" using 2(2) [of 0] by auto
    then have "?w = l # ls" "drop (b - 1) ls = []" by simp_all
    then show ?thesis using True data_lines_Nil [of p "l # ls"] by simp
  next
    case False
    have "\<not> list_all (\<lambda>x. strip_return x = []) (take b (drop k (drop (b - 1) ls)))"
      if "k + b \<le> length (drop (b - 1) ls)" for k
      using 2(2) [of "k + b"] that 2(3) by (cases b) (simp_all add: add.commute)
    then have "data_lines p (batches_read b (drop (b - 1) ls)) = data_lines p (drop (b - 1) ls)"
      using 2(1) False 2(3) by simp
    moreover have "batches_read b (l # ls) = ?w @ batches_read b (drop (b - 1) ls)"
      using False 2(3) by simp
    ultimately show ?thesis by (metis data_lines_append split)
  qed
qed simp

section \<open>The collecting scan\<close>

fun rows_until :: "trip_predicate \<Rightarrow> nat \<Rightarrow> data_line list \<Rightarrow> data_line list" where
  \<comment> \<open>up to and with the match that fills the bound\<close>
  "rows_until pred 0 rows = []"
| "rows_until pred (Suc m) [] = []"
| "rows_until pred (Suc m) (r # rows) =
     r # rows_until pred (if line_trip pred r = None then Suc m else m) rows"

definition collect_of :: "trip_predicate \<Rightarrow> data_line list \<Rightarrow> DatasetResult" where
  "collect_of pred rows = (counts_of pred rows)\<lparr>dr_matchedTrips := Some (List.map_filter (line_trip pred) rows)\<rparr>"

lemma rows_until_trips:
  "List.map_filter (line_trip pred) (rows_until pred m rows) = take m (List.map_filter (line_trip pred) rows)"
  by (induction pred m rows rule: rows_until.induct) (auto simp: List.map_filter_simps split: option.splits)

lemma rows_until_Nil [simp]: "rows_until pred m [] = []"
  by (cases m) simp_all

lemma rows_until_append:
  "rows_until pred m (xs @ ys) =
     rows_until pred m xs @ rows_until pred (m - length (List.map_filter (line_trip pred) xs)) ys"
  by (induction pred m xs rule: rows_until.induct)
    (auto simp: List.map_filter_simps Suc_diff_Suc split: option.splits)

lemma rows_until_prefix: "rows_until pred m rows = take (length (rows_until pred m rows)) rows"
  by (induction pred m rows rule: rows_until.induct) simp_all

lemma full_collect: "full m (collect_of pred rows) \<longleftrightarrow> 0 < m \<and> m \<le> length (List.map_filter (line_trip pred) rows)"
  by (simp add: full_def collect_of_def collected_def)

lemma collect_row_step:
  assumes "length (List.map_filter (line_trip pred) rows) < m"
  shows "collect_row m p pred line (collect_of pred rows) =
    (collect_of pred (rows @ [(p, line)]), full m (collect_of pred (rows @ [(p, line)])))"
proof -
  obtain ok t where parse: "parse_trip p line = (ok, t)" by (metis prod.exhaust)
  have "\<not> full m (collect_of pred rows)" using assms by (simp add: full_collect)
  moreover have "(collect_of pred rows)\<lparr>dr_rows_scanned := x, dr_rows_matched := y, dr_rows_parse_failed := z\<rparr> =
      \<lparr> dr_rows_scanned = x, dr_rows_matched = y, dr_rows_parse_failed = z,
        dr_matchedTrips = Some (List.map_filter (line_trip pred) rows) \<rparr>" for x y z
    by (simp add: collect_of_def counts_of_def)
  ultimately show ?thesis using assms
    by (cases ok; cases "trip_matches pred t")
      (auto simp: collect_row_def parse Let_def full_def collected_def collect_of_def counts_of_def
        map_filter_append line_trip_def line_parses_def List.map_filter_simps)
qed

lemma collect_rows_never:
  assumes "length (List.map_filter (line_trip pred) rows) < m"
  shows "fst (collect_rows m never n p pred ls (collect_of pred rows)) =
    collect_of pred (rows @ rows_until pred (m - length (List.map_filter (line_trip pred) rows)) (data_lines p ls))"
  using assms
proof (induction ls arbitrary: n rows)
  case (Cons l ls)
  let ?k = "length (List.map_filter (line_trip pred) rows)"
  show ?case
  proof (cases "strip_return l = []")
    case True
    then show ?thesis using Cons by (simp add: never_def [of n] Let_def)
  next
    case False
    let ?r = "(p, strip_return l)"
    let ?rows = "rows @ [?r]"
    obtain j where j: "m - ?k = Suc j" using Cons.prems by (metis Suc_diff_Suc)
    have k: "m - length (List.map_filter (line_trip pred) ?rows) = (if line_trip pred ?r = None then Suc j else j)"
      using j by (auto simp: map_filter_append List.map_filter_simps split: option.splits)
    show ?thesis
    proof (cases "full m (collect_of pred ?rows)")
      case True
      then have "m - length (List.map_filter (line_trip pred) ?rows) = 0" by (simp add: full_collect)
      then have "rows_until pred (if line_trip pred ?r = None then Suc j else j) (data_lines p ls) = []"
        unfolding k by simp
      then show ?thesis using False True
        by (simp add: never_def [of n] Let_def collect_row_step [OF Cons.prems] j split del: if_split)
    next
      case notfull: False
      then have "length (List.map_filter (line_trip pred) ?rows) < m"
        using Cons.prems by (simp add: full_collect)
      from Cons.IH [OF this, of "n + 1", unfolded k] show ?thesis using False notfull
        by (simp add: never_def [of n] Let_def collect_row_step [OF Cons.prems] j split del: if_split)
    qed
  qed
qed simp

lemma collect_files_never:
  fixes rows :: "data_line list"
  assumes "0 < m"
  shows "collect_files fs m never n pred paths (collect_of pred (rows_until pred m rows)) =
    collect_of pred (rows_until pred m (rows @ files_data fs paths))"
proof (induction paths arbitrary: n rows)
  case Nil
  then show ?case by (simp add: files_data_def)
next
  case (Cons path paths)
  let ?R = "rows_until pred m rows"
  let ?k = "length (List.map_filter (line_trip pred) rows)"
  have k: "length (List.map_filter (line_trip pred) ?R) = min ?k m"
    by (simp add: rows_until_trips min.commute)
  show ?case
  proof (cases "full m (collect_of pred ?R)")
    case True
    then have "m - ?k = 0" by (simp add: full_collect k)
    then show ?thesis using True by (simp add: never_def [of n] rows_until_append)
  next
    case False
    then have lt: "?k < m" using assms by (simp add: full_collect k)
    have data: "files_data fs (path # paths) = file_data fs path @ files_data fs paths"
      by (simp add: files_data_all)
    show ?thesis
    proof (cases "is_regular fs path \<and> reader_open fs path \<notin> {None, Some []}")
      case True
      then obtain h ls where open_: "reader_open fs path = Some (h # ls)"
        by (metis insertCI list.exhaust option.exhaust)
      from True obtain y where "fs path = Some y" by (auto simp: is_regular_def split: option.splits)
      let ?p = "snd (trip_initFromHeader (strip_return h))"
      have d: "file_data fs path = data_lines ?p ls" by (simp add: file_data_def open_)
      obtain q i where q: "collect_rows m never (n + 1) ?p pred ls (collect_of pred ?R) = (q, i)"
        by (metis prod.exhaust)
      have "length (List.map_filter (line_trip pred) ?R) < m" using lt k by simp
      from collect_rows_never [OF this, of "n + 1" ?p ls] q
      have "q = collect_of pred (rows_until pred m (rows @ file_data fs path))"
        using lt k by (simp add: d rows_until_append)
      then show ?thesis using True False \<open>fs path = Some y\<close> q Cons.IH [of i "rows @ file_data fs path"]
        by (simp add: never_def [of n] open_ data)
    next
      case none: False
      then have "file_data fs path = []"
        using file_data_irregular by (auto simp: file_data_def)
      with none False Cons.IH [of "n + 1" rows] show ?thesis by (auto simp: never_def [of n] data)
    qed
  qed
qed

lemma queryFilesCollect_never:
  assumes "0 < m"
  shows "queryFilesCollect fs never paths pred m = collect_of pred (rows_until pred m (files_data fs paths))"
proof -
  have "rows_until pred m [] = []" by simp
  moreover have "empty_DatasetResult\<lparr>dr_matchedTrips := Some []\<rparr> = collect_of pred []"
    by (simp add: collect_of_def List.map_filter_simps)
  ultimately show ?thesis using assms collect_files_never [OF assms, of fs 0 pred paths "[]"]
    by (simp add: queryFilesCollect_def)
qed

section \<open>Stopped scans\<close>

definition stays_set :: "stop_flag \<Rightarrow> bool" where
  \<comment> \<open>a flag nobody clears\<close>
  "stays_set stop \<longleftrightarrow> (\<forall>m n. m \<le> n \<longrightarrow> stop m \<longrightarrow> stop n)"

lemma scan_rows_stopped:
  assumes "scan_rows stop n p pred (Some ls) r = (q, m)"
  shows "q = add_counts r (counts_of pred (data_lines p ls)) \<or>
    (\<exists>k. q = add_counts r (counts_of pred (take k (data_lines p ls))) \<and> 0 < m \<and> stop (m - 1))"
  using assms
proof (induction ls arbitrary: n r)
  case Nil
  then show ?case by (simp add: scan_rows.simps [of stop n] split: if_splits)
next
  case (Cons l ls)
  show ?case
  proof (cases "stop n")
    case True
    then have "q = r" "m = n + 1" using Cons.prems by (simp_all add: scan_rows.simps [of stop n])
    then have "q = add_counts r (counts_of pred (take 0 (data_lines p (l # ls)))) \<and> 0 < m \<and> stop (m - 1)"
      using True by simp
    then show ?thesis by blast
  next
    case False
    show ?thesis
    proof (cases "strip_return l = []")
      case True
      then have "scan_rows stop (n + 1) p pred (Some ls) r = (q, m)"
        using Cons.prems False by (simp add: scan_rows.simps [of stop n])
      from Cons.IH [OF this] True show ?thesis by simp
    next
      case data: False
      let ?x = "(p, strip_return l)"
      have "scan_rows stop (n + 1) p pred (Some ls) (add_counts r (counts_of pred [?x])) = (q, m)"
        using Cons.prems False data by (simp add: scan_rows.simps [of stop n] scan_row_counts)
      from Cons.IH [OF this] consider
          "q = add_counts r (counts_of pred ([?x] @ data_lines p ls))"
        | k where "q = add_counts r (counts_of pred ([?x] @ take k (data_lines p ls)))" "0 < m" "stop (m - 1)"
        unfolding add_counts_append by blast
      then show ?thesis
      proof cases
        case 1
        then show ?thesis using data by simp
      next
        case 2
        then have "q = add_counts r (counts_of pred (take (Suc k) (data_lines p (l # ls))))"
          using data by simp
        with 2 show ?thesis by blast
      qed
    qed
  qed
qed

lemma queryFile_stopped:
  assumes "queryFile fs stop n path pred p = (q, m, p')"
  shows "q = counts_of pred (file_data fs path) \<or>
    (\<exists>k. q = counts_of pred (take k (file_data fs path)) \<and> 0 < m \<and> stop (m - 1))"
proof (cases "stop n")
  case True
  then have "q = counts_of pred (take 0 (file_data fs path))" "m = n + 1"
    using assms by (simp_all add: queryFile_def)
  with True show ?thesis by (metis diff_add_inverse2 zero_less_Suc Suc_eq_plus1)
next
  case False
  show ?thesis
  proof (cases "reader_open fs path")
    case None
    then show ?thesis using assms False by (simp add: queryFile_def file_data_def)
  next
    case (Some ls)
    show ?thesis
    proof (cases ls)
      case Nil
      then show ?thesis using assms False Some by (simp add: queryFile_def file_data_def)
    next
      case (Cons h rest)
      let ?p = "snd (trip_initFromHeader (strip_return h))"
      have "scan_rows stop (n + 1) ?p pred (Some rest) empty_DatasetResult = (q, m)"
        using assms False Some Cons by (simp add: queryFile_def Let_def split: prod.splits)
      from scan_rows_stopped [OF this] show ?thesis
        using Some Cons by (simp add: file_data_def)
    qed
  qed
qed

lemma queryFiles_loop_stopped:
  assumes "stays_set stop"
  shows "\<exists>k. queryFiles_loop fs stop n pred p paths r = add_counts r (counts_of pred (take k (files_data fs paths)))"
proof (induction paths arbitrary: n p r)
  case Nil
  show ?case by (simp add: files_data_def)
next
  case (Cons path paths)
  have none: "\<exists>k. r = add_counts r (counts_of pred (take k xs))" for r xs by (rule exI [of _ 0]) simp
  have data: "files_data fs (path # paths) = file_data fs path @ files_data fs paths"
    by (simp add: files_data_all)
  show ?case
  proof (cases "stop n \<or> fs path = None \<or> \<not> is_regular fs path")
    case True
    show ?thesis
    proof (cases "stop n")
      case True
      then show ?thesis using none [of r "files_data fs (path # paths)"] by simp
    next
      case go: False
      with True have "fs path = None \<or> \<not> is_regular fs path" by blast
      moreover from this have "file_data fs path = []"
        using file_data_irregular by (auto simp: is_regular_def)
      ultimately show ?thesis using go Cons.IH [of "n + 1" p r] by (auto simp: data)
    qed
  next
    case False
    obtain q m p' where q: "queryFile fs stop (n + 1) path pred p = (q, m, p')" by (metis prod_cases3)
    from False obtain y where "fs path = Some y" by auto
    then have loop: "queryFiles_loop fs stop n pred p (path # paths) r = queryFiles_loop fs stop m pred p' paths (add_counts r q)"
      using False q by simp
    from queryFile_stopped [OF q] show ?thesis
    proof
      assume all: "q = counts_of pred (file_data fs path)"
      obtain k where "queryFiles_loop fs stop m pred p' paths (add_counts r q) =
          add_counts (add_counts r q) (counts_of pred (take k (files_data fs paths)))" using Cons.IH by blast
      then have "queryFiles_loop fs stop n pred p (path # paths) r =
          add_counts r (counts_of pred (take (length (file_data fs path) + k) (files_data fs (path # paths))))"
        unfolding loop all add_counts_append by (simp add: data)
      then show ?thesis by blast
    next
      assume "\<exists>k. q = counts_of pred (take k (file_data fs path)) \<and> 0 < m \<and> stop (m - 1)"
      then obtain k where k: "q = counts_of pred (take k (file_data fs path))" "stop (m - 1)" by blast
      then have "stop m" using assms unfolding stays_set_def by (meson diff_le_self)
      then have "queryFiles_loop fs stop m pred p' paths (add_counts r q) = add_counts r q"
        by (cases paths) simp_all
      then have "queryFiles_loop fs stop n pred p (path # paths) r =
          add_counts r (counts_of pred (take (min k (length (file_data fs path))) (files_data fs (path # paths))))"
        unfolding loop k data by (simp add: min_def)
      then show ?thesis by blast
    qed
  qed
qed

lemma matched_failed_le: "dr_rows_matched (counts_of pred rows) + dr_rows_parse_failed (counts_of pred rows) \<le> dr_rows_scanned (counts_of pred rows)"
  by (induction rows)
    (auto simp: counts_of_def List.map_filter_simps line_trip_def line_parses_def split: option.splits prod.splits if_splits)

end
