(* ===== verification/Taxi_Properties.thy ===== *)
theory Taxi_Properties
  imports Taxi_Agree Taxi_Scans Examples
begin

text \<open>
  What the stand-alone data set promises: its row parser is column lookup and agrees with the
  parser of the distributed engine, and its serial, stopped, collecting and OpenMP scans.
\<close>

section \<open>Examples\<close>

definition ex_trip_header :: string where
  "ex_trip_header = ''VendorID,tpep_pickup_datetime,tpep_dropoff_datetime''"

definition ex_trip_line :: string where
  "ex_trip_line = ''2,2020-01-01 00:28:15,2020-01-01 00:33:03''"

definition ex_taxi_fs :: file_system where
  "ex_taxi_fs p =
     (if p = ''t.csv'' then Some (RegularFile (unlines [ex_trip_header, ex_trip_line, '''', ex_trip_line]) True)
      else None)"

definition ex_both_header :: string where
  "ex_both_header = ''VendorID,'' @ ex_header"

definition ex_both_line :: string where
  "ex_both_line = ''1,2020-01-01 00:28:15,2020-01-01 00:33:03,1.20,1,1.47,11.27''"

lemma ex_trip_accepted: "fst (trip_initFromHeader ex_trip_header)"
  by code_simp

lemma ex_both_accepted: "fst (trip_initFromHeader ex_both_header) \<and> fst (initFromHeader ex_both_header)"
  by code_simp

lemma ex_both_plain: "plain_row (cp_idx (snd (initFromHeader ex_both_header))) ex_both_line"
  by code_simp

lemma ex_both_no_return: "chr_return \<notin> set ex_both_header"
  by code_simp

lemma ex_taxi_lines: "getlines (unlines [ex_trip_header, ex_trip_line, '''', ex_trip_line]) =
    [ex_trip_header, ex_trip_line, '''', ex_trip_line]"
  by code_simp

section \<open>Rows\<close>





section \<open>Scans\<close>

text \<open>
  C35: the OpenMP scan over files is the serial one: for every team and every schedule that runs each
  file once, the reduced counts are those of the serial scan, which counts each non-empty line behind
  the header of every readable regular file once, as matched, as unparsable or as neither.
\<close>

theorem parallel_scan_is_serial:
  assumes "schedule_ok sched (length paths)"
  shows "queryFilesParallel fs (\<lambda>_. never) paths pred sched = queryFiles fs never paths pred \<and>
    queryFiles fs never paths pred = counts_of pred (files_data fs paths) \<and>
    dr_rows_matched (queryFiles fs never paths pred) + dr_rows_parse_failed (queryFiles fs never paths pred) \<le>
      length (files_data fs paths)"
proof -
  have "dr_rows_scanned (counts_of pred (files_data fs paths)) = length (files_data fs paths)"
    by (simp add: counts_of_def)
  then show ?thesis
    using matched_failed_le [of pred "files_data fs paths"]
    by (simp add: queryFilesParallel_never [OF assms] queryFiles_never)
qed

lemma parallel_scan_is_serial_witness:
  "queryFilesParallel ex_taxi_fs (\<lambda>_. never) [''t.csv'', ''missing.csv''] TruePredicate [[1], [0]] =
     queryFiles ex_taxi_fs never [''t.csv'', ''missing.csv''] TruePredicate"
proof -
  have "schedule_ok [[1], [0]] (length [''t.csv'', ''missing.csv''])"
    by (auto simp: schedule_ok_def)
  from parallel_scan_is_serial [OF this] show ?thesis by blast
qed

text \<open>
  A scan that is stopped reports what it has seen: with a stop flag nobody clears, the counts of
  the serial scan are those of the first so many data lines of the files.
\<close>

lemma stopped_scan_prefix:
  assumes "stays_set stop"
  shows "\<exists>k. queryFiles fs stop paths pred = counts_of pred (take k (files_data fs paths))"
  using queryFiles_loop_stopped [OF assms, of fs 0 pred new_trip_parser paths empty_DatasetResult]
  by (simp add: queryFiles_def)

lemma stopped_scan_prefix_witness:
  "\<exists>k. queryFiles ex_taxi_fs (\<lambda>n. 3 \<le> n) [''t.csv''] TruePredicate =
     counts_of TruePredicate (take k (files_data ex_taxi_fs [''t.csv'']))"
  by (rule stopped_scan_prefix) (simp add: stays_set_def)



text \<open>
  The batched OpenMP scan of one file is the serial one as long as the file has no run of as many
  empty lines as a batch is long, whatever the schedules of its rounds.
\<close>

lemma batch_scan_is_serial:
  assumes "schedules_ok sched" and "0 < batchSize"
    and "fs path = Some (RegularFile content True)" and "getlines content = header # ls"
    and "list_all (\<lambda>k. list_ex (\<lambda>l. strip_return l \<noteq> []) (take batchSize (drop k ls))) [0..<length ls + 1 - batchSize]"
  shows "queryFileBatchParallelOMP fs never path pred batchSize sched = queryFiles fs never [path] pred"
proof -
  have "\<not> list_all (\<lambda>x. strip_return x = []) (take batchSize (drop k ls))" if "k + batchSize \<le> length ls" for k
    using assms(5) that by (auto simp: list_all_iff list_ex_iff)
  from batches_read_all [OF this assms(2)] show ?thesis
    by (simp add: batch_query_never [where fs = fs and path = path, OF assms(1,3,4,2)] queryFiles_never files_data_def is_regular_def
        file_data_def reader_open_def assms(3,4))
qed

lemma batch_scan_is_serial_witness:
  "queryFileBatchParallelOMP ex_taxi_fs never ''t.csv'' TruePredicate 2 (\<lambda>k n. [[0..<n]]) =
     queryFiles ex_taxi_fs never [''t.csv''] TruePredicate"
proof (rule batch_scan_is_serial [where fs = ex_taxi_fs and path = "''t.csv''", OF _ _ _ ex_taxi_lines])
  show "schedules_ok (\<lambda>k n. [[0..<n]])" by (simp add: schedules_ok_def schedule_ok_def atLeast0LessThan)
  show "list_all (\<lambda>k. list_ex (\<lambda>l. strip_return l \<noteq> []) (take 2 (drop k [ex_trip_line, '''', ex_trip_line])))
      [0..<length [ex_trip_line, '''', ex_trip_line] + 1 - 2]" by code_simp
qed (simp_all add: ex_taxi_fs_def)

text \<open>With batches of one line an empty line ends the scan: of the two data lines one is counted.\<close>

lemma batch_scan_ends_at_blank:
  "dr_rows_scanned (queryFileBatchParallelOMP ex_taxi_fs never ''t.csv'' TruePredicate 1 (\<lambda>k n. [[0..<n]])) = 1 \<and>
   dr_rows_scanned (queryFiles ex_taxi_fs never [''t.csv''] TruePredicate) = 2"
proof -
  have s: "schedules_ok (\<lambda>k n. [[0..<n]])" by (simp add: schedules_ok_def schedule_ok_def atLeast0LessThan)
  have f: "ex_taxi_fs ''t.csv'' = Some (RegularFile (unlines [ex_trip_header, ex_trip_line, '''', ex_trip_line]) True)"
    by (simp add: ex_taxi_fs_def)
  have n: "strip_return ex_trip_line \<noteq> []" "strip_return [] = []" by code_simp+
  have "dr_rows_scanned (queryFileBatchParallelOMP ex_taxi_fs never ''t.csv'' TruePredicate 1 (\<lambda>k n. [[0..<n]])) = 1"
    using batch_query_never [where fs = ex_taxi_fs and path = "''t.csv''" and b = 1 and pred = TruePredicate, OF s f ex_taxi_lines] n by (simp add: counts_of_def)
  moreover have "dr_rows_scanned (queryFiles ex_taxi_fs never [''t.csv''] TruePredicate) = 2"
    using n by (simp add: queryFiles_never counts_of_def files_data_def is_regular_def f file_data_def reader_open_def ex_taxi_lines)
  ultimately show ?thesis ..
qed

section \<open>Field texts\<close>

text \<open>
  A date whose month is not a number is read as a day of the December before, not as an error; an
  amount without digits before the point is read.
\<close>

lemma malformed_date_accepted:
  "trip_parseEpochMs ''2020-xx-01 00:00:00'' = trip_parseEpochMs ''2019-12-01 00:00:00'' \<and>
   trip_parseEpochMs ''2020-xx-01 00:00:00'' \<noteq> 0 \<and> parseEpochMsFlexibleUTC ''2020-xx-01 00:00:00'' = 0"
  by code_simp

lemma pointed_amount_accepted: "trip_parseMoneyCents ''.50'' = 50"
  by code_simp

end
