(* ===== verification/Record_Parser.thy ===== *)
theory Record_Parser
  imports Cxx_Numbers Csv_Values
begin

text \<open>
  \<open>TaxiTripParser\<close> and \<open>TaxiTripRecord\<close> of implementation A
  (\<open>src/basic/src/apps/implementationA\<close>): splitting a line into columns, the header map, the column
  index, and \<open>parseRow\<close>, which updates a record in place.
\<close>

section \<open>Data\<close>

record TaxiTripRecord =
  tr_vendorId :: int
  tr_pickupDatetime :: int
  tr_dropoffDatetime :: int
  tr_passengerCount :: int
  tr_tripDistance :: f32
  tr_rateCodeId :: int
  tr_storeAndFwdFlag :: char
  tr_puLocationId :: int
  tr_doLocationId :: int
  tr_paymentType :: int
  tr_fareAmount :: int
  tr_extra :: int
  tr_mtaTax :: int
  tr_tipAmount :: int
  tr_tollsAmount :: int
  tr_improvementSurcharge :: int
  tr_totalAmount :: int
  tr_congestionSurcharge :: int

type_synonym col_map = "(string, nat) umap"

record RecordColumns =
  rc_vendorId :: int
  rc_pickupDatetime :: int
  rc_dropoffDatetime :: int
  rc_passengerCount :: int
  rc_tripDistance :: int
  rc_rateCodeId :: int
  rc_storeAndFwdFlag :: int
  rc_puLocationId :: int
  rc_doLocationId :: int
  rc_paymentType :: int
  rc_fareAmount :: int
  rc_extra :: int
  rc_mtaTax :: int
  rc_tipAmount :: int
  rc_tollsAmount :: int
  rc_improvementSurcharge :: int
  rc_totalAmount :: int
  rc_congestionSurcharge :: int

section \<open>Helpers\<close>

definition isNullOrEmpty :: "string \<Rightarrow> bool" where
  "isNullOrEmpty s =
     (let temp = map to_lower s in temp = [] \<or> temp = ''null'' \<or> temp = ''na'' \<or> temp = ''n/a'')"

definition getIf :: "string list \<Rightarrow> int \<Rightarrow> string" where
  "getIf cols idx =
     (if idx < 0 then [] else if nat idx \<ge> length cols then [] else cols ! nat idx)"

definition toInt16 :: "string \<Rightarrow> int" where
  "toInt16 s =
     (if isNullOrEmpty s then 0
      else case stof s of None \<Rightarrow> 0 | Some v \<Rightarrow> f32_to_int16 v)"

definition toInt32 :: "string \<Rightarrow> int" where
  "toInt32 s =
     (if isNullOrEmpty s then 0
      else case stod s of None \<Rightarrow> 0 | Some v \<Rightarrow> to_signed 32 (llround (f64_scale v 100)))"

definition toFloat :: "string \<Rightarrow> f32" where
  "toFloat s =
     (if isNullOrEmpty s then 0 else case stof s of None \<Rightarrow> 0 | Some v \<Rightarrow> v)"

definition month_abbrevs :: "string list" where
  "month_abbrevs = [''jan'', ''feb'', ''mar'', ''apr'', ''may'', ''jun'',
     ''jul'', ''aug'', ''sep'', ''oct'', ''nov'', ''dec'']"

fun month_loop :: "string \<Rightarrow> int \<Rightarrow> string list \<Rightarrow> int" where
  "month_loop m i [] = - 1"
| "month_loop m i (x # xs) = (if m = x then i else month_loop m (i + 1) xs)"

definition monthFromAbbrev :: "string \<Rightarrow> int" where
  "monthFromAbbrev mon = month_loop (map to_lower (take 3 mon)) 0 month_abbrevs"

definition scan_datetime :: "string \<Rightarrow> (int \<times> string \<times> int \<times> int \<times> int \<times> int \<times> string) option" where
  \<comment> \<open>\<open>sscanf\<close> with \<open>%d %7s %d %d:%d:%d %2s\<close>; \<open>None\<close> when fewer than seven items are assigned\<close>
  "scan_datetime s =
     Option.bind (scan_int (c_str s)) (\<lambda>(y, s).
     Option.bind (scan_word 7 s) (\<lambda>(mon, s).
     Option.bind (scan_int s) (\<lambda>(d, s).
     Option.bind (scan_int s) (\<lambda>(hh, s).
     Option.bind (scan_colon s) (\<lambda>s.
     Option.bind (scan_int s) (\<lambda>(mm, s).
     Option.bind (scan_colon s) (\<lambda>s.
     Option.bind (scan_int s) (\<lambda>(ss, s).
     Option.bind (scan_word 2 s) (\<lambda>(ampm, s).
     Some (y, mon, d, hh, mm, ss, ampm))))))))))"

definition parseDateTimeToEpochMsUTC :: "string \<Rightarrow> int" where
  "parseDateTimeToEpochMsUTC s =
     (if s = [] then 0
      else case scan_datetime s of
        None \<Rightarrow> 0
      | Some (y, mon, d, hh, mm, ss, ampm) \<Rightarrow>
          let m = monthFromAbbrev mon in
          if m < 0 then 0
          else let isPM = (hd ampm = CHR ''P'' \<or> hd ampm = CHR ''p'');
                   isAM = (hd ampm = CHR ''A'' \<or> hd ampm = CHR ''a'') in
          if \<not> isAM \<and> \<not> isPM then 0
          else if hh < 1 \<or> hh > 12 then 0
          else let hh = (if hh = 12 then 0 else hh); hh = (if isPM then hh + 12 else hh)
          in epoch_ms \<lparr> tm_year = y - 1900, tm_mon = m, tm_mday = d, tm_hour = hh, tm_min = mm, tm_sec = ss \<rparr>)"

definition getColumn :: "col_map \<Rightarrow> string \<Rightarrow> int" where
  "getColumn headerMap key = (case um_find headerMap key of None \<Rightarrow> - 1 | Some i \<Rightarrow> int i)"

section \<open>Splitting and the header\<close>

fun split_loop :: "bool \<Rightarrow> string \<Rightarrow> string list \<Rightarrow> string \<Rightarrow> string list" where
  "split_loop inQuotes cur res [] = res @ [cur]"
| "split_loop inQuotes cur res (c # cs) =
     (if c = chr_quote then
        (if inQuotes \<and> cs \<noteq> [] \<and> hd cs = chr_quote
         then split_loop inQuotes (cur @ [chr_quote]) res (tl cs)
         else split_loop (\<not> inQuotes) cur res cs)
      else if c = CHR '','' \<and> \<not> inQuotes then split_loop inQuotes [] (res @ [cur]) cs
      else split_loop inQuotes (cur @ [c]) res cs)"

definition splitCSV :: "string \<Rightarrow> string list" where
  "splitCSV line = split_loop False [] [] line"

definition buildHeaderMap :: "string \<Rightarrow> col_map" where
  "buildHeaderMap headerLine =
     fold (\<lambda>(i, col) m. um_put (map to_lower col) i m) (enumerate 0 (splitCSV headerLine)) []"

definition buildColumnIndex :: "col_map \<Rightarrow> RecordColumns" where
  "buildColumnIndex m = \<lparr>
     rc_vendorId = getColumn m ''vendorid'',
     rc_pickupDatetime = getColumn m ''tpep_pickup_datetime'',
     rc_dropoffDatetime = getColumn m ''tpep_dropoff_datetime'',
     rc_passengerCount = getColumn m ''passenger_count'',
     rc_tripDistance = getColumn m ''trip_distance'',
     rc_rateCodeId = getColumn m ''ratecodeid'',
     rc_storeAndFwdFlag = getColumn m ''store_and_fwd_flag'',
     rc_puLocationId = getColumn m ''pulocationid'',
     rc_doLocationId = getColumn m ''dolocationid'',
     rc_paymentType = getColumn m ''payment_type'',
     rc_fareAmount = getColumn m ''fare_amount'',
     rc_extra = getColumn m ''extra'',
     rc_mtaTax = getColumn m ''mta_tax'',
     rc_tipAmount = getColumn m ''tip_amount'',
     rc_tollsAmount = getColumn m ''tolls_amount'',
     rc_improvementSurcharge = getColumn m ''improvement_surcharge'',
     rc_totalAmount = getColumn m ''total_amount'',
     rc_congestionSurcharge = getColumn m ''congestion_surcharge'' \<rparr>"

section \<open>Rows\<close>

definition parse_record :: "string list \<Rightarrow> RecordColumns \<Rightarrow> TaxiTripRecord \<Rightarrow> bool \<times> TaxiTripRecord" where
  "parse_record cols idx r =
     (let r = r\<lparr>tr_vendorId := toInt16 (getIf cols (rc_vendorId idx)),
                tr_pickupDatetime := parseDateTimeToEpochMsUTC (getIf cols (rc_pickupDatetime idx)),
                tr_dropoffDatetime := parseDateTimeToEpochMsUTC (getIf cols (rc_dropoffDatetime idx)),
                tr_passengerCount := toInt16 (getIf cols (rc_passengerCount idx)),
                tr_tripDistance := toFloat (getIf cols (rc_tripDistance idx))\<rparr>;
          ok = \<not> (f32_lt (tr_tripDistance r) 0 \<or> tr_passengerCount r < 0);
          r = r\<lparr>tr_rateCodeId := toInt16 (getIf cols (rc_rateCodeId idx))\<rparr>;
          storeAndFwdStr = getIf cols (rc_storeAndFwdFlag idx);
          r = (if \<not> isNullOrEmpty storeAndFwdStr then r\<lparr>tr_storeAndFwdFlag := hd storeAndFwdStr\<rparr> else r);
          r = r\<lparr>tr_puLocationId := toInt16 (getIf cols (rc_puLocationId idx)),
                tr_doLocationId := toInt16 (getIf cols (rc_doLocationId idx)),
                tr_paymentType := toInt16 (getIf cols (rc_paymentType idx)),
                tr_fareAmount := toInt32 (getIf cols (rc_fareAmount idx)),
                tr_extra := toInt32 (getIf cols (rc_extra idx)),
                tr_mtaTax := toInt32 (getIf cols (rc_mtaTax idx)),
                tr_tipAmount := toInt32 (getIf cols (rc_tipAmount idx)),
                tr_tollsAmount := toInt32 (getIf cols (rc_tollsAmount idx)),
                tr_improvementSurcharge := toInt32 (getIf cols (rc_improvementSurcharge idx)),
                tr_totalAmount := toInt32 (getIf cols (rc_totalAmount idx)),
                tr_congestionSurcharge := toInt32 (getIf cols (rc_congestionSurcharge idx))\<rparr>
      in (ok, r))"

end
