(* ===== verification/Record_Store.thy ===== *)
theory Record_Store
  imports Record_Parser
begin

text \<open>
  The stores and queries of implementation A: \<open>TaxiTripStore\<close> (rows), \<open>TaxiTripStoreSoA\<close> (columns),
  the query specification and engine, and the serial and OpenMP count and execute of phases 2 and 3.
  A pointer to a record of the row store is its index. An OpenMP loop with a static schedule gives
  each thread a block of consecutive iterations, in the order of the thread numbers; the second pass
  of \<open>executeOpenMP\<close> is any interleaving of the threads' iterations.
\<close>

section \<open>The row store and query specifications\<close>

type_synonym TaxiTripStore = "TaxiTripRecord list"

definition addRecord :: "TaxiTripRecord \<Rightarrow> TaxiTripStore \<Rightarrow> TaxiTripStore" where
  "addRecord r records = records @ [r]"

definition appendAll :: "TaxiTripRecord list \<Rightarrow> TaxiTripStore \<Rightarrow> TaxiTripStore" where
  "appendAll batch records = records @ batch"

fun pickup_loop :: "int \<Rightarrow> int \<Rightarrow> nat \<Rightarrow> TaxiTripRecord list \<Rightarrow> nat list \<Rightarrow> nat list" where
  "pickup_loop lo hi i [] res = res"
| "pickup_loop lo hi i (r # rs) res =
     pickup_loop lo hi (i + 1) rs
       (if tr_pickupDatetime r \<ge> lo \<and> tr_pickupDatetime r \<le> hi then res @ [i] else res)"

definition queryPickupRange :: "TaxiTripStore \<Rightarrow> int \<Rightarrow> int \<Rightarrow> nat list" where
  "queryPickupRange records lo hi = pickup_loop lo hi 0 records []"

record TaxiTripQuerySpec =
  qs_pickupRange :: "(int \<times> int) option"
  qs_dropoffRange :: "(int \<times> int) option"
  qs_distanceRange :: "(f32 \<times> f32) option"
  qs_totalCentsRange :: "(int \<times> int) option"
  qs_tipCentsRange :: "(int \<times> int) option"
  qs_paymentType :: "int option"

definition no_constraints :: TaxiTripQuerySpec where
  "no_constraints = \<lparr> qs_pickupRange = None, qs_dropoffRange = None, qs_distanceRange = None,
     qs_totalCentsRange = None, qs_tipCentsRange = None, qs_paymentType = None \<rparr>"

definition pickupBetween :: "int \<Rightarrow> int \<Rightarrow> TaxiTripQuerySpec \<Rightarrow> TaxiTripQuerySpec" where
  "pickupBetween a b q = q\<lparr>qs_pickupRange := Some (a, b)\<rparr>"

definition dropoffBetween :: "int \<Rightarrow> int \<Rightarrow> TaxiTripQuerySpec \<Rightarrow> TaxiTripQuerySpec" where
  "dropoffBetween a b q = q\<lparr>qs_dropoffRange := Some (a, b)\<rparr>"

definition distanceBetween :: "f32 \<Rightarrow> f32 \<Rightarrow> TaxiTripQuerySpec \<Rightarrow> TaxiTripQuerySpec" where
  "distanceBetween a b q = q\<lparr>qs_distanceRange := Some (a, b)\<rparr>"

definition totalBetween :: "int \<Rightarrow> int \<Rightarrow> TaxiTripQuerySpec \<Rightarrow> TaxiTripQuerySpec" where
  "totalBetween a b q = q\<lparr>qs_totalCentsRange := Some (a, b)\<rparr>"

definition tipBetween :: "int \<Rightarrow> int \<Rightarrow> TaxiTripQuerySpec \<Rightarrow> TaxiTripQuerySpec" where
  "tipBetween a b q = q\<lparr>qs_tipCentsRange := Some (a, b)\<rparr>"

definition paymentTypeIs :: "int \<Rightarrow> TaxiTripQuerySpec \<Rightarrow> TaxiTripQuerySpec" where
  "paymentTypeIs p q = q\<lparr>qs_paymentType := Some p\<rparr>"

definition inRangeI64 :: "int \<Rightarrow> int \<times> int \<Rightarrow> bool" where
  "inRangeI64 v r \<longleftrightarrow> v \<ge> fst r \<and> v < snd r"

definition inRangeI32 :: "int \<Rightarrow> int \<times> int \<Rightarrow> bool" where
  "inRangeI32 v r \<longleftrightarrow> v \<ge> fst r \<and> v \<le> snd r"

definition inRangeF :: "f32 \<Rightarrow> f32 \<times> f32 \<Rightarrow> bool" where
  "inRangeF v r \<longleftrightarrow> f32_le (fst r) v \<and> f32_le v (snd r)"

definition unless_in :: "('v \<Rightarrow> 'r \<Rightarrow> bool) \<Rightarrow> 'r option \<Rightarrow> 'v \<Rightarrow> bool" where
  \<comment> \<open>\<open>q.range && !inRange(v, *q.range)\<close>\<close>
  "unless_in inRange r v = (case r of None \<Rightarrow> False | Some rg \<Rightarrow> \<not> inRange v rg)"

definition engine_matches :: "TaxiTripRecord \<Rightarrow> TaxiTripQuerySpec \<Rightarrow> bool" where
  "engine_matches r q =
     (if unless_in inRangeI64 (qs_pickupRange q) (tr_pickupDatetime r) then False
      else if unless_in inRangeI64 (qs_dropoffRange q) (tr_dropoffDatetime r) then False
      else if unless_in inRangeF (qs_distanceRange q) (tr_tripDistance r) then False
      else if unless_in inRangeI32 (qs_totalCentsRange q) (tr_totalAmount r) then False
      else if unless_in inRangeI32 (qs_tipCentsRange q) (tr_tipAmount r) then False
      else if qs_paymentType q \<noteq> None \<and> tr_paymentType r \<noteq> the (qs_paymentType q) then False
      else True)"

fun engine_execute_loop :: "TaxiTripQuerySpec \<Rightarrow> nat \<Rightarrow> TaxiTripRecord list \<Rightarrow> nat list \<Rightarrow> nat list" where
  "engine_execute_loop q i [] res = res"
| "engine_execute_loop q i (r # rs) res =
     engine_execute_loop q (i + 1) rs (if engine_matches r q then res @ [i] else res)"

definition engine_execute :: "TaxiTripStore \<Rightarrow> TaxiTripQuerySpec \<Rightarrow> nat list" where
  "engine_execute records q = engine_execute_loop q 0 records []"

fun engine_count_loop :: "TaxiTripQuerySpec \<Rightarrow> TaxiTripRecord list \<Rightarrow> nat \<Rightarrow> nat" where
  "engine_count_loop q [] c = c"
| "engine_count_loop q (r # rs) c = engine_count_loop q rs (if engine_matches r q then c + 1 else c)"

definition engine_count :: "TaxiTripStore \<Rightarrow> TaxiTripQuerySpec \<Rightarrow> nat" where
  "engine_count records q = engine_count_loop q records 0"

section \<open>The column store\<close>

record TaxiTripStoreSoA =
  so_vendorId :: "int list"
  so_pickupDatetime :: "int list"
  so_dropoffDatetime :: "int list"
  so_passengerCount :: "int list"
  so_tripDistance :: "f32 list"
  so_rateCodeId :: "int list"
  so_storeAndFwdFlag :: "char list"
  so_puLocationId :: "int list"
  so_doLocationId :: "int list"
  so_paymentType :: "int list"
  so_fareAmount :: "int list"
  so_extra :: "int list"
  so_mtaTax :: "int list"
  so_tipAmount :: "int list"
  so_tollsAmount :: "int list"
  so_improvementSurcharge :: "int list"
  so_totalAmount :: "int list"
  so_congestionSurcharge :: "int list"

definition empty_soa :: TaxiTripStoreSoA where
  "empty_soa = \<lparr> so_vendorId = [], so_pickupDatetime = [], so_dropoffDatetime = [],
     so_passengerCount = [], so_tripDistance = [], so_rateCodeId = [], so_storeAndFwdFlag = [],
     so_puLocationId = [], so_doLocationId = [], so_paymentType = [], so_fareAmount = [],
     so_extra = [], so_mtaTax = [], so_tipAmount = [], so_tollsAmount = [],
     so_improvementSurcharge = [], so_totalAmount = [], so_congestionSurcharge = [] \<rparr>"

definition soa_size :: "TaxiTripStoreSoA \<Rightarrow> nat" where
  "soa_size s = length (so_pickupDatetime s)"

definition soa_clear :: "TaxiTripStoreSoA \<Rightarrow> TaxiTripStoreSoA" where
  "soa_clear s = s\<lparr> so_vendorId := [], so_pickupDatetime := [], so_dropoffDatetime := [],
     so_passengerCount := [], so_tripDistance := [], so_rateCodeId := [], so_storeAndFwdFlag := [],
     so_puLocationId := [], so_doLocationId := [], so_paymentType := [], so_fareAmount := [],
     so_extra := [], so_mtaTax := [], so_tipAmount := [], so_tollsAmount := [],
     so_improvementSurcharge := [], so_totalAmount := [], so_congestionSurcharge := [] \<rparr>"

definition soa_push :: "TaxiTripRecord \<Rightarrow> TaxiTripStoreSoA \<Rightarrow> TaxiTripStoreSoA" where
  \<comment> \<open>the callers pass the fields of one record, in this order\<close>
  "soa_push r s = s\<lparr>
     so_vendorId := so_vendorId s @ [tr_vendorId r],
     so_pickupDatetime := so_pickupDatetime s @ [tr_pickupDatetime r],
     so_dropoffDatetime := so_dropoffDatetime s @ [tr_dropoffDatetime r],
     so_passengerCount := so_passengerCount s @ [tr_passengerCount r],
     so_tripDistance := so_tripDistance s @ [tr_tripDistance r],
     so_rateCodeId := so_rateCodeId s @ [tr_rateCodeId r],
     so_storeAndFwdFlag := so_storeAndFwdFlag s @ [tr_storeAndFwdFlag r],
     so_puLocationId := so_puLocationId s @ [tr_puLocationId r],
     so_doLocationId := so_doLocationId s @ [tr_doLocationId r],
     so_paymentType := so_paymentType s @ [tr_paymentType r],
     so_fareAmount := so_fareAmount s @ [tr_fareAmount r],
     so_extra := so_extra s @ [tr_extra r],
     so_mtaTax := so_mtaTax s @ [tr_mtaTax r],
     so_tipAmount := so_tipAmount s @ [tr_tipAmount r],
     so_tollsAmount := so_tollsAmount s @ [tr_tollsAmount r],
     so_improvementSurcharge := so_improvementSurcharge s @ [tr_improvementSurcharge r],
     so_totalAmount := so_totalAmount s @ [tr_totalAmount r],
     so_congestionSurcharge := so_congestionSurcharge s @ [tr_congestionSurcharge r]\<rparr>"

text \<open>The setters append to one column each; pushing a row is calling them in turn.\<close>

definition setVendorId :: "int \<Rightarrow> TaxiTripStoreSoA \<Rightarrow> TaxiTripStoreSoA" where
  "setVendorId x s = s\<lparr>so_vendorId := so_vendorId s @ [x]\<rparr>"

definition setPickupDatetime :: "int \<Rightarrow> TaxiTripStoreSoA \<Rightarrow> TaxiTripStoreSoA" where
  "setPickupDatetime x s = s\<lparr>so_pickupDatetime := so_pickupDatetime s @ [x]\<rparr>"

definition setDropoffDatetime :: "int \<Rightarrow> TaxiTripStoreSoA \<Rightarrow> TaxiTripStoreSoA" where
  "setDropoffDatetime x s = s\<lparr>so_dropoffDatetime := so_dropoffDatetime s @ [x]\<rparr>"

definition setPassengerCount :: "int \<Rightarrow> TaxiTripStoreSoA \<Rightarrow> TaxiTripStoreSoA" where
  "setPassengerCount x s = s\<lparr>so_passengerCount := so_passengerCount s @ [x]\<rparr>"

definition setTripDistance :: "f32 \<Rightarrow> TaxiTripStoreSoA \<Rightarrow> TaxiTripStoreSoA" where
  "setTripDistance x s = s\<lparr>so_tripDistance := so_tripDistance s @ [x]\<rparr>"

definition setRateCodeId :: "int \<Rightarrow> TaxiTripStoreSoA \<Rightarrow> TaxiTripStoreSoA" where
  "setRateCodeId x s = s\<lparr>so_rateCodeId := so_rateCodeId s @ [x]\<rparr>"

definition setStoreAndFwdFlag :: "char \<Rightarrow> TaxiTripStoreSoA \<Rightarrow> TaxiTripStoreSoA" where
  "setStoreAndFwdFlag x s = s\<lparr>so_storeAndFwdFlag := so_storeAndFwdFlag s @ [x]\<rparr>"

definition setPULocationId :: "int \<Rightarrow> TaxiTripStoreSoA \<Rightarrow> TaxiTripStoreSoA" where
  "setPULocationId x s = s\<lparr>so_puLocationId := so_puLocationId s @ [x]\<rparr>"

definition setDOLocationId :: "int \<Rightarrow> TaxiTripStoreSoA \<Rightarrow> TaxiTripStoreSoA" where
  "setDOLocationId x s = s\<lparr>so_doLocationId := so_doLocationId s @ [x]\<rparr>"

definition setPaymentType :: "int \<Rightarrow> TaxiTripStoreSoA \<Rightarrow> TaxiTripStoreSoA" where
  "setPaymentType x s = s\<lparr>so_paymentType := so_paymentType s @ [x]\<rparr>"

definition setFareAmount :: "int \<Rightarrow> TaxiTripStoreSoA \<Rightarrow> TaxiTripStoreSoA" where
  "setFareAmount x s = s\<lparr>so_fareAmount := so_fareAmount s @ [x]\<rparr>"

definition setExtra :: "int \<Rightarrow> TaxiTripStoreSoA \<Rightarrow> TaxiTripStoreSoA" where
  "setExtra x s = s\<lparr>so_extra := so_extra s @ [x]\<rparr>"

definition setMtaTax :: "int \<Rightarrow> TaxiTripStoreSoA \<Rightarrow> TaxiTripStoreSoA" where
  "setMtaTax x s = s\<lparr>so_mtaTax := so_mtaTax s @ [x]\<rparr>"

definition setTipAmount :: "int \<Rightarrow> TaxiTripStoreSoA \<Rightarrow> TaxiTripStoreSoA" where
  "setTipAmount x s = s\<lparr>so_tipAmount := so_tipAmount s @ [x]\<rparr>"

definition setTollsAmount :: "int \<Rightarrow> TaxiTripStoreSoA \<Rightarrow> TaxiTripStoreSoA" where
  "setTollsAmount x s = s\<lparr>so_tollsAmount := so_tollsAmount s @ [x]\<rparr>"

definition setImprovementSurcharge :: "int \<Rightarrow> TaxiTripStoreSoA \<Rightarrow> TaxiTripStoreSoA" where
  "setImprovementSurcharge x s = s\<lparr>so_improvementSurcharge := so_improvementSurcharge s @ [x]\<rparr>"

definition setTotalAmount :: "int \<Rightarrow> TaxiTripStoreSoA \<Rightarrow> TaxiTripStoreSoA" where
  "setTotalAmount x s = s\<lparr>so_totalAmount := so_totalAmount s @ [x]\<rparr>"

definition setCongestionSurcharge :: "int \<Rightarrow> TaxiTripStoreSoA \<Rightarrow> TaxiTripStoreSoA" where
  "setCongestionSurcharge x s = s\<lparr>so_congestionSurcharge := so_congestionSurcharge s @ [x]\<rparr>"

lemma soa_push_setters:
  "soa_push r s =
     (let s = setVendorId (tr_vendorId r) s;
          s = setPickupDatetime (tr_pickupDatetime r) s;
          s = setDropoffDatetime (tr_dropoffDatetime r) s;
          s = setPassengerCount (tr_passengerCount r) s;
          s = setTripDistance (tr_tripDistance r) s;
          s = setRateCodeId (tr_rateCodeId r) s;
          s = setStoreAndFwdFlag (tr_storeAndFwdFlag r) s;
          s = setPULocationId (tr_puLocationId r) s;
          s = setDOLocationId (tr_doLocationId r) s;
          s = setPaymentType (tr_paymentType r) s;
          s = setFareAmount (tr_fareAmount r) s;
          s = setExtra (tr_extra r) s;
          s = setMtaTax (tr_mtaTax r) s;
          s = setTipAmount (tr_tipAmount r) s;
          s = setTollsAmount (tr_tollsAmount r) s;
          s = setImprovementSurcharge (tr_improvementSurcharge r) s;
          s = setTotalAmount (tr_totalAmount r) s
      in setCongestionSurcharge (tr_congestionSurcharge r) s)"
  by (simp add: soa_push_def Let_def setVendorId_def setPickupDatetime_def setDropoffDatetime_def setPassengerCount_def setTripDistance_def setRateCodeId_def setStoreAndFwdFlag_def setPULocationId_def setDOLocationId_def setPaymentType_def setFareAmount_def setExtra_def setMtaTax_def setTipAmount_def setTollsAmount_def setImprovementSurcharge_def setTotalAmount_def setCongestionSurcharge_def)

definition soa_appendAll :: "TaxiTripStoreSoA \<Rightarrow> TaxiTripStoreSoA \<Rightarrow> TaxiTripStoreSoA" where
  \<comment> \<open>the store after \<open>appendAll(other)\<close>; the other store is left empty\<close>
  "soa_appendAll s t = s\<lparr>
     so_vendorId := so_vendorId s @ so_vendorId t,
     so_pickupDatetime := so_pickupDatetime s @ so_pickupDatetime t,
     so_dropoffDatetime := so_dropoffDatetime s @ so_dropoffDatetime t,
     so_passengerCount := so_passengerCount s @ so_passengerCount t,
     so_tripDistance := so_tripDistance s @ so_tripDistance t,
     so_rateCodeId := so_rateCodeId s @ so_rateCodeId t,
     so_storeAndFwdFlag := so_storeAndFwdFlag s @ so_storeAndFwdFlag t,
     so_puLocationId := so_puLocationId s @ so_puLocationId t,
     so_doLocationId := so_doLocationId s @ so_doLocationId t,
     so_paymentType := so_paymentType s @ so_paymentType t,
     so_fareAmount := so_fareAmount s @ so_fareAmount t,
     so_extra := so_extra s @ so_extra t,
     so_mtaTax := so_mtaTax s @ so_mtaTax t,
     so_tipAmount := so_tipAmount s @ so_tipAmount t,
     so_tollsAmount := so_tollsAmount s @ so_tollsAmount t,
     so_improvementSurcharge := so_improvementSurcharge s @ so_improvementSurcharge t,
     so_totalAmount := so_totalAmount s @ so_totalAmount t,
     so_congestionSurcharge := so_congestionSurcharge s @ so_congestionSurcharge t\<rparr>"

section \<open>Matching rows in either store\<close>

definition row_matches :: "TaxiTripRecord \<Rightarrow> TaxiTripQuerySpec \<Rightarrow> bool" where
  \<comment> \<open>\<open>matches\<close> of phase 2, which repeats the engine's tests\<close>
  "row_matches r q =
     (if qs_pickupRange q \<noteq> None \<and> \<not> (tr_pickupDatetime r \<ge> fst (the (qs_pickupRange q)) \<and>
           tr_pickupDatetime r < snd (the (qs_pickupRange q))) then False
      else if qs_dropoffRange q \<noteq> None \<and> \<not> (tr_dropoffDatetime r \<ge> fst (the (qs_dropoffRange q)) \<and>
           tr_dropoffDatetime r < snd (the (qs_dropoffRange q))) then False
      else if qs_distanceRange q \<noteq> None \<and> \<not> (f32_le (fst (the (qs_distanceRange q))) (tr_tripDistance r) \<and>
           f32_le (tr_tripDistance r) (snd (the (qs_distanceRange q)))) then False
      else if qs_totalCentsRange q \<noteq> None \<and> \<not> (tr_totalAmount r \<ge> fst (the (qs_totalCentsRange q)) \<and>
           tr_totalAmount r \<le> snd (the (qs_totalCentsRange q))) then False
      else if qs_tipCentsRange q \<noteq> None \<and> \<not> (tr_tipAmount r \<ge> fst (the (qs_tipCentsRange q)) \<and>
           tr_tipAmount r \<le> snd (the (qs_tipCentsRange q))) then False
      else if qs_paymentType q \<noteq> None \<and> tr_paymentType r \<noteq> the (qs_paymentType q) then False
      else True)"

definition soa_matches :: "TaxiTripStoreSoA \<Rightarrow> nat \<Rightarrow> TaxiTripQuerySpec \<Rightarrow> bool" where
  \<comment> \<open>\<open>matchesRow\<close> of phase 3\<close>
  "soa_matches s i q =
     (if (case qs_pickupRange q of None \<Rightarrow> False
          | Some r \<Rightarrow> let v = so_pickupDatetime s ! i in \<not> (v \<ge> fst r \<and> v < snd r)) then False
      else if (case qs_dropoffRange q of None \<Rightarrow> False
          | Some r \<Rightarrow> let v = so_dropoffDatetime s ! i in \<not> (v \<ge> fst r \<and> v < snd r)) then False
      else if (case qs_distanceRange q of None \<Rightarrow> False
          | Some r \<Rightarrow> let v = so_tripDistance s ! i in \<not> (f32_le (fst r) v \<and> f32_le v (snd r))) then False
      else if (case qs_totalCentsRange q of None \<Rightarrow> False
          | Some r \<Rightarrow> let v = so_totalAmount s ! i in \<not> (v \<ge> fst r \<and> v \<le> snd r)) then False
      else if (case qs_tipCentsRange q of None \<Rightarrow> False
          | Some r \<Rightarrow> let v = so_tipAmount s ! i in \<not> (v \<ge> fst r \<and> v \<le> snd r)) then False
      else if (case qs_paymentType q of None \<Rightarrow> False | Some p \<Rightarrow> so_paymentType s ! i \<noteq> p) then False
      else True)"

section \<open>Loops over row numbers\<close>

text \<open>
  The four query functions are loops over the row numbers with one test, for either store; the test
  is the parameter \<open>P\<close>.
\<close>

fun count_from :: "(nat \<Rightarrow> bool) \<Rightarrow> nat \<Rightarrow> nat list \<Rightarrow> nat" where
  "count_from P c [] = c"
| "count_from P c (i # is) = count_from P (if P i then c + 1 else c) is"

fun execute_from :: "(nat \<Rightarrow> bool) \<Rightarrow> nat list \<Rightarrow> nat list \<Rightarrow> nat list" where
  "execute_from P out [] = out"
| "execute_from P out (i # is) = execute_from P (if P i then out @ [i] else out) is"

type_synonym team = "nat list list"   \<comment> \<open>the iterations of each thread, by thread number\<close>

definition team_count :: "(nat \<Rightarrow> bool) \<Rightarrow> team \<Rightarrow> nat" where
  \<comment> \<open>a parallel loop with a reduction\<close>
  "team_count P team = sum_list (map (count_from P 0) team)"

fun prefix_offsets :: "nat \<Rightarrow> nat list \<Rightarrow> nat list" where
  "prefix_offsets tot [] = []"
| "prefix_offsets tot (c # cs) = tot # prefix_offsets (tot + c) cs"

record fill_state =
  fl_pending :: team
  fl_pos :: "nat list"
  fl_out :: "nat option list"

definition fill_start :: "(nat \<Rightarrow> bool) \<Rightarrow> team \<Rightarrow> fill_state" where
  \<comment> \<open>the first pass: counts, offsets and the result vector of null entries\<close>
  "fill_start P team =
     (let counts = map (count_from P 0) team
      in \<lparr> fl_pending = team, fl_pos = prefix_offsets 0 counts, fl_out = replicate (sum_list counts) None \<rparr>)"

definition fill_step :: "(nat \<Rightarrow> bool) \<Rightarrow> nat \<Rightarrow> fill_state \<Rightarrow> fill_state" where
  \<comment> \<open>the next iteration of thread \<open>tid\<close> in the second pass\<close>
  "fill_step P tid st =
     (case fl_pending st ! tid of
        [] \<Rightarrow> st
      | i # is \<Rightarrow>
          let st = st\<lparr>fl_pending := (fl_pending st)[tid := is]\<rparr>
          in if P i then st\<lparr>fl_out := (fl_out st)[fl_pos st ! tid := Some i],
                            fl_pos := (fl_pos st)[tid := fl_pos st ! tid + 1]\<rparr>
             else st)"

definition fill_run :: "(nat \<Rightarrow> bool) \<Rightarrow> nat list \<Rightarrow> fill_state \<Rightarrow> fill_state" where
  \<comment> \<open>an interleaving: the thread numbers in the order their iterations run\<close>
  "fill_run P tids st = fold (fill_step P) tids st"

definition fill_done :: "fill_state \<Rightarrow> bool" where
  "fill_done st = list_all (\<lambda>p. p = []) (fl_pending st)"

section \<open>The queries\<close>

definition record_at :: "TaxiTripStore \<Rightarrow> TaxiTripQuerySpec \<Rightarrow> nat \<Rightarrow> bool" where
  "record_at records q i = row_matches (records ! i) q"

definition countSerial :: "TaxiTripStore \<Rightarrow> TaxiTripQuerySpec \<Rightarrow> nat" where
  "countSerial records q = count_from (record_at records q) 0 [0..<length records]"

definition countOpenMP :: "TaxiTripStore \<Rightarrow> TaxiTripQuerySpec \<Rightarrow> team \<Rightarrow> nat" where
  "countOpenMP records q team = team_count (record_at records q) team"

definition executeSerial :: "TaxiTripStore \<Rightarrow> TaxiTripQuerySpec \<Rightarrow> nat list" where
  "executeSerial records q = execute_from (record_at records q) [] [0..<length records]"

definition executeOpenMP :: "TaxiTripStore \<Rightarrow> TaxiTripQuerySpec \<Rightarrow> team \<Rightarrow> nat list \<Rightarrow> nat option list" where
  "executeOpenMP records q team tids =
     fl_out (fill_run (record_at records q) tids (fill_start (record_at records q) team))"

definition row_id :: "nat \<Rightarrow> nat" where
  \<comment> \<open>the cast to \<open>uint32_t\<close>\<close>
  "row_id i = i mod 2 ^ 32"

definition countSerial_SoA :: "TaxiTripStoreSoA \<Rightarrow> TaxiTripQuerySpec \<Rightarrow> nat" where
  "countSerial_SoA s q = count_from (\<lambda>i. soa_matches s i q) 0 [0..<soa_size s]"

definition countOpenMP_SoA :: "TaxiTripStoreSoA \<Rightarrow> TaxiTripQuerySpec \<Rightarrow> team \<Rightarrow> nat" where
  "countOpenMP_SoA s q team = team_count (\<lambda>i. soa_matches s i q) team"

definition executeSerial_SoA :: "TaxiTripStoreSoA \<Rightarrow> TaxiTripQuerySpec \<Rightarrow> nat list" where
  "executeSerial_SoA s q = map row_id (execute_from (\<lambda>i. soa_matches s i q) [] [0..<soa_size s])"

definition executeOpenMP_SoA :: "TaxiTripStoreSoA \<Rightarrow> TaxiTripQuerySpec \<Rightarrow> team \<Rightarrow> nat list \<Rightarrow> nat option list" where
  "executeOpenMP_SoA s q team tids =
     map (map_option row_id)
       (fl_out (fill_run (\<lambda>i. soa_matches s i q) tids (fill_start (\<lambda>i. soa_matches s i q) team)))"

end
