(* ===== verification/Record_Queries.thy ===== *)
theory Record_Queries
  imports Record_Store
begin

text \<open>
  The queries of implementation A: every loop computes the matching rows in order, the column store
  is a refinement of the row store, and the two-pass parallel execute fills its result completely
  under every interleaving of its threads.
\<close>

section \<open>Loops\<close>

lemma count_from_filter: "count_from P c is = c + length (filter P is)"
  by (induction P c "is" rule: count_from.induct) simp_all

lemma execute_from_filter: "execute_from P out is = out @ filter P is"
  by (induction P out "is" rule: execute_from.induct) simp_all

lemma count_from_fun: "count_from P 0 = (\<lambda>is. length (filter P is))"
  by (rule ext) (simp add: count_from_filter)

definition team_ok :: "team \<Rightarrow> nat \<Rightarrow> bool" where
  \<comment> \<open>a static schedule: consecutive blocks in the order of the threads\<close>
  "team_ok team n \<longleftrightarrow> concat team = [0..<n]"

lemma team_count_filter:
  assumes "team_ok team n"
  shows "team_count P team = length (filter P [0..<n])"
proof -
  have "sum_list (map (\<lambda>is. length (filter P is)) team) = length (filter P (concat team))"
    by (induction team) simp_all
  then show ?thesis using assms by (simp add: team_count_def count_from_fun team_ok_def)
qed

section \<open>The two-pass fill\<close>

lemma length_prefix_offsets [simp]: "length (prefix_offsets tot cs) = length cs"
  by (induction tot cs rule: prefix_offsets.induct) simp_all

lemma prefix_offsets_nth: "t < length cs \<Longrightarrow> prefix_offsets tot cs ! t = tot + sum_list (take t cs)"
proof (induction tot cs arbitrary: t rule: prefix_offsets.induct)
  case (2 tot c cs)
  then show ?case by (cases t) simp_all
qed simp

lemma concat_update:
  assumes "t < length xss" and "j < length (xss ! t)"
  shows "(concat xss)[sum_list (map length (take t xss)) + j := v] = concat (xss[t := (xss ! t)[j := v]])"
  using assms
proof (induction xss arbitrary: t)
  case (Cons xs xss)
  then show ?case by (cases t) (simp_all add: list_update_append)
qed simp

definition region :: "(nat \<Rightarrow> bool) \<Rightarrow> nat list \<Rightarrow> nat list \<Rightarrow> nat option list" where
  \<comment> \<open>a thread's part of the result: what it has written and what it will\<close>
  "region P d p = map Some (filter P d) @ replicate (length (filter P p)) None"

definition regions :: "(nat \<Rightarrow> bool) \<Rightarrow> nat list list \<Rightarrow> team \<Rightarrow> nat option list list" where
  "regions P ds ps = map (\<lambda>t. region P (ds ! t) (ps ! t)) [0..<length ps]"

definition fill_inv :: "(nat \<Rightarrow> bool) \<Rightarrow> team \<Rightarrow> nat list list \<Rightarrow> fill_state \<Rightarrow> bool" where
  "fill_inv P team ds st \<longleftrightarrow>
     length ds = length team \<and> length (fl_pending st) = length team \<and> length (fl_pos st) = length team \<and>
     (\<forall>t < length team. team ! t = ds ! t @ fl_pending st ! t \<and>
        fl_pos st ! t = sum_list (map length (take t (regions P ds (fl_pending st)))) + length (filter P (ds ! t))) \<and>
     fl_out st = concat (regions P ds (fl_pending st))"

lemma length_regions [simp]: "length (regions P ds ps) = length ps"
  by (simp add: regions_def)

lemma regions_nth: "t < length ps \<Longrightarrow> regions P ds ps ! t = region P (ds ! t) (ps ! t)"
  by (simp add: regions_def)

lemma length_region: "length (region P d p) = length (filter P (d @ p))"
  by (simp add: region_def)

lemma fill_start_inv: "fill_inv P team (replicate (length team) []) (fill_start P team)"
proof -
  have r: "regions P (replicate (length team) []) team = map (\<lambda>p. replicate (length (filter P p)) None) team"
    by (rule nth_equalityI) (simp_all add: regions_def region_def)
  have "concat (map (\<lambda>p. replicate (length (filter P p)) None) team) =
      replicate (sum_list (map (\<lambda>p. length (filter P p)) team)) (None :: nat option)"
    by (induction team) (simp_all add: replicate_add)
  then show ?thesis
    by (simp add: fill_inv_def fill_start_def Let_def r count_from_fun prefix_offsets_nth take_map comp_def)
qed

lemma regions_advance:
  assumes "t < length ps" and "ps ! t = i # is" and "length ds = length ps"
  shows "regions P (ds[t := ds ! t @ [i]]) (ps[t := is]) =
    (if P i then (regions P ds ps)[t := (regions P ds ps ! t)[length (filter P (ds ! t)) := Some i]]
     else regions P ds ps)"
  by (rule nth_equalityI)
    (use assms in \<open>auto simp: regions_nth region_def nth_list_update list_update_append\<close>)

lemma map_length_update: "map length (xss[t := (xss ! t)[j := v]]) = map length xss"
  by (cases "t < length xss") (simp_all add: map_update list_update_same_conv list_update_beyond)

lemma fill_step_inv:
  assumes "fill_inv P team ds st" and "tid < length team"
  shows "\<exists>ds'. fill_inv P team ds' (fill_step P tid st)"
proof (cases "fl_pending st ! tid")
  case Nil
  then show ?thesis using assms by (auto simp: fill_step_def)
next
  case (Cons i "is")
  let ?ps = "fl_pending st" and ?ds' = "ds[tid := ds ! tid @ [i]]"
  let ?R = "regions P ds ?ps" and ?R' = "regions P ?ds' (?ps[tid := is])"
  let ?j = "length (filter P (ds ! tid))"
  have lens: "length ds = length ?ps" "tid < length ?ps" using assms by (simp_all add: fill_inv_def)
  note R' = regions_advance [OF lens(2) Cons lens(1), of P]
  have lengths: "map length (take t ?R') = map length (take t ?R)" for t
    unfolding R' by (simp add: map_length_update flip: take_map)
  have out: "fl_out (fill_step P tid st) = concat ?R'"
  proof (cases "P i")
    case True
    have "?j < length (?R ! tid)" using True Cons lens by (simp add: regions_nth length_region)
    from concat_update [OF _ this] True show ?thesis
      using assms Cons lens by (simp add: fill_step_def Let_def R' fill_inv_def)
  next
    case False
    then show ?thesis using assms Cons by (simp add: fill_step_def Let_def R' fill_inv_def)
  qed
  have "fill_inv P team ?ds' (fill_step P tid st)"
    unfolding fill_inv_def out
    using assms Cons lens lengths
    by (auto simp: fill_step_def Let_def fill_inv_def nth_list_update)
  then show ?thesis ..
qed

lemma fill_step_pending:
  "t < length (fl_pending st) \<Longrightarrow>
     fl_pending (fill_step P tid st) ! t = (if t = tid then drop 1 (fl_pending st ! t) else fl_pending st ! t)"
  by (auto simp: fill_step_def Let_def nth_list_update split: list.splits)

lemma length_fill_step [simp]: "length (fl_pending (fill_step P tid st)) = length (fl_pending st)"
  by (auto simp: fill_step_def Let_def split: list.splits)

lemma fill_run_pending:
  "t < length (fl_pending st) \<Longrightarrow> fl_pending (fill_run P tids st) ! t = drop (count_list tids t) (fl_pending st ! t)"
  unfolding fill_run_def
  by (induction tids arbitrary: st) (simp_all add: fill_step_pending)

lemma fill_run_inv:
  assumes "fill_inv P team ds st" and "set tids \<subseteq> {..<length team}"
  shows "\<exists>ds'. fill_inv P team ds' (fill_run P tids st)"
  using assms unfolding fill_run_def
proof (induction tids arbitrary: ds st)
  case (Cons tid tids)
  then obtain ds' where "fill_inv P team ds' (fill_step P tid st)" using fill_step_inv by fastforce
  from Cons.IH [OF this] Cons.prems show ?case by simp
qed auto

lemma fill_complete:
  assumes "set tids \<subseteq> {..<length team}" and "\<forall>t < length team. length (team ! t) \<le> count_list tids t"
  shows "fl_out (fill_run P tids (fill_start P team)) = map Some (filter P (concat team))"
proof -
  let ?st = "fill_run P tids (fill_start P team)"
  obtain ds where inv: "fill_inv P team ds ?st" using fill_run_inv [OF fill_start_inv assms(1)] by blast
  have p: "fl_pending ?st ! t = []" if "t < length team" for t
    using fill_run_pending [of t "fill_start P team" P tids] assms(2) that by (simp add: fill_start_def Let_def)
  then have "ds ! t = team ! t" if "t < length team" for t using inv that by (simp add: fill_inv_def)
  then have "regions P ds (fl_pending ?st) = map (\<lambda>p. map Some (filter P p)) team"
    using inv p by (intro nth_equalityI) (simp_all add: fill_inv_def regions_nth region_def)
  then have "fl_out ?st = concat (map (\<lambda>p. map Some (filter P p)) team)" using inv by (simp add: fill_inv_def)
  then show ?thesis by (simp add: filter_concat map_concat comp_def)
qed

definition interleaving :: "nat list \<Rightarrow> team \<Rightarrow> bool" where
  \<comment> \<open>every thread of the team, and no other, runs at least its iterations\<close>
  "interleaving tids team \<longleftrightarrow>
     set tids \<subseteq> {..<length team} \<and> (\<forall>t < length team. length (team ! t) \<le> count_list tids t)"

section \<open>The row store\<close>

lemma engine_matches_row: "engine_matches r q = row_matches r q"
  by (auto simp: engine_matches_def row_matches_def unless_in_def inRangeI64_def inRangeI32_def inRangeF_def
      split: option.splits)

definition matching :: "TaxiTripStore \<Rightarrow> TaxiTripQuerySpec \<Rightarrow> nat list" where
  "matching records q = positions_from 0 (\<lambda>r. row_matches r q) records"

lemma positions_from_filter: "positions_from n P xs = map ((+) n) (filter (\<lambda>i. P (xs ! i)) [0..<length xs])"
proof (induction xs arbitrary: n)
  case (Cons x xs)
  have "[0..<length (x # xs)] = 0 # map Suc [0..<length xs]" by (simp only: list.size(4) add_0_right add_Suc_right upt_conv_Cons zero_less_Suc map_Suc_upt)
  then show ?case using Cons.IH [of "Suc n"] by (simp add: filter_map comp_def)
qed simp

lemma matching_filter: "matching records q = filter (record_at records q) [0..<length records]"
proof -
  have "map ((+) 0) xs = xs" for xs :: "nat list" by (simp add: map_idI)
  then show ?thesis by (simp only: matching_def positions_from_filter record_at_def [abs_def])
qed

lemma executeSerial_matching: "executeSerial records q = matching records q"
  by (simp add: executeSerial_def execute_from_filter matching_filter)

lemma countSerial_matching: "countSerial records q = length (matching records q)"
  by (simp add: countSerial_def count_from_filter matching_filter)

lemma engine_execute_matching: "engine_execute records q = matching records q"
proof -
  have "engine_execute_loop q i rs res = res @ positions_from i (\<lambda>r. row_matches r q) rs" for i rs res
    by (induction q i rs res rule: engine_execute_loop.induct) (simp_all add: engine_matches_row)
  then show ?thesis by (simp add: engine_execute_def matching_def)
qed

lemma engine_count_matching: "engine_count records q = length (matching records q)"
proof -
  have "engine_count_loop q rs c = c + length (filter (\<lambda>r. row_matches r q) rs)" for rs c
    by (induction q rs c rule: engine_count_loop.induct) (simp_all add: engine_matches_row)
  then show ?thesis by (simp add: engine_count_def matching_def length_positions_from)
qed

lemma queryPickupRange_positions:
  "queryPickupRange records lo hi =
     positions_from 0 (\<lambda>r. lo \<le> tr_pickupDatetime r \<and> tr_pickupDatetime r \<le> hi) records"
proof -
  have "pickup_loop lo hi i rs res =
      res @ positions_from i (\<lambda>r. lo \<le> tr_pickupDatetime r \<and> tr_pickupDatetime r \<le> hi) rs" for i rs res
    by (induction lo hi i rs res rule: pickup_loop.induct) simp_all
  then show ?thesis by (simp add: queryPickupRange_def)
qed

lemma parallel_row_queries:
  assumes "team_ok team (length records)" and "interleaving tids team"
  shows "countOpenMP records q team = length (matching records q)"
    and "executeOpenMP records q team tids = map Some (matching records q)"
  using assms fill_complete [of tids team]
  by (simp_all add: countOpenMP_def executeOpenMP_def team_count_filter matching_filter interleaving_def team_ok_def)

section \<open>The column store\<close>

definition soa_row :: "TaxiTripStoreSoA \<Rightarrow> nat \<Rightarrow> TaxiTripRecord" where
  "soa_row s i = \<lparr> tr_vendorId = so_vendorId s ! i, tr_pickupDatetime = so_pickupDatetime s ! i,
     tr_dropoffDatetime = so_dropoffDatetime s ! i, tr_passengerCount = so_passengerCount s ! i,
     tr_tripDistance = so_tripDistance s ! i, tr_rateCodeId = so_rateCodeId s ! i,
     tr_storeAndFwdFlag = so_storeAndFwdFlag s ! i, tr_puLocationId = so_puLocationId s ! i,
     tr_doLocationId = so_doLocationId s ! i, tr_paymentType = so_paymentType s ! i,
     tr_fareAmount = so_fareAmount s ! i, tr_extra = so_extra s ! i, tr_mtaTax = so_mtaTax s ! i,
     tr_tipAmount = so_tipAmount s ! i, tr_tollsAmount = so_tollsAmount s ! i,
     tr_improvementSurcharge = so_improvementSurcharge s ! i, tr_totalAmount = so_totalAmount s ! i,
     tr_congestionSurcharge = so_congestionSurcharge s ! i \<rparr>"

definition soa_ok :: "TaxiTripStoreSoA \<Rightarrow> bool" where
  \<comment> \<open>all columns have the same length\<close>
  "soa_ok s \<longleftrightarrow> list_all (\<lambda>n. n = soa_size s)
     [length (so_vendorId s), length (so_pickupDatetime s), length (so_dropoffDatetime s),
      length (so_passengerCount s), length (so_tripDistance s), length (so_rateCodeId s),
      length (so_storeAndFwdFlag s), length (so_puLocationId s), length (so_doLocationId s),
      length (so_paymentType s), length (so_fareAmount s), length (so_extra s), length (so_mtaTax s),
      length (so_tipAmount s), length (so_tollsAmount s), length (so_improvementSurcharge s),
      length (so_totalAmount s), length (so_congestionSurcharge s)]"

definition soa_records :: "TaxiTripStoreSoA \<Rightarrow> TaxiTripStore" where
  "soa_records s = map (soa_row s) [0..<soa_size s]"

lemma soa_ok_empty: "soa_ok empty_soa \<and> soa_records empty_soa = []"
  by (simp add: soa_ok_def empty_soa_def soa_size_def soa_records_def)

lemma soa_clear_empty: "soa_clear s = empty_soa"
  by (simp add: soa_clear_def empty_soa_def)

lemma soa_append_empty: "soa_appendAll empty_soa s = s"
  by (simp add: soa_appendAll_def empty_soa_def)

lemma soa_push_append:
  "soa_push r s = soa_appendAll s (soa_push r empty_soa)"
  by (simp add: soa_push_def soa_appendAll_def empty_soa_def)

lemma soa_append_ok: "soa_ok s \<Longrightarrow> soa_ok t \<Longrightarrow> soa_ok (soa_appendAll s t)"
  by (simp add: soa_ok_def soa_appendAll_def soa_size_def)

lemma soa_single: "soa_ok (soa_push r empty_soa) \<and> soa_records (soa_push r empty_soa) = [r]"
  by (simp add: soa_ok_def soa_push_def empty_soa_def soa_size_def soa_records_def soa_row_def)

lemma soa_append_row:
  assumes "soa_ok s"
  shows "soa_row (soa_appendAll s t) i = (if i < soa_size s then soa_row s i else soa_row t (i - soa_size s))"
  using assms
  by (cases "i < soa_size s") (simp_all add: soa_ok_def soa_row_def soa_appendAll_def nth_append)

lemma soa_append_records:
  assumes "soa_ok s"
  shows "soa_records (soa_appendAll s t) = soa_records s @ soa_records t"
proof -
  have "soa_size (soa_appendAll s t) = soa_size s + soa_size t"
    by (simp add: soa_size_def soa_appendAll_def)
  then show ?thesis
    by (intro nth_equalityI) (simp_all add: soa_records_def soa_append_row [OF assms] nth_append)
qed

lemma soa_push_ok:
  assumes "soa_ok s"
  shows "soa_ok (soa_push r s)" and "soa_records (soa_push r s) = soa_records s @ [r]"
  unfolding soa_push_append [of r s]
  using soa_append_ok [OF assms] soa_append_records [OF assms] soa_single [of r] by simp_all

lemma soa_matches_row: "soa_matches s i q = row_matches (soa_row s i) q"
proof -
  have test: "(case r of None \<Rightarrow> False | Some x \<Rightarrow> \<not> Q x) = (r \<noteq> None \<and> \<not> Q (the r))" for r :: "'r option" and Q
    by (cases r) simp_all
  show ?thesis
    unfolding soa_matches_def row_matches_def soa_row_def Let_def test TaxiTripRecord.select_convs ..
qed

lemma soa_matching:
  "filter (\<lambda>i. soa_matches s i q) [0..<soa_size s] = matching (soa_records s) q"
  by (auto simp: matching_filter soa_records_def record_at_def soa_matches_row intro: filter_cong)

lemma soa_queries:
  shows "countSerial_SoA s q = length (matching (soa_records s) q)"
    and "executeSerial_SoA s q = map row_id (matching (soa_records s) q)"
  using soa_matching [of s q]
  by (simp_all add: countSerial_SoA_def executeSerial_SoA_def count_from_filter execute_from_filter)

lemma parallel_soa_queries:
  assumes "team_ok team (soa_size s)" and "interleaving tids team"
  shows "countOpenMP_SoA s q team = length (matching (soa_records s) q)"
    and "executeOpenMP_SoA s q team tids = map (Some \<circ> row_id) (matching (soa_records s) q)"
  using assms fill_complete [of tids team] soa_matching [of s q]
  by (simp_all add: countOpenMP_SoA_def executeOpenMP_SoA_def team_count_filter interleaving_def team_ok_def comp_def)

end
