(* ===== verification/Record_Ingest.thy ===== *)
theory Record_Ingest
  imports Record_Queries Taxi_Dataset "HOL-Library.Multiset"
begin

text \<open>
  \<open>CSVReader\<close> and the ingestion of phases 2 and 3 of implementation A: one file after the other or one
  file per iteration of an OpenMP loop, into the row store or the column store.

  \<open>TaxiTripRecord rec;\<close> leaves the fields of the record a file starts with undefined; the parameter
  \<open>junk\<close> stands for them.
\<close>

section \<open>CSVReader\<close>

record csv_reader =
  cr_file :: line_reader
  cr_headerMap :: col_map
  cr_files :: "string list"
  cr_currentFileIndex :: nat

definition new_CSVReader :: "file_system \<Rightarrow> string \<Rightarrow> csv_reader" where
  "new_CSVReader fs filePath =
     (if filePath = [] then \<lparr> cr_file = None, cr_headerMap = [], cr_files = [], cr_currentFileIndex = 0 \<rparr>
      else \<lparr> cr_file = reader_open fs filePath, cr_headerMap = [], cr_files = [filePath], cr_currentFileIndex = 0 \<rparr>)"

definition fromDirectory :: "file_system \<Rightarrow> string \<Rightarrow> csv_reader option" where
  \<comment> \<open>\<open>None\<close> when the directory iterator throws\<close>
  "fromDirectory fs dirPath =
     (case fs dirPath of
        Some (Directory names) \<Rightarrow>
          (let files = sort (dir_entries fs dirPath names) in
           Some \<lparr> cr_file = (if files = [] then None else reader_open fs (hd files)), cr_headerMap = [],
                  cr_files = files, cr_currentFileIndex = 0 \<rparr>)
      | _ \<Rightarrow> None)"

definition reader_isOpen :: "csv_reader \<Rightarrow> bool" where
  "reader_isOpen r \<longleftrightarrow> cr_file r \<noteq> None"

definition openNextFile :: "file_system \<Rightarrow> csv_reader \<Rightarrow> bool \<times> csv_reader" where
  "openNextFile fs r =
     (let r = r\<lparr>cr_file := None, cr_currentFileIndex := cr_currentFileIndex r + 1\<rparr>
      in if cr_currentFileIndex r \<ge> length (cr_files r) then (False, r)
         else let r = r\<lparr>cr_file := reader_open fs (cr_files r ! cr_currentFileIndex r)\<rparr>
         in (cr_file r \<noteq> None, r))"

definition readHeader :: "csv_reader \<Rightarrow> bool \<times> csv_reader" where
  "readHeader r =
     (case cr_file r of
        None \<Rightarrow> (False, r)
      | Some [] \<Rightarrow> (False, r)
      | Some (headerLine # ls) \<Rightarrow> (True, r\<lparr>cr_file := Some ls, cr_headerMap := buildHeaderMap headerLine\<rparr>))"

function readRow :: "file_system \<Rightarrow> csv_reader \<Rightarrow> string list option \<times> csv_reader" where
  "readRow fs r =
     (case cr_file r of
        None \<Rightarrow> (None, r)
      | Some (line # ls) \<Rightarrow>
          (let r = r\<lparr>cr_file := Some ls\<rparr>
           in if line = [] then readRow fs r else (Some (splitCSV line), r))
      | Some [] \<Rightarrow>
          (case openNextFile fs r of (opened, r) \<Rightarrow>
             if \<not> opened then (None, r)
             else case cr_file r of
               Some (headerLine # ls) \<Rightarrow> readRow fs (r\<lparr>cr_file := Some ls\<rparr>)
             | _ \<Rightarrow> readRow fs r))"
  by pat_completeness auto

definition files_left :: "csv_reader \<Rightarrow> nat" where
  "files_left r = length (cr_files r) - cr_currentFileIndex r"

lemma openNextFile_left:
  "openNextFile fs r = (True, r') \<Longrightarrow> files_left r' < files_left r \<and> cr_files r' = cr_files r"
  by (auto simp: openNextFile_def files_left_def Let_def split: if_splits)

termination readRow
  by (relation "measures [\<lambda>(fs, r). files_left r, \<lambda>(fs, r). reader_left (cr_file r)]")
    (auto dest!: sym [of "(_, _)"] openNextFile_left simp: reader_left_def files_left_def)

declare readRow.simps [simp del]

lemma readRow_left:
  "readRow fs r = (Some cols, r') \<Longrightarrow>
     files_left r' < files_left r \<or> files_left r' = files_left r \<and> reader_left (cr_file r') < reader_left (cr_file r)"
proof (induction fs r rule: readRow.induct)
  case (1 fs r)
  show ?case
  proof (cases "cr_file r")
    case None
    then show ?thesis using "1.prems" by (simp add: readRow.simps [of fs r])
  next
    case (Some lines)
    show ?thesis
    proof (cases lines)
      case (Cons line ls)
      let ?r = "r\<lparr>cr_file := Some ls\<rparr>"
      have less: "files_left ?r = files_left r" "reader_left (cr_file ?r) < reader_left (cr_file r)"
        using Some Cons by (simp_all add: files_left_def reader_left_def)
      show ?thesis
      proof (cases "line = []")
        case True
        then have "readRow fs ?r = (Some cols, r')"
          using Some Cons "1.prems" by (simp add: readRow.simps [of fs r])
        from "1.IH"(4) [OF Some Cons refl True this] less show ?thesis by linarith
      next
        case False
        then have "r' = ?r" using Some Cons "1.prems" by (simp add: readRow.simps [of fs r])
        then show ?thesis using less by simp
      qed
    next
      case Nil
      obtain opened r1 where o: "openNextFile fs r = (opened, r1)" by (metis prod.exhaust)
      then have op: "opened" using Some Nil "1.prems" by (cases opened) (auto simp: readRow.simps [of fs r])
      then have lt: "files_left r1 < files_left r" using openNextFile_left [of fs r r1] o by simp
      show ?thesis
      proof (cases "cr_file r1")
        case None
        then show ?thesis using op o by (auto simp: openNextFile_def Let_def split: if_splits)
      next
        case (Some l1)
        show ?thesis
        proof (cases l1)
          case Nil
          then have "readRow fs r1 = (Some cols, r')"
            using \<open>cr_file r = Some lines\<close> \<open>lines = []\<close> op o Some "1.prems" by (simp add: readRow.simps [of fs r])
          from "1.IH"(2) [OF \<open>cr_file r = Some lines\<close> \<open>lines = []\<close> o [symmetric] _ Some Nil this] op lt
          show ?thesis by auto
        next
          case (Cons h t)
          then have "readRow fs (r1\<lparr>cr_file := Some t\<rparr>) = (Some cols, r')"
            using \<open>cr_file r = Some lines\<close> \<open>lines = []\<close> op o Some "1.prems" by (simp add: readRow.simps [of fs r])
          from "1.IH"(3) [OF \<open>cr_file r = Some lines\<close> \<open>lines = []\<close> o [symmetric] _ Some Cons this] op lt
          show ?thesis by (auto simp: files_left_def)
        qed
      qed
    qed
  qed
qed

section \<open>One file\<close>

record IngestStats =
  is_rowsRead :: nat
  is_parseFailures :: nat

definition no_stats :: IngestStats where
  "no_stats = \<lparr> is_rowsRead = 0, is_parseFailures = 0 \<rparr>"

definition count_row :: "bool \<Rightarrow> IngestStats \<Rightarrow> IngestStats" where
  "count_row ok st =
     st\<lparr>is_rowsRead := is_rowsRead st + 1,
        is_parseFailures := (if \<not> ok then is_parseFailures st + 1 else is_parseFailures st)\<rparr>"

function ingest_rows ::
  "file_system \<Rightarrow> RecordColumns \<Rightarrow> (bool \<Rightarrow> TaxiTripRecord \<Rightarrow> 'out \<Rightarrow> 'out) \<Rightarrow> csv_reader \<Rightarrow> TaxiTripRecord \<Rightarrow>
     IngestStats \<Rightarrow> 'out \<Rightarrow> IngestStats \<times> 'out"
where
  \<comment> \<open>the loop of both phases, which differ in what they store; the record is reused from row to row\<close>
  "ingest_rows fs idx put reader rec st out =
     (case readRow fs reader of
        (None, _) \<Rightarrow> (st, out)
      | (Some cols, reader) \<Rightarrow>
          (case parse_record cols idx rec of (ok, rec) \<Rightarrow>
             ingest_rows fs idx put reader rec (count_row ok st) (put ok rec out)))"
  by pat_completeness auto

termination ingest_rows
  by (relation "measures [\<lambda>(fs, idx, put, r, rec, st, out). files_left r,
      \<lambda>(fs, idx, put, r, rec, st, out). reader_left (cr_file r)]")
    (auto dest!: sym [of "(_, _)"] readRow_left)

declare ingest_rows.simps [simp del]

definition ingest_file ::
  "file_system \<Rightarrow> (bool \<Rightarrow> TaxiTripRecord \<Rightarrow> 'out \<Rightarrow> 'out) \<Rightarrow> TaxiTripRecord \<Rightarrow> string \<Rightarrow> 'out \<Rightarrow> IngestStats \<times> 'out"
where
  "ingest_file fs put junk filePath out =
     (let reader = new_CSVReader fs filePath in
      if \<not> reader_isOpen reader then (no_stats, out)
      else case readHeader reader of (ok, reader) \<Rightarrow>
        if \<not> ok then (no_stats, out)
        else ingest_rows fs (buildColumnIndex (cr_headerMap reader)) put reader junk no_stats out)"

definition ingestOneFile :: "file_system \<Rightarrow> TaxiTripRecord \<Rightarrow> string \<Rightarrow> IngestStats \<times> TaxiTripRecord list" where
  \<comment> \<open>phase 2 stores every row, also the ones that do not parse\<close>
  "ingestOneFile fs junk filePath = ingest_file fs (\<lambda>ok rec out. out @ [rec]) junk filePath []"

definition ingestOneFileToSoA :: "file_system \<Rightarrow> TaxiTripRecord \<Rightarrow> string \<Rightarrow> TaxiTripStoreSoA \<Rightarrow> IngestStats \<times> TaxiTripStoreSoA" where
  \<comment> \<open>phase 3 stores the rows that parse\<close>
  "ingestOneFileToSoA fs junk filePath out =
     ingest_file fs (\<lambda>ok rec out. if ok then soa_push rec out else out) junk filePath out"

section \<open>Directories\<close>

definition listCSVFiles :: "file_system \<Rightarrow> string \<Rightarrow> string list option" where
  \<comment> \<open>\<open>None\<close> when the directory iterator throws\<close>
  "listCSVFiles fs dirPath =
     (case fs dirPath of
        Some (Directory names) \<Rightarrow> Some (sort (dir_entries fs dirPath names))
      | _ \<Rightarrow> None)"

definition add_stats :: "IngestStats \<Rightarrow> IngestStats \<Rightarrow> IngestStats" where
  "add_stats a b = a\<lparr>is_rowsRead := is_rowsRead a + is_rowsRead b,
                      is_parseFailures := is_parseFailures a + is_parseFailures b\<rparr>"

fun ingest_files ::
  "file_system \<Rightarrow> (nat \<Rightarrow> TaxiTripRecord) \<Rightarrow> nat \<Rightarrow> string list \<Rightarrow> IngestStats \<Rightarrow> TaxiTripStore \<Rightarrow> IngestStats \<times> TaxiTripStore"
where
  "ingest_files fs junk i [] tot store = (tot, store)"
| "ingest_files fs junk i (file # files) tot store =
     (case ingestOneFile fs (junk i) file of (st, tmp) \<Rightarrow>
        ingest_files fs junk (i + 1) files (add_stats tot st) (fold addRecord tmp store))"

definition ingestSerialDirectory ::
  "file_system \<Rightarrow> (nat \<Rightarrow> TaxiTripRecord) \<Rightarrow> string \<Rightarrow> TaxiTripStore \<Rightarrow> (IngestStats \<times> TaxiTripStore) option"
where
  "ingestSerialDirectory fs junk dirPath store =
     map_option (\<lambda>files. ingest_files fs junk 0 files no_stats store) (listCSVFiles fs dirPath)"

definition parallel_slots :: "(nat \<Rightarrow> 'a) \<Rightarrow> schedule \<Rightarrow> 'a list \<Rightarrow> 'a list" where
  \<comment> \<open>a parallel loop whose iteration \<open>i\<close> writes slot \<open>i\<close>, in the order of the schedule\<close>
  "parallel_slots f sched slots = fold (\<lambda>i slots. slots[i := f i]) (concat sched) slots"

definition ingestParallelDirectory_OpenMP ::
  "file_system \<Rightarrow> (nat \<Rightarrow> TaxiTripRecord) \<Rightarrow> schedule \<Rightarrow> string \<Rightarrow> TaxiTripStore \<Rightarrow> (IngestStats \<times> TaxiTripStore) option"
where
  "ingestParallelDirectory_OpenMP fs junk sched dirPath store =
     map_option (\<lambda>files.
       let per = parallel_slots (\<lambda>i. ingestOneFile fs (junk i) (files ! i)) sched
                   (replicate (length files) (no_stats, []))
       in fold (\<lambda>(st, recs) (tot, store). (add_stats tot st, appendAll recs store)) per (no_stats, store))
     (listCSVFiles fs dirPath)"

fun ingest_files_SoA ::
  "file_system \<Rightarrow> (nat \<Rightarrow> TaxiTripRecord) \<Rightarrow> nat \<Rightarrow> string list \<Rightarrow> IngestStats \<Rightarrow> TaxiTripStoreSoA \<Rightarrow> IngestStats \<times> TaxiTripStoreSoA"
where
  "ingest_files_SoA fs junk i [] tot store = (tot, store)"
| "ingest_files_SoA fs junk i (file # files) tot store =
     (case ingestOneFileToSoA fs (junk i) file (soa_clear empty_soa) of (st, local) \<Rightarrow>
        ingest_files_SoA fs junk (i + 1) files (add_stats tot st) (soa_appendAll store local))"

definition ingestSerialDirectory_SoA ::
  "file_system \<Rightarrow> (nat \<Rightarrow> TaxiTripRecord) \<Rightarrow> string \<Rightarrow> TaxiTripStoreSoA \<Rightarrow> (IngestStats \<times> TaxiTripStoreSoA) option"
where
  "ingestSerialDirectory_SoA fs junk dirPath store =
     map_option (\<lambda>files. ingest_files_SoA fs junk 0 files no_stats store) (listCSVFiles fs dirPath)"

definition ingestParallelDirectory_OpenMP_SoA ::
  "file_system \<Rightarrow> (nat \<Rightarrow> TaxiTripRecord) \<Rightarrow> schedule \<Rightarrow> string \<Rightarrow> TaxiTripStoreSoA \<Rightarrow> (IngestStats \<times> TaxiTripStoreSoA) option"
where
  "ingestParallelDirectory_OpenMP_SoA fs junk sched dirPath store =
     map_option (\<lambda>files.
       let per = parallel_slots (\<lambda>i. ingestOneFileToSoA fs (junk i) (files ! i) empty_soa) sched
                   (replicate (length files) (no_stats, empty_soa))
       in fold (\<lambda>(st, local) (tot, store). (add_stats tot st, soa_appendAll store local)) per (no_stats, store))
     (listCSVFiles fs dirPath)"

end
