(* ===== verification/Record_Properties.thy ===== *)
theory Record_Properties
  imports Record_Ingest Taxi_Scans
begin

text \<open>
  What implementation A promises: the column store answers every query like the row store, the
  parallel queries and ingestions give the serial results under every schedule and interleaving, the
  two phases store the same rows except those that do not parse, and quoted columns are read back.
\<close>

section \<open>Ingestion as lists of rows\<close>

fun parse_all :: "RecordColumns \<Rightarrow> TaxiTripRecord \<Rightarrow> string list list \<Rightarrow> (bool \<times> TaxiTripRecord) list" where
  "parse_all idx rec [] = []"
| "parse_all idx rec (cols # rows) =
     parse_record cols idx rec # parse_all idx (snd (parse_record cols idx rec)) rows"

definition file_records :: "file_system \<Rightarrow> TaxiTripRecord \<Rightarrow> string \<Rightarrow> (bool \<times> TaxiTripRecord) list" where
  "file_records fs junk path =
     (if path = [] then []
      else case reader_open fs path of
        Some (h # ls) \<Rightarrow>
          parse_all (buildColumnIndex (buildHeaderMap h)) junk (map splitCSV (filter (\<lambda>l. l \<noteq> []) ls))
      | _ \<Rightarrow> [])"

definition stats_of :: "(bool \<times> TaxiTripRecord) list \<Rightarrow> IngestStats" where
  "stats_of rs = \<lparr> is_rowsRead = length rs, is_parseFailures = length (filter (Not \<circ> fst) rs) \<rparr>"

definition one_file :: "csv_reader \<Rightarrow> bool" where
  "one_file r \<longleftrightarrow> length (cr_files r) \<le> cr_currentFileIndex r + 1"

lemma readRow_end: "one_file r \<Longrightarrow> cr_file r = Some [] \<Longrightarrow> fst (readRow fs r) = None"
  by (simp add: readRow.simps [of fs r] openNextFile_def one_file_def Let_def)

lemma ingest_rows_one_file:
  assumes "one_file r" and "cr_file r = Some ls"
  shows "ingest_rows fs idx put r rec st out =
    (let rs = parse_all idx rec (map splitCSV (filter (\<lambda>l. l \<noteq> []) ls))
     in (fold (\<lambda>x. count_row (fst x)) rs st, fold (\<lambda>x. put (fst x) (snd x)) rs out))"
  using assms
proof (induction ls arbitrary: r rec st out)
  case Nil
  then obtain r' where "readRow fs r = (None, r')" using readRow_end by (metis prod.collapse)
  then show ?case by (simp add: ingest_rows.simps)
next
  case (Cons l ls)
  let ?r = "r\<lparr>cr_file := Some ls\<rparr>"
  have one: "one_file ?r" "cr_file ?r = Some ls" using Cons.prems by (simp_all add: one_file_def)
  show ?case
  proof (cases "l = []")
    case True
    then have "readRow fs r = readRow fs ?r" using Cons.prems by (simp add: readRow.simps [of fs r])
    then have "ingest_rows fs idx put r rec st out = ingest_rows fs idx put ?r rec st out"
      by (simp add: ingest_rows.simps)
    then show ?thesis using Cons.IH [OF one] True by simp
  next
    case False
    then have "readRow fs r = (Some (splitCSV l), ?r)" using Cons.prems by (simp add: readRow.simps [of fs r])
    then show ?thesis using Cons.IH [OF one] False
      by (simp add: ingest_rows.simps [of fs idx put r] Let_def split: prod.splits)
  qed
qed

lemma ingest_file_records:
  "ingest_file fs put junk path out =
    (fold (\<lambda>x. count_row (fst x)) (file_records fs junk path) no_stats,
     fold (\<lambda>x. put (fst x) (snd x)) (file_records fs junk path) out)"
proof (cases "path = [] \<or> reader_open fs path \<in> {None, Some []}")
  case True
  then show ?thesis
    by (auto simp: ingest_file_def new_CSVReader_def reader_isOpen_def readHeader_def file_records_def Let_def)
next
  case False
  then obtain h ls where o: "reader_open fs path = Some (h # ls)" by (metis insertCI list.exhaust option.exhaust)
  let ?r = "\<lparr> cr_file = Some ls, cr_headerMap = buildHeaderMap h, cr_files = [path], cr_currentFileIndex = 0 \<rparr>"
  have "one_file ?r" "cr_file ?r = Some ls" by (simp_all add: one_file_def)
  from ingest_rows_one_file [OF this] show ?thesis using False o
    by (simp add: ingest_file_def new_CSVReader_def reader_isOpen_def readHeader_def file_records_def Let_def)
qed

lemma fold_count_row: "fold (\<lambda>x. count_row (fst x)) rs st = add_stats st (stats_of rs)"
  by (induction rs arbitrary: st) (simp_all add: count_row_def add_stats_def stats_of_def)

lemma add_no_stats [simp]: "add_stats no_stats s = s" "add_stats s no_stats = s"
  by (simp_all add: add_stats_def no_stats_def)

lemma ingestOneFile_records:
  "ingestOneFile fs junk path = (stats_of (file_records fs junk path), map snd (file_records fs junk path))"
proof -
  have "fold (\<lambda>x out. out @ [snd x]) rs out = out @ map snd rs" for rs :: "(bool \<times> TaxiTripRecord) list" and out
    by (induction rs arbitrary: out) simp_all
  then show ?thesis by (simp add: ingestOneFile_def ingest_file_records fold_count_row)
qed

definition accepted :: "(bool \<times> TaxiTripRecord) list \<Rightarrow> TaxiTripRecord list" where
  "accepted rs = map snd (filter fst rs)"

lemma ingestOneFileToSoA_records:
  assumes "soa_ok s"
  shows "case ingestOneFileToSoA fs junk path s of (st, t) \<Rightarrow>
    st = stats_of (file_records fs junk path) \<and> soa_ok t \<and>
    soa_records t = soa_records s @ accepted (file_records fs junk path)"
proof -
  have "soa_ok (fold (\<lambda>x out. if fst x then soa_push (snd x) out else out) rs t) \<and>
      soa_records (fold (\<lambda>x out. if fst x then soa_push (snd x) out else out) rs t) = soa_records t @ accepted rs"
    if "soa_ok t" for rs t
    using that by (induction rs arbitrary: t) (simp_all add: accepted_def soa_push_ok)
  then show ?thesis using assms by (simp add: ingestOneFileToSoA_def ingest_file_records fold_count_row)
qed

definition directory_records :: "file_system \<Rightarrow> (nat \<Rightarrow> TaxiTripRecord) \<Rightarrow> string list \<Rightarrow> (bool \<times> TaxiTripRecord) list" where
  "directory_records fs junk files = concat (map (\<lambda>i. file_records fs (junk i) (files ! i)) [0..<length files])"

lemma stats_append: "add_stats (stats_of a) (stats_of b) = stats_of (a @ b)"
  by (simp add: add_stats_def stats_of_def)

lemma add_stats_assoc: "add_stats (add_stats a b) c = add_stats a (add_stats b c)"
  by (simp add: add_stats_def)

lemma stats_Nil: "no_stats = stats_of []"
  by (simp add: no_stats_def stats_of_def)

lemma fold_addRecord: "fold addRecord xs s = s @ xs"
  by (induction xs arbitrary: s) (simp_all add: addRecord_def)

lemma enum_concat: "concat (map (\<lambda>j. f (n + j) ((x # xs) ! j)) [0..<length (x # xs)]) =
    f n x @ concat (map (\<lambda>j. f (Suc n + j) (xs ! j)) [0..<length xs])"
proof -
  have "[0..<length (x # xs)] = 0 # map Suc [0..<length xs]"
    by (simp only: list.size(4) add_0_right add_Suc_right upt_conv_Cons zero_less_Suc map_Suc_upt)
  then show ?thesis by (simp add: comp_def)
qed

lemma ingest_files_records:
  "ingest_files fs junk n files tot store =
    (let rs = concat (map (\<lambda>j. file_records fs (junk (n + j)) (files ! j)) [0..<length files])
     in (add_stats tot (stats_of rs), store @ map snd rs))"
proof (induction files arbitrary: n tot store)
  case Nil
  then show ?case by (simp flip: stats_Nil)
next
  case (Cons path paths)
  have "concat (map (\<lambda>j. file_records fs (junk (n + j)) ((path # paths) ! j)) [0..<length (path # paths)]) =
      file_records fs (junk n) path @ concat (map (\<lambda>j. file_records fs (junk (Suc n + j)) (paths ! j)) [0..<length paths])"
    by (rule enum_concat [where f = "\<lambda>i. file_records fs (junk i)"])
  then show ?case
    by (simp add: ingestOneFile_records Cons.IH Let_def fold_addRecord add_stats_assoc stats_append del: upt_Suc)
qed

lemma ingest_files_SoA_records:
  assumes "soa_ok store"
  shows "case ingest_files_SoA fs junk n files tot store of (st, t) \<Rightarrow>
    (let rs = concat (map (\<lambda>j. file_records fs (junk (n + j)) (files ! j)) [0..<length files])
     in st = add_stats tot (stats_of rs) \<and> soa_ok t \<and> soa_records t = soa_records store @ accepted rs)"
  using assms
proof (induction files arbitrary: n tot store)
  case Nil
  then show ?case by (simp add: accepted_def flip: stats_Nil)
next
  case (Cons path paths)
  have split: "concat (map (\<lambda>j. file_records fs (junk (n + j)) ((path # paths) ! j)) [0..<length (path # paths)]) =
      file_records fs (junk n) path @ concat (map (\<lambda>j. file_records fs (junk (Suc n + j)) (paths ! j)) [0..<length paths])"
    by (rule enum_concat [where f = "\<lambda>i. file_records fs (junk i)"])
  obtain st local where one: "ingestOneFileToSoA fs (junk n) path empty_soa = (st, local)" by (metis prod.exhaust)
  have l: "st = stats_of (file_records fs (junk n) path)" "soa_ok local"
    "soa_records local = accepted (file_records fs (junk n) path)"
    using ingestOneFileToSoA_records [of empty_soa fs "junk n" path] one soa_ok_empty by simp_all
  have ok: "soa_ok (soa_appendAll store local)" by (rule soa_append_ok [OF Cons.prems l(2)])
  show ?case
    using Cons.IH [OF ok, of "Suc n" "add_stats tot st"] one
    unfolding split
    by (simp add: soa_clear_empty Let_def l soa_append_records [OF Cons.prems] add_stats_assoc stats_append accepted_def
        split: prod.splits)
qed

section \<open>Parallel ingestion\<close>

lemma parallel_slots_all:
  assumes "schedule_ok sched n" and "length slots = n"
  shows "parallel_slots f sched slots = map f [0..<n]"
proof -
  have run: "fold (\<lambda>i slots. slots[i := f i]) is xs ! j = (if j \<in> set is then f j else xs ! j)"
    if "j < length xs" for "is" and xs :: "'a list" and j
    using that by (induction "is" arbitrary: xs) (auto simp: nth_list_update)
  have len: "length (fold (\<lambda>i slots. slots[i := f i]) is xs) = length xs" for "is" and xs :: "'a list"
    by (induction "is" arbitrary: xs) simp_all
  show ?thesis
    by (rule nth_equalityI)
      (use assms in \<open>auto simp: parallel_slots_def len run schedule_ok_def simp del: fold_simps\<close>)
qed

lemma fold_merge:
  "fold (\<lambda>(st, recs) (tot, store). (add_stats tot st, appendAll recs store))
      (map (\<lambda>i. ingestOneFile fs (junk i) (files ! i)) is) (tot, store) =
    (let rs = concat (map (\<lambda>i. file_records fs (junk i) (files ! i)) is)
     in (add_stats tot (stats_of rs), store @ map snd rs))"
  by (induction "is" arbitrary: tot store)
    (simp_all add: ingestOneFile_records appendAll_def add_stats_assoc stats_append Let_def flip: stats_Nil)

lemma fold_merge_SoA:
  assumes "soa_ok store"
  shows "case fold (\<lambda>(st, local) (tot, store). (add_stats tot st, soa_appendAll store local))
      (map (\<lambda>i. ingestOneFileToSoA fs (junk i) (files ! i) empty_soa) is) (tot, store) of (st, t) \<Rightarrow>
    (let rs = concat (map (\<lambda>i. file_records fs (junk i) (files ! i)) is)
     in st = add_stats tot (stats_of rs) \<and> soa_ok t \<and> soa_records t = soa_records store @ accepted rs)"
  using assms
proof (induction "is" arbitrary: tot store)
  case Nil
  then show ?case by (simp add: accepted_def flip: stats_Nil)
next
  case (Cons i "is")
  obtain st local where one: "ingestOneFileToSoA fs (junk i) (files ! i) empty_soa = (st, local)" by (metis prod.exhaust)
  have l: "st = stats_of (file_records fs (junk i) (files ! i))" "soa_ok local"
    "soa_records local = accepted (file_records fs (junk i) (files ! i))"
    using ingestOneFileToSoA_records [of empty_soa fs "junk i" "files ! i"] one soa_ok_empty by simp_all
  from Cons.IH [OF soa_append_ok [OF Cons.prems l(2)], of "add_stats tot st"] show ?case
    by (simp add: one l soa_append_records [OF Cons.prems] add_stats_assoc stats_append accepted_def Let_def split: prod.splits)
qed

lemma ingest_directory_serial:
  "listCSVFiles fs dir = Some files \<Longrightarrow>
     ingestSerialDirectory fs junk dir store =
       Some (stats_of (directory_records fs junk files), store @ map snd (directory_records fs junk files))"
  by (simp add: ingestSerialDirectory_def ingest_files_records directory_records_def Let_def)

lemma ingest_directory_parallel:
  "listCSVFiles fs dir = Some files \<Longrightarrow> schedule_ok sched (length files) \<Longrightarrow>
     ingestParallelDirectory_OpenMP fs junk sched dir store =
       Some (stats_of (directory_records fs junk files), store @ map snd (directory_records fs junk files))"
  by (simp add: ingestParallelDirectory_OpenMP_def parallel_slots_all fold_merge directory_records_def Let_def)

lemma ingest_directory_SoA:
  assumes "listCSVFiles fs dir = Some files" and "soa_ok store"
  shows "\<exists>t. ingestSerialDirectory_SoA fs junk dir store = Some (stats_of (directory_records fs junk files), t) \<and>
    soa_ok t \<and> soa_records t = soa_records store @ accepted (directory_records fs junk files)"
  using ingest_files_SoA_records [OF assms(2), of fs junk 0 files no_stats] assms(1)
  by (auto simp: ingestSerialDirectory_SoA_def directory_records_def Let_def split: prod.splits)

lemma ingest_directory_parallel_SoA:
  assumes "listCSVFiles fs dir = Some files" and "schedule_ok sched (length files)" and "soa_ok store"
  shows "\<exists>t. ingestParallelDirectory_OpenMP_SoA fs junk sched dir store =
      Some (stats_of (directory_records fs junk files), t) \<and>
    soa_ok t \<and> soa_records t = soa_records store @ accepted (directory_records fs junk files)"
  using fold_merge_SoA [OF assms(3), of fs junk files "[0..<length files]" no_stats] assms(1,2)
  by (auto simp: ingestParallelDirectory_OpenMP_SoA_def parallel_slots_all directory_records_def Let_def split: prod.splits)

section \<open>Splitting quoted columns\<close>

definition escape_column :: "string \<Rightarrow> string" where
  "escape_column s = concat (map (\<lambda>c. if c = chr_quote then [chr_quote, chr_quote] else [c]) s)"

fun quoted_line :: "string list \<Rightarrow> string" where
  "quoted_line [] = []"
| "quoted_line [s] = chr_quote # escape_column s @ [chr_quote]"
| "quoted_line (s # ss) = chr_quote # escape_column s @ [chr_quote, CHR '',''] @ quoted_line ss"

lemma split_escaped: "split_loop True cur res (escape_column s @ rest) = split_loop True (cur @ s) res rest"
  by (induction s arbitrary: cur) (simp_all add: escape_column_def)

lemma split_quoted_loop: "cols \<noteq> [] \<Longrightarrow> split_loop False [] res (quoted_line cols) = res @ cols"
  by (induction cols arbitrary: res rule: quoted_line.induct) (simp_all add: split_escaped)

section \<open>Examples\<close>

definition ex_record :: TaxiTripRecord where
  "ex_record = \<lparr> tr_vendorId = 1, tr_pickupDatetime = 1577838495000, tr_dropoffDatetime = 1577838783000,
     tr_passengerCount = 1, tr_tripDistance = 0, tr_rateCodeId = 1, tr_storeAndFwdFlag = CHR ''N'',
     tr_puLocationId = 238, tr_doLocationId = 239, tr_paymentType = 1, tr_fareAmount = 600,
     tr_extra = 300, tr_mtaTax = 50, tr_tipAmount = 147, tr_tollsAmount = 0,
     tr_improvementSurcharge = 30, tr_totalAmount = 1127, tr_congestionSurcharge = 250 \<rparr>"

definition ex_soa :: TaxiTripStoreSoA where
  "ex_soa = soa_push ex_record (soa_push (ex_record\<lparr>tr_paymentType := 2\<rparr>) (soa_push ex_record empty_soa))"

lemma ex_soa_ok: "soa_ok ex_soa \<and> soa_size ex_soa = 3"
  by (simp add: ex_soa_def soa_push_ok soa_ok_empty) (simp add: soa_size_def soa_push_def empty_soa_def)

definition ex_trips_fs :: file_system where
  "ex_trips_fs p =
     (if p = ''d'' then Some (Directory [''b.csv'', ''a.csv''])
      else if p = ''d/a.csv'' then Some (RegularFile (''payment_type'' @ [chr_newline] @ ''1'') True)
      else if p = ''d/b.csv'' then Some (RegularFile (''payment_type,passenger_count'' @ [chr_newline] @ ''1,-1'') True)
      else None)"

lemma ex_trips_list: "listCSVFiles ex_trips_fs ''d'' = Some [''d/a.csv'', ''d/b.csv'']"
  by code_simp

section \<open>Properties\<close>

text \<open>
  C37: the column store is a row store. Pushing a record and appending a store keep its columns equally
  long and append to its rows, and the serial queries return what they return on the rows; row ids are
  exact up to \<open>2 ^ 32\<close> rows and taken modulo \<open>2 ^ 32\<close> beyond.
\<close>

theorem column_store_refines_rows:
  assumes "soa_ok s" and "soa_ok t"
  shows "soa_ok (soa_push r s) \<and> soa_records (soa_push r s) = addRecord r (soa_records s) \<and>
    soa_ok (soa_appendAll s t) \<and> soa_records (soa_appendAll s t) = appendAll (soa_records t) (soa_records s) \<and>
    countSerial_SoA s q = countSerial (soa_records s) q \<and>
    executeSerial_SoA s q = map row_id (executeSerial (soa_records s) q) \<and>
    (if soa_size s \<le> 2 ^ 32 then executeSerial_SoA s q = executeSerial (soa_records s) q else True)"
proof -
  have "map row_id (matching (soa_records s) q) = matching (soa_records s) q" if "soa_size s \<le> 2 ^ 32"
    using that by (intro map_idI) (auto simp: matching_filter soa_records_def row_id_def)
  then show ?thesis
    using assms
    by (simp add: soa_push_ok soa_append_ok soa_append_records soa_queries executeSerial_matching
        countSerial_matching addRecord_def appendAll_def)
qed

lemma column_store_refines_rows_witness:
  "executeSerial_SoA ex_soa no_constraints = map row_id (executeSerial (soa_records ex_soa) no_constraints)"
  using column_store_refines_rows [of ex_soa ex_soa] ex_soa_ok by blast

text \<open>
  C38: the parallel queries are the serial ones. With a static team and any interleaving of its threads
  in the second pass, the two-pass execute leaves no entry unwritten and returns the matching rows in
  row order, as the serial execute and the query engine do, and the counts are its length.
\<close>

theorem parallel_queries_are_serial:
  assumes "team_ok team (soa_size s)" and "interleaving tids team"
  shows "executeOpenMP_SoA s q team tids = map Some (executeSerial_SoA s q) \<and>
    countOpenMP_SoA s q team = countSerial_SoA s q \<and>
    executeOpenMP (soa_records s) q team tids = map Some (executeSerial (soa_records s) q) \<and>
    countOpenMP (soa_records s) q team = countSerial (soa_records s) q \<and>
    engine_execute (soa_records s) q = executeSerial (soa_records s) q \<and>
    engine_count (soa_records s) q = length (executeSerial (soa_records s) q)"
proof -
  have "length (soa_records s) = soa_size s" by (simp add: soa_records_def)
  then show ?thesis
    using parallel_row_queries [of team "soa_records s" tids q] assms
    by (simp add: parallel_soa_queries [OF assms] soa_queries executeSerial_matching countSerial_matching
        engine_execute_matching engine_count_matching)
qed

lemma parallel_queries_are_serial_witness:
  "executeOpenMP_SoA ex_soa no_constraints [[0, 1], [2]] [1, 0, 0] = map Some (executeSerial_SoA ex_soa no_constraints)"
proof -
  have "team_ok [[0, 1], [2]] (soa_size ex_soa)" by (simp add: team_ok_def ex_soa_ok upt_conv_Cons)
  moreover have "interleaving [1, 0, 0] [[0, 1], [2]]" by (simp add: interleaving_def less_Suc_eq numeral_eq_Suc)
  ultimately show ?thesis using parallel_queries_are_serial by blast
qed



text \<open>
  A parsed row overwrites every field of the reused record but one: a row without a
  store-and-forward flag keeps the flag of the row before it, and at the start of a file whatever the
  uninitialised record holds.
\<close>

theorem row_keeps_only_flag:
  "let (ok, r') = parse_record cols idx r; flag = getIf cols (rc_storeAndFwdFlag idx)
   in (ok, r') = (fst (parse_record cols idx r0),
        (snd (parse_record cols idx r0))
          \<lparr>tr_storeAndFwdFlag := (if isNullOrEmpty flag then tr_storeAndFwdFlag r else hd flag)\<rparr>)"
  by (simp add: parse_record_def Let_def)

text \<open>
  Quoting is read back: a line of columns each put in quotes, with the quotes inside doubled, is
  split into the same columns, whatever commas and quotes they contain.
\<close>

lemma split_quoted_roundtrip:
  assumes "cols \<noteq> []"
  shows "splitCSV (quoted_line cols) = cols"
  using split_quoted_loop [OF assms, of "[]"] by (simp add: splitCSV_def)

lemma split_quoted_roundtrip_witness:
  "splitCSV (quoted_line [''a,b'', [chr_quote], []]) = [''a,b'', [chr_quote], []]"
  by (rule split_quoted_roundtrip) simp

text \<open>
  Amounts from 2 ^ 31 cents on wrap around instead of failing, and a count that does not fit 16 bits is
  cut to its low bits.
\<close>

lemma record_amounts_wrap:
  "toInt32 ''21474836.47'' = 2147483647 \<and> toInt32 ''21474836.48'' = - 2147483648 \<and>
   toInt16 ''70000'' = 4464 \<and> toInt32 ''12.30'' = 1230"
  by (intro conjI; code_simp)

end
