(* ===== verification/Dataset_Bench.thy ===== *)
theory Dataset_Bench
  imports Complex_Main Taxi_Scans Query_Client
begin

text \<open>
  The benchmark of the stand-alone data set (\<open>src/basic/src/metrics/BenchmarkRunner.cpp\<close>) and its program
  (\<open>src/basic/src/apps/streamingmain.cpp\<close>). A finite \<open>double\<close> is its rational value; \<open>rnd\<close> rounds to the
  nearest one, so each floating point operation is \<open>rnd\<close> of the exact result. The durations the steady
  clock measures are a parameter, and so is whether the results file opens. Console output is left out.
\<close>

section \<open>One run\<close>

record BenchmarkStats =
  bs_result :: DatasetResult
  bs_sec :: rat
  bs_mib :: rat
  bs_rows_per_sec :: rat
  bs_mib_per_sec :: rat
  bs_fail_pct :: rat
  bs_sel_pct :: rat

definition makeStats :: "(rat \<Rightarrow> rat) \<Rightarrow> DatasetResult \<Rightarrow> rat \<Rightarrow> rat \<Rightarrow> BenchmarkStats" where
  "makeStats rnd r elapsedSeconds totalMiB =
     (let sec = (if elapsedSeconds \<le> 0 then rnd (1 / 10 ^ 9) else elapsedSeconds);
          scanned = rnd (of_nat (dr_rows_scanned r));
          matched = rnd (of_nat (dr_rows_matched r));
          failed = rnd (of_nat (dr_rows_parse_failed r))
      in \<lparr> bs_result = r, bs_sec = sec, bs_mib = totalMiB,
           bs_rows_per_sec = (if sec > 0 then rnd (scanned / sec) else 0),
           bs_mib_per_sec = (if sec > 0 then rnd (totalMiB / sec) else 0),
           bs_fail_pct = (if dr_rows_scanned r > 0 then rnd (rnd (failed / scanned) * 100) else 0),
           bs_sel_pct = (if dr_rows_scanned r > 0 then rnd (rnd (matched / scanned) * 100) else 0) \<rparr>)"

definition file_size :: "file_system \<Rightarrow> string \<Rightarrow> nat" where
  "file_size fs p = (case fs p of Some (RegularFile content _) \<Rightarrow> length content | _ \<Rightarrow> 0)"

definition to_mib :: "(rat \<Rightarrow> rat) \<Rightarrow> nat \<Rightarrow> rat" where
  "to_mib rnd bytes = rnd (rnd (of_nat bytes) / (1024 * 1024))"

definition dir_bytes :: "file_system \<Rightarrow> string \<Rightarrow> nat" where
  \<comment> \<open>the sizes of the regular \<open>.csv\<close> entries, added up in 64 bits; an exception leaves the sum so far\<close>
  "dir_bytes fs dirPath =
     (case fs dirPath of
        Some (Directory names) \<Rightarrow> fold (\<lambda>p n. (n + file_size fs p) mod 2 ^ 64) (dir_entries fs dirPath names) 0
      | _ \<Rightarrow> 0)"

definition runOnceDir :: "(rat \<Rightarrow> rat) \<Rightarrow> file_system \<Rightarrow> string \<Rightarrow> trip_predicate \<Rightarrow> rat \<Rightarrow> BenchmarkStats" where
  "runOnceDir rnd fs dirPath predicate elapsed =
     makeStats rnd (queryDir fs never dirPath predicate) elapsed (to_mib rnd (dir_bytes fs dirPath))"

definition runOnceFile :: "(rat \<Rightarrow> rat) \<Rightarrow> file_system \<Rightarrow> string \<Rightarrow> trip_predicate \<Rightarrow> rat \<Rightarrow> BenchmarkStats" where
  "runOnceFile rnd fs csvFilePath predicate elapsed =
     makeStats rnd (queryFiles fs never [csvFilePath] predicate) elapsed
       (to_mib rnd (if is_regular fs csvFilePath then file_size fs csvFilePath else 0))"

definition runOnceDirParallel ::
  "(rat \<Rightarrow> rat) \<Rightarrow> file_system \<Rightarrow> string \<Rightarrow> trip_predicate \<Rightarrow> schedule \<Rightarrow> rat \<Rightarrow> BenchmarkStats"
where
  "runOnceDirParallel rnd fs dirPath predicate sched elapsed =
     makeStats rnd (queryDirParallel fs (\<lambda>_. never) dirPath predicate sched) elapsed (to_mib rnd (dir_bytes fs dirPath))"

section \<open>Summaries\<close>

record BenchSummary =
  sm_runs :: int
  sm_threads :: int
  sm_avg_sec :: rat
  sm_min_sec :: rat
  sm_max_sec :: rat
  sm_avg_rows_per_sec :: rat
  sm_avg_mib_per_sec :: rat
  sm_consistent_counts :: bool
  sm_rows_scanned :: nat
  sm_rows_matched :: nat
  sm_rows_failed :: nat

definition new_BenchSummary :: BenchSummary where
  "new_BenchSummary = \<lparr> sm_runs = 0, sm_threads = 1, sm_avg_sec = 0, sm_min_sec = 0, sm_max_sec = 0,
     sm_avg_rows_per_sec = 0, sm_avg_mib_per_sec = 0, sm_consistent_counts = True, sm_rows_scanned = 0,
     sm_rows_matched = 0, sm_rows_failed = 0 \<rparr>"

definition same_counts :: "DatasetResult \<Rightarrow> DatasetResult \<Rightarrow> bool" where
  "same_counts a b \<longleftrightarrow> dr_rows_scanned a = dr_rows_scanned b \<and> dr_rows_matched a = dr_rows_matched b \<and>
     dr_rows_parse_failed a = dr_rows_parse_failed b"

definition summary_step ::
  "(rat \<Rightarrow> rat) \<Rightarrow> DatasetResult \<Rightarrow> BenchmarkStats \<Rightarrow> rat \<times> rat \<times> rat \<times> BenchSummary \<Rightarrow> rat \<times> rat \<times> rat \<times> BenchSummary"
where
  \<comment> \<open>the loop body: three sums, the extremes, and the comparison with the first run\<close>
  "summary_step rnd first r = (\<lambda>(sum_sec, sum_rps, sum_mibps, out).
     (rnd (sum_sec + bs_sec r), rnd (sum_rps + bs_rows_per_sec r), rnd (sum_mibps + bs_mib_per_sec r),
      out\<lparr>sm_min_sec := (if bs_sec r < sm_min_sec out then bs_sec r else sm_min_sec out),
          sm_max_sec := (if bs_sec r > sm_max_sec out then bs_sec r else sm_max_sec out),
          sm_consistent_counts := (if \<not> same_counts (bs_result r) first then False else sm_consistent_counts out)\<rparr>))"

definition computeSummary :: "(rat \<Rightarrow> rat) \<Rightarrow> BenchmarkStats list \<Rightarrow> int \<Rightarrow> BenchSummary" where
  "computeSummary rnd runs threads =
     (let out = new_BenchSummary\<lparr>sm_runs := to_signed 32 (int (length runs)), sm_threads := (if threads \<le> 0 then 1 else threads)\<rparr>
      in case runs of
        [] \<Rightarrow> out
      | r # _ \<Rightarrow>
          let first = bs_result r;
              out = out\<lparr>sm_min_sec := bs_sec r, sm_max_sec := bs_sec r, sm_rows_scanned := dr_rows_scanned first,
                sm_rows_matched := dr_rows_matched first, sm_rows_failed := dr_rows_parse_failed first\<rparr>
          in case fold (summary_step rnd first) runs (0, 0, 0, out) of (sum_sec, sum_rps, sum_mibps, out) \<Rightarrow>
            let n = rnd (of_nat (length runs))
            in out\<lparr>sm_avg_sec := rnd (sum_sec / n), sm_avg_rows_per_sec := rnd (sum_rps / n),
                   sm_avg_mib_per_sec := rnd (sum_mibps / n)\<rparr>)"

section \<open>The results file\<close>

definition round_even :: "rat \<Rightarrow> int" where
  "round_even x = (let f = \<lfloor>x\<rfloor>; d = x - of_int f
     in if d < 1 / 2 then f else if d > 1 / 2 then f + 1 else if even f then f else f + 1)"

definition show_fixed :: "nat \<Rightarrow> rat \<Rightarrow> string" where
  \<comment> \<open>\<open>std::fixed << std::setprecision(p)\<close>\<close>
  "show_fixed p x =
     (let n = nat (round_even (abs x * 10 ^ p)); frac = show_nat (n mod 10 ^ p)
      in (if x < 0 then ''-'' else []) @ show_nat (n div 10 ^ p) @
         (if p = 0 then [] else ''.'' @ replicate (p - length frac) (CHR ''0'') @ frac))"

definition csv_header :: string where
  "csv_header = ''experiment,threads,runs,avg_sec,min_sec,max_sec,avg_rows_per_sec,avg_mib_per_sec,'' @
     ''consistent_counts,rows_scanned,rows_matched,rows_failed'' @ [chr_newline]"

definition csv_line :: "string \<Rightarrow> BenchSummary \<Rightarrow> string" where
  "csv_line experiment s =
     experiment @ '','' @ show_int (sm_threads s) @ '','' @ show_int (sm_runs s) @ '','' @
     show_fixed 6 (sm_avg_sec s) @ '','' @ show_fixed 6 (sm_min_sec s) @ '','' @ show_fixed 6 (sm_max_sec s) @ '','' @
     show_fixed 2 (sm_avg_rows_per_sec s) @ '','' @ show_fixed 2 (sm_avg_mib_per_sec s) @ '','' @
     (if sm_consistent_counts s then ''1'' else ''0'') @ '','' @ show_nat (sm_rows_scanned s) @ '','' @
     show_nat (sm_rows_matched s) @ '','' @ show_nat (sm_rows_failed s) @ [chr_newline]"

definition appendSummaryToCsv ::
  "(string \<Rightarrow> bool) \<Rightarrow> string \<Rightarrow> string \<Rightarrow> BenchSummary \<Rightarrow> file_system \<Rightarrow> bool \<times> file_system"
where
  \<comment> \<open>the parent directory is created as far as possible before; \<open>opens\<close> says whether the stream opens then\<close>
  "appendSummaryToCsv opens csvPath experiment s fs =
     (let needHeader = (\<not> is_regular fs csvPath)
      in if \<not> opens csvPath then (False, fs)
         else let (old, readable) = (case fs csvPath of Some (RegularFile c b) \<Rightarrow> (c, b) | _ \<Rightarrow> ([], True))
         in (True, fs(csvPath \<mapsto> RegularFile (old @ (if needHeader then csv_header else []) @ csv_line experiment s) readable)))"

section \<open>The program\<close>

definition parsePositiveIntOrDefault :: "string \<Rightarrow> int \<Rightarrow> int" where
  "parsePositiveIntOrDefault s def =
     (case sto_signed 32 s of Inl _ \<Rightarrow> def | Inr v \<Rightarrow> if v > 0 then v else def)"

definition data_dir :: string where "data_dir = ''../basic/data/subset''"
definition out_csv :: string where "out_csv = ''../basic/results/bench_results.csv''"

definition range_query :: trip_predicate where
  "range_query = and_add (Some (new_PickupTimeRangePredicate 1577836800000 1577923199000)) (AndPredicate [])"

record bench_env =
  \<comment> \<open>rounding, the durations measured one after the other, whether a file opens for appending, and the
      schedule of the parallel loop of each run\<close>
  be_rnd :: "rat \<Rightarrow> rat"
  be_clock :: "nat \<Rightarrow> rat"
  be_opens :: "string \<Rightarrow> bool"
  be_sched :: "nat \<Rightarrow> schedule"

definition serial_mode :: "bench_env \<Rightarrow> string \<Rightarrow> trip_predicate \<Rightarrow> int \<Rightarrow> file_system \<Rightarrow> nat \<times> BenchSummary \<times> file_system" where
  \<comment> \<open>one warm-up run, then the measured ones\<close>
  "serial_mode env experiment predicate runsCount fs =
     (let runs = map (\<lambda>i. runOnceDir (be_rnd env) fs data_dir predicate (be_clock env i)) [1..<nat runsCount + 1];
          summary = computeSummary (be_rnd env) runs 1
      in (0, summary, snd (appendSummaryToCsv (be_opens env) out_csv experiment summary fs)))"

definition parallel_mode :: "bench_env \<Rightarrow> int \<Rightarrow> file_system \<Rightarrow> nat \<times> BenchSummary \<times> file_system" where
  \<comment> \<open>the serial baseline is measured too, but only printed\<close>
  "parallel_mode env threads fs =
     (let parallelStats = runOnceDirParallel (be_rnd env) fs data_dir TruePredicate (be_sched env 1) (be_clock env 3);
          summary = computeSummary (be_rnd env) [parallelStats] threads
      in (0, summary, snd (appendSummaryToCsv (be_opens env) out_csv (''phase2_parallel_t'' @ show_int threads) summary fs)))"

definition streaming_main :: "bench_env \<Rightarrow> string list \<Rightarrow> file_system \<Rightarrow> nat \<times> BenchSummary option \<times> file_system" where
  \<comment> \<open>the arguments after the program's name; the summary is what is printed at the end\<close>
  "streaming_main env args fs =
     (case args of
        [] \<Rightarrow> (1, None, fs)
      | mode # rest \<Rightarrow>
          let runsCount = (case rest of [] \<Rightarrow> 10 | r # _ \<Rightarrow> parsePositiveIntOrDefault r 10);
              done = (\<lambda>(code, s, fs). (code, Some s, fs))
          in if mode = ''serial'' then done (serial_mode env ''phase1_serial_matchall'' TruePredicate runsCount fs)
             else if mode = ''range'' then done (serial_mode env ''phase1_serial_pickup_range'' range_query runsCount fs)
             else if mode = ''parallel'' then
               (case rest of [] \<Rightarrow> (1, None, fs)
                | t # _ \<Rightarrow> done (parallel_mode env (parsePositiveIntOrDefault t 4) fs))
             else (1, None, fs))"

end
