(* ===== verification/Record_Bench.thy ===== *)
theory Record_Bench
  imports Complex_Main Record_Properties
begin

text \<open>
  The benchmark of implementation A (\<open>apps/implementationA/benchmarkRunner.cpp\<close>, \<open>main.cpp\<close> beside it)
  and the program that loads a directory and runs one query (\<open>apps/main.cpp\<close>). As in \<open>Dataset_Bench\<close> a
  \<open>double\<close> is its rational value and \<open>rnd\<close> rounds to the nearest one; the measured durations, the
  schedules of the OpenMP loops and the contents of uninitialised records are a parameter, and reserving
  capacity and printing are left out.
\<close>

section \<open>Environment\<close>

record record_env =
  re_rnd :: "rat \<Rightarrow> rat"
  re_clock :: "nat \<Rightarrow> rat \<times> rat \<times> rat"   \<comment> \<open>ingest, count and execute time of a run\<close>
  re_junk :: "nat \<Rightarrow> nat \<Rightarrow> TaxiTripRecord"   \<comment> \<open>by run and file\<close>
  re_sched :: "nat \<Rightarrow> nat \<Rightarrow> schedule"   \<comment> \<open>of the ingest loop, by run and number of files\<close>
  re_team :: "nat \<Rightarrow> nat \<Rightarrow> team"   \<comment> \<open>of the query loops, by run and number of rows\<close>
  re_tids :: "nat \<Rightarrow> nat \<Rightarrow> nat list"   \<comment> \<open>the interleaving of the second pass\<close>

definition env_ok :: "record_env \<Rightarrow> bool" where
  \<comment> \<open>OpenMP runs every iteration once, the query loops in contiguous blocks\<close>
  "env_ok env \<longleftrightarrow> (\<forall>run n. schedule_ok (re_sched env run n) n \<and> team_ok (re_team env run n) n \<and>
     interleaving (re_tids env run n) (re_team env run n))"

datatype ingest_mode = Ingest_Serial | ParallelFiles

datatype query_mode = Query_Serial | OpenMP

section \<open>Results\<close>

record TimeStats =
  ts_avg :: rat
  ts_min :: rat
  ts_max :: rat

definition computeStats :: "(rat \<Rightarrow> rat) \<Rightarrow> rat list \<Rightarrow> TimeStats" where
  "computeStats rnd v =
     (case v of
        [] \<Rightarrow> \<lparr> ts_avg = 0, ts_min = 0, ts_max = 0 \<rparr>
      | t # _ \<Rightarrow>
          (case fold (\<lambda>x (s, lo, hi). (rnd (s + x), if x < lo then x else lo, if x > hi then x else hi)) v (0, t, t) of
             (s, lo, hi) \<Rightarrow> \<lparr> ts_avg = rnd (s / rnd (of_nat (length v))), ts_min = lo, ts_max = hi \<rparr>))"

record BenchmarkResult =
  br_runs :: nat
  br_ingestTimes :: "rat list"
  br_countTimes :: "rat list"
  br_executeTimes :: "rat list"
  br_rowsRead :: nat
  br_parseFailures :: nat
  br_rowsScanned :: nat
  br_matches :: nat
  br_ingestTimeStats :: TimeStats
  br_countTimeStats :: TimeStats
  br_executeTimeStats :: TimeStats
  br_totalDataMiB :: rat
  br_rowThroughputRowsPerSec :: rat
  br_ioThroughputMiBPerSec :: rat
  br_parseFailureRatePct :: rat
  br_selectivityPct :: rat

definition new_BenchmarkResult :: BenchmarkResult where
  "new_BenchmarkResult = (let z = \<lparr> ts_avg = 0, ts_min = 0, ts_max = 0 \<rparr> in
     \<lparr> br_runs = 0, br_ingestTimes = [], br_countTimes = [], br_executeTimes = [], br_rowsRead = 0,
       br_parseFailures = 0, br_rowsScanned = 0, br_matches = 0, br_ingestTimeStats = z, br_countTimeStats = z,
       br_executeTimeStats = z, br_totalDataMiB = 0, br_rowThroughputRowsPerSec = 0,
       br_ioThroughputMiBPerSec = 0, br_parseFailureRatePct = 0, br_selectivityPct = 0 \<rparr>)"

record bench_state =
  \<comment> \<open>the variables of the loop: the result, the sums, and the warnings printed\<close>
  bn_out :: BenchmarkResult
  bn_rowsRead :: rat
  bn_failures :: rat
  bn_rowsScanned :: rat
  bn_matches :: rat
  bn_warnings :: "(nat \<times> nat \<times> nat) list"

definition bench_start :: bench_state where
  "bench_start = \<lparr> bn_out = new_BenchmarkResult, bn_rowsRead = 0, bn_failures = 0, bn_rowsScanned = 0,
     bn_matches = 0, bn_warnings = [] \<rparr>"

section \<open>BenchmarkRunner::run\<close>

definition bench_ingest ::
  "record_env \<Rightarrow> file_system \<Rightarrow> string \<Rightarrow> ingest_mode \<Rightarrow> nat \<Rightarrow> (IngestStats \<times> TaxiTripStoreSoA) option"
where
  "bench_ingest env fs dir mode run =
     (case mode of
        ParallelFiles \<Rightarrow> ingestParallelDirectory_OpenMP_SoA fs (re_junk env run)
            (re_sched env run (case listCSVFiles fs dir of None \<Rightarrow> 0 | Some files \<Rightarrow> length files)) dir empty_soa
      | Ingest_Serial \<Rightarrow> ingestSerialDirectory_SoA fs (re_junk env run) dir empty_soa)"

definition bench_count :: "record_env \<Rightarrow> TaxiTripStoreSoA \<Rightarrow> TaxiTripQuerySpec \<Rightarrow> query_mode \<Rightarrow> nat \<Rightarrow> nat" where
  "bench_count env store query mode run =
     (case mode of
        OpenMP \<Rightarrow> countOpenMP_SoA store query (re_team env run (soa_size store))
      | Query_Serial \<Rightarrow> countSerial_SoA store query)"

definition bench_execute :: "record_env \<Rightarrow> TaxiTripStoreSoA \<Rightarrow> TaxiTripQuerySpec \<Rightarrow> query_mode \<Rightarrow> nat \<Rightarrow> nat option list" where
  \<comment> \<open>an entry that no thread wrote is \<open>None\<close>\<close>
  "bench_execute env store query mode run =
     (case mode of
        OpenMP \<Rightarrow> executeOpenMP_SoA store query (re_team env run (soa_size store)) (re_tids env run (soa_size store))
      | Query_Serial \<Rightarrow> map Some (executeSerial_SoA store query))"

definition bench_step ::
  "record_env \<Rightarrow> file_system \<Rightarrow> string \<Rightarrow> TaxiTripQuerySpec \<Rightarrow> ingest_mode \<Rightarrow> query_mode \<Rightarrow> nat \<Rightarrow> bench_state \<Rightarrow> bench_state option"
where
  \<comment> \<open>one run; \<open>None\<close> when the directory iterator throws\<close>
  "bench_step env fs dir query im qm run st =
     (case bench_ingest env fs dir im run of
        None \<Rightarrow> None
      | Some (istats, store) \<Rightarrow>
          let (t_ingest, t_count, t_execute) = re_clock env run;
              rowsScanned = soa_size store;
              matchesCount = bench_count env store query qm run;
              results = bench_execute env store query qm run;
              out = bn_out st
          in Some (st\<lparr>
               bn_out := out\<lparr>br_ingestTimes := br_ingestTimes out @ [t_ingest],
                 br_countTimes := br_countTimes out @ [t_count], br_executeTimes := br_executeTimes out @ [t_execute],
                 br_rowsRead := is_rowsRead istats, br_parseFailures := is_parseFailures istats,
                 br_rowsScanned := rowsScanned, br_matches := matchesCount, br_runs := br_runs out + 1\<rparr>,
               bn_rowsRead := re_rnd env (bn_rowsRead st + re_rnd env (of_nat (is_rowsRead istats))),
               bn_failures := re_rnd env (bn_failures st + re_rnd env (of_nat (is_parseFailures istats))),
               bn_rowsScanned := re_rnd env (bn_rowsScanned st + re_rnd env (of_nat rowsScanned)),
               bn_matches := re_rnd env (bn_matches st + re_rnd env (of_nat matchesCount)),
               bn_warnings := (if length results \<noteq> matchesCount
                 then bn_warnings st @ [(run + 1, matchesCount, length results)] else bn_warnings st)\<rparr>))"

fun bench_loop ::
  "record_env \<Rightarrow> file_system \<Rightarrow> string \<Rightarrow> TaxiTripQuerySpec \<Rightarrow> ingest_mode \<Rightarrow> query_mode \<Rightarrow> nat list \<Rightarrow> bench_state \<Rightarrow> bench_state option"
where
  "bench_loop env fs dir query im qm [] st = Some st"
| "bench_loop env fs dir query im qm (run # runs) st =
     (case bench_step env fs dir query im qm run st of
        None \<Rightarrow> None | Some st \<Rightarrow> bench_loop env fs dir query im qm runs st)"

definition bytesToMiB :: "(rat \<Rightarrow> rat) \<Rightarrow> nat \<Rightarrow> rat" where
  "bytesToMiB rnd bytes = rnd (rnd (of_nat bytes) / (1024 * 1024))"

definition bench_derived :: "(rat \<Rightarrow> rat) \<Rightarrow> bench_state \<Rightarrow> BenchmarkResult" where
  \<comment> \<open>what follows the loop; the first value of \<open>totalDataMiB\<close> is overwritten and left out\<close>
  "bench_derived rnd st =
     (let out = bn_out st; runs = length (br_ingestTimes out); out = out\<lparr>br_runs := runs\<rparr>
      in if runs = 0 then out
         else let n = rnd (of_nat runs); bytesPerRow = 8 + 8 + 4 + 2 + 4;
                  rowsRead = rnd (bn_rowsRead st / n); failures = rnd (bn_failures st / n);
                  scanned = rnd (bn_rowsScanned st / n); matches = rnd (bn_matches st / n);
                  count = computeStats rnd (br_countTimes out);
                  whole = (\<lambda>x. nat \<lfloor>x\<rfloor>)
              in out\<lparr>br_ingestTimeStats := computeStats rnd (br_ingestTimes out), br_countTimeStats := count,
                   br_executeTimeStats := computeStats rnd (br_executeTimes out),
                   br_parseFailureRatePct := (if rowsRead > 0 then rnd (rnd (100 * failures) / rowsRead)
                     else br_parseFailureRatePct out),
                   br_selectivityPct := (if scanned > 0 then rnd (rnd (100 * matches) / scanned) else br_selectivityPct out),
                   br_totalDataMiB := bytesToMiB rnd (whole rowsRead * bytesPerRow mod 2 ^ 64),
                   br_rowThroughputRowsPerSec := (if ts_avg count > 0 then rnd (scanned / ts_avg count)
                     else br_rowThroughputRowsPerSec out),
                   br_ioThroughputMiBPerSec := (if ts_avg count > 0
                     then rnd (bytesToMiB rnd (whole scanned * bytesPerRow mod 2 ^ 64) / ts_avg count)
                     else br_ioThroughputMiBPerSec out)\<rparr>)"

definition benchmark_run ::
  "record_env \<Rightarrow> file_system \<Rightarrow> string \<Rightarrow> TaxiTripQuerySpec \<Rightarrow> int \<Rightarrow> ingest_mode \<Rightarrow> query_mode \<Rightarrow>
     (BenchmarkResult \<times> (nat \<times> nat \<times> nat) list) option"
where
  \<comment> \<open>the result and the warnings\<close>
  "benchmark_run env fs dir query runs im qm =
     map_option (\<lambda>st. (bench_derived (re_rnd env) st, bn_warnings st))
       (bench_loop env fs dir query im qm [0..<nat runs] bench_start)"

definition first_day_query :: TaxiTripQuerySpec where
  "first_day_query = totalBetween 1000 2000 (paymentTypeIs 1 (distanceBetween 0x3F800000 0x40400000
     (pickupBetween 1577836800000 1577923200000 no_constraints)))"

definition bench_program :: "record_env \<Rightarrow> file_system \<Rightarrow> (BenchmarkResult \<times> (nat \<times> nat \<times> nat) list) option" where
  \<comment> \<open>\<open>main\<close>: one run over the data directory, in parallel\<close>
  "bench_program env fs = benchmark_run env fs ''../../basic/data/'' first_day_query 1 ParallelFiles OpenMP"

section \<open>Loading and querying a directory\<close>

function load_rows ::
  "file_system \<Rightarrow> RecordColumns \<Rightarrow> (nat \<Rightarrow> TaxiTripRecord) \<Rightarrow> nat \<Rightarrow> csv_reader \<Rightarrow> TaxiTripStore \<Rightarrow> TaxiTripStore"
where
  \<comment> \<open>the loop of \<open>apps/main.cpp\<close>: a record of its own for every row, stored when it parses\<close>
  "load_rows fs idx junk i reader store =
     (case readRow fs reader of
        (None, _) \<Rightarrow> store
      | (Some cols, reader) \<Rightarrow>
          (case parse_record cols idx (junk i) of (ok, rec) \<Rightarrow>
             load_rows fs idx junk (i + 1) reader (if ok then addRecord rec store else store)))"
  by pat_completeness auto

termination load_rows
  by (relation "measures [\<lambda>(fs, idx, junk, i, r, store). files_left r,
      \<lambda>(fs, idx, junk, i, r, store). reader_left (cr_file r)]")
    (auto dest!: sym [of "(_, _)"] readRow_left)

definition first_hour_query :: TaxiTripQuerySpec where
  "first_hour_query = paymentTypeIs 1 (totalBetween 1000 2000 (distanceBetween 0x3F800000 0x40400000
     (pickupBetween 1577836800000 1577840400000 no_constraints)))"

datatype load_end =
  Load_Exit nat
| Division_By_Zero TaxiTripStore   \<comment> \<open>\<open>store.size() / duration.count()\<close> after less than a millisecond\<close>
| Load_Throws
| Loaded TaxiTripStore "nat list"   \<comment> \<open>the store and the rows of the query's answer\<close>

definition load_main :: "file_system \<Rightarrow> (nat \<Rightarrow> TaxiTripRecord) \<Rightarrow> int \<Rightarrow> load_end" where
  \<comment> \<open>with the whole milliseconds the loading took\<close>
  "load_main fs junk millis =
     (case fromDirectory fs ''../../basic/data/'' of
        None \<Rightarrow> Load_Throws
      | Some reader \<Rightarrow>
          if \<not> reader_isOpen reader then Load_Exit 1
          else case readHeader reader of (ok, reader) \<Rightarrow>
            if \<not> ok then Load_Exit 1
            else let store = load_rows fs (buildColumnIndex (cr_headerMap reader)) junk 0 reader []
                 in if millis = 0 then Division_By_Zero store
                    else Loaded store (engine_execute store first_hour_query))"

end
