(* ===== verification/Bench_Properties.thy ===== *)
theory Bench_Properties
  imports Dataset_Bench Record_Bench Taxi_Properties
begin

text \<open>
  What the two benchmarks report: counts that do not depend on modes, threads or schedules, and summaries
  that are what their names say.
\<close>

section \<open>Implementation A\<close>

lemma bench_step_eq:
  assumes "env_ok env" and "listCSVFiles fs dir = Some files"
  defines "rs \<equiv> \<lambda>run. directory_records fs (re_junk env run) files"
  shows "\<exists>st'. bench_step env fs dir query im qm run st = Some st' \<and> bn_warnings st' = bn_warnings st \<and>
    br_ingestTimes (bn_out st') = br_ingestTimes (bn_out st) @ [fst (re_clock env run)] \<and>
    br_rowsRead (bn_out st') = length (rs run) \<and>
    br_parseFailures (bn_out st') = length (filter (\<lambda>r. \<not> fst r) (rs run)) \<and>
    br_rowsScanned (bn_out st') = length (accepted (rs run)) \<and>
    br_matches (bn_out st') = length (matching (accepted (rs run)) query)"
proof -
  have omp: "schedule_ok (re_sched env run n) n" "team_ok (re_team env run n) n"
    "interleaving (re_tids env run n) (re_team env run n)" for n
    using assms(1) by (simp_all add: env_ok_def)
  obtain t where ingest: "bench_ingest env fs dir im run = Some (stats_of (rs run), t)"
    and ok: "soa_ok t" and records: "soa_records t = accepted (rs run)"
  proof (cases im)
    case Ingest_Serial
    then show thesis
      using ingest_directory_SoA [OF assms(2) soa_ok_empty [THEN conjunct1], where junk = "re_junk env run"] that soa_ok_empty
      by (auto simp: bench_ingest_def rs_def)
  next
    case ParallelFiles
    then show thesis
      using ingest_directory_parallel_SoA [OF assms(2) omp(1) soa_ok_empty [THEN conjunct1], where junk = "re_junk env run"] that soa_ok_empty
      by (auto simp: bench_ingest_def rs_def assms(2))
  qed
  have count: "bench_count env t query qm run = length (matching (accepted (rs run)) query)"
    by (cases qm) (simp_all add: bench_count_def parallel_soa_queries [OF omp(2,3)] soa_queries records)
  have execute: "length (bench_execute env t query qm run) = length (matching (accepted (rs run)) query)"
    by (cases qm) (simp_all add: bench_execute_def parallel_soa_queries [OF omp(2,3)] soa_queries records)
  have "soa_size t = length (accepted (rs run))"
    using arg_cong [OF records, of length] by (simp add: soa_records_def)
  then show ?thesis
    by (simp add: bench_step_def ingest count execute stats_of_def comp_def Let_def split: prod.split)
qed

lemma bench_loop_eq:
  assumes "env_ok env" and "listCSVFiles fs dir = Some files"
  defines "rs \<equiv> \<lambda>run. directory_records fs (re_junk env run) files"
  shows "\<exists>st'. bench_loop env fs dir query im qm runs st = Some st' \<and> bn_warnings st' = bn_warnings st \<and>
    length (br_ingestTimes (bn_out st')) = length (br_ingestTimes (bn_out st)) + length runs \<and>
    (runs \<noteq> [] \<longrightarrow> br_rowsRead (bn_out st') = length (rs (last runs)) \<and>
      br_parseFailures (bn_out st') = length (filter (\<lambda>r. \<not> fst r) (rs (last runs))) \<and>
      br_rowsScanned (bn_out st') = length (accepted (rs (last runs))) \<and>
      br_matches (bn_out st') = length (matching (accepted (rs (last runs))) query))"
proof (induction runs arbitrary: st)
  case (Cons run runs)
  obtain st1 where one: "bench_step env fs dir query im qm run st = Some st1" "bn_warnings st1 = bn_warnings st"
    "br_ingestTimes (bn_out st1) = br_ingestTimes (bn_out st) @ [fst (re_clock env run)]"
    "br_rowsRead (bn_out st1) = length (rs run)" "br_parseFailures (bn_out st1) = length (filter (\<lambda>r. \<not> fst r) (rs run))"
    "br_rowsScanned (bn_out st1) = length (accepted (rs run))"
    "br_matches (bn_out st1) = length (matching (accepted (rs run)) query)"
    using bench_step_eq [OF assms(1,2), of query im qm run st] unfolding rs_def by blast
  obtain st2 where two: "bench_loop env fs dir query im qm runs st1 = Some st2" "bn_warnings st2 = bn_warnings st1"
    "length (br_ingestTimes (bn_out st2)) = length (br_ingestTimes (bn_out st1)) + length runs"
    "runs \<noteq> [] \<longrightarrow> br_rowsRead (bn_out st2) = length (rs (last runs)) \<and>
      br_parseFailures (bn_out st2) = length (filter (\<lambda>r. \<not> fst r) (rs (last runs))) \<and>
      br_rowsScanned (bn_out st2) = length (accepted (rs (last runs))) \<and>
      br_matches (bn_out st2) = length (matching (accepted (rs (last runs))) query)"
    using Cons.IH [of st1] by blast
  show ?case
  proof (cases "runs = []")
    case True
    with one two(1) show ?thesis by simp
  next
    case False
    with one two show ?thesis by simp
  qed
qed simp

lemma bench_derived_counts:
  "br_rowsRead (bench_derived rnd st) = br_rowsRead (bn_out st)"
  "br_parseFailures (bench_derived rnd st) = br_parseFailures (bn_out st)"
  "br_rowsScanned (bench_derived rnd st) = br_rowsScanned (bn_out st)"
  "br_matches (bench_derived rnd st) = br_matches (bn_out st)"
  "br_runs (bench_derived rnd st) = length (br_ingestTimes (bn_out st))"
  by (simp_all add: bench_derived_def Let_def)

section \<open>The data set\<close>

definition bench_rows :: "file_system \<Rightarrow> data_line list" where
  \<comment> \<open>the data lines of the files both modes read\<close>
  "bench_rows fs =
     (case fs data_dir of Some (Directory names) \<Rightarrow> files_data fs (sort (dir_entries fs data_dir names)) | _ \<Rightarrow> [])"

definition reports :: "trip_predicate \<Rightarrow> data_line list \<Rightarrow> BenchSummary \<Rightarrow> bool" where
  "reports pred rows s \<longleftrightarrow> sm_consistent_counts s \<and> sm_rows_scanned s = length rows \<and>
     sm_rows_matched s = length (List.map_filter (line_trip pred) rows) \<and>
     sm_rows_failed s = length (filter (\<lambda>r. \<not> line_parses r) rows)"

lemma queryDir_rows: "queryDir fs never data_dir pred = counts_of pred (bench_rows fs)"
  by (simp add: queryDir_def bench_rows_def queryFiles_never split: option.split fs_node.split)

lemma queryDirParallel_rows:
  assumes "\<And>names. fs data_dir = Some (Directory names) \<Longrightarrow> schedule_ok sched (length (dir_entries fs data_dir names))"
  shows "queryDirParallel fs (\<lambda>_. never) data_dir pred sched = counts_of pred (bench_rows fs)"
proof (cases "\<exists>names. fs data_dir = Some (Directory names)")
  case True
  then obtain names where "fs data_dir = Some (Directory names)" by blast
  with queryFilesParallel_never [of sched "sort (dir_entries fs data_dir names)" fs pred] assms [OF this] show ?thesis
    by (simp add: queryDirParallel_def bench_rows_def)
qed (auto simp: queryDirParallel_def bench_rows_def split: option.split fs_node.split)

lemma summary_fold:
  "case fold (summary_step rnd first) runs (a, b, c, out) of (a', b', c', out') \<Rightarrow>
     sm_runs out' = sm_runs out \<and> sm_rows_scanned out' = sm_rows_scanned out \<and>
     sm_rows_matched out' = sm_rows_matched out \<and> sm_rows_failed out' = sm_rows_failed out \<and>
     sm_threads out' = sm_threads out \<and>
     (sm_consistent_counts out' \<longleftrightarrow> sm_consistent_counts out \<and> (\<forall>r \<in> set runs. same_counts (bs_result r) first)) \<and>
     sm_min_sec out' = Min (insert (sm_min_sec out) (bs_sec ` set runs)) \<and>
     sm_max_sec out' = Max (insert (sm_max_sec out) (bs_sec ` set runs))"
proof (induction runs arbitrary: a b c out)
  case (Cons r runs)
  let ?out = "out\<lparr>sm_min_sec := if bs_sec r < sm_min_sec out then bs_sec r else sm_min_sec out,
      sm_max_sec := if bs_sec r > sm_max_sec out then bs_sec r else sm_max_sec out,
      sm_consistent_counts := if \<not> same_counts (bs_result r) first then False else sm_consistent_counts out\<rparr>"
  have lo: "Min (insert (sm_min_sec ?out) X) = Min (insert (sm_min_sec out) (insert (bs_sec r) X))"
    and hi: "Max (insert (sm_max_sec ?out) X) = Max (insert (sm_max_sec out) (insert (bs_sec r) X))" if "finite X" for X
    using that by (cases "X = {}"; auto simp: min_def max_def)+
  have "finite (bs_sec ` set runs)" by simp
  note lo = lo [OF this] and hi = hi [OF this]
  have step: "summary_step rnd first r (a, b, c, out) = (rnd (a + bs_sec r), rnd (b + bs_rows_per_sec r), rnd (c + bs_mib_per_sec r), ?out)"
    by (simp add: summary_step_def)
  obtain a' b' c' out' where f: "fold (summary_step rnd first) runs
      (rnd (a + bs_sec r), rnd (b + bs_rows_per_sec r), rnd (c + bs_mib_per_sec r), ?out) = (a', b', c', out')"
    by (metis prod_cases4)
  note IH = Cons.IH [where a = "rnd (a + bs_sec r)" and b = "rnd (b + bs_rows_per_sec r)" and c = "rnd (c + bs_mib_per_sec r)"
      and out = ?out, unfolded f prod.case lo hi]
  have "fold (summary_step rnd first) (r # runs) (a, b, c, out) = (a', b', c', out')" by (simp add: step f)
  with IH show ?case by (simp del: Min_insert Max_insert fold_simps)
qed simp

lemma summary_facts:
  fixes rnd :: "rat \<Rightarrow> rat" and threads :: int
  assumes "runs \<noteq> []"
  defines "s \<equiv> computeSummary rnd runs threads" and "r \<equiv> bs_result (hd runs)"
  shows "sm_runs s = to_signed 32 (int (length runs))" and "sm_rows_scanned s = dr_rows_scanned r"
    and "sm_rows_matched s = dr_rows_matched r" and "sm_rows_failed s = dr_rows_parse_failed r"
    and "sm_consistent_counts s \<longleftrightarrow> (\<forall>q \<in> set runs. same_counts (bs_result q) r)"
    and "sm_min_sec s = Min (bs_sec ` set runs)" and "sm_max_sec s = Max (bs_sec ` set runs)"
proof -
  obtain q qs where runs: "runs = q # qs" using assms(1) by (cases runs) auto
  let ?out = "new_BenchSummary\<lparr>sm_runs := to_signed 32 (int (length runs)),
      sm_threads := if threads \<le> 0 then 1 else threads, sm_min_sec := bs_sec q, sm_max_sec := bs_sec q,
      sm_rows_scanned := dr_rows_scanned (bs_result q), sm_rows_matched := dr_rows_matched (bs_result q),
      sm_rows_failed := dr_rows_parse_failed (bs_result q)\<rparr>"
  obtain a b c out where f: "fold (summary_step rnd (bs_result q)) runs (0, 0, 0, ?out) = (a, b, c, out)"
    by (metis prod_cases4)
  have s: "s = out\<lparr>sm_avg_sec := rnd (a / rnd (of_nat (length runs))), sm_avg_rows_per_sec := rnd (b / rnd (of_nat (length runs))),
      sm_avg_mib_per_sec := rnd (c / rnd (of_nat (length runs)))\<rparr>"
    using f unfolding s_def computeSummary_def Let_def runs list.case by simp
  have r: "r = bs_result q" by (simp add: r_def runs)
  have [simp]: "insert (bs_sec q) (bs_sec ` set runs) = bs_sec ` set runs" by (auto simp: runs)
  from summary_fold [where rnd = rnd and first = "bs_result q" and runs = runs and a = 0 and b = 0 and c = 0 and out = ?out]
  show "sm_runs s = to_signed 32 (int (length runs))" "sm_rows_scanned s = dr_rows_scanned r"
    "sm_rows_matched s = dr_rows_matched r" "sm_rows_failed s = dr_rows_parse_failed r"
    "sm_consistent_counts s \<longleftrightarrow> (\<forall>q \<in> set runs. same_counts (bs_result q) r)"
    "sm_min_sec s = Min (bs_sec ` set runs)" "sm_max_sec s = Max (bs_sec ` set runs)"
    unfolding f prod.case by (simp_all add: s r new_BenchSummary_def)
qed

lemma summary_reports:
  assumes "runs \<noteq> []" and "\<forall>r \<in> set runs. bs_result r = counts_of pred rows"
  shows "reports pred rows (computeSummary rnd runs threads)"
proof -
  have "bs_result (hd runs) = counts_of pred rows" using assms by simp
  with assms(2) show ?thesis
    by (simp add: reports_def summary_facts [OF assms(1)] same_counts_def counts_of_def)
qed

lemma makeStats_result [simp]: "bs_result (makeStats rnd r t m) = r"
  by (simp add: makeStats_def Let_def)

lemma serial_mode_reports:
  assumes "0 < n" and "n < 2 ^ 31"
  shows "\<exists>s. serial_mode env name pred n fs = (0, s, snd (appendSummaryToCsv (be_opens env) out_csv name s fs)) \<and>
    reports pred (bench_rows fs) s \<and> sm_runs s = n"
proof -
  let ?runs = "map (\<lambda>i. runOnceDir (be_rnd env) fs data_dir pred (be_clock env i)) [1..<nat n + 1]"
  have ne: "?runs \<noteq> []" using assms by simp
  have "\<forall>r \<in> set ?runs. bs_result r = counts_of pred (bench_rows fs)"
    by (auto simp: runOnceDir_def queryDir_rows)
  from summary_reports [OF ne this] summary_facts(1) [OF ne] assms show ?thesis
    by (auto simp: serial_mode_def Let_def to_signed_32_id)
qed

lemma parsePositive_range: "0 < d \<Longrightarrow> d < 2 ^ 31 \<Longrightarrow> 0 < parsePositiveIntOrDefault t d \<and> parsePositiveIntOrDefault t d < 2 ^ 31"
  using sto_signed_range [of 32 t] by (auto simp: parsePositiveIntOrDefault_def split: sum.split)

section \<open>Examples\<close>

definition ex_record_env :: record_env where
  \<comment> \<open>one thread, no time\<close>
  "ex_record_env = \<lparr> re_rnd = (\<lambda>x. x), re_clock = (\<lambda>_. (1, 1, 1)), re_junk = (\<lambda>_ _. ex_record),
     re_sched = (\<lambda>_ n. [[0..<n]]), re_team = (\<lambda>_ n. [[0..<n]]), re_tids = (\<lambda>_ n. replicate n 0) \<rparr>"

lemma ex_record_env_ok: "env_ok ex_record_env"
proof -
  have "count_list (replicate n (0 :: nat)) 0 = n" for n by (induction n) simp_all
  then show ?thesis by (auto simp: env_ok_def ex_record_env_def schedule_ok_def team_ok_def interleaving_def)
qed

definition ex_bench_env :: bench_env where
  "ex_bench_env = \<lparr> be_rnd = (\<lambda>x. x), be_clock = (\<lambda>_. 1), be_opens = (\<lambda>_. True), be_sched = (\<lambda>_. [[0]]) \<rparr>"

definition ex_bench_fs :: file_system where
  \<comment> \<open>a data directory with one file\<close>
  "ex_bench_fs p =
     (if p = data_dir then Some (Directory [''t.csv''])
      else if p = path_append data_dir ''t.csv'' then ex_taxi_fs ''t.csv'' else None)"

section \<open>Properties\<close>

text \<open>
  C40: the benchmark of implementation A counts right in every mode. With serial or parallel ingestion and
  serial or OpenMP queries, whatever the schedules, its runs end without the warning that count and execute
  differ, and it reports the rows of the directory, the ones that do not parse, the ones stored, and the
  matches of the query among these.
\<close>

theorem record_benchmark_exact:
  assumes "env_ok env" and "listCSVFiles fs dir = Some files" and "0 < runs"
  shows "\<exists>out. benchmark_run env fs dir query runs im qm = Some (out, []) \<and> br_runs out = nat runs \<and>
    (let rows = directory_records fs (re_junk env (nat runs - 1)) files; stored = accepted rows
     in br_rowsRead out = length rows \<and> br_parseFailures out = length rows - length stored \<and>
        br_rowsScanned out = length stored \<and> br_matches out = length (executeSerial stored query))"
proof -
  have ne: "[0..<nat runs] \<noteq> []" using assms(3) by simp
  have last: "last [0..<nat runs] = nat runs - 1" using ne by simp
  have "length (filter (\<lambda>r. \<not> fst r) rs) = length rs - length (accepted rs)" for rs :: "(bool \<times> TaxiTripRecord) list"
    using sum_length_filter_compl [of fst rs] by (simp add: accepted_def)
  with bench_loop_eq [OF assms(1,2), of query im qm "[0..<nat runs]" bench_start] ne
  show ?thesis
    by (auto simp: benchmark_run_def bench_derived_counts bench_start_def new_BenchmarkResult_def Let_def
        executeSerial_matching last)
qed

lemma record_benchmark_exact_witness:
  "\<exists>out. benchmark_run ex_record_env ex_trips_fs ''d'' no_constraints 2 ParallelFiles OpenMP = Some (out, []) \<and>
    br_runs out = 2"
  using record_benchmark_exact [OF ex_record_env_ok ex_trips_list, of 2 no_constraints ParallelFiles OpenMP] by auto

text \<open>
  The serial and the parallel experiment of the data set record the same counts: both append one line
  to the results file, whose summary says the counts are consistent and are those of the data lines of the
  directory that match, fail to parse, or are scanned at all; the range experiment does so for its predicate.
\<close>

lemma streaming_modes_agree:
  assumes "\<And>names. fs data_dir = Some (Directory names) \<Longrightarrow>
    schedule_ok (be_sched env 1) (length (dir_entries fs data_dir names))"
  shows "\<exists>s q p.
    streaming_main env (''serial'' # args) fs =
      (0, Some s, snd (appendSummaryToCsv (be_opens env) out_csv ''phase1_serial_matchall'' s fs)) \<and>
    streaming_main env (''range'' # args) fs =
      (0, Some q, snd (appendSummaryToCsv (be_opens env) out_csv ''phase1_serial_pickup_range'' q fs)) \<and>
    streaming_main env (''parallel'' # t # args) fs =
      (0, Some p, snd (appendSummaryToCsv (be_opens env) out_csv (''phase2_parallel_t'' @ show_int (parsePositiveIntOrDefault t 4)) p fs)) \<and>
    reports TruePredicate (bench_rows fs) s \<and> reports range_query (bench_rows fs) q \<and>
    reports TruePredicate (bench_rows fs) p \<and> sm_runs p = 1 \<and> 0 < sm_runs s \<and> sm_runs q = sm_runs s"
proof -
  define n where "n = (case args of [] \<Rightarrow> 10 | r # _ \<Rightarrow> parsePositiveIntOrDefault r 10)"
  have n: "0 < n" "n < 2 ^ 31" using parsePositive_range [of 10] by (auto simp: n_def split: list.split)
  obtain s where s: "serial_mode env ''phase1_serial_matchall'' TruePredicate n fs =
      (0, s, snd (appendSummaryToCsv (be_opens env) out_csv ''phase1_serial_matchall'' s fs))"
    "reports TruePredicate (bench_rows fs) s" "sm_runs s = n"
    using serial_mode_reports [OF n] by blast
  obtain q where q: "serial_mode env ''phase1_serial_pickup_range'' range_query n fs =
      (0, q, snd (appendSummaryToCsv (be_opens env) out_csv ''phase1_serial_pickup_range'' q fs))"
    "reports range_query (bench_rows fs) q" "sm_runs q = n"
    using serial_mode_reports [OF n] by blast
  let ?runs = "[runOnceDirParallel (be_rnd env) fs data_dir TruePredicate (be_sched env 1) (be_clock env 3)]"
  define p where "p = computeSummary (be_rnd env) ?runs (parsePositiveIntOrDefault t 4)"
  have "reports TruePredicate (bench_rows fs) p"
    unfolding p_def using queryDirParallel_rows [OF assms] by (intro summary_reports) (simp_all add: runOnceDirParallel_def)
  moreover have "sm_runs p = 1" by (simp add: p_def summary_facts(1) to_signed_32_id)
  moreover have "parallel_mode env (parsePositiveIntOrDefault t 4) fs = (0, p, snd (appendSummaryToCsv (be_opens env) out_csv
      (''phase2_parallel_t'' @ show_int (parsePositiveIntOrDefault t 4)) p fs))"
    by (simp add: parallel_mode_def p_def Let_def)
  ultimately show ?thesis
    using s q n by (intro exI [of _ s] exI [of _ q] exI [of _ p]) (simp add: streaming_main_def n_def [symmetric] Let_def)
qed

lemma streaming_modes_agree_witness:
  "\<exists>s p. streaming_main ex_bench_env [''serial'', ''3''] ex_bench_fs =
      (0, Some s, snd (appendSummaryToCsv (\<lambda>_. True) out_csv ''phase1_serial_matchall'' s ex_bench_fs)) \<and>
    streaming_main ex_bench_env [''parallel'', ''2'', ''3''] ex_bench_fs =
      (0, Some p, snd (appendSummaryToCsv (\<lambda>_. True) out_csv (''phase2_parallel_t'' @ show_int (parsePositiveIntOrDefault ''2'' 4)) p ex_bench_fs)) \<and>
    sm_rows_matched s = sm_rows_matched p"
proof -
  have "schedule_ok (be_sched ex_bench_env 1) (length (dir_entries ex_bench_fs data_dir names))"
    if "ex_bench_fs data_dir = Some (Directory names)" for names
  proof -
    have "names = [''t.csv'']" using that by (simp add: ex_bench_fs_def)
    moreover have "dir_entries ex_bench_fs data_dir [''t.csv''] = [path_append data_dir ''t.csv'']" by code_simp
    ultimately show ?thesis by (auto simp: schedule_ok_def ex_bench_env_def)
  qed
  from streaming_modes_agree [OF this, where args = "[''3'']" and t = "''2''"] show ?thesis
    by (auto simp: reports_def ex_bench_env_def)
qed

text \<open>
  A summary is what its fields say: the number of runs, the counts of the first, the least and the
  greatest duration, and the counts are called consistent exactly when every run has those of the first.
\<close>

lemma summary_exact:
  assumes "runs \<noteq> []" and "length runs < 2 ^ 31"
  shows "let s = computeSummary rnd runs threads; r = bs_result (hd runs)
    in sm_runs s = int (length runs) \<and> sm_rows_scanned s = dr_rows_scanned r \<and>
       sm_rows_matched s = dr_rows_matched r \<and> sm_rows_failed s = dr_rows_parse_failed r \<and>
       (sm_consistent_counts s \<longleftrightarrow> (\<forall>q \<in> set runs. same_counts (bs_result q) r)) \<and>
       sm_min_sec s = Min (bs_sec ` set runs) \<and> sm_max_sec s = Max (bs_sec ` set runs)"
  using assms(2) by (simp add: Let_def summary_facts [OF assms(1)] to_signed_32_id)

lemma summary_exact_witness:
  "\<not> sm_consistent_counts (computeSummary rnd [makeStats rnd empty_DatasetResult 1 0,
     makeStats rnd (empty_DatasetResult\<lparr>dr_rows_scanned := 1\<rparr>) 1 0] 1)"
  using summary_exact [of "[makeStats rnd empty_DatasetResult 1 0,
     makeStats rnd (empty_DatasetResult\<lparr>dr_rows_scanned := 1\<rparr>) 1 0]" rnd 1]
  by (simp add: Let_def same_counts_def empty_DatasetResult_def)

end
