(* ===== verification/Coordinator_Ledger.thy ===== *)
theory Coordinator_Ledger
  imports Local_Delivery "HOL-Library.Multiset"
begin

text \<open>
  The books of a request, whatever its children answer. A stub is tapped: it passes every call on and
  notes the trips of each chunk it brings back. The locale states what such a note must do; inside it
  every operation of the coordinator on a request is shown to cache exactly the local matches it scans and
  the trips noted while it runs, so that a fetch neither loses nor invents a row.
\<close>

section \<open>Noting replies\<close>

definition reply_trips :: "string + FetchReply \<Rightarrow> TaxiTrip list" where
  \<comment> \<open>the trips of a chunk that arrived: none of a failed call or of a request the child does not know\<close>
  "reply_trips r = (case r of Inl _ \<Rightarrow> []
     | Inr reply \<Rightarrow> if fr_found reply then map fromTripRow (fr_rows reply) else [])"

definition tap_ops :: "'e stub_ops \<Rightarrow> ('e \<times> TaxiTrip list) stub_ops" where
  "tap_ops ops = \<lparr> op_NewStub = op_NewStub ops,
     op_SubmitSubQuery = (\<lambda>t r (e, L). case op_SubmitSubQuery ops t r e of (a, e) \<Rightarrow> (a, e, L)),
     op_FetchSubChunk = (\<lambda>t r (e, L). case op_FetchSubChunk ops t r e of (a, e) \<Rightarrow> (a, e, L @ reply_trips a)),
     op_CancelSubQuery = (\<lambda>t i (e, L). case op_CancelSubQuery ops t i e of (a, e) \<Rightarrow> (a, e, L)) \<rparr>"

definition tap :: "'e system \<Rightarrow> ('e \<times> TaxiTrip list) system" where
  "tap sys = \<lparr> sys_fs = sys_fs sys, sys_ops = tap_ops (sys_ops sys) \<rparr>"

lemma tap_fs [simp]: "sys_fs (tap sys) = sys_fs sys"
  by (simp add: tap_def)

text \<open>What an operation on request \<open>k\<close> may change while it takes in trips: worker \<open>n\<close> stays where it is.\<close>

definition takes_in :: "nat \<Rightarrow> node_id \<Rightarrow> coordinator \<Rightarrow> TaxiTrip list \<Rightarrow> coordinator \<Rightarrow> bool" where
  "takes_in k n co ts co' \<longleftrightarrow>
     length (co_queryStates co') = length (co_queryStates co) \<and>
     window_trips (state_at co' k) = window_trips (state_at co k) @ ts \<and>
     rs_nextUnreadIndex (state_at co' k) = rs_nextUnreadIndex (state_at co k) \<and>
     findWorkerProgress n (state_at co' k) = findWorkerProgress n (state_at co k)"

lemma takes_in_refl [simp]: "takes_in k n co [] co"
  by (simp add: takes_in_def)

lemma takes_in_trans: "takes_in k n a ts b \<Longrightarrow> takes_in k n b us c \<Longrightarrow> takes_in k n a (ts @ us) c"
  by (simp add: takes_in_def)

lemma takes_in_client [simp]: "takes_in k n (co\<lparr>co_remoteClient := c\<rparr>) ts co' = takes_in k n co ts co'"
  "takes_in k n co ts (co'\<lparr>co_remoteClient := c\<rparr>) = takes_in k n co ts co'"
  by (simp_all add: takes_in_def state_at_def)

lemma takes_in_progress:
  assumes "k < length (co_queryStates co)" and "c \<noteq> n"
  shows "takes_in k n co [] (on_state k (\<lambda>s. snd (getWorkerProgress c s)) co)"
    and "takes_in k n co [] (on_state k (putWorkerProgress c p) co)"
    and "takes_in k n co [] (fail_child k c p co)"
    and "takes_in k n co [] (on_state k (updateWorkerProgress c i b) co)"
  using assms by (simp_all add: takes_in_def fail_child_def)

lemma takes_in_merge:
  assumes "k < length (co_queryStates co)"
  shows "takes_in k n co (qr_matchedTrips r) (on_state k (mergePartialResult r) co)"
  using assms by (simp add: takes_in_def findWorkerProgress_def)

lemma takes_in_length: "takes_in k n co ts co' \<Longrightarrow> k < length (co_queryStates co) \<Longrightarrow> k < length (co_queryStates co')"
  by (simp add: takes_in_def)

section \<open>A stub that keeps a note\<close>

locale noting =
  fixes sys :: "'e system" and noted :: "'e \<Rightarrow> TaxiTrip list"
  assumes submit_noted: "noted (snd (op_SubmitSubQuery (sys_ops sys) t r e)) = noted e"
    and fetch_noted: "noted (snd (op_FetchSubChunk (sys_ops sys) t f e)) =
      noted e @ reply_trips (fst (op_FetchSubChunk (sys_ops sys) t f e))"
begin

lemma submit_subquery_noted: "noted (snd (snd (submitSubQuery (sys_ops sys) t req p c e))) = noted e"
  using submit_noted by (auto simp: submitSubQuery_def split: prod.split option.split sum.split) (metis snd_conv)+

lemma fetch_subchunk_noted:
  assumes "fetchSubChunk (sys_ops sys) t i m c e = (chunk, c', e')"
  shows "noted e' = noted e @ (if sc_ok chunk then sc_trips chunk else [])"
proof (cases "getOrCreateStub (sys_ops sys) c t")
  case (Pair a c1)
  show ?thesis
  proof (cases a)
    case None
    then show ?thesis using assms Pair by (auto simp: fetchSubChunk_def failed_chunk_def)
  next
    case (Some t1)
    let ?f = "\<lparr> fq_request_id = i, fq_max_rows = m mod 2 ^ 32 \<rparr>"
    obtain r e1 where r: "op_FetchSubChunk (sys_ops sys) t1 ?f e = (r, e1)" by fastforce
    have "noted e1 = noted e @ reply_trips r" using fetch_noted [of t1 ?f e] by (simp only: r fst_conv snd_conv)
    then show ?thesis using assms Pair Some r
      by (auto simp: fetchSubChunk_def failed_chunk_def reply_trips_def split: sum.splits if_splits)
  qed
qed

lemma fetch_from_child_noted:
  assumes "fetch_from_child sys k m c p client co e = (got, co', e')"
    and k: "k < length (co_queryStates co)" and c: "c \<noteq> n"
  shows "\<exists>ts. takes_in k n co ts co' \<and> noted e' = noted e @ ts"
proof -
  obtain chunk client1 e1 where f: "fetchSubChunk (sys_ops sys) c (wp_remoteRequestId p)
      (chooseAdaptiveChunkSize co m) client e = (chunk, client1, e1)" by (metis prod_cases3)
  note note1 = fetch_subchunk_noted [OF f]
  show ?thesis
  proof (cases "sc_ok chunk")
    case False
    then have "co' = fail_child k c p (co\<lparr>co_remoteClient := Some client1\<rparr>)" "e' = e1"
      using assms(1) f by (auto simp: fetch_from_child_def Let_def)
    then show ?thesis
      using takes_in_progress(3) [of k "co\<lparr>co_remoteClient := Some client1\<rparr>" c n p] k c note1 False by auto
  next
    case True
    let ?n = "length (sc_trips chunk)" and ?co = "co\<lparr>co_remoteClient := Some client1\<rparr>"
    define res where "res = empty_QueryResult\<lparr>qr_rowsScanned := ?n, qr_rowsMatched := ?n, qr_rowsEmitted := ?n,
        qr_matchedTrips := sc_trips chunk,
        qr_matchedTripSources := (if length (sc_sources chunk) = ?n then sc_sources chunk else replicate ?n c),
        qr_hasMore := \<not> sc_done chunk\<rparr>"
    have "co' = on_state k (updateWorkerProgress c (wp_nextStartRow p) (\<not> sc_done chunk))
        (on_state k (mergePartialResult res) ?co)" "e' = e1"
      using assms(1) f True by (auto simp: fetch_from_child_def Let_def res_def)
    moreover have "takes_in k n ?co (sc_trips chunk) (on_state k (mergePartialResult res) ?co)"
      using takes_in_merge [of k ?co n res] k by (simp add: res_def)
    ultimately have "takes_in k n co (sc_trips chunk) co'"
      using takes_in_trans [OF _ takes_in_progress(4) [OF _ c]] k by fastforce
    then show ?thesis using note1 True \<open>e' = e1\<close> by auto
  qed
qed

lemma fetch_remote_child_noted:
  assumes run: "fetch_remote_child sys k m cs c co e = (got, co', e')"
    and k: "k < length (co_queryStates co)" and c: "c = n \<Longrightarrow> hasVisitedNode (rs_request (state_at co k)) n"
  shows "\<exists>ts. takes_in k n co ts co' \<and> noted e' = noted e @ ts"
proof (cases "hasVisitedNode (rs_request (state_at co k)) c")
  case True
  then show ?thesis using run by (intro exI [of _ "[]"]) (simp add: fetch_remote_child_def)
next
  case False
  then have cn: "c \<noteq> n" using c by auto
  let ?p = "fst (getWorkerProgress c (state_at co k))"
  let ?co = "on_state k (\<lambda>s. snd (getWorkerProgress c s)) co"
  have a: "takes_in k n co [] ?co" by (rule takes_in_progress(1) [OF k cn])
  show ?thesis
  proof (cases "wp_completed ?p \<or> co_remoteClient co = None")
    case True
    then have "co' = ?co \<and> e' = e" using run False
      by (auto simp: fetch_remote_child_def Let_def simp del: fst_getWorkerProgress split: option.splits)
    then show ?thesis using a by auto
  next
    case open_: False
    then obtain client where client: "co_remoteClient co = Some client" by auto
    show ?thesis
    proof (cases "wp_submitted ?p")
      case True
      then have "fetch_from_child sys k m c ?p client ?co e = (got, co', e')"
        using run False open_ client by (simp add: fetch_remote_child_def Let_def del: fst_getWorkerProgress)
      from fetch_from_child_noted [OF this _ cn] k takes_in_trans [OF a] show ?thesis by fastforce
    next
      case new: False
      obtain ok rid msg client1 e1 where sub: "submitSubQuery (sys_ops sys) c
          (child_request ?co (rs_request (state_at co k)) cs m) (rs_queryId (state_at ?co k)) client e =
            ((ok, rid, msg), client1, e1)" by (metis prod_cases3)
      have n1: "noted e1 = noted e" using submit_subquery_noted [of c _ _ client e] sub by (metis snd_conv)
      let ?co1 = "?co\<lparr>co_remoteClient := Some client1\<rparr>"
      let ?q = "?p\<lparr>wp_remoteRequestId := rid\<rparr>"
      show ?thesis
      proof (cases ok)
        case False
        then have "co' = fail_child k c ?q ?co1 \<and> e' = e1"
          using run \<open>\<not> hasVisitedNode _ c\<close> open_ client new sub
          by (simp add: fetch_remote_child_def Let_def del: fst_getWorkerProgress)
        then show ?thesis using takes_in_trans [OF a, of "[]" co'] takes_in_progress(3) [of k ?co1 c n ?q] k cn n1 by auto
      next
        case True
        let ?r = "?q\<lparr>wp_submitted := True\<rparr>"
        have run': "fetch_from_child sys k m c ?r client1 (on_state k (putWorkerProgress c ?r) ?co1) e1 = (got, co', e')"
          using run \<open>\<not> hasVisitedNode _ c\<close> open_ client new sub True
          by (simp add: fetch_remote_child_def Let_def del: fst_getWorkerProgress)
        have b: "takes_in k n co [] (on_state k (putWorkerProgress c ?r) ?co1)"
          using takes_in_trans [OF a, of "[]"] takes_in_progress(2) [of k ?co1 c n ?r] k cn by auto
        have "\<exists>ts. takes_in k n (on_state k (putWorkerProgress c ?r) ?co1) ts co' \<and> noted e' = noted e1 @ ts"
          by (rule fetch_from_child_noted [OF run' _ cn]) (use k in simp)
        then show ?thesis using takes_in_trans [OF b] n1 by auto
      qed
    qed
  qed
qed

lemma fetch_remote_loop_noted:
  assumes "fetch_remote_loop sys k m children cs got co e = (got', co', e')"
    and "k < length (co_queryStates co)" and "n \<in> set cs \<Longrightarrow> hasVisitedNode (rs_request (state_at co k)) n"
  shows "\<exists>ts. takes_in k n co ts co' \<and> noted e' = noted e @ ts"
  using assms
proof (induction cs arbitrary: got co e)
  case Nil
  then show ?case by (intro exI [of _ "[]"]) simp
next
  case (Cons c cs)
  obtain g co1 e1 where f: "fetch_remote_child sys k m children c co e = (g, co1, e1)" by (metis prod_cases3)
  obtain ts where ts: "takes_in k n co ts co1" "noted e1 = noted e @ ts"
    using fetch_remote_child_noted [OF f Cons.prems(2), of n] Cons.prems(3) by auto
  have st: "steps k co co1" using steps_fetch_remote_child [of k co sys m children c e] f by simp
  have "\<exists>us. takes_in k n co1 us co' \<and> noted e' = noted e1 @ us"
    by (rule Cons.IH) (use Cons.prems f takes_in_length [OF ts(1)] steps_request [OF st] in auto)
  with ts show ?case using takes_in_trans by fastforce
qed

lemma fetch_remote_noted:
  assumes "fetchRemoteExecuteChunks sys k m co e = (got, co', e')"
    and "k < length (co_queryStates co)" and "hasVisitedNode (rs_request (state_at co k)) n"
  shows "\<exists>ts. takes_in k n co ts co' \<and> noted e' = noted e @ ts"
proof (cases "fetchRemoteExecuteChunks sys k m co e = (False, co, e)")
  case True
  then show ?thesis using assms(1) by (intro exI [of _ "[]"]) simp
next
  case False
  then obtain cs where "fetch_remote_loop sys k m cs cs False co e = (got, co', e')"
    using assms(1) by (auto simp: fetchRemoteExecuteChunks_def Let_def split: option.splits)
  from fetch_remote_loop_noted [OF this assms(2) assms(3)] show ?thesis .
qed

end

section \<open>The books of a request\<close>

definition unread_trips :: "RequestState \<Rightarrow> TaxiTrip list" where
  "unread_trips s = drop (rs_nextUnreadIndex s) (window_trips s)"

definition scanned :: "node_id \<Rightarrow> RequestState \<Rightarrow> nat" where
  \<comment> \<open>how many rows the local worker has been through\<close>
  "scanned n s = (case findWorkerProgress n s of None \<Rightarrow> 0 | Some p \<Rightarrow> wp_nextStartRow p)"

definition books :: "file_system \<Rightarrow> WorkerNode \<Rightarrow> TaxiTrip list \<Rightarrow> TaxiTrip list \<Rightarrow> RequestState \<Rightarrow> bool" where
  \<comment> \<open>\<open>D\<close> delivered and the unread rows are the local matches so far and \<open>L\<close>, the trips that arrived\<close>
  "books fs w D L s \<longleftrightarrow>
     (\<exists>p. findWorkerProgress (getNodeId w) s = Some p \<and> wp_nextStartRow p \<le> worker_rows fs w \<and>
        (wp_completed p \<longrightarrow> wp_nextStartRow p = worker_rows fs w)) \<and>
     rs_nextUnreadIndex s \<le> length (window_trips s) \<and>
     mset D + mset (unread_trips s) = mset (all_trips fs w (rs_request s) 0 (scanned (getNodeId w) s)) + mset L"

lemma books_cong:
  assumes "rs_aggregatedResult t = rs_aggregatedResult s" and "rs_nextUnreadIndex t = rs_nextUnreadIndex s"
    and "rs_workerProgress t = rs_workerProgress s" and "rs_request t = rs_request s"
  shows "books fs w D L t \<longleftrightarrow> books fs w D L s"
  using assms by (simp add: books_def unread_trips_def scanned_def findWorkerProgress_def)

lemma books_frames [simp]:
  "books fs w D L (setState q s) = books fs w D L s"
  "books fs w D L (advanceFetchRound s) = books fs w D L s"
  "books fs w D L (setExpectedWorkers n s) = books fs w D L s"
  by (rule books_cong; simp add: setExpectedWorkers_def)+

lemma books_clear:
  "length (window_trips s) \<le> rs_nextUnreadIndex s \<Longrightarrow> books fs w D L s \<Longrightarrow> books fs w D L (clearAggregatedRows s)"
  by (simp add: books_def unread_trips_def scanned_def findWorkerProgress_def)

lemma books_take:
  assumes "books fs w D L s" and "n \<le> length (unread_trips s)"
  shows "books fs w (D @ take n (unread_trips s)) L (setNextUnreadIndex (rs_nextUnreadIndex s + n) s)"
proof -
  have "mset (take n (unread_trips s)) + mset (drop n (unread_trips s)) = mset (unread_trips s)"
    by (simp flip: mset_append)
  moreover have "unread_trips (setNextUnreadIndex (rs_nextUnreadIndex s + n) s) = drop n (unread_trips s)"
    by (simp add: unread_trips_def add.commute)
  ultimately show ?thesis using assms
    by (auto simp: books_def scanned_def findWorkerProgress_def unread_trips_def add.assoc)
qed

lemma books_takes_in:
  assumes "books fs w D L (state_at co k)" and "takes_in k (getNodeId w) co ts co'" and "steps k co co'"
    and "k < length (co_queryStates co)"
  shows "books fs w D (L @ ts) (state_at co' k)"
  using assms steps_request [OF assms(3,4)]
  by (auto simp: books_def takes_in_def scanned_def unread_trips_def simp flip: add.assoc)

lemma books_local:
  assumes k: "k < length (co_queryStates co)" and fs: "fs = sys_fs sys"
    and w: "find (worker_selected co (rs_request (state_at co k))) (co_workers co) = Some w"
    and b: "books fs w D L (state_at co k)"
  shows "books fs w D L (state_at (snd (fetchLocalExecuteChunk sys k m co)) k)"
proof -
  let ?s = "state_at co k"
  obtain p where p: "findWorkerProgress (getNodeId w) ?s = Some p" "wp_nextStartRow p \<le> worker_rows fs w"
    and eq: "mset D + mset (unread_trips ?s) = mset (all_trips fs w (rs_request ?s) 0 (wp_nextStartRow p)) + mset L"
    and u: "rs_nextUnreadIndex ?s \<le> length (window_trips ?s)"
    using b by (auto simp: books_def scanned_def)
  show ?thesis
  proof (cases "wp_completed p")
    case True
    have get: "getWorkerProgress (getNodeId w) ?s = (p, ?s)"
      using p by (simp add: getWorkerProgress_def findWorkerProgress_def um_index_def)
    then have "on_state k (\<lambda>s. snd (getWorkerProgress (getNodeId w) s)) co = co"
      using k by (simp add: on_state_def state_at_def)
    then show ?thesis using b w get True by (simp add: fetchLocalExecuteChunk_def Let_def)
  next
    case False
    obtain j again req where run: "fetchLocalExecuteChunk sys k m co =
       (qr_matchedTrips (worker_chunk fs w req (wp_nextStartRow p) j again) \<noteq> [],
        on_state k (updateWorkerProgress (getNodeId w) j again)
          (on_state k (mergePartialResult (worker_chunk fs w req (wp_nextStartRow p) j again)) co))"
      and sf: "same_filter req (rs_request ?s)" and j: "wp_nextStartRow p \<le> j" "j \<le> worker_rows fs w"
      and fin: "\<not> again \<Longrightarrow> j = worker_rows fs w"
      by (rule fetchLocal_run [OF k refl w p(1) fs p(2) False]) blast
    let ?t = "state_at (snd (fetchLocalExecuteChunk sys k m co)) k"
    let ?new = "all_trips fs w (rs_request ?s) (wp_nextStartRow p) j"
    have at: "?t = updateWorkerProgress (getNodeId w) j again
        (mergePartialResult (worker_chunk fs w req (wp_nextStartRow p) j again) ?s)"
      using k by (simp add: run)
    have "findWorkerProgress (getNodeId w)
        (mergePartialResult (worker_chunk fs w req (wp_nextStartRow p) j again) ?s) = Some p"
      using p by (simp add: findWorkerProgress_def)
    then have prog: "findWorkerProgress (getNodeId w) ?t =
        Some (p\<lparr>wp_nextStartRow := j, wp_hasMore := again, wp_completed := \<not> again\<rparr>)"
      by (simp add: at)
    have win: "window_trips ?t = window_trips ?s @ ?new"
      by (simp add: at worker_chunk_trips all_trips_same [OF sf])
    have un: "unread_trips ?t = unread_trips ?s @ ?new"
      unfolding unread_trips_def win using u by (simp add: at)
    have split: "all_trips fs w (rs_request ?s) 0 j = all_trips fs w (rs_request ?s) 0 (wp_nextStartRow p) @ ?new"
      using j by (intro all_trips_split) simp_all
    have req: "rs_request ?t = rs_request ?s" "rs_nextUnreadIndex ?t = rs_nextUnreadIndex ?s" by (simp_all add: at)
    have sc: "scanned (getNodeId w) ?t = j" by (simp add: scanned_def prog)
    have "mset D + mset (unread_trips ?t) = mset (all_trips fs w (rs_request ?s) 0 j) + mset L"
      using eq unfolding un split mset_append by (simp add: union_commute union_lcomm)
    then show ?thesis
      unfolding books_def prog win sc req using j fin u by simp
  qed
qed

text \<open>A request just accepted has empty books.\<close>

definition untouched :: "node_id \<Rightarrow> RequestState \<Rightarrow> bool" where
  "untouched n s \<longleftrightarrow> findWorkerProgress n s = Some new_WorkerProgress \<and> window_trips s = [] \<and> rs_nextUnreadIndex s = 0"

lemma untouched_frames [simp]:
  "untouched n s \<Longrightarrow> untouched n (initializeWorker c s)"
  "untouched n (setExpectedWorkers i s) = untouched n s"
  by (auto simp: untouched_def) (simp_all add: setExpectedWorkers_def findWorkerProgress_def)

lemma untouched_children:
  assumes "untouched n (state_at co k)" and "k < length (co_queryStates co)"
  shows "untouched n (state_at (snd (init_children k req cs i co)) k)"
  using assms by (induction k req cs i co rule: init_children.induct) auto

lemma untouched_books: "untouched (getNodeId w) s \<Longrightarrow> books fs w [] [] s"
  by (simp add: untouched_def books_def unread_trips_def scanned_def new_WorkerProgress_def all_trips_def hits_def)

lemma begin_books:
  assumes fresh: "findRequestState co (qq_queryId req) = None"
    and w: "find (worker_selected co req) (co_workers co) = Some w"
  shows "books fs w [] [] (state_at (begin_execute req co) (length (co_queryStates co)))"
proof -
  let ?k = "length (co_queryStates co)"
  define base where "base = on_state ?k (setState IN_PROGRESS)
     (co\<lparr>co_queryStates := co_queryStates co @ [new_RequestState (qq_queryId req) req]\<rparr>)"
  have len: "?k < length (co_queryStates base)" by (simp add: base_def)
  have "worker_selected base = worker_selected co"
    by (intro ext) (simp add: base_def worker_selected_def split: option.split)
  then have sel: "find (worker_selected base req) (co_workers base) = Some w" using w by (simp add: base_def)
  have at: "state_at base ?k = setState IN_PROGRESS (new_RequestState (qq_queryId req) req)"
    by (simp add: base_def on_state_def state_at_def nth_append)
  let ?own = "on_state ?k (initializeWorker (getNodeId w)) base"
  have own: "untouched (getNodeId w) (state_at ?own ?k)"
    using len by (simp add: at untouched_def) (simp add: findWorkerProgress_def new_RequestState_def setState_def empty_QueryResult_def)
  have "?k < length (co_queryStates ?own)" using len by simp
  note children = untouched_children [OF own this]
  have keep: "length (co_queryStates (snd (init_children ?k req cs i ?own))) = length (co_queryStates ?own)" for cs i
    by (rule steps_length [OF steps_init_children])
  have "untouched (getNodeId w) (state_at (initializeExecuteProgress ?k req base) ?k)"
    using sel len own children keep unfolding initializeExecuteProgress_def
    by (auto simp: case_prod_beta split: option.split)
  then show ?thesis
    using untouched_books begin_execute_fresh(1) [OF fresh] by (simp add: base_def)
qed

context noting begin

text \<open>One round over the worker and the children.\<close>

lemma round_books:
  assumes k: "k < length (co_queryStates co)"
    and w: "find (worker_selected co (rs_request (state_at co k))) (co_workers co) = Some w"
    and vis: "hasVisitedNode (rs_request (state_at co k)) (getNodeId w)"
    and b: "books (sys_fs sys) w D L (state_at co k)"
    and used: "length (window_trips (state_at co k)) \<le> rs_nextUnreadIndex (state_at co k)"
    and run: "fetchNextExecuteChunks sys k m co e = (got, co', e')"
  shows "\<exists>ts. books (sys_fs sys) w D (L @ ts) (state_at co' k) \<and> noted e' = noted e @ ts"
proof -
  let ?co = "on_state k clearAggregatedRows co" and ?n = "getNodeId w" and ?fs = "sys_fs sys"
  have at: "state_at ?co k = clearAggregatedRows (state_at co k)" using k by simp
  have b0: "books ?fs w D L (state_at ?co k)" unfolding at by (rule books_clear [OF used b])
  have s0: "steps k co ?co" by (intro steps_on_state good_update_simple)
  have sel: "find (worker_selected a (rs_request (state_at a k))) (co_workers a) = Some w"
    and vis': "hasVisitedNode (rs_request (state_at a k)) ?n" and k': "k < length (co_queryStates a)"
    if "steps k co a" for a
  proof -
    have r: "rs_request (state_at a k) = rs_request (state_at co k)" by (rule steps_request [OF that k])
    have "worker_selected a = worker_selected co"
      using that by (intro ext) (simp add: steps_def worker_selected_def split: option.split)
    then show "find (worker_selected a (rs_request (state_at a k))) (co_workers a) = Some w"
      using w r that by (simp add: steps_def)
    show "hasVisitedNode (rs_request (state_at a k)) ?n" using vis r by simp
    show "k < length (co_queryStates a)" using k that by (simp add: steps_def)
  qed
  have remote: "\<exists>ts. books ?fs w D (L @ ts) (state_at a' k) \<and> noted d' = noted d @ ts"
    if st: "steps k co a" and ba: "books ?fs w D L (state_at a k)"
      and f: "fetchRemoteExecuteChunks sys k m a d = (r, a', d')" for a a' d d' r
  proof -
    obtain ts where ts: "takes_in k ?n a ts a'" "noted d' = noted d @ ts"
      using fetch_remote_noted [OF f k' [OF st] vis' [OF st]] by auto
    have "steps k a a'" using steps_fetchRemote [of k a sys m d] f by simp
    from books_takes_in [OF ba ts(1) this k' [OF st]] ts(2) show ?thesis by blast
  qed
  have local: "books ?fs w D K (state_at (snd (fetchLocalExecuteChunk sys k m a)) k)"
    if "steps k co a" "books ?fs w D K (state_at a k)" for a K
    by (rule books_local [OF k' [OF that(1)] refl sel [OF that(1)] that(2)])
  obtain l r a d ts where parts: "(if shouldFetchRemoteFirst (state_at ?co k)
             then case fetchRemoteExecuteChunks sys k m ?co e of (r, co, e) \<Rightarrow>
                  case fetchLocalExecuteChunk sys k m co of (l, co) \<Rightarrow> (l, r, co, e)
             else case fetchLocalExecuteChunk sys k m ?co of (l, co) \<Rightarrow>
                  case fetchRemoteExecuteChunks sys k m co e of (r, co, e) \<Rightarrow> (l, r, co, e)) = (l, r, a, d)"
    and ts: "books ?fs w D (L @ ts) (state_at a k)" "noted d = noted e @ ts" and len: "k < length (co_queryStates a)"
  proof (cases "shouldFetchRemoteFirst (state_at ?co k)")
    case True
    obtain r a1 d1 where f: "fetchRemoteExecuteChunks sys k m ?co e = (r, a1, d1)" by (metis prod_cases3)
    obtain l a2 where g: "fetchLocalExecuteChunk sys k m a1 = (l, a2)" by fastforce
    obtain ts where ts: "books ?fs w D (L @ ts) (state_at a1 k)" "noted d1 = noted e @ ts"
      using remote [OF s0 b0 f] by auto
    have s1: "steps k co a1" using steps_trans [OF s0 steps_fetchRemote [of k ?co sys m e]] f by simp
    have "steps k co a2" using steps_trans [OF s1 steps_fetchLocal [of k a1 sys m]] g by simp
    then show ?thesis using that [of l r a2 d1 ts] f g ts(2) local [OF s1 ts(1)] True k' by simp
  next
    case False
    obtain l a1 where g: "fetchLocalExecuteChunk sys k m ?co = (l, a1)" by fastforce
    obtain r a2 d2 where f: "fetchRemoteExecuteChunks sys k m a1 e = (r, a2, d2)" by (metis prod_cases3)
    have s1: "steps k co a1" using steps_trans [OF s0 steps_fetchLocal [of k ?co sys m]] g by simp
    have "books ?fs w D L (state_at a1 k)" using local [OF s0 b0] g by simp
    from remote [OF s1 this f] obtain ts where ts: "books ?fs w D (L @ ts) (state_at a2 k)" "noted d2 = noted e @ ts"
      by auto
    have "steps k co a2" using steps_trans [OF s1 steps_fetchRemote [of k a1 sys m e]] f by simp
    then show ?thesis using that [of l r a2 d2 ts] f g ts False k' by simp
  qed
  let ?a = "on_state k advanceFetchRound a"
  have fin: "co' = (if allWorkersCompleted (state_at ?a k) then on_state k (setState COMPLETED) ?a else ?a) \<and> e' = d"
    using run unfolding fetchNextExecuteChunks_def Let_def if_P [OF used] parts by auto
  have "books ?fs w D (L @ ts) (state_at co' k)" using fin ts(1) len by simp
  then show ?thesis using fin ts(2) by blast
qed

text \<open>One fetch: the rows it returns leave the cache, and when it says done the books are closed.\<close>

lemma window_books:
  assumes k: "k < length (co_queryStates co)"
    and w: "find (worker_selected co (rs_request (state_at co k))) (co_workers co) = Some w"
    and vis: "hasVisitedNode (rs_request (state_at co k)) (getNodeId w)"
    and b: "books (sys_fs sys) w D L (state_at co k)" and run: "fetch_window sys k m co e = (co', e')"
  shows "\<exists>ts. books (sys_fs sys) w D (L @ ts) (state_at co' k) \<and> noted e' = noted e @ ts"
proof (cases "length (window_trips (state_at co k)) \<le> rs_nextUnreadIndex (state_at co k) \<and>
    \<not> allWorkersCompleted (state_at co k)")
  case True
  obtain got where "fetchNextExecuteChunks sys k m co e = (got, co', e')"
    using run True by (cases "fetchNextExecuteChunks sys k m co e") (simp add: fetch_window_def)
  with round_books [OF k w vis b] True show ?thesis by blast
next
  case False
  then have "co' = co \<and> e' = e" using run by (auto simp: fetch_window_def)
  then show ?thesis using b by (intro exI [of _ "[]"]) simp
qed

lemma books_completed:
  assumes "books fs w D L s" and "request_inv s" and "allWorkersCompleted s"
  shows "scanned (getNodeId w) s = worker_rows fs w"
proof -
  obtain p where p: "findWorkerProgress (getNodeId w) s = Some p"
    and fin: "wp_completed p \<Longrightarrow> wp_nextStartRow p = worker_rows fs w"
    using assms(1) by (auto simp: books_def)
  have ok: "um_ok (rs_workerProgress s)" using assms(2) by (simp add: request_inv_def progress_ok_def)
  have "rs_workerProgress s \<noteq> []" using p by (auto simp: findWorkerProgress_def)
  with allWorkersCompleted_iff [OF ok] assms(3) p have "wp_completed p" by auto
  with fin p show ?thesis by (simp add: scanned_def)
qed

lemma fetch_books:
  assumes find: "findRequestState co i = Some k" and inv: "coordinator_inv co"
    and w: "find (worker_selected co (rs_request (state_at co k))) (co_workers co) = Some w"
    and vis: "hasVisitedNode (rs_request (state_at co k)) (getNodeId w)"
    and b: "books (sys_fs sys) w D L (state_at co k)" and run: "fetchChunkForRpc sys i m co e = (out, co', e')"
  shows "\<exists>ts. books (sys_fs sys) w (D @ rp_trips out) (L @ ts) (state_at co' k) \<and> noted e' = noted e @ ts \<and>
    (active_execute co k \<and> rp_done out \<longrightarrow>
       unread_trips (state_at co' k) = [] \<and> scanned (getNodeId w) (state_at co' k) = worker_rows (sys_fs sys) w)"
proof (cases "active_execute co k")
  case False
  note off = fetchChunk_inactive [OF find False, of sys m e]
  then have "co' = co" "e' = e" "rp_trips out = []" using run by simp_all
  then show ?thesis using b False by (intro exI [of _ "[]"]) simp
next
  case True
  let ?n = "chooseAdaptiveChunkSize co m"
  have k: "k < length (co_queryStates co)" using findRequestState_Some [OF find] by simp
  obtain co1 e1 where win: "fetch_window sys k ?n co e = (co1, e1)" by fastforce
  obtain ts where ts: "books (sys_fs sys) w D (L @ ts) (state_at co1 k)" "noted e1 = noted e @ ts"
    using window_books [OF k w vis b win] by auto
  have st: "steps k co co1" using steps_fetch_window [of k co sys ?n e] win by simp
  then have k1: "k < length (co_queryStates co1)" and inv1: "coordinator_inv co1" using k inv by (simp_all add: steps_def)
  note comp = books_completed [OF ts(1) coordinator_inv_request [OF inv1 k1]]
  note act = fetchChunk_active [OF find True win]
  let ?s = "state_at co1 k"
  show ?thesis
  proof (cases "length (window_trips ?s) \<le> rs_nextUnreadIndex ?s")
    case True
    then have "rp_trips out = []" "co' = co1" "e' = e1" "rp_done out = allWorkersCompleted ?s"
      using act(1) run by (simp_all add: new_RpcChunkResult_def)
    then show ?thesis using ts comp True by (intro exI [of _ ts]) (simp add: unread_trips_def)
  next
    case False
    define n where "n = min ?n (length (unread_trips ?s))"
    have n: "n \<le> length (unread_trips ?s)" "length (unread_trips ?s) = length (window_trips ?s) - rs_nextUnreadIndex ?s"
      by (simp_all add: n_def unread_trips_def)
    let ?t = "setNextUnreadIndex (rs_nextUnreadIndex ?s + n) ?s"
    from act(2) False run n have trips: "rp_trips out = take n (unread_trips ?s)" and e: "e' = e1"
      and s': "state_at co' k \<in> {?t, setState COMPLETED ?t}"
      and fin: "rp_done out \<longleftrightarrow> length (window_trips ?s) \<le> rs_nextUnreadIndex ?s + n \<and> allWorkersCompleted ?s"
      using k1 by (auto simp: Let_def new_RpcChunkResult_def unread_trips_def n_def)
    have bt: "books (sys_fs sys) w (D @ rp_trips out) (L @ ts) ?t" unfolding trips by (rule books_take [OF ts(1) n(1)])
    then have "books (sys_fs sys) w (D @ rp_trips out) (L @ ts) (state_at co' k)" using s' by auto
    moreover have "unread_trips (state_at co' k) = [] \<and> scanned (getNodeId w) (state_at co' k) = worker_rows (sys_fs sys) w"
      if "rp_done out"
    proof -
      have "unread_trips ?t = []" "scanned (getNodeId w) ?t = worker_rows (sys_fs sys) w"
        using that fin comp by (simp_all add: unread_trips_def scanned_def findWorkerProgress_def)
      then show ?thesis using s'
        by (auto simp: unread_trips_def scanned_def findWorkerProgress_def)
    qed
    ultimately show ?thesis using ts(2) e by blast
  qed
qed

end

section \<open>The tap\<close>

interpretation tapped: noting "tap sys" snd for sys :: "'e system"
  by unfold_locales (simp_all add: tap_def tap_ops_def case_prod_beta)

text \<open>Tapping changes nothing: without the notes, every operation does what it does on the plain stub.\<close>

lemma tap_ops_sel [simp]:
  "op_NewStub (tap_ops ops) = op_NewStub ops"
  "op_SubmitSubQuery (tap_ops ops) t r e =
     (case op_SubmitSubQuery ops t r (fst e) of (a, d) \<Rightarrow> (a, d, snd e))"
  "op_FetchSubChunk (tap_ops ops) t f e =
     (case op_FetchSubChunk ops t f (fst e) of (a, d) \<Rightarrow> (a, d, snd e @ reply_trips a))"
  by (simp_all add: tap_ops_def case_prod_beta)

lemma tap_stub [simp]: "getOrCreateStub (tap_ops ops) c n = getOrCreateStub ops c n"
  by (simp add: getOrCreateStub_def Let_def split: option.split)

lemma sys_ops_tap [simp]: "sys_ops (tap sys) = tap_ops (sys_ops sys)"
  by (simp add: tap_def)

lemma tap_submit:
  "submitSubQuery (tap_ops ops) t req p c e = (a, c', e') \<Longrightarrow> submitSubQuery ops t req p c (fst e) = (a, c', fst e')"
  by (auto simp: submitSubQuery_def split: prod.splits option.splits sum.splits)

lemma tap_fetchSub:
  "fetchSubChunk (tap_ops ops) t i m c e = (a, c', e') \<Longrightarrow> fetchSubChunk ops t i m c (fst e) = (a, c', fst e')"
  by (auto simp: fetchSubChunk_def split: prod.splits option.splits sum.splits if_splits)

lemma tap_local: "fetchLocalExecuteChunk (tap sys) k m co = fetchLocalExecuteChunk sys k m co"
  by (simp add: fetchLocalExecuteChunk_def Let_def split: option.split)

lemma tap_from_child:
  assumes "fetch_from_child (tap sys) k m c p client co e = (got, co', e')"
  shows "fetch_from_child sys k m c p client co (fst e) = (got, co', fst e')"
proof -
  obtain chunk client1 e1 where f: "fetchSubChunk (tap_ops (sys_ops sys)) c (wp_remoteRequestId p)
      (chooseAdaptiveChunkSize co m) client e = (chunk, client1, e1)" by (metis prod_cases3)
  show ?thesis using assms tap_fetchSub [OF f] f
    by (auto simp: fetch_from_child_def Let_def split: if_splits)
qed

lemma tap_remote_child:
  assumes "fetch_remote_child (tap sys) k m cs c co e = (got, co', e')"
  shows "fetch_remote_child sys k m cs c co (fst e) = (got, co', fst e')"
proof -
  let ?p = "fst (getWorkerProgress c (state_at co k))"
  let ?co = "on_state k (\<lambda>s. snd (getWorkerProgress c s)) co"
  show ?thesis
  proof (cases "hasVisitedNode (rs_request (state_at co k)) c \<or> wp_completed ?p \<or> co_remoteClient co = None")
    case True
    then show ?thesis using assms
      by (auto simp: fetch_remote_child_def Let_def simp del: fst_getWorkerProgress split: option.splits)
  next
    case False
    then obtain client where client: "co_remoteClient co = Some client" by auto
    obtain ok rid msg client1 e1 where sub: "submitSubQuery (tap_ops (sys_ops sys)) c
        (child_request ?co (rs_request (state_at co k)) cs m) (rs_queryId (state_at ?co k)) client e =
          ((ok, rid, msg), client1, e1)" by (metis prod_cases3)
    show ?thesis
      using assms False client sub tap_submit [OF sub] tap_from_child [of sys k m c _ _ _ _ got co' e']
      by (auto simp: fetch_remote_child_def Let_def simp del: fst_getWorkerProgress split: if_splits)
  qed
qed

lemma tap_remote_loop:
  assumes "fetch_remote_loop (tap sys) k m children cs got co e = (got', co', e')"
  shows "fetch_remote_loop sys k m children cs got co (fst e) = (got', co', fst e')"
  using assms
proof (induction cs arbitrary: got co e)
  case (Cons c cs)
  obtain g co1 e1 where f: "fetch_remote_child (tap sys) k m children c co e = (g, co1, e1)" by (metis prod_cases3)
  show ?case using Cons tap_remote_child [OF f] f by simp
qed simp

lemma tap_remote:
  assumes "fetchRemoteExecuteChunks (tap sys) k m co e = (got, co', e')"
  shows "fetchRemoteExecuteChunks sys k m co (fst e) = (got, co', fst e')"
  using assms by (auto simp: fetchRemoteExecuteChunks_def Let_def dest: tap_remote_loop split: option.splits)

lemma tap_next:
  assumes "fetchNextExecuteChunks (tap sys) k m co e = (got, co', e')"
  shows "fetchNextExecuteChunks sys k m co (fst e) = (got, co', fst e')"
proof -
  obtain r1 co1 e1 where f: "fetchRemoteExecuteChunks (tap sys) k m
      (if rs_nextUnreadIndex (state_at co k) \<ge> length (window_trips (state_at co k))
       then on_state k clearAggregatedRows co else co) e = (r1, co1, e1)" by (metis prod_cases3)
  obtain l2 co2 where g: "fetchLocalExecuteChunk sys k m
      (if rs_nextUnreadIndex (state_at co k) \<ge> length (window_trips (state_at co k))
       then on_state k clearAggregatedRows co else co) = (l2, co2)" by fastforce
  obtain r3 co3 e3 where h: "fetchRemoteExecuteChunks (tap sys) k m co2 e = (r3, co3, e3)" by (metis prod_cases3)
  show ?thesis
    using assms unfolding fetchNextExecuteChunks_def Let_def tap_local f g h prod.case
      tap_remote [OF f] tap_remote [OF h] by (auto split: if_splits prod.splits)
qed

lemma tap_fetch:
  assumes "fetchChunkForRpc (tap sys) i m co e = (out, co', e')"
  shows "fetchChunkForRpc sys i m co (fst e) = (out, co', fst e')"
proof (cases "findRequestState co i")
  case None
  then show ?thesis using assms by (simp add: fetchChunk_unknown)
next
  case (Some k)
  let ?n = "chooseAdaptiveChunkSize co m"
  obtain co1 e1 where win: "fetch_window (tap sys) k ?n co e = (co1, e1)" by (metis surj_pair)
  obtain g co2 e2 where nx: "fetchNextExecuteChunks (tap sys) k ?n co e = (g, co2, e2)" by (metis prod_cases3)
  have win': "fetch_window sys k ?n co (fst e) = (co1, fst e1)"
    using win tap_next [OF nx] nx by (auto simp: fetch_window_def split: if_splits)
  show ?thesis
  proof (cases "active_execute co k")
    case True
    show ?thesis
    proof (cases "length (window_trips (state_at co1 k)) \<le> rs_nextUnreadIndex (state_at co1 k)")
      case closed: True
      show ?thesis using assms
        unfolding fetchChunk_active(1) [OF Some True win closed] fetchChunk_active(1) [OF Some True win' closed] prod.inject
        by (elim conjE) (intro conjI; (assumption | simp only:))
    next
      case False
      then have open_: "rs_nextUnreadIndex (state_at co1 k) < length (window_trips (state_at co1 k))" by simp
      show ?thesis using assms
        unfolding fetchChunk_active(2) [OF Some True win open_] fetchChunk_active(2) [OF Some True win' open_]
          Let_def prod.inject
        by (elim conjE) (intro conjI; (assumption | simp only:))
    qed
  next
    case False
    then consider "rs_state (state_at co k) = CANCELLED"
      | "rs_state (state_at co k) \<noteq> CANCELLED" "rs_state (state_at co k) = TIMED_OUT"
      | "rs_state (state_at co k) \<noteq> CANCELLED" "rs_state (state_at co k) \<noteq> TIMED_OUT"
        "qq_queryType (rs_request (state_at co k)) = Count"
      unfolding active_execute_def by blast
    then show ?thesis
      by cases (use Some assms in \<open>simp_all add: fetchChunkForRpc_def\<close>)
  qed
qed

end
