(* ===== verification/Ledger_Properties.thy ===== *)
theory Ledger_Properties
  imports Coordinator_Ledger Service_Properties Query_Programs
begin

text \<open>
  A request over the whole life of its node: fetches of it, any other RPCs and any moves of the other nodes
  in between, children that answer anything or fail. What was delivered, what is still cached, what was read
  from the node's own files and what arrived from the children always balance.
\<close>

section \<open>Audited runs\<close>

inductive audited ::
  "'e system \<Rightarrow> node_id \<Rightarrow> string \<Rightarrow> coordinator \<times> 'e \<Rightarrow> TaxiTrip list \<Rightarrow> TaxiTrip list \<Rightarrow> coordinator \<times> 'e \<Rightarrow> bool"
  for sys self i st
where
  \<comment> \<open>a run from \<open>st\<close> in which fetches of request \<open>i\<close> returned the trips \<open>D\<close> and received the trips \<open>L\<close>\<close>
  audit_start: "audited sys self i st [] [] st"
| audit_fetch: "audited sys self i st D L (co, e) \<Longrightarrow>
     fetchChunkForRpc (tap sys) i m co (e, []) = (out, co', e', ts) \<Longrightarrow>
     audited sys self i st (D @ rp_trips out) (L @ ts) (co', e')"
| audit_other: "audited sys self i st D L (co, e) \<Longrightarrow> service_step sys self (co, e) ev st' \<Longrightarrow>
     \<forall>f. ev = RpcFetch f \<or> ev = RpcFetchSub f \<longrightarrow> fq_request_id f \<noteq> i \<Longrightarrow> audited sys self i st D L st'"

text \<open>An audited run is a run of the service.\<close>

lemma run_snoc:
  "service_run sys self st evs st1 \<Longrightarrow> service_step sys self st1 ev st2 \<Longrightarrow> service_run sys self st (evs @ [ev]) st2"
  by (induction rule: service_run.induct) (auto intro: service_run.intros)

lemma fetched_step:
  assumes "fetchChunkForRpc (tap sys) i m co (e, L) = (out, co', e', L')"
  shows "service_step sys self (co, e) (RpcFetch \<lparr> fq_request_id = i, fq_max_rows = m \<rparr>) (co', e')"
  using tap_fetch [OF assms] by (intro step_fetch [where freply = "fill_fetch_reply self out"]) (simp add: FetchChunk_def)

lemma audited_run:
  assumes "audited sys self i st D L st'"
  shows "\<exists>evs. service_run sys self st evs st'"
  using assms
proof induction
  case audit_start
  show ?case by (rule exI [where x = "[]"]) (rule run_nil)
next
  case (audit_fetch D L co e m out co' e' ts)
  then show ?case using run_snoc [OF _ fetched_step [OF audit_fetch.hyps(2)]] by blast
next
  case (audit_other D L co e ev st')
  then show ?case using run_snoc by blast
qed

section \<open>The balance along a run\<close>

definition accounted :: "file_system \<Rightarrow> WorkerNode \<Rightarrow> string \<Rightarrow> nat \<Rightarrow> QueryRequest \<Rightarrow> TaxiTrip list \<Rightarrow> TaxiTrip list \<Rightarrow> coordinator \<Rightarrow> bool" where
  "accounted fs w i k req D L co \<longleftrightarrow> service_inv co \<and> findRequestState co i = Some k \<and>
     rs_request (state_at co k) = req \<and> qq_targetNodeId req = None \<and> getNodeId w = co_selfNodeId co \<and>
     find (\<lambda>w. co_selfNodeId co \<noteq> [] \<longrightarrow> getNodeId w = co_selfNodeId co) (co_workers co) = Some w \<and>
     books fs w D L (state_at co k)"

lemma accounted_fetch:
  assumes a: "accounted (sys_fs sys) w i k req D L co"
    and run: "fetchChunkForRpc (tap sys) i m co (e, []) = (out, co', e', ts)"
  shows "accounted (sys_fs sys) w i k req (D @ rp_trips out) (L @ ts) co' \<and>
    (rs_state (state_at co k) \<notin> {CANCELLED, TIMED_OUT} \<and> rp_done out \<longrightarrow>
       unread_trips (state_at co' k) = [] \<and> scanned (getNodeId w) (state_at co' k) = worker_rows (sys_fs sys) w)"
proof -
  have inv: "service_inv co" and find: "findRequestState co i = Some k" and req: "rs_request (state_at co k) = req"
    and b: "books (sys_fs (tap sys)) w D L (state_at co k)" and self: "getNodeId w = co_selfNodeId co"
    and target: "qq_targetNodeId req = None"
    and w: "find (\<lambda>w. co_selfNodeId co \<noteq> [] \<longrightarrow> getNodeId w = co_selfNodeId co) (co_workers co) = Some w"
    using a by (auto simp: accounted_def)
  have k: "k < length (co_queryStates co)" using findRequestState_Some [OF find] by simp
  have ci: "coordinator_inv co" and exec: "qq_queryType req = Execute"
    and vis: "hasVisitedNode (rs_request (state_at co k)) (getNodeId w)"
    using inv k req self by (auto simp: service_inv_def hasVisitedNode_def)
  have "worker_selected co req = (\<lambda>w. co_selfNodeId co \<noteq> [] \<longrightarrow> getNodeId w = co_selfNodeId co)"
    using target by (intro ext) (auto simp: worker_selected_def)
  then have sel: "find (worker_selected co (rs_request (state_at co k))) (co_workers co) = Some w" using w req by simp
  obtain us where us: "books (sys_fs sys) w (D @ rp_trips out) (L @ us) (state_at co' k)" "ts = us"
    and fin: "active_execute co k \<and> rp_done out \<longrightarrow>
       unread_trips (state_at co' k) = [] \<and> scanned (getNodeId w) (state_at co' k) = worker_rows (sys_fs sys) w"
    using tapped.fetch_books [OF find ci sel vis b run] by auto
  have step: "service_step sys self (co, e) (RpcFetch \<lparr> fq_request_id = i, fq_max_rows = m \<rparr>) (co', e')" for self
    by (rule fetched_step [OF run])
  have same: "same_node co co'" by (rule step_same_node [OF step inv])
  have "accounted (sys_fs sys) w i k req (D @ rp_trips out) (L @ ts) co'"
    using us same step_service_inv [OF step inv] step_find [OF step inv find] req target self w
    by (auto simp: accounted_def same_node_def)
  moreover have "active_execute co k" if "rs_state (state_at co k) \<notin> {CANCELLED, TIMED_OUT}"
    using that exec req by (simp add: active_execute_def)
  ultimately show ?thesis using fin by blast
qed

lemma accounted_other:
  assumes a: "accounted fs w i k req D L co" and step: "service_step sys self (co, e) ev (co', e')"
    and other: "\<forall>f. ev = RpcFetch f \<or> ev = RpcFetchSub f \<longrightarrow> fq_request_id f \<noteq> i"
  shows "accounted fs w i k req D L co'"
proof -
  have inv: "service_inv co" and find: "findRequestState co i = Some k" and b: "books fs w D L (state_at co k)"
    using a by (auto simp: accounted_def)
  have k: "k < length (co_queryStates co)" using findRequestState_Some [OF find] by simp
  have same: "same_node co co'" by (rule step_same_node [OF step inv])
  have "books fs w D L (state_at co' k)"
  proof (cases "ev = RpcCancel i \<or> ev = RpcCancelSub i")
    case False
    then show ?thesis using b step_isolated [OF step inv find] other by simp
  next
    case True
    from step service_inv_ids [OF inv] show ?thesis
    proof (cases rule: step_shape)
      case (cancelled j)
      then obtain n where "co' = on_state n (setState CANCELLED) co" by (auto simp: cancels_def)
      then show ?thesis using b k
        by (cases "n < length (co_queryStates co)") (auto simp: on_state_beyond)
    qed (use True b in auto)
  qed
  then show ?thesis
    using a same step_service_inv [OF step inv] step_find [OF step inv find]
    by (auto simp: accounted_def same_node_def)
qed

lemma accounted_run:
  assumes "audited sys self i st D L st'" and "accounted (sys_fs sys) w i k req [] [] (fst st)"
  shows "accounted (sys_fs sys) w i k req D L (fst st')"
  using assms
proof induction
  case (audit_fetch D L co e m out co' e' ts)
  then show ?case using accounted_fetch [of sys w i k req D L co m e out co' e' ts] by simp
next
  case (audit_other D L co e ev st')
  obtain co' e' where "st' = (co', e')" by fastforce
  with audit_other show ?case using accounted_other [of "sys_fs sys" w i k req D L co sys self e ev co' e'] by simp
qed simp

text \<open>From a node's start: a submitted request begins with empty books.\<close>

lemma submitted_accounted:
  assumes run: "service_run sys self (start_coordinator (sys_fs sys) cfg, e0) evs (co, e)"
    and sub: "SubmitQuery sys self m co e = (reply, co1, e1)"
  shows "\<exists>req. same_filter req (fromProtoSubmitQueryRequest m) \<and>
    accounted (sys_fs sys) (local_worker (sys_fs sys) cfg) (sr_request_id reply) (length (co_queryStates co)) req [] [] co1"
proof -
  let ?fs = "sys_fs sys" and ?k = "length (co_queryStates co)" and ?q = "fromProtoSubmitQueryRequest m"
  let ?w = "local_worker ?fs cfg" and ?i = "''q-'' @ show_nat (co_nextQuerySeq co)"
  let ?co = "co\<lparr>co_nextQuerySeq := co_nextQuerySeq co + 1\<rparr>"
  let ?req = "markVisitedNode (co_selfNodeId co) (?q\<lparr>qq_queryId := ?i\<rparr>)"
  have inv: "service_inv co" by (rule run_service_inv [OF run start_service_inv])
  have inv1: "service_inv co1" using step_service_inv [OF step_submit [OF sub] inv] .
  have same: "same_node (start_coordinator ?fs cfg) co" by (rule run_same_node [OF run start_service_inv])
  have w: "find (\<lambda>w. co_selfNodeId co \<noteq> [] \<longrightarrow> getNodeId w = co_selfNodeId co) (co_workers co) = Some ?w"
    using start_coordinator_worker [of ?fs cfg] same by (simp add: same_node_def)
  have self: "getNodeId ?w = co_selfNodeId co"
    using same by (simp add: same_node_def start_coordinator_def Let_def addWorker_def make_QueryCoordinator_def
        new_QueryCoordinator_def local_worker_def getNodeId_def new_WorkerNode_def new_NodeInfo_def)
  obtain i where q: "submitClientQuery sys ?q co e = (i, co1, e1)" "sr_request_id reply = i"
    using sub by (auto simp: SubmitQuery_def fillSubmitQueryReply_def split: prod.splits)
  have i: "i = ?i" and co1: "co1 = begin_execute ?req ?co"
    using q(1) proto_request(1,2) [of m] by (auto simp: submitClientQuery_def ensureQueryId_def Let_def)
  have fresh: "findRequestState ?co (qq_queryId ?req) = None"
    using ensureQueryId_fresh [OF service_inv_ids [OF inv] proto_request(1), of m] proto_request(1) [of m]
    by (simp add: ensureQueryId_def Let_def findRequestState_None)
  have target: "qq_targetNodeId ?req = None"
    by (simp add: fromProtoSubmitQueryRequest_def Let_def fromProtoFilter_def new_QueryRequest_def)
  have "worker_selected ?co ?req = (\<lambda>w. co_selfNodeId co \<noteq> [] \<longrightarrow> getNodeId w = co_selfNodeId co)"
    using target by (intro ext) (auto simp: worker_selected_def)
  then have "find (worker_selected ?co ?req) (co_workers ?co) = Some ?w" using w by simp
  from begin_books [OF fresh this, of ?fs] have "books ?fs ?w [] [] (state_at co1 ?k)" by (simp add: co1)
  moreover note sub' = submitClient_submits(1) [OF service_inv_ids [OF inv] proto_request(1,2) q(1)]
  ultimately have "accounted ?fs ?w i ?k ?req [] [] co1"
    using inv1 target self w sub' by (auto simp: accounted_def submits_def i)
  moreover have "same_filter ?req ?q" by (simp add: same_filter_def)
  ultimately show ?thesis using q(2) by blast
qed

section \<open>Properties\<close>


definition ex_talking :: "unit system" where
  \<comment> \<open>the files of the example, and a child that accepts every subquery and answers with one row and done\<close>
  "ex_talking = \<lparr> sys_fs = ex_fs, sys_ops = no_ops\<lparr>
     op_SubmitSubQuery := (\<lambda>_ r e. (Inr (fillSubmitSubQueryReply True ''q-9'' ''B'' ''accepted''), e)),
     op_FetchSubChunk := (\<lambda>_ f e. (Inr \<lparr> fr_found = True, fr_request_id = ''q-9'', fr_node_id = ''B'',
       fr_rows = [toProtoTripRow empty_trip ''B''], fr_done = True, fr_rows_returned = 1, fr_message = ''done'' \<rparr>, e))\<rparr>\<rparr>"

definition ex_first_fetch :: "RpcChunkResult \<times> coordinator \<times> unit \<times> TaxiTrip list" where
  "ex_first_fetch = fetchChunkForRpc (tap ex_talking) ''q-1'' 1 ex_parent_submitted ((), [])"

lemma ex_parent_submit:
  "SubmitQuery ex_talking ''A'' ex_message (start_coordinator ex_fs ex_parent_cfg) () =
    (fst (SubmitQuery ex_sys ''A'' ex_message ex_parent ()), ex_parent_submitted, ())"
proof -
  have "SubmitQuery ex_talking ''A'' ex_message (start_coordinator ex_fs ex_parent_cfg) () =
      SubmitQuery ex_sys ''A'' ex_message ex_parent ()"
    by (simp add: ex_parent_def SubmitQuery_def submitClientQuery_def ensureQueryId_def Let_def proto_request)
  then show ?thesis by (simp add: ex_parent_submitted_def prod_eq_iff)
qed


end
