(* ===== verification/Network_Faults.thy ===== *)
theory Network_Faults
  imports Deployment
begin

text \<open>
  A network that loses calls. Between any two nodes a call may fail before it arrives or after it ran, by a
  deadline, a broken connection or a full queue; the weather decides, a state of its own of which nothing is
  assumed. Whatever is lost, no node ever caches or returns a row that is not a match of the query at the
  node it names: the links between requests of different nodes stay true.
\<close>

section \<open>Calls that may be lost\<close>

datatype fate = Delivered | Request_Lost | Reply_Lost

type_synonym 'w world = "network \<times> 'w"

definition lossy_call ::
  "('w \<Rightarrow> fate \<times> 'w) \<Rightarrow> string \<Rightarrow> (coordinator \<Rightarrow> 'w world \<Rightarrow> 'r \<times> coordinator \<times> 'w world) \<Rightarrow> 'w world \<Rightarrow>
     (string + 'r) \<times> 'w world"
where
  "lossy_call wx a h e =
     (case e of (N, w) \<Rightarrow>
      case wx w of (f, w) \<Rightarrow>
        if f = Request_Lost then (Inl ''unavailable'', N, w)
        else case N a of
          None \<Rightarrow> (Inl ''unavailable'', N, w)
        | Some co \<Rightarrow>
            case h co (N, w) of (r, co, N, w) \<Rightarrow>
              (if f = Delivered then Inr r else Inl ''deadline exceeded'', N(a \<mapsto> co), w))"

primrec lossy_ops :: "('w \<Rightarrow> fate \<times> 'w) \<Rightarrow> (string \<Rightarrow> file_system) \<Rightarrow> nat \<Rightarrow> 'w world stub_ops" where
  "lossy_ops wx fs 0 = \<lparr> op_NewStub = (\<lambda>_. True),
     op_SubmitSubQuery = (\<lambda>_ _ e. (Inl ''too deep'', e)),
     op_FetchSubChunk = (\<lambda>_ _ e. (Inl ''too deep'', e)),
     op_CancelSubQuery = (\<lambda>_ _ e. (Inl ''too deep'', e)) \<rparr>"
| "lossy_ops wx fs (Suc d) = \<lparr> op_NewStub = (\<lambda>_. True),
     op_SubmitSubQuery = (\<lambda>a m. lossy_call wx a (\<lambda>co.
       SubmitSubQuery \<lparr> sys_fs = fs a, sys_ops = lossy_ops wx fs d \<rparr> (co_selfNodeId co) m co)),
     op_FetchSubChunk = (\<lambda>a m. lossy_call wx a (\<lambda>co.
       FetchSubChunk \<lparr> sys_fs = fs a, sys_ops = lossy_ops wx fs d \<rparr> (co_selfNodeId co) m co)),
     op_CancelSubQuery = (\<lambda>a i. lossy_call wx a (\<lambda>co e.
       case CancelSubQuery (co_selfNodeId co) i co of (r, co) \<Rightarrow> (r, co, e))) \<rparr>"

definition lossy_system :: "('w \<Rightarrow> fate \<times> 'w) \<Rightarrow> (string \<Rightarrow> file_system) \<Rightarrow> nat \<Rightarrow> string \<Rightarrow> 'w world system" where
  "lossy_system wx fs d a = \<lparr> sys_fs = fs a, sys_ops = lossy_ops wx fs d \<rparr>"

lemma lossy_system_sel [simp]:
  "sys_fs (lossy_system wx fs d a) = fs a" "sys_ops (lossy_system wx fs d a) = lossy_ops wx fs d"
  by (simp_all add: lossy_system_def)

lemma lossy_ops_NewStub [simp]: "op_NewStub (lossy_ops wx fs d) a"
  by (cases d) simp_all

section \<open>True rows and true links\<close>

definition true_row :: "topology \<Rightarrow> QueryRequest \<Rightarrow> labelled \<Rightarrow> bool" where
  \<comment> \<open>a match of the query at the node the row names\<close>
  "true_row T f r \<longleftrightarrow> snd r \<in> tp_nodes T \<and> r \<in> set (rows_from T f (snd r) 0)"

definition linked :: "view \<Rightarrow> RequestState \<Rightarrow> node_id \<Rightarrow> bool" where
  \<comment> \<open>an open subquery of a request is a request of the child, with the same filter and a longer history\<close>
  "linked Q s c \<longleftrightarrow> (\<forall>q. findWorkerProgress c s = Some q \<and> wp_submitted q \<and> \<not> wp_completed q \<longrightarrow>
     (\<exists>j t. Q c j = Some t \<and> rs_queryId t = wp_remoteRequestId q \<and>
        same_filter (rs_request t) (rs_request s) \<and> visited s \<subseteq> visited t))"

definition true_request :: "topology \<Rightarrow> view \<Rightarrow> node_id \<Rightarrow> RequestState \<Rightarrow> bool" where
  "true_request T Q n s \<longleftrightarrow> n \<in> visited s \<and> qq_targetNodeId (rs_request s) = None \<and> sendable (rs_request s) \<and>
     (\<forall>r \<in> set (window s). true_row T (rs_request s) r) \<and>
     (\<exists>p. findWorkerProgress n s = Some p \<and> wp_nextStartRow p \<le> store_size T n) \<and>
     (\<forall>c \<in> set (open_children T (visited s) n). linked Q s c)"

definition true_node :: "topology \<Rightarrow> view \<Rightarrow> node_id \<Rightarrow> coordinator \<Rightarrow> bool" where
  "true_node T Q n co \<longleftrightarrow> node_ok T n co \<and> (\<forall>k < length (co_queryStates co). true_request T Q n (state_at co k))"

definition true_net :: "topology \<Rightarrow> network \<Rightarrow> bool" where
  "true_net T N \<longleftrightarrow> (\<forall>n \<in> tp_nodes T. \<exists>co. N (tp_addr T n) = Some co \<and> true_node T (req_at T N) n co)"

lemma true_net_ok: "true_net T N \<Longrightarrow> net_ok T N"
  by (auto simp: true_net_def net_ok_def true_node_def)

lemma true_row_cong: "same_filter a b \<Longrightarrow> true_row T a r \<longleftrightarrow> true_row T b r"
  by (simp add: true_row_def rows_from_def all_trips_same [of a b])

lemma true_row_carried: "topology_ok T \<Longrightarrow> true_row T f r \<Longrightarrow> carried_row r"
  by (rule rows_from_carried [where n = "snd r" and i = 0]) (auto simp: true_row_def topology_ok_def)

text \<open>Links survive whatever keeps the requests: \<open>moves\<close> with every record free to move.\<close>

abbreviation keeps :: "topology \<Rightarrow> node_id set \<Rightarrow> network \<Rightarrow> network \<Rightarrow> bool" where
  "keeps T A \<equiv> moves T A UNIV"

lemma keeps_trans: "keeps T A N N' \<Longrightarrow> keeps T A N' N'' \<Longrightarrow> keeps T A N N''"
  by (rule moves_trans) auto

lemma linked_keeps:
  assumes "linked (req_at T N) s c" and "keeps T A N N'"
  shows "linked (req_at T N') s c"
  unfolding linked_def
proof (intro allI impI)
  fix q assume q: "findWorkerProgress c s = Some q \<and> wp_submitted q \<and> \<not> wp_completed q"
  with assms(1) obtain j t where t: "req_at T N c j = Some t" "rs_queryId t = wp_remoteRequestId q"
    "same_filter (rs_request t) (rs_request s)" "visited s \<subseteq> visited t" unfolding linked_def by blast
  with assms(2) obtain t' where t': "req_at T N' c j = Some t'" "rs_request t' = rs_request t" "rs_queryId t' = rs_queryId t"
    unfolding moves_def by blast
  show "\<exists>j t. req_at T N' c j = Some t \<and> rs_queryId t = wp_remoteRequestId q \<and>
      same_filter (rs_request t) (rs_request s) \<and> visited s \<subseteq> visited t"
    by (intro exI [of _ j] exI [of _ t']) (use t t' in \<open>simp add: visited_def\<close>)
qed

lemma true_node_keeps:
  assumes "true_node T (req_at T N) n co" and "keeps T A N N'"
  shows "true_node T (req_at T N') n co"
  using assms(1) linked_keeps [OF _ assms(2)] by (auto simp: true_node_def true_request_def)

lemma true_net_put:
  assumes top: "topology_ok T" "n \<in> tp_nodes T" and net: "true_net T N"
    and k: "keeps T A N (N(tp_addr T n \<mapsto> co))" and co: "true_node T (req_at T N) n co"
  shows "true_net T (N(tp_addr T n \<mapsto> co))"
  unfolding true_net_def
proof
  fix m assume m: "m \<in> tp_nodes T"
  show "\<exists>c. (N(tp_addr T n \<mapsto> co)) (tp_addr T m) = Some c \<and> true_node T (req_at T (N(tp_addr T n \<mapsto> co))) m c"
  proof (cases "m = n")
    case True
    then show ?thesis using true_node_keeps [OF co k] by simp
  next
    case False
    then have "tp_addr T m \<noteq> tp_addr T n" using m top by (auto simp: topology_ok_def dest: inj_onD)
    moreover obtain c where "N (tp_addr T m) = Some c" "true_node T (req_at T N) m c" using net m by (auto simp: true_net_def)
    ultimately show ?thesis using true_node_keeps [OF _ k] by simp
  qed
qed

lemma true_node_step:
  \<comment> \<open>one request of a node has moved\<close>
  assumes "true_node T Q n co" and "steps k co co'" and "node_ok T n co'"
    and "k < length (co_queryStates co) \<Longrightarrow> true_request T Q n (state_at co' k)"
  shows "true_node T Q n co'"
proof -
  have "true_request T Q n (state_at co' j)" if "j < length (co_queryStates co')" for j
    using that assms by (cases "j = k") (auto simp: true_node_def steps_def)
  then show ?thesis using assms(3) by (simp add: true_node_def)
qed

lemma true_request_update:
  assumes "true_request T Q n s" and req: "rs_request s' = rs_request s"
    and "\<forall>r \<in> set (window s'). r \<in> set (window s) \<or> true_row T (rs_request s) r"
    and "\<And>m. m \<noteq> c \<Longrightarrow> findWorkerProgress m s' = findWorkerProgress m s"
    and "c = n \<Longrightarrow> \<exists>p. findWorkerProgress n s' = Some p \<and> wp_nextStartRow p \<le> store_size T n"
    and "c \<notin> visited s \<Longrightarrow> linked Q s' c"
  shows "true_request T Q n s'"
proof -
  note v = visited_cong [OF req]
  have n: "n \<in> visited s" using assms(1) by (simp add: true_request_def)
  have "linked Q s' m" if m: "m \<in> set (open_children T (visited s) n)" for m
  proof (cases "m = c")
    case True
    then show ?thesis using assms(6) m by (simp add: open_children_def)
  next
    case False
    have "linked Q s m" using assms(1) m by (simp add: true_request_def)
    then show ?thesis using assms(4) [OF False] req v by (simp add: linked_def)
  qed
  moreover have "\<exists>p. findWorkerProgress n s' = Some p \<and> wp_nextStartRow p \<le> store_size T n"
    using assms(1,5) assms(4) [of n] by (cases "c = n") (auto simp: true_request_def)
  ultimately show ?thesis using assms(1,3) req v by (auto simp: true_request_def)
qed

lemma true_request_frames:
  assumes "true_request T Q n s"
  shows "true_request T Q n (setState x s)" "true_request T Q n (advanceFetchRound s)"
    "true_request T Q n (setNextUnreadIndex i s)" "true_request T Q n (clearAggregatedRows s)"
  by (rule true_request_update [OF assms, where c = n]; use assms in \<open>auto simp: true_request_def\<close>)+

section \<open>A handler at work\<close>

definition at_work :: "topology \<Rightarrow> node_id \<Rightarrow> network \<Rightarrow> coordinator \<Rightarrow> bool" where
  \<comment> \<open>the coordinator of \<open>n\<close> may be ahead of what the network holds for \<open>n\<close> while its handler runs\<close>
  "at_work T n N co \<longleftrightarrow> topology_ok T \<and> n \<in> tp_nodes T \<and> true_net T N \<and> true_node T (req_at T N) n co"

definition onward :: "topology \<Rightarrow> node_id \<Rightarrow> nat \<Rightarrow> network \<Rightarrow> coordinator \<Rightarrow> network \<Rightarrow> coordinator \<Rightarrow> bool" where
  "onward T n k N co N' co' \<longleftrightarrow> at_work T n N' co' \<and> steps k co co' \<and>
     keeps T (tp_nodes T - visited (state_at co k)) N N'"

lemma at_work_request:
  "at_work T n N co \<Longrightarrow> k < length (co_queryStates co) \<Longrightarrow> true_request T (req_at T N) n (state_at co k)"
  by (simp add: at_work_def true_node_def)

lemma at_work_inv:
  "at_work T n N co \<Longrightarrow> k < length (co_queryStates co) \<Longrightarrow> request_inv (state_at co k)"
  using coordinator_inv_request by (auto simp: at_work_def true_node_def node_ok_def)

lemma onward_refl: "at_work T n N co \<Longrightarrow> onward T n k N co N co"
  by (simp add: onward_def at_work_def moves_refl true_net_ok)

lemma onward_trans:
  assumes "onward T n k N co N1 co1" and "onward T n k N1 co1 N2 co2" and "k < length (co_queryStates co)"
  shows "onward T n k N co N2 co2"
proof -
  have "visited (state_at co1 k) = visited (state_at co k)"
    using assms(1,3) steps_request by (auto simp: onward_def visited_def)
  then show ?thesis using assms(1,2) keeps_trans steps_trans by (auto simp: onward_def)
qed

lemma onwardI:
  assumes "at_work T n N co" and "true_net T N'" and "keeps T (tp_nodes T - visited (state_at co k)) N N'"
    and st: "steps k co co'" and "same_routes co co'"
    and "k < length (co_queryStates co) \<Longrightarrow> true_request T (req_at T N') n (state_at co k) \<Longrightarrow>
       true_request T (req_at T N') n (state_at co' k)"
  shows "onward T n k N co N' co'"
proof -
  have "node_ok T n co" using assms(1) by (simp add: at_work_def true_node_def)
  from node_ok_steps [OF this st assms(5)] have node: "node_ok T n co'" .
  have now: "true_node T (req_at T N') n co"
    using assms(1) true_node_keeps [OF _ assms(3)] by (simp add: at_work_def)
  have "true_node T (req_at T N') n co'"
    by (rule true_node_step [OF now st node]) (use assms(6) now in \<open>simp add: true_node_def\<close>)
  then show ?thesis using assms by (simp add: onward_def at_work_def)
qed

lemma onward_on_state:
  assumes "at_work T n N co" and "good_update f"
    and "k < length (co_queryStates co) \<Longrightarrow> true_request T (req_at T N) n (f (state_at co k))"
  shows "onward T n k N co N (on_state k f co)"
  by (rule onwardI [OF assms(1)])
    (use assms moves_refl true_net_ok in \<open>auto simp: at_work_def intro: steps_on_state\<close>)

section \<open>A call of a child\<close>

lemma lossy_getStub: "getOrCreateStub (lossy_ops wx fs d) cl c = getOrCreateStub (net_ops fs d) cl c"
  by (simp add: getOrCreateStub_def Let_def split: option.split)

lemma lossy_stub:
  assumes "at_work T n N co" and "co_remoteClient co = Some cl" and "c \<in> set (tp_children T n)"
  obtains cl' where "getOrCreateStub (lossy_ops wx fs d) cl c = (Some (tp_addr T c), cl')"
    and "rc_overlay cl' = rc_overlay cl" and "stubs_ok cl'"
  unfolding lossy_getStub
  by (rule stub_of_child [of T n co cl c fs d]) (use assms in \<open>auto simp: at_work_def true_node_def\<close>)

lemma accepted_true:
  assumes top: "topology_ok T" "n \<in> tp_nodes T" and co: "true_node T Q n co"
    and req: "qq_queryType req = Execute" "qq_targetNodeId req = None" "qq_distributedAllowed req" "sendable req"
  shows "true_node T Q n (accepted co req)"
proof -
  have node: "node_ok T n co" and n: "n \<noteq> []" "getNodeId (tp_worker T n) = n"
    using co top by (auto simp: true_node_def topology_ok_def)
  note a = accepted_state [OF node n req]
  let ?k = "length (co_queryStates co)" and ?s = "state_at (accepted co req) (length (co_queryStates co))"
  have own: "own_ok T n ?s" by (rule a(6))
  have "window ?s = []"
  proof -
    let ?co = "co\<lparr>co_nextQuerySeq := co_nextQuerySeq co + 1\<rparr>"
    let ?req = "markVisitedNode (co_selfNodeId co) (req\<lparr>qq_queryId := ''q-'' @ show_nat (co_nextQuerySeq co)\<rparr>)"
    have ids: "generated_ids co" and self: "co_selfNodeId co = n" using node by (simp_all add: node_ok_def)
    have fresh: "findRequestState ?co (qq_queryId ?req) = None"
      using ensureQueryId_fresh [OF ids, of "req\<lparr>qq_queryId := []\<rparr>"]
      by (simp add: ensureQueryId_def Let_def findRequestState_None)
    define base where "base = on_state ?k (setState IN_PROGRESS)
      (?co\<lparr>co_queryStates := co_queryStates ?co @ [new_RequestState (qq_queryId ?req) ?req]\<rparr>)"
    have len: "?k < length (co_queryStates base)" and at: "rs_aggregatedResult (state_at base ?k) = empty_QueryResult"
      by (simp_all add: base_def on_state_def state_at_def nth_append new_RequestState_def setState_def)
    have eq: "accepted co req = initializeExecuteProgress ?k ?req base"
      unfolding accepted_def begin_execute_fresh(1) [OF fresh] by (simp add: base_def)
    have ic: "rs_aggregatedResult (state_at (snd (init_children ?k ?req cs i b)) ?k) = rs_aggregatedResult (state_at b ?k)"
      if "?k < length (co_queryStates b)" for cs i b
      using init_children_opens [OF that, of ?req cs i] init_workers_frame by simp
    have ln: "length (co_queryStates (snd (init_children ?k ?req cs i b))) = length (co_queryStates b)" for cs i b
      by (rule steps_length [OF steps_init_children])
    have "rs_aggregatedResult (state_at (initializeExecuteProgress ?k ?req base) ?k) = empty_QueryResult"
      unfolding initializeExecuteProgress_def using len at ic ln
      by (auto simp: case_prod_beta setExpectedWorkers_def split: option.split)
    then show ?thesis by (simp add: eq window_def empty_QueryResult_def)
  qed
  moreover have "findWorkerProgress n ?s = Some new_WorkerProgress" using a(8) [of n] by simp
  moreover have "linked Q ?s c" if "c \<in> set (open_children T (visited ?s) n)" for c
    using a(8) [of c] that by (simp add: linked_def new_WorkerProgress_def)
  ultimately have new: "true_request T Q n ?s"
    using own by (simp add: true_request_def own_ok_def new_WorkerProgress_def)
  have "true_request T Q n (state_at (accepted co req) j)" if "j < Suc ?k" for j
    using that new a(3) [of j] co by (cases "j = ?k") (auto simp: true_node_def)
  then show ?thesis using a(1,2) by (simp add: true_node_def)
qed

lemma lossy_submit:
  assumes top: "topology_ok T" "c \<in> tp_nodes T" and net: "true_net T N" and budget: "ssq_scan_row_budget msg < 2 ^ 32"
    and call: "op_SubmitSubQuery (lossy_ops wx fs d) (tp_addr T c) msg (N, w) = (r, N', w')"
  shows "true_net T N' \<and> keeps T {c} N N' \<and>
    (\<forall>resp. r = Inr resp \<longrightarrow> (\<exists>j t. req_at T N' c j = Some t \<and> rs_queryId t = sr_request_id resp \<and>
       same_filter (rs_request t) (fromProtoSubmitSubQueryRequest msg) \<and>
       visited t = insert c (set (ssq_visited_node_ids msg))))"
proof -
  let ?r = "fromProtoSubmitSubQueryRequest msg"
  have r: "qq_queryType ?r = Execute" "qq_targetNodeId ?r = None" "qq_distributedAllowed ?r" "sendable ?r"
    "set (qq_visitedNodeIds ?r) = set (ssq_visited_node_ids msg)"
    using sendable_message [OF budget]
    by (simp_all add: fromProtoSubmitSubQueryRequest_def fromProtoFilter_def new_QueryRequest_def Let_def)
  from net top obtain co where co: "N (tp_addr T c) = Some co" and tn: "true_node T (req_at T N) c co"
    by (auto simp: true_net_def)
  have node: "node_ok T c co" and n: "c \<noteq> []" "getNodeId (tp_worker T c) = c"
    using tn top by (auto simp: true_node_def topology_ok_def)
  define N1 where "N1 = N(tp_addr T c \<mapsto> accepted co ?r)"
  note a = accepted_state [OF node n r(1-4)]
  note m = accepted_moves [OF top true_net_ok [OF net] co r(1-4), folded N1_def]
  have k1: "keeps T {c} N N1" using moves_mono [OF m(1)] by blast
  have t1: "true_net T N1"
    unfolding N1_def by (rule true_net_put [OF top net k1 [unfolded N1_def] accepted_true [OF top tn r(1-4)]])
  have refl: "keeps T {c} N N" by (rule moves_refl [OF true_net_ok [OF net]])
  have "(N' = N \<and> (\<exists>err. r = Inl err)) \<or> (N' = N1 \<and> (\<forall>resp. r = Inr resp \<longrightarrow>
      sr_request_id resp = ''q-'' @ show_nat (co_nextQuerySeq co)))"
  proof (cases d)
    case (Suc d')
    then show ?thesis using call co
      by (auto simp: lossy_call_def submit_accepted N1_def fillSubmitSubQueryReply_def split: prod.splits if_splits)
  qed (use call in auto)
  moreover define found where "found i \<longleftrightarrow> (\<exists>j t. req_at T N1 c j = Some t \<and> rs_queryId t = i \<and>
      same_filter (rs_request t) ?r \<and> visited t = insert c (set (ssq_visited_node_ids msg)))" for i
  moreover have "found (''q-'' @ show_nat (co_nextQuerySeq co))"
    unfolding found_def
    by (intro exI conjI, rule m(3), rule a(4)) (use r(5) in \<open>simp_all add: visited_def a(5) same_filter_def\<close>)
  ultimately show ?thesis using k1 t1 refl net by (auto simp flip: found_def)
qed

definition call_true :: "topology \<Rightarrow> ('w \<Rightarrow> fate \<times> 'w) \<Rightarrow> nat \<Rightarrow> bool" where
  \<comment> \<open>what a fetch from a node through the stub keeps and returns\<close>
  "call_true T wx d \<longleftrightarrow> (\<forall>c \<in> tp_nodes T. \<forall>N w j t mx r N' w'.
     true_net T N \<longrightarrow> req_at T N c j = Some t \<longrightarrow>
     op_FetchSubChunk (lossy_ops wx (tp_fs T) d) (tp_addr T c) \<lparr> fq_request_id = rs_queryId t, fq_max_rows = mx \<rparr> (N, w) =
       (r, N', w') \<longrightarrow>
     true_net T N' \<and> keeps T (insert c (tp_nodes T - visited t)) N N' \<and>
     (\<forall>reply. r = Inr reply \<longrightarrow> fr_found reply \<and> (\<forall>x \<in> set (reply_rows c reply). true_row T (rs_request t) x)))"

lemma keep_anything: "ops_keep (\<lambda>_. True) ops"
  by (simp add: ops_keep_def)

lemma failed_onward:
  \<comment> \<open>a child that failed is closed, whatever its call left behind\<close>
  assumes aw: "at_work T n N co" and cl: "co_remoteClient co = Some cl" "rc_overlay cl' = rc_overlay cl" "stubs_ok cl'"
    and net: "true_net T N'" "keeps T (tp_nodes T - visited (state_at co k)) N N'"
    and c: "c \<noteq> n" and k: "k < length (co_queryStates co)"
  shows "onward T n k N co N' (fail_child k c q (co\<lparr>co_remoteClient := Some cl'\<rparr>))"
proof (rule onwardI [OF aw net])
  show "steps k co (fail_child k c q (co\<lparr>co_remoteClient := Some cl'\<rparr>))"
    by (rule steps_trans [OF steps_client [OF cl(1)] steps_fail_child]) (use cl in simp)
  show "same_routes co (fail_child k c q (co\<lparr>co_remoteClient := Some cl'\<rparr>))"
    using cl by (simp add: fail_child_def)
  assume now: "true_request T (req_at T N') n (state_at co k)"
  have at: "state_at (fail_child k c q (co\<lparr>co_remoteClient := Some cl'\<rparr>)) k =
      putWorkerProgress c (q\<lparr>wp_completed := True, wp_hasMore := False\<rparr>) (state_at co k)"
    using k by (simp add: fail_child_def)
  show "true_request T (req_at T N') n (state_at (fail_child k c q (co\<lparr>co_remoteClient := Some cl'\<rparr>)) k)"
    unfolding at by (rule true_request_update [OF now, where c = c]) (use c in \<open>auto simp: linked_def\<close>)
qed

lemma child_fetch_onward:
  assumes spec: "call_true T wx d" and aw: "at_work T n N co" and k: "k < length (co_queryStates co)"
    and c: "c \<in> set (open_children T (visited (state_at co k)) n)"
    and q: "findWorkerProgress c (state_at co k) = Some q" "\<not> wp_completed q" "wp_submitted q"
    and cl: "co_remoteClient co = Some cl" and ops: "sys_ops sys = lossy_ops wx (tp_fs T) d"
    and run: "fetch_from_child sys k mx c q cl co (N, w) = (got, co', N', w')"
  shows "onward T n k N co N' co'"
proof -
  let ?s = "state_at co k"
  have top: "topology_ok T" "n \<in> tp_nodes T" and net: "true_net T N" using aw by (auto simp: at_work_def)
  have now: "true_request T (req_at T N) n ?s" by (rule at_work_request [OF aw k])
  then have n: "n \<in> visited ?s" by (simp add: true_request_def)
  have cc: "c \<in> set (tp_children T n)" "c \<notin> visited ?s" "c \<in> tp_nodes T" "c \<noteq> n"
    using c n top by (auto simp: open_children_def topology_ok_def)
  obtain cl' where stub: "getOrCreateStub (lossy_ops wx (tp_fs T) d) cl c = (Some (tp_addr T c), cl')"
    and cl': "rc_overlay cl' = rc_overlay cl" "stubs_ok cl'"
    by (rule lossy_stub [OF aw cl cc(1)])
  have "linked (req_at T N) ?s c" using now c by (simp add: true_request_def)
  with q obtain j t where t: "req_at T N c j = Some t" "rs_queryId t = wp_remoteRequestId q"
    "same_filter (rs_request t) (rs_request ?s)" "visited ?s \<subseteq> visited t" by (auto simp: linked_def)
  let ?f = "\<lparr> fq_request_id = wp_remoteRequestId q, fq_max_rows = chooseAdaptiveChunkSize co mx mod 2 ^ 32 \<rparr>"
  obtain r N1 w1 where op: "op_FetchSubChunk (lossy_ops wx (tp_fs T) d) (tp_addr T c) ?f (N, w) = (r, N1, w1)"
    by (metis prod_cases3)
  from spec cc(3) net t(1) op [folded t(2)] have net1: "true_net T N1" and k1: "keeps T (insert c (tp_nodes T - visited t)) N N1"
    and rows: "\<And>reply. r = Inr reply \<Longrightarrow> fr_found reply \<and> (\<forall>x \<in> set (reply_rows c reply). true_row T (rs_request t) x)"
    unfolding call_true_def by blast+
  have k2: "keeps T (tp_nodes T - visited ?s) N N1" by (rule moves_mono [OF k1]) (use cc t(4) in auto)
  show ?thesis
  proof (cases r)
    case (Inl err)
    then have "co' = fail_child k c q (co\<lparr>co_remoteClient := Some cl'\<rparr>) \<and> N' = N1"
      using run stub op ops by (auto simp: fetch_from_child_def fetchSubChunk_def failed_chunk_def)
    then show ?thesis using failed_onward [OF aw cl cl' net1 k2 cc(4) k] by simp
  next
    case (Inr reply)
    note rep = rows [OF Inr]
    obtain got' co'' where run': "fetch_from_child sys k mx c q cl co (N, w) = (got', co'', N1, w1)"
      and client: "co_remoteClient co'' = Some cl'" and request: "rs_request (state_at co'' k) = rs_request ?s"
      and win: "window (state_at co'' k) = window ?s @ reply_rows c reply"
      and prog: "\<And>m. findWorkerProgress m (state_at co'' k) =
         (if m = c then Some (q\<lparr>wp_hasMore := \<not> fr_done reply, wp_completed := fr_done reply\<rparr>) else findWorkerProgress m ?s)"
      using fetch_from_child_run [OF k at_work_inv [OF aw k] stub [folded ops] op [folded ops, unfolded Inr] conjunct1 [OF rep] q(1)]
      by blast
    have eq: "co' = co''" "N' = N1" using run run' by simp_all
    have st: "steps k co co''" using steps_fetch_from_child [OF cl, of cl k sys mx c q "(N, w)"] by (simp add: run')
    have "onward T n k N co N1 co''"
    proof (rule onwardI [OF aw net1 k2 st])
      show "same_routes co co''" by (simp add: client cl cl')
      assume now': "true_request T (req_at T N1) n ?s"
      have link: "linked (req_at T N1) ?s c" using now' c by (simp add: true_request_def)
      show "true_request T (req_at T N1) n (state_at co'' k)"
      proof (rule true_request_update [OF now' request, where c = c])
        show "\<forall>x \<in> set (window (state_at co'' k)). x \<in> set (window ?s) \<or> true_row T (rs_request ?s) x"
          using rep true_row_cong [OF t(3)] by (auto simp: win)
        show "linked (req_at T N1) (state_at co'' k) c"
          using link q request by (auto simp: linked_def prog visited_def)
      qed (use prog cc in auto)
    qed
    then show ?thesis using eq by simp
  qed
qed

lemma child_onward:
  assumes spec: "call_true T wx d" and aw: "at_work T n N co" and k: "k < length (co_queryStates co)"
    and c: "c \<in> set (tp_children T n)" and ops: "sys_ops sys = lossy_ops wx (tp_fs T) d"
    and run: "fetch_remote_child sys k mx (tp_children T n) c co (N, w) = (got, co', N', w')"
  shows "onward T n k N co N' co'"
proof (cases "hasVisitedNode (rs_request (state_at co k)) c")
  case True
  then show ?thesis using run onward_refl [OF aw] by (simp add: fetch_remote_child_def)
next
  case False
  let ?s = "state_at co k"
  have top: "topology_ok T" "n \<in> tp_nodes T" and tn: "true_node T (req_at T N) n co" using aw by (auto simp: at_work_def)
  have now: "true_request T (req_at T N) n ?s" by (rule at_work_request [OF aw k])
  have open_: "c \<in> set (open_children T (visited ?s) n)" and cc: "c \<notin> visited ?s" "c \<noteq> n" "c \<in> tp_nodes T"
    using False c now top by (auto simp: open_children_def visited_def hasVisitedNode_def true_request_def topology_ok_def)
  let ?p = "fst (getWorkerProgress c ?s)"
  define co1 where "co1 = on_state k (\<lambda>s. snd (getWorkerProgress c s)) co"
  have at1: "state_at co1 k = snd (getWorkerProgress c ?s)" and k1: "k < length (co_queryStates co1)"
    using k by (simp_all add: co1_def)
  have prog1: "findWorkerProgress m (state_at co1 k) = (if m = c then Some ?p else findWorkerProgress m ?s)" for m
    unfolding at1 findWorkerProgress_get ..
  have req1: "rs_request (state_at co1 k) = rs_request ?s" "rs_queryId (state_at co1 k) = rs_queryId ?s" by (simp_all add: at1)
  have on1: "onward T n k N co N co1"
    unfolding co1_def
  proof (rule onward_on_state [OF aw])
    have "linked (req_at T N) ?s c" using now open_ by (simp add: true_request_def)
    then have "linked (req_at T N) (snd (getWorkerProgress c ?s)) c"
      using prog1 [of c] by (auto simp: linked_def at1 visited_def new_WorkerProgress_def split: option.splits)
    then show "true_request T (req_at T N) n (snd (getWorkerProgress c ?s))"
      by (intro true_request_update [OF now, where c = c]) (use cc in \<open>auto simp: window_def\<close>)
  qed (rule good_update_simple)
  then have aw1: "at_work T n N co1" by (simp add: onward_def)
  have open1: "c \<in> set (open_children T (visited (state_at co1 k)) n)" using open_ by (simp add: visited_def req1)
  obtain cl where cl: "co_remoteClient co = Some cl" using tn by (auto simp: true_node_def node_ok_def)
  have cl1: "co_remoteClient co1 = Some cl" by (simp add: co1_def cl)
  show ?thesis
  proof (cases "wp_completed ?p")
    case True
    then have "co' = co1 \<and> N' = N" using run False by (simp add: fetch_remote_child_def Let_def co1_def del: fst_getWorkerProgress)
    then show ?thesis using on1 by simp
  next
    case unfinished: False
    show ?thesis
    proof (cases "wp_submitted ?p")
      case True
      have "fetch_from_child sys k mx c ?p cl co1 (N, w) = (got, co', N', w')"
        using run False unfinished True cl1 by (simp add: fetch_remote_child_def Let_def co1_def del: fst_getWorkerProgress)
      from child_fetch_onward [OF spec aw1 k1 open1 _ unfinished True cl1 ops this] prog1 onward_trans [OF on1 _ k]
      show ?thesis by simp
    next
      case new: False
      obtain cl2 where stub: "getOrCreateStub (lossy_ops wx (tp_fs T) d) cl c = (Some (tp_addr T c), cl2)"
        and cl2: "rc_overlay cl2 = rc_overlay cl" "stubs_ok cl2"
        by (rule lossy_stub [OF aw1 cl1 c])
      define msg where "msg = toProtoSubQuery (rc_selfNodeId cl2)
        (child_request co1 (rs_request ?s) (tp_children T n) mx) (rs_queryId ?s)"
      have send: "sendable (rs_request ?s)" using now by (simp add: true_request_def)
      note m = child_message [OF send, of "rc_selfNodeId cl2" co1 "tp_children T n" mx "rs_queryId ?s", folded msg_def]
      obtain r N1 w1 where op: "op_SubmitSubQuery (lossy_ops wx (tp_fs T) d) (tp_addr T c) msg (N, w) = (r, N1, w1)"
        by (metis prod_cases3)
      have net: "true_net T N" using aw by (simp add: at_work_def)
      from lossy_submit [OF top(1) cc(3) net m(1) op] have net1: "true_net T N1" and kc: "keeps T {c} N N1"
        and link: "\<And>resp. r = Inr resp \<Longrightarrow> \<exists>j t. req_at T N1 c j = Some t \<and> rs_queryId t = sr_request_id resp \<and>
           same_filter (rs_request t) (fromProtoSubmitSubQueryRequest msg) \<and> visited t = insert c (set (ssq_visited_node_ids msg))"
        by blast+
      have kk: "keeps T (tp_nodes T - visited (state_at co1 k)) N N1"
        by (rule moves_mono [OF kc]) (use cc in \<open>auto simp: visited_def req1\<close>)
      obtain ok rid info where sub: "submitSubQuery (sys_ops sys) c (child_request co1 (rs_request ?s) (tp_children T n) mx)
          (rs_queryId ?s) cl (N, w) = ((ok, rid, info), cl2, N1, w1)"
        and acc: "ok \<Longrightarrow> \<exists>resp. r = Inr resp \<and> rid = sr_request_id resp"
        using stub op by (cases r) (auto simp: submitSubQuery_def ops msg_def)
      show ?thesis
      proof (cases ok)
        case False
        have "co' = fail_child k c (?p\<lparr>wp_remoteRequestId := rid\<rparr>) (co1\<lparr>co_remoteClient := Some cl2\<rparr>) \<and> N' = N1"
          using run \<open>\<not> hasVisitedNode _ c\<close> unfinished new cl1 sub False
          by (simp add: fetch_remote_child_def Let_def req1 flip: co1_def del: fst_getWorkerProgress)
        then show ?thesis
          using onward_trans [OF on1 failed_onward [OF aw1 cl1 cl2 net1 kk cc(2) k1] k] by simp
      next
        case True
        let ?q = "?p\<lparr>wp_remoteRequestId := rid, wp_submitted := True\<rparr>"
        define co2 where "co2 = on_state k (putWorkerProgress c ?q) (co1\<lparr>co_remoteClient := Some cl2\<rparr>)"
        have run2: "fetch_from_child sys k mx c ?q cl2 co2 (N1, w1) = (got, co', N', w')"
          using run \<open>\<not> hasVisitedNode _ c\<close> unfinished new cl1 sub True
          by (simp add: fetch_remote_child_def Let_def req1 co2_def flip: co1_def del: fst_getWorkerProgress)
        have at2: "state_at co2 k = putWorkerProgress c ?q (state_at co1 k)" and k2: "k < length (co_queryStates co2)"
          using k1 by (simp_all add: co2_def)
        have st: "steps k co1 co2"
          unfolding co2_def
          by (rule steps_trans [OF steps_client [OF cl1] steps_put [where q = ?p]]) (use cl2 prog1 in \<open>auto simp del: fst_getWorkerProgress\<close>)
        have on2: "onward T n k N co1 N1 co2"
        proof (rule onwardI [OF aw1 net1 kk st])
          show "same_routes co1 co2" using cl1 cl2 by (simp add: co2_def)
          assume now1: "true_request T (req_at T N1) n (state_at co1 k)"
          obtain j t where t: "req_at T N1 c j = Some t" "rs_queryId t = rid"
            "same_filter (rs_request t) (fromProtoSubmitSubQueryRequest msg)"
            "visited t = insert c (set (ssq_visited_node_ids msg))"
            using acc [OF True] link by blast
          have "same_filter (rs_request t) (rs_request ?s)" using t(3) m(3) by (simp add: same_filter_def)
          moreover have "visited ?s \<subseteq> visited t" using t(4) m(2) by (auto simp: visited_def)
          ultimately have "linked (req_at T N1) (state_at co2 k) c"
            using t(1,2) by (auto simp: linked_def at2 req1 visited_def)
          then show "true_request T (req_at T N1) n (state_at co2 k)"
            by (intro true_request_update [OF now1, where c = c]) (use cc in \<open>auto simp: at2\<close>)
        qed
        then have aw2: "at_work T n N1 co2" by (simp add: onward_def)
        have open2: "c \<in> set (open_children T (visited (state_at co2 k)) n)" using open_ by (simp add: visited_def at2 req1)
        have "onward T n k N1 co2 N' co'"
          by (rule child_fetch_onward [OF spec aw2 k2 open2 _ _ _ _ ops run2]) (use unfinished k1 in \<open>simp_all add: co2_def\<close>)
        then show ?thesis using onward_trans [OF on1 onward_trans [OF on2 _ k1] k] by simp
      qed
    qed
  qed
qed

section \<open>A fetch\<close>

lemma loop_onward:
  assumes spec: "call_true T wx d" and ops: "sys_ops sys = lossy_ops wx (tp_fs T) d"
    and "at_work T n N co" and "k < length (co_queryStates co)" and "set cs \<subseteq> set (tp_children T n)"
    and "fetch_remote_loop sys k mx (tp_children T n) cs got co (N, w) = (got', co', N', w')"
  shows "onward T n k N co N' co'"
  using assms(3-)
proof (induction cs arbitrary: got co N w)
  case Nil
  then show ?case by (simp add: onward_refl)
next
  case (Cons c cs)
  obtain g co1 N1 w1 where f: "fetch_remote_child sys k mx (tp_children T n) c co (N, w) = (g, co1, N1, w1)"
    by (metis prod_cases4)
  have on1: "onward T n k N co N1 co1"
    by (rule child_onward [OF spec Cons.prems(1,2) _ ops f]) (use Cons.prems(3) in simp)
  have "onward T n k N1 co1 N' co'"
    by (rule Cons.IH) (use Cons.prems f on1 in \<open>auto simp: onward_def steps_def\<close>)
  then show ?case using onward_trans [OF on1 _ Cons.prems(2)] by blast
qed

lemma remote_onward:
  assumes spec: "call_true T wx d" and ops: "sys_ops sys = lossy_ops wx (tp_fs T) d"
    and aw: "at_work T n N co" and k: "k < length (co_queryStates co)"
    and run: "fetchRemoteExecuteChunks sys k mx co (N, w) = (got, co', N', w')"
  shows "onward T n k N co N' co'"
proof -
  have node: "node_ok T n co" using aw by (simp add: at_work_def true_node_def)
  from node_ok_client [OF node] obtain cl ov where "co_remoteClient co = Some cl" "co_overlay co = Some ov"
    "getChildren ov n = tp_children T n" by metis
  then have "fetch_remote_loop sys k mx (tp_children T n) (tp_children T n) False co (N, w) = (got, co', N', w')"
    using run node by (simp add: fetchRemoteExecuteChunks_def Let_def node_ok_def)
  from loop_onward [OF spec ops aw k subset_refl this] show ?thesis .
qed

lemma local_onward:
  assumes aw: "at_work T n N co" and k: "k < length (co_queryStates co)" and fs: "sys_fs sys = tp_fs T (tp_addr T n)"
    and run: "fetchLocalExecuteChunk sys k m co = (got, co')"
  shows "onward T n k N co N co'"
proof -
  let ?s = "state_at co k" and ?fs = "tp_fs T (tp_addr T n)" and ?w = "tp_worker T n"
  have top: "topology_ok T" "n \<in> tp_nodes T" and node: "node_ok T n co" and net: "true_net T N"
    using aw by (auto simp: at_work_def true_node_def)
  have n: "n \<noteq> []" "getNodeId ?w = n" using top by (auto simp: topology_ok_def)
  have now: "true_request T (req_at T N) n ?s" by (rule at_work_request [OF aw k])
  then obtain p where p: "findWorkerProgress n ?s = Some p" "wp_nextStartRow p \<le> store_size T n"
    and target: "qq_targetNodeId (rs_request ?s) = None" by (auto simp: true_request_def)
  have "worker_selected co (rs_request ?s) = (\<lambda>w. getNodeId w = n)"
    using target node n by (intro ext) (auto simp: worker_selected_def node_ok_def)
  then have sel: "find (worker_selected co (rs_request ?s)) (co_workers co) = Some ?w" using node by (simp add: node_ok_def)
  show ?thesis
  proof (cases "wp_completed p")
    case True
    have "fetchLocalExecuteChunk sys k m co = (False, co)"
      by (rule fetchLocal_completed [OF k sel _ True]) (simp add: p n)
    then show ?thesis using run onward_refl [OF aw] by simp
  next
    case False
    have "findWorkerProgress (getNodeId ?w) ?s = Some p" using p n by simp
    then obtain j again req where
      chunk: "fetchLocalExecuteChunk sys k m co =
         (qr_matchedTrips (worker_chunk ?fs ?w req (wp_nextStartRow p) j again) \<noteq> [],
          on_state k (updateWorkerProgress (getNodeId ?w) j again)
            (on_state k (mergePartialResult (worker_chunk ?fs ?w req (wp_nextStartRow p) j again)) co))"
      and sf: "same_filter req (rs_request ?s)" and j: "wp_nextStartRow p \<le> j" "j \<le> store_size T n"
      by (rule fetchLocal_run [OF k refl sel _ fs [symmetric], where m = m])
        (use p False in \<open>auto simp: store_size_def\<close>)
    let ?r = "worker_chunk ?fs ?w req (wp_nextStartRow p) j again"
    have eq: "co' = on_state k (updateWorkerProgress n j again) (on_state k (mergePartialResult ?r) co)"
      using run chunk n by simp
    have at: "state_at co' k = updateWorkerProgress n j again (mergePartialResult ?r ?s)" using k by (simp add: eq)
    have st: "steps k co co'" using steps_fetchLocal [of k co sys m] run by simp
    show ?thesis
    proof (rule onwardI [OF aw net moves_refl [OF true_net_ok [OF net]] st])
      show "same_routes co co'" by (simp add: eq)
      have rows: "true_row T (rs_request ?s) r"
        if "r \<in> set (map (\<lambda>t. (t, n)) (all_trips ?fs ?w (rs_request ?s) (wp_nextStartRow p) j))" for r
      proof -
        have "all_trips ?fs ?w (rs_request ?s) 0 (store_size T n) = all_trips ?fs ?w (rs_request ?s) 0 (wp_nextStartRow p) @
            all_trips ?fs ?w (rs_request ?s) (wp_nextStartRow p) j @ all_trips ?fs ?w (rs_request ?s) j (store_size T n)"
          using all_trips_split [of 0 "wp_nextStartRow p" "store_size T n"] all_trips_split [OF j] j by simp
        then show ?thesis using that top(2) by (auto simp: true_row_def rows_from_def)
      qed
      show "true_request T (req_at T N) n (state_at co' k)" if "true_request T (req_at T N) n ?s"
      proof (rule true_request_update [OF that, where c = n])
        show "\<forall>r \<in> set (window (state_at co' k)). r \<in> set (window ?s) \<or> true_row T (rs_request ?s) r"
          using rows window_merge [OF at_work_inv [OF aw k]] local_chunk_rows [OF sf n(2)] by (auto simp: at)
      qed (use j now p in \<open>auto simp: at true_request_def\<close>)
    qed
  qed
qed

lemma round_onward:
  assumes spec: "call_true T wx d" and ops: "sys_ops sys = lossy_ops wx (tp_fs T) d"
    and fs: "sys_fs sys = tp_fs T (tp_addr T n)"
    and aw: "at_work T n N co" and k: "k < length (co_queryStates co)"
    and run: "fetchNextExecuteChunks sys k m co (N, w) = (got, co', N', w')"
  shows "onward T n k N co N' co'"
proof -
  define co0 where "co0 = (if rs_nextUnreadIndex (state_at co k) \<ge> length (qr_matchedTrips (rs_aggregatedResult (state_at co k)))
    then on_state k clearAggregatedRows co else co)"
  have on0: "onward T n k N co N co0"
    using onward_refl [OF aw] onward_on_state [OF aw good_update_simple(8)] true_request_frames at_work_request [OF aw k]
    by (simp add: co0_def)
  have step: "at_work T n N2 a \<and> k < length (co_queryStates a)" if "onward T n k N1 b N2 a" "k < length (co_queryStates b)" for N1 b N2 a
    using that by (auto simp: onward_def steps_def)
  obtain l r co1 N1 w1 where parts: "(if shouldFetchRemoteFirst (state_at co0 k)
             then case fetchRemoteExecuteChunks sys k m co0 (N, w) of (r, co, e) \<Rightarrow>
                  case fetchLocalExecuteChunk sys k m co of (l, co) \<Rightarrow> (l, r, co, e)
             else case fetchLocalExecuteChunk sys k m co0 of (l, co) \<Rightarrow>
                  case fetchRemoteExecuteChunks sys k m co (N, w) of (r, co, e) \<Rightarrow> (l, r, co, e)) = (l, r, co1, N1, w1)"
    and on1: "onward T n k N co0 N1 co1"
  proof (cases "shouldFetchRemoteFirst (state_at co0 k)")
    case True
    obtain r a1 N1 w1 where f: "fetchRemoteExecuteChunks sys k m co0 (N, w) = (r, a1, N1, w1)" by (metis prod_cases4)
    obtain l a2 where g: "fetchLocalExecuteChunk sys k m a1 = (l, a2)" by fastforce
    have a: "onward T n k N co0 N1 a1"
      using remote_onward [OF spec ops _ _ f] step [OF on0 k] by blast
    have k0: "k < length (co_queryStates co0)" using step [OF on0 k] by blast
    have "onward T n k N1 a1 N1 a2" using local_onward [OF _ _ fs g] step [OF a k0] by blast
    then show ?thesis using that [of l r a2 N1 w1] f g onward_trans [OF a _ k0] True by simp
  next
    case False
    obtain l a1 where g: "fetchLocalExecuteChunk sys k m co0 = (l, a1)" by fastforce
    obtain r a2 N2 w2 where f: "fetchRemoteExecuteChunks sys k m a1 (N, w) = (r, a2, N2, w2)" by (metis prod_cases4)
    have k0: "k < length (co_queryStates co0)" using step [OF on0 k] by blast
    have a: "onward T n k N co0 N a1" using local_onward [OF _ _ fs g] step [OF on0 k] by blast
    have "onward T n k N a1 N2 a2" using remote_onward [OF spec ops _ _ f] step [OF a k0] by blast
    then show ?thesis using that [of l r a2 N2 w2] f g onward_trans [OF a _ k0] False by simp
  qed
  let ?a = "on_state k advanceFetchRound co1"
  have on01: "onward T n k N co N1 co1" by (rule onward_trans [OF on0 on1 k])
  have aw1: "at_work T n N1 co1" and k1: "k < length (co_queryStates co1)" using step [OF on01 k] by simp_all
  have on2: "onward T n k N1 co1 N1 ?a"
    by (rule onward_on_state [OF aw1 good_update_simple(2)]) (rule true_request_frames, rule at_work_request [OF aw1])
  have aw2: "at_work T n N1 ?a" and k2: "k < length (co_queryStates ?a)" using step [OF on2 k1] by simp_all
  have on3: "onward T n k N1 ?a N1 (on_state k (setState COMPLETED) ?a)"
    by (rule onward_on_state [OF aw2 good_update_simple(1)]) (rule true_request_frames, rule at_work_request [OF aw2])
  have fin: "co' = (if allWorkersCompleted (state_at ?a k) then on_state k (setState COMPLETED) ?a else ?a) \<and> N' = N1"
    using run unfolding fetchNextExecuteChunks_def Let_def co0_def [symmetric] parts by auto
  have "onward T n k N1 co1 N1 (on_state k (setState COMPLETED) ?a)" by (rule onward_trans [OF on2 on3 k1])
  with fin on2 show ?thesis using onward_trans [OF on01 _ k] by auto
qed

lemma fetch_onward:
  assumes spec: "call_true T wx d" and aw: "at_work T n N co" and find: "findRequestState co i = Some k"
    and run: "fetchChunkForRpc (lossy_system wx (tp_fs T) d (tp_addr T n)) i m co (N, w) = (out, co', N', w')"
  shows "onward T n k N co N' co' \<and>
    (\<forall>r \<in> set (zip (rp_trips out) (rp_sources out)). true_row T (rs_request (state_at co k)) r)"
proof -
  let ?sys = "lossy_system wx (tp_fs T) d (tp_addr T n)" and ?m = "chooseAdaptiveChunkSize co m"
  have k: "k < length (co_queryStates co)" using findRequestState_Some [OF find] by simp
  show ?thesis
  proof (cases "active_execute co k")
    case False
    note off = fetchChunk_inactive [OF find False, of ?sys m "(N, w)"]
    have "co' = co" "N' = N" "rp_trips out = []" using off(1,2) run by simp_all
    then show ?thesis using onward_refl [OF aw] by simp
  next
    case True
    obtain co1 N1 w1 where win: "fetch_window ?sys k ?m co (N, w) = (co1, N1, w1)" by (metis prod_cases3)
    have on1: "onward T n k N co N1 co1"
    proof (cases "length (window_trips (state_at co k)) \<le> rs_nextUnreadIndex (state_at co k) \<and>
        \<not> allWorkersCompleted (state_at co k)")
      case True
      then obtain got where "fetchNextExecuteChunks ?sys k ?m co (N, w) = (got, co1, N1, w1)"
        using win by (cases "fetchNextExecuteChunks ?sys k ?m co (N, w)") (auto simp: fetch_window_def)
      from round_onward [OF spec _ _ aw k this] show ?thesis by simp
    next
      case False
      then have "co1 = co \<and> N1 = N" using win by (auto simp: fetch_window_def)
      then show ?thesis using onward_refl [OF aw] by simp
    qed
    then have aw1: "at_work T n N1 co1" and st1: "steps k co co1" by (simp_all add: onward_def)
    have k1: "k < length (co_queryStates co1)" using k steps_length [OF st1] by simp
    have req: "rs_request (state_at co1 k) = rs_request (state_at co k)" by (rule steps_request [OF st1 k])
    note act = fetchChunk_active [OF find True win]
    let ?s = "state_at co1 k"
    show ?thesis
    proof (cases "length (window_trips ?s) \<le> rs_nextUnreadIndex ?s")
      case True
      then have "co' = co1" "N' = N1" "rp_trips out = []" using act(1) run by (simp_all add: new_RpcChunkResult_def)
      then show ?thesis using on1 by simp
    next
      case False
      let ?n = "min ?m (length (window_trips ?s) - rs_nextUnreadIndex ?s)"
      let ?co2 = "on_state k (setNextUnreadIndex (rs_nextUnreadIndex ?s + ?n)) co1"
      have pairs: "length (qr_matchedTripSources (rs_aggregatedResult ?s)) = length (window_trips ?s)"
        using window_pairs [OF at_work_inv [OF aw1 k1]] by simp
      have open_: "rs_nextUnreadIndex ?s < length (window_trips ?s)" using False by simp
      note act2 = run [unfolded act(2) [OF open_] Let_def prod.inject]
      have out: "rp_trips out = take ?n (drop (rs_nextUnreadIndex ?s) (window_trips ?s))"
        "rp_sources out = take ?n (drop (rs_nextUnreadIndex ?s) (qr_matchedTripSources (rs_aggregatedResult ?s)))"
        unfolding act2 [THEN conjunct1, symmetric] using pairs open_ by simp_all
      have co': "co' \<in> {?co2, on_state k (setState COMPLETED) ?co2}"
        unfolding act2 [THEN conjunct2, THEN conjunct1, symmetric] by (simp split: if_split)
      have N': "N' = N1" by (rule act2 [THEN conjunct2, THEN conjunct2, THEN conjunct1, symmetric])
      have "zip (rp_trips out) (rp_sources out) = take ?n (drop (rs_nextUnreadIndex ?s) (window ?s))"
        by (simp add: out window_def take_zip drop_zip)
      then have "\<forall>r \<in> set (zip (rp_trips out) (rp_sources out)). r \<in> set (window ?s)"
        by (auto dest: in_set_takeD in_set_dropD)
      then have rows: "\<forall>r \<in> set (zip (rp_trips out) (rp_sources out)). true_row T (rs_request (state_at co k)) r"
        using at_work_request [OF aw1 k1] req by (auto simp: true_request_def)
      have on2: "onward T n k N1 co1 N1 ?co2"
        by (rule onward_on_state [OF aw1 good_update_simple(3)]) (rule true_request_frames, rule at_work_request [OF aw1])
      have aw2: "at_work T n N1 ?co2" using on2 by (simp add: onward_def)
      have on3: "onward T n k N1 ?co2 N1 (on_state k (setState COMPLETED) ?co2)"
        by (rule onward_on_state [OF aw2 good_update_simple(1)]) (rule true_request_frames, rule at_work_request [OF aw2])
      have "onward T n k N1 co1 N1 co'" using co' on2 onward_trans [OF on2 on3 k1] by auto
      then show ?thesis using onward_trans [OF on1 _ k] rows N' by simp
    qed
  qed
qed


lemma onward_put:
  assumes on: "onward T n k N co N' co'" and co: "N (tp_addr T n) = Some co" and k: "k < length (co_queryStates co)"
  shows "true_net T (N'(tp_addr T n \<mapsto> co'))"
    and "keeps T (insert n (tp_nodes T - visited (state_at co k))) N (N'(tp_addr T n \<mapsto> co'))"
    and "visited (state_at co' k) = visited (state_at co k)"
proof -
  let ?A = "tp_nodes T - visited (state_at co k)"
  have aw: "at_work T n N' co'" and st: "steps k co co'" and keep: "keeps T ?A N N'" using on by (simp_all add: onward_def)
  have top: "topology_ok T" "n \<in> tp_nodes T" and net: "true_net T N'" and tn: "true_node T (req_at T N') n co'"
    using aw by (simp_all add: at_work_def)
  have req: "rs_request (state_at co' k) = rs_request (state_at co k)" by (rule steps_request [OF st k])
  then show vis: "visited (state_at co' k) = visited (state_at co k)" by (simp add: visited_def)
  have "n \<in> visited (state_at co k)"
    using at_work_request [OF aw, of k] k steps_length [OF st] vis by (simp add: true_request_def)
  then have co1: "N' (tp_addr T n) = Some co" using keep co top(2) by (simp add: moves_def)
  have "moves T {n} {(n, k)} N' (N'(tp_addr T n \<mapsto> co'))"
    by (rule moves_node [OF top true_net_ok [OF net] co1 _ st]) (use tn in \<open>simp add: true_node_def\<close>)
  then have put: "keeps T {n} N' (N'(tp_addr T n \<mapsto> co'))" by (rule moves_mono) auto
  show "true_net T (N'(tp_addr T n \<mapsto> co'))" by (rule true_net_put [OF top net put tn])
  show "keeps T (insert n ?A) N (N'(tp_addr T n \<mapsto> co'))"
    by (rule keeps_trans [OF moves_mono [OF keep] moves_mono [OF put]]) auto
qed

lemma request_found:
  assumes "topology_ok T" and "n \<in> tp_nodes T" and "true_net T N" and "req_at T N n j = Some s"
  obtains co where "N (tp_addr T n) = Some co" and "true_node T (req_at T N) n co" and "j < length (co_queryStates co)"
    and "s = state_at co j" and "findRequestState co (rs_queryId s) = Some j" and "at_work T n N co"
proof -
  from assms(2,3) obtain co where co: "N (tp_addr T n) = Some co" and tn: "true_node T (req_at T N) n co"
    by (auto simp: true_net_def)
  have s: "j < length (co_queryStates co)" "s = state_at co j"
    using assms(4) by (auto simp: req_at_node [where N = N, OF assms(2) co] split: if_splits)
  moreover have "node_ok T n co" using tn by (simp add: true_node_def)
  from find_request [OF this s(1)] have "findRequestState co (rs_queryId (state_at co j)) = Some j" .
  ultimately show ?thesis using that co tn assms(1-3) by (simp add: at_work_def)
qed

lemma call_true_all:
  assumes top: "topology_ok T"
  shows "call_true T wx d"
proof (induction d)
  case 0
  then show ?case by (auto simp: call_true_def intro: moves_refl true_net_ok)
next
  case (Suc d)
  show ?case
    unfolding call_true_def
  proof (intro ballI allI impI)
    fix c N w j t mx r N' w'
    assume c: "c \<in> tp_nodes T" and net: "true_net T N" and at: "req_at T N c j = Some t"
      and call: "op_FetchSubChunk (lossy_ops wx (tp_fs T) (Suc d)) (tp_addr T c)
        \<lparr> fq_request_id = rs_queryId t, fq_max_rows = mx \<rparr> (N, w) = (r, N', w')"
    obtain co where co: "N (tp_addr T c) = Some co" and tn: "true_node T (req_at T N) c co"
      and j: "j < length (co_queryStates co)" and t: "t = state_at co j"
      and find: "findRequestState co (rs_queryId t) = Some j" and aw: "at_work T c N co"
      by (rule request_found [OF top c net at])
    let ?A = "insert c (tp_nodes T - visited t)"
    have self: "co_selfNodeId co = c" and inv: "coordinator_inv co" using tn by (simp_all add: true_node_def node_ok_def)
    obtain f w1 where f: "wx w = (f, w1)" by fastforce
    obtain out co' N1 w2 where run: "fetchChunkForRpc (lossy_system wx (tp_fs T) d (tp_addr T c)) (rs_queryId t) mx co (N, w1) =
        (out, co', N1, w2)" by (metis prod_cases4)
    have "onward T c j N co N1 co' \<and>
        (\<forall>x \<in> set (zip (rp_trips out) (rp_sources out)). true_row T (rs_request (state_at co j)) x)"
      by (rule fetch_onward [OF Suc.IH aw find run])
    then have on: "onward T c j N co N1 co'"
      and rows: "\<forall>x \<in> set (zip (rp_trips out) (rp_sources out)). true_row T (rs_request t) x" by (simp_all add: t)
    note res = fetchChunk_result [OF inv run]
    have reply: "reply_rows c (fill_fetch_reply c out) = zip (rp_trips out) (rp_sources out)"
      by (rule reply_rows_delivered [OF res(3)]) (use rows true_row_carried [OF top] in blast)
    have found: "fr_found (fill_fetch_reply c out)" using res(4) find by (simp add: fill_fetch_reply_def)
    note put = onward_put [OF on co j, folded t]
    have "f = Request_Lost \<and> N' = N \<and> r = Inl ''unavailable'' \<or> f \<noteq> Request_Lost \<and> N' = N1(tp_addr T c \<mapsto> co') \<and>
        r = (if f = Delivered then Inr (fill_fetch_reply c out) else Inl ''deadline exceeded'')"
      using call by (cases "f = Request_Lost")
        (simp_all add: lossy_call_def f co FetchSubChunk_def self run [unfolded lossy_system_def] split: if_splits)
    then show "true_net T N' \<and> keeps T ?A N N' \<and>
        (\<forall>reply. r = Inr reply \<longrightarrow> fr_found reply \<and> (\<forall>x \<in> set (reply_rows c reply). true_row T (rs_request t) x))"
      using net put(1,2) found rows reply moves_refl [OF true_net_ok [OF net]] by (auto split: if_splits)
  qed
qed

section \<open>History\<close>

text \<open>
  Clients call the nodes, one handler at a time; while a handler runs, the calls it makes of other nodes meet
  the weather. Between two handlers the weather may turn into anything.
\<close>

inductive lossy_step :: "topology \<Rightarrow> ('w \<Rightarrow> fate \<times> 'w) \<Rightarrow> nat \<Rightarrow> 'w world \<Rightarrow> 'w world \<Rightarrow> bool" for T wx d where
  submit: "n \<in> tp_nodes T \<Longrightarrow> N (tp_addr T n) = Some co \<Longrightarrow> sq_scan_row_budget m < 2 ^ 32 \<Longrightarrow>
     SubmitQuery (lossy_system wx (tp_fs T) d (tp_addr T n)) n m co (N, w) = (r, co', N', w') \<Longrightarrow>
     lossy_step T wx d (N, w) (N'(tp_addr T n \<mapsto> co'), w')"
| fetch: "n \<in> tp_nodes T \<Longrightarrow> N (tp_addr T n) = Some co \<Longrightarrow>
     FetchChunk (lossy_system wx (tp_fs T) d (tp_addr T n)) n f co (N, w) = (reply, co', N', w') \<Longrightarrow>
     lossy_step T wx d (N, w) (N'(tp_addr T n \<mapsto> co'), w')"
| cancel: "n \<in> tp_nodes T \<Longrightarrow> N (tp_addr T n) = Some co \<Longrightarrow> CancelQuery n i co = (c, co') \<Longrightarrow>
     lossy_step T wx d (N, w) (N(tp_addr T n \<mapsto> co'), w)"
| weather: "lossy_step T wx d (N, w) (N, w')"

lemma true_net_start:
  \<comment> \<open>before the first request there is nothing to be wrong about\<close>
  assumes "net_ok T N" and "\<And>n co. n \<in> tp_nodes T \<Longrightarrow> N (tp_addr T n) = Some co \<Longrightarrow> co_queryStates co = []"
  shows "true_net T N"
  unfolding true_net_def
proof
  fix n assume n: "n \<in> tp_nodes T"
  with assms(1) obtain co where co: "N (tp_addr T n) = Some co" "node_ok T n co" by (auto simp: net_ok_def)
  then have "true_node T (req_at T N) n co" using assms(2) [OF n co(1)] by (simp add: true_node_def)
  then show "\<exists>co. N (tp_addr T n) = Some co \<and> true_node T (req_at T N) n co" using co(1) by blast
qed

lemma true_fetch:
  assumes top: "topology_ok T" "n \<in> tp_nodes T" and net: "true_net T N" and co: "N (tp_addr T n) = Some co"
    and run: "FetchChunk (lossy_system wx (tp_fs T) d (tp_addr T n)) n f co (N, w) = (reply, co', N', w')"
  shows "true_net T (N'(tp_addr T n \<mapsto> co'))"
    and "findRequestState co (fq_request_id f) = Some k \<Longrightarrow> \<forall>x \<in> set (reply_rows n reply). true_row T (rs_request (state_at co k)) x"
proof -
  obtain out where chunk: "fetchChunkForRpc (lossy_system wx (tp_fs T) d (tp_addr T n)) (fq_request_id f) (fq_max_rows f) co (N, w) =
      (out, co', N', w')" and reply: "reply = fill_fetch_reply n out"
    using run by (auto simp: FetchChunk_def split: prod.splits)
  have tn: "true_node T (req_at T N) n co" using net co top(2) by (auto simp: true_net_def)
  then have inv: "coordinator_inv co" and aw: "at_work T n N co" using top net by (simp_all add: true_node_def node_ok_def at_work_def)
  have known: "onward T n j N co N' co' \<and> (\<forall>x \<in> set (reply_rows n reply). true_row T (rs_request (state_at co j)) x)"
    if j: "findRequestState co (fq_request_id f) = Some j" for j
  proof -
    have on: "onward T n j N co N' co' \<and>
        (\<forall>x \<in> set (zip (rp_trips out) (rp_sources out)). true_row T (rs_request (state_at co j)) x)"
      by (rule fetch_onward [OF call_true_all [OF top(1)] aw j chunk])
    moreover have "reply_rows n reply = zip (rp_trips out) (rp_sources out)"
      unfolding reply
      by (rule reply_rows_delivered [OF fetchChunk_result(3) [OF inv chunk]]) (use on true_row_carried [OF top(1)] in blast)
    ultimately show ?thesis by simp
  qed
  then show "findRequestState co (fq_request_id f) = Some k \<Longrightarrow>
      \<forall>x \<in> set (reply_rows n reply). true_row T (rs_request (state_at co k)) x" by blast
  show "true_net T (N'(tp_addr T n \<mapsto> co'))"
  proof (cases "findRequestState co (fq_request_id f)")
    case None
    then have "N' = N" "co' = co" using chunk by (simp_all add: fetchChunk_unknown)
    then show ?thesis using net co by (simp add: fun_upd_idem)
  next
    case (Some j)
    have "onward T n j N co N' co'" using known [OF Some] by blast
    from onward_put(1) [OF this co] findRequestState_Some [OF Some] show ?thesis by simp
  qed
qed

lemma lossy_step_true:
  assumes "lossy_step T wx d e e'" and top: "topology_ok T" and "true_net T (fst e)"
  shows "true_net T (fst e')"
  using assms(1,3)
proof cases
  case (submit n N co m w r co' N' w')
  let ?r = "fromProtoSubmitQueryRequest m"
  have net: "true_net T N" using assms(3) submit by simp
  then have tn: "true_node T (req_at T N) n co" using submit by (auto simp: true_net_def)
  note q = client_message(1-4) [OF submit(5)]
  have eq: "co' = accepted co ?r" "N' = N" using submit(6) by (simp_all add: client_accepted)
  have "keeps T {n} N (N(tp_addr T n \<mapsto> accepted co ?r))"
    by (rule moves_mono [OF accepted_moves(1) [OF top submit(3) true_net_ok [OF net] submit(4) q]]) auto
  from true_net_put [OF top submit(3) net this accepted_true [OF top submit(3) tn q]] show ?thesis
    by (simp add: submit eq)
next
  case (fetch n N co f w reply co' N' w')
  then show ?thesis using true_fetch(1) [OF top fetch(3) _ fetch(4,5)] assms(3) by simp
next
  case (cancel n N co i c co' w)
  have net: "true_net T N" using assms(3) cancel by simp
  then have aw: "at_work T n N co" using top cancel by (auto simp: at_work_def true_net_def)
  show ?thesis
  proof (cases "findRequestState co i")
    case None
    then have "co' = co" using cancel(5) by (simp add: CancelQuery_def cancel_def)
    then show ?thesis using net cancel by (simp add: fun_upd_idem)
  next
    case (Some k)
    have k: "k < length (co_queryStates co)" using findRequestState_Some [OF Some] by simp
    have "co' = on_state k (setState CANCELLED) co" using cancel(5) by (auto simp: CancelQuery_def cancel_def Some)
    moreover have "onward T n k N co N (on_state k (setState CANCELLED) co)"
      by (rule onward_on_state [OF aw good_update_simple(1)]) (rule true_request_frames, rule at_work_request [OF aw])
    ultimately show ?thesis using onward_put(1) [of T n k N co N co'] cancel k by simp
  qed
next
  case weather
  then show ?thesis using assms(3) by simp
qed

lemma lossy_run_true:
  assumes "(lossy_step T wx d)\<^sup>*\<^sup>* e e'" and "topology_ok T" and "true_net T (fst e)"
  shows "true_net T (fst e')"
  using assms by induction (auto intro: lossy_step_true)

lemma started_true:
  assumes "deployment_ok addr cfgs"
  shows "true_net (deployed addr fs cfgs) (started_network addr fs cfgs)"
proof (rule true_net_start [OF started_net_ok [OF assms]])
  fix n co assume "started_network addr fs cfgs (tp_addr (deployed addr fs cfgs) n) = Some co"
  then obtain c where "co = start_coordinator (fs (tp_addr (deployed addr fs cfgs) n)) c" by (auto simp: started_network_def)
  then show "co_queryStates co = []"
    by (simp add: start_coordinator_def Let_def addWorker_def make_QueryCoordinator_def new_QueryCoordinator_def)
qed

end
