(* ===== verification/Network_Losses.thy ===== *)
theory Network_Losses
  imports Network_Faults
begin

text \<open>
  What losses do to an answer: they take rows away and do nothing else. The state of a request spread over the
  nodes is the one of \<open>serves\<close>; a call that arrives moves the rows it owes as in a network that loses
  nothing, a reply that is lost drops the rows it carried, and a child that failed owes nothing any more.
\<close>

section \<open>Calls\<close>

lemma lossy_submit_net:
  \<comment> \<open>a submission either does not run or does what it does without losses\<close>
  assumes "op_SubmitSubQuery (lossy_ops wx fs d) a msg (N, w) = (r, N', w')"
  shows "(\<exists>err. r = Inl err) \<and> N' = N \<or>
    (\<exists>x. op_SubmitSubQuery (net_ops fs d) a msg N = (Inr x, N') \<and> (r = Inr x \<or> (\<exists>err. r = Inl err)))"
proof (cases d)
  case 0
  then show ?thesis using assms by auto
next
  case (Suc d')
  obtain f w1 where f: "wx w = (f, w1)" by fastforce
  then show ?thesis using assms
    by (cases "f = Request_Lost"; cases "N a")
      (auto simp: Suc lossy_call_def on_node_def submit_accepted split: if_splits)
qed

lemma lossy_submitSubQuery:
  assumes "submitSubQuery (lossy_ops wx fs d) c req i cl (N, w) = ((ok, rid, info), cl1, N1, w1)"
    and "submitSubQuery (net_ops fs d) c req i cl N = ((True, rid', info'), cl', N')"
  shows "cl1 = cl'" and "ok \<Longrightarrow> rid = rid' \<and> N1 = N'" and "N1 = N \<or> N1 = N'"
proof -
  obtain a where stub: "getOrCreateStub (net_ops fs d) cl c = (Some a, cl')"
    using assms(2) by (auto simp: submitSubQuery_def split: prod.splits option.splits sum.splits)
  define msg where "msg = toProtoSubQuery (rc_selfNodeId cl') req i"
  obtain r N2 w2 where op: "op_SubmitSubQuery (lossy_ops wx fs d) a msg (N, w) = (r, N2, w2)" by (metis prod_cases3)
  have "cl1 = cl' \<and> (ok \<longrightarrow> rid = rid' \<and> N1 = N') \<and> (N1 = N \<or> N1 = N')"
    using assms lossy_submit_net [OF op]
    by (auto simp: submitSubQuery_def lossy_getStub stub op simp flip: msg_def split: prod.splits sum.splits)
  then show "cl1 = cl'" "ok \<Longrightarrow> rid = rid' \<and> N1 = N'" "N1 = N \<or> N1 = N'" by simp_all
qed

definition lossy_spec :: "topology \<Rightarrow> ('w \<Rightarrow> fate \<times> 'w) \<Rightarrow> nat \<Rightarrow> bool" where
  \<comment> \<open>a fetch through the stub stays in the requests of its tree, and what it returns is taken from what it owes\<close>
  "lossy_spec T wx d \<longleftrightarrow> (\<forall>N w n k s R v F mx r N' w'.
     n \<in> tp_nodes T \<longrightarrow> net_ok T N \<longrightarrow> req_at T N n k = Some s \<longrightarrow> serves T d (req_at T N) n k R v F \<longrightarrow>
     op_FetchSubChunk (lossy_ops wx (tp_fs T) d) (tp_addr T n) \<lparr> fq_request_id = rs_queryId s, fq_max_rows = mx \<rparr> (N, w) =
       (r, N', w') \<longrightarrow>
     moves T (insert n (tp_nodes T - visited s)) F N N' \<and>
     (\<forall>reply. r = Inr reply \<longrightarrow> fr_found reply \<and> (\<forall>x \<in> set (reply_rows n reply). carried_row x) \<and>
        (\<exists>R' v' F'. serves T d (req_at T N') n k R' v' F' \<and> F' \<subseteq> F \<union> fresh_locs T N \<and>
           mset (reply_rows n reply) + R' \<subseteq># R \<and>
           (if fr_done reply then length (fr_rows reply) \<le> v else v' + max 1 (length (fr_rows reply)) \<le> v))))"

section \<open>Steps of the handler\<close>

text \<open>
  A step of a handler, on the network, the coordinator, the rows owed, the work left and the requests involved:
  the rows owed and the work left do not grow, and there is less work when one of the workers \<open>C\<close> was not
  finished. Whether the others are finished has not changed.
\<close>

type_synonym owed = "network \<times> coordinator \<times> labelled multiset \<times> nat \<times> locs"

definition fades :: "topology \<Rightarrow> nat \<Rightarrow> node_id \<Rightarrow> nat \<Rightarrow> node_id set \<Rightarrow> owed \<Rightarrow> owed \<Rightarrow> bool" where
  "fades T d n k C a b \<longleftrightarrow>
     (case a of (N, co, R, v, F) \<Rightarrow> case b of (N', co', R', v', F') \<Rightarrow>
        working T d N' n k co' R' v' F' \<and> moved T n (visited (state_at co k)) N F N' F' \<and> R' \<subseteq># R \<and> v' \<le> v \<and>
        visited (state_at co' k) = visited (state_at co k) \<and>
        (\<forall>m. m \<notin> C \<longrightarrow> finished (state_at co' k) m = finished (state_at co k) m) \<and>
        ((\<exists>m \<in> C. \<not> finished (state_at co k) m) \<longrightarrow> v' < v))"

lemma fadesE:
  assumes "fades T d n k C (N, co, R, v, F) (N', co', R', v', F')"
  obtains "working T d N' n k co' R' v' F'" and "moved T n (visited (state_at co k)) N F N' F'" and "R' \<subseteq># R"
    and "v' \<le> v" and "visited (state_at co' k) = visited (state_at co k)"
    and "\<And>m. m \<in> C \<Longrightarrow> \<not> finished (state_at co k) m \<Longrightarrow> v' < v"
  using assms by (auto simp: fades_def)

lemma fades_trans:
  assumes "fades T d n k C a b" and "fades T d n k D b c"
  shows "fades T d n k (C \<union> D) a c"
proof -
  obtain N co R v F N1 co1 R1 v1 F1 N2 co2 R2 v2 F2 where
    eq: "a = (N, co, R, v, F)" "b = (N1, co1, R1, v1, F1)" "c = (N2, co2, R2, v2, F2)" by (metis prod_cases5)
  note s1 = assms(1) [unfolded eq fades_def prod.case] and s2 = assms(2) [unfolded eq fades_def prod.case]
  have "v2 < v" if m: "m \<in> C \<union> D" "\<not> finished (state_at co k) m" for m
  proof (cases "m \<in> C")
    case True
    then have "v1 < v" "v2 \<le> v1" using m(2) s1 s2 by blast+
    then show ?thesis by simp
  next
    case False
    then have "m \<in> D" "\<not> finished (state_at co1 k) m" using m s1 by blast+
    then have "v2 < v1" "v1 \<le> v" using s1 s2 by blast+
    then show ?thesis by simp
  qed
  moreover have "moved T n (visited (state_at co k)) N F N2 F2" using s1 s2 moved_trans by metis
  moreover have "R2 \<subseteq># R" using s1 s2 subset_mset.order_trans by blast
  moreover have "v2 \<le> v" using s1 s2 order_trans by blast
  ultimately show ?thesis using s1 s2 unfolding eq fades_def prod.case by auto
qed

lemma fades_refl: "working T d N n k co R v F \<Longrightarrow> fades T d n k {} (N, co, R, v, F) (N, co, R, v, F)"
  using moved_refl by (auto simp: fades_def working_def simp del: serves.simps)

lemma fadesI:
  assumes "working T d N' n k co' R' v' F'" and "moved T n (visited (state_at co k)) N F N' F'" and "R' \<subseteq># R"
    and "steps k co co'" and "k < length (co_queryStates co)" and "v' \<le> v"
    and "\<And>m. m \<notin> C \<Longrightarrow> finished (state_at co' k) m = finished (state_at co k) m"
    and "\<And>m. m \<in> C \<Longrightarrow> \<not> finished (state_at co k) m \<Longrightarrow> v' < v"
  shows "fades T d n k C (N, co, R, v, F) (N', co', R', v', F')"
  using assms steps_request [OF assms(4,5)] by (auto simp: fades_def visited_def)

lemma finished_frame: "findWorkerProgress m s' = findWorkerProgress m s \<Longrightarrow> finished s' m = finished s m"
  by (simp add: finished_def)

section \<open>Children\<close>

lemma child_fails:
  \<comment> \<open>a child that failed is closed and owes nothing, whatever its call left behind in its tree\<close>
  assumes wk: "working T d N n k co R w F"
    and parts: "parts T d (serves T d (req_at T N)) (req_at T N) n k (state_at co k) p gR gw gF"
      "R = all_rows T n (state_at co k) p gR" "w = all_work T n (state_at co k) p gw"
      "F = all_locs T n k (state_at co k) gF"
    and c: "c \<in> set (open_children T (visited (state_at co k)) n)"
    and cl: "co_remoteClient co = Some cl" "rc_overlay cl' = rc_overlay cl" "stubs_ok cl'"
    and call: "moves T A (gF c) (N(tp_addr T n \<mapsto> co0)) N'" "A \<subseteq> tp_nodes T - visited (state_at co k)"
    and co'_def: "co' = fail_child k c q (co\<lparr>co_remoteClient := Some cl'\<rparr>)"
  obtains R' v' F' where "fades T d n k {c} (N, co, R, w, F) (N'(tp_addr T n \<mapsto> co'), co', R', v', F')"
    and "N' (tp_addr T n) = Some co0"
proof -
  let ?s = "state_at co k" and ?q = "q\<lparr>wp_completed := True, wp_hasMore := False\<rparr>"
  let ?s' = "putWorkerProgress c ?q (state_at co k)"
  have own: "own_ok T n ?s" and k: "k < length (co_queryStates co)" and node: "node_ok T n co"
    by (rule working_own [OF wk])+
  have at: "state_at co' k = ?s'" using k by (simp add: co'_def fail_child_def)
  have "findWorkerProgress c ?s \<noteq> None" using own c by (simp add: own_ok_def)
  then obtain q0 where q0: "findWorkerProgress c ?s = Some q0" by blast
  have st: "steps k co co'"
    unfolding co'_def by (rule steps_trans [OF steps_client [OF cl(1)] steps_fail_child]) (use cl in simp)
  have node': "node_ok T n co'" by (rule node_ok_steps [OF node st]) (simp add: co'_def fail_child_def cl)
  have own': "own_ok T n ?s' \<and> unread ?s' = unread ?s @ []"
    by (rule own_ok_append [OF own]) (use q0 in auto)
  have ok: "child_ok T d P Q n ?s' c {#} 0 {}" for P Q by (simp add: child_ok_def)
  obtain R' w' F' where wk': "working T d (N'(tp_addr T n \<mapsto> co')) n k co' R' w' F'"
    and R': "R' + gR c = R + mset [] + {#}" and w': "w' + gw c = w + length ([] :: labelled list) + 0" and F': "F' \<subseteq> F \<union> fresh_locs T N" and N': "N' (tp_addr T n) = Some co0"
    and mv: "moves T (insert n (tp_nodes T - visited ?s)) F N (N'(tp_addr T n \<mapsto> co'))"
    by (rule working_child [OF wk parts c call node' st at conjunct1 [OF own'] _ conjunct2 [OF own'] _ ok]) simp_all
  have "R' \<subseteq># R" using R' by (metis add_0_right mset.simps(1) mset_subset_eq_add_left)
  moreover have "moved T n (visited ?s) N F (N'(tp_addr T n \<mapsto> co')) F'" using mv F' by (simp add: moved_def)
  moreover have "w' < w" if "m \<in> {c}" "\<not> finished ?s m" for m
  proof -
    have "child_ok T d (serves T d (req_at T N)) (req_at T N) n ?s c (gR c) (gw c) (gF c)"
      using parts(1) c by (simp add: parts_def)
    then have "0 < gw c" using that q0 by (auto simp: child_ok_def finished_def split: if_splits)
    then show ?thesis using w' by simp
  qed
  moreover have "w' \<le> w" using w' by simp
  moreover have "finished (state_at co' k) m = finished ?s m" if "m \<notin> {c}" for m
    by (rule finished_frame) (use that in \<open>simp add: at\<close>)
  ultimately show ?thesis using that [OF fadesI [OF wk' _ _ st k] N'] by blast
qed

lemma child_fetch_fades:
  assumes spec: "lossy_spec T wx d" and wk: "working T d N n k co R v F"
    and c: "c \<in> set (open_children T (visited (state_at co k)) n)"
    and q: "findWorkerProgress c (state_at co k) = Some q" "\<not> wp_completed q" "wp_submitted q"
    and cl: "co_remoteClient co = Some cl" and co0: "node_ok T n co0" and ops: "sys_ops sys = lossy_ops wx (tp_fs T) d"
    and run: "fetch_from_child sys k mx c q cl co (N(tp_addr T n \<mapsto> co0), w) = (got, co', M, w')"
  obtains N' R' v' F' where "fades T d n k {c} (N, co, R, v, F) (N', co', R', v', F')" and "M = N'(tp_addr T n \<mapsto> co0)"
proof -
  let ?s = "state_at co k" and ?N = "N(tp_addr T n \<mapsto> co0)"
  from wk have top: "topology_ok T" "n \<in> tp_nodes T" by (auto simp: working_def)
  have own: "own_ok T n ?s" and k: "k < length (co_queryStates co)" and node: "node_ok T n co"
    by (rule working_own [OF wk])+
  have cc: "c \<in> set (tp_children T n)" "c \<notin> visited ?s" "c \<in> tp_nodes T"
    using c own top by (auto simp: open_children_def topology_ok_def)
  obtain p gR gw gF j t v' where parts: "parts T d (serves T d (req_at T N)) (req_at T N) n k ?s p gR gw gF"
      "R = all_rows T n ?s p gR" "v = all_work T n ?s p gw" "F = all_locs T n k ?s gF"
    and net0: "net_ok T ?N" and t0: "req_at T ?N c j = Some t" and t: "rs_queryId t = wp_remoteRequestId q" "visited ?s \<subseteq> visited t"
    and sv0: "serves T d (req_at T ?N) c j (gR c) v' (gF c)" and gw: "gw c = 2 * v' + 1" and away: "fst ` gF c \<inter> visited ?s = {}"
    by (rule child_linked [OF wk c q co0]) blast
  obtain cl' where stub: "getOrCreateStub (sys_ops sys) cl c = (Some (tp_addr T c), cl')"
    and cl': "rc_overlay cl' = rc_overlay cl" "stubs_ok cl'"
    unfolding ops lossy_getStub by (rule stub_of_child [OF top node cl cc(1)])
  let ?f = "\<lparr> fq_request_id = wp_remoteRequestId q, fq_max_rows = chooseAdaptiveChunkSize co mx mod 2 ^ 32 \<rparr>"
  obtain r N1 w1 where op: "op_FetchSubChunk (sys_ops sys) (tp_addr T c) ?f (?N, w) = (r, N1, w1)"
    by (metis prod_cases3)
  note s = spec [unfolded lossy_spec_def, rule_format, OF cc(3) net0 t0 sv0 op [unfolded ops, folded t(1)]]
  have A: "insert c (tp_nodes T - visited t) \<subseteq> tp_nodes T - visited ?s" using cc(2,3) t(2) by auto
  have mv: "moves T (insert c (tp_nodes T - visited t)) (gF c) ?N N1" using s by blast
  show ?thesis
  proof (cases r)
    case (Inl err)
    then have eq: "co' = fail_child k c q (co\<lparr>co_remoteClient := Some cl'\<rparr>)" "M = N1"
      using run stub op by (auto simp: fetch_from_child_def fetchSubChunk_def failed_chunk_def)
    obtain R' v1 F' where "fades T d n k {c} (N, co, R, v, F) (N1(tp_addr T n \<mapsto> co'), co', R', v1, F')"
      "N1 (tp_addr T n) = Some co0"
      by (rule child_fails [OF wk parts c cl cl' mv A eq(1)])
    then show ?thesis using that eq by (simp add: fun_upd_idem)
  next
    case (Inr reply)
    then obtain Rc vc Fc where found: "fr_found reply" and carried: "\<forall>x \<in> set (reply_rows c reply). carried_row x"
      and svc: "serves T d (req_at T N1) c j Rc vc Fc" and Fc: "Fc \<subseteq> gF c \<union> fresh_locs T ?N"
      and rows: "mset (reply_rows c reply) + Rc \<subseteq># gR c"
      and left: "if fr_done reply then length (fr_rows reply) \<le> v' else vc + max 1 (length (fr_rows reply)) \<le> v'"
      using s by blast
    obtain got1 co1 R' v1 F' where run1: "fetch_from_child sys k mx c q cl co (?N, w) = (got1, co1, N1, w1)"
      and wk1: "working T d (N1(tp_addr T n \<mapsto> co1)) n k co1 R' v1 F'"
      and R': "R' + gR c = R + mset (reply_rows c reply) + (if fr_done reply then {#} else Rc)"
      and v1: "v1 + gw c = v + length (fr_rows reply) + (if fr_done reply then 0 else 2 * vc + 1)"
      and F': "F' \<subseteq> F \<union> fresh_locs T N" and N1: "N1 (tp_addr T n) = Some co0"
      and mvs: "moves T (insert n (tp_nodes T - visited ?s)) F N (N1(tp_addr T n \<mapsto> co1))"
      and prog: "\<And>m. m \<noteq> c \<Longrightarrow> findWorkerProgress m (state_at co1 k) = findWorkerProgress m ?s"
      by (rule child_replied [OF wk c q cl cl' stub parts t0 t away op [unfolded Inr] found mv svc Fc carried]) blast
    have eq: "co' = co1" "M = N1" using run run1 by simp_all
    have st: "steps k co co1" using steps_fetch_from_child [OF cl, of cl k sys mx c q "(?N, w)"] by (simp add: run1)
    have "R' + gR c \<subseteq># R + gR c"
      unfolding R' using rows by (cases "fr_done reply")
        (auto simp: add.assoc intro: subset_mset.order_trans [OF mset_subset_eq_add_left])
    then have "R' \<subseteq># R" by simp
    moreover have "moved T n (visited ?s) N F (N1(tp_addr T n \<mapsto> co1)) F'" using mvs F' by (simp add: moved_def)
    moreover have "v1 < v" using v1 left by (cases "fr_done reply") (auto simp: gw)
    ultimately have "fades T d n k {c} (N, co, R, v, F) (N1(tp_addr T n \<mapsto> co1), co1, R', v1, F')"
      using finished_frame [OF prog] by (intro fadesI [OF wk1 _ _ st k]) simp_all
    then show ?thesis using that eq N1 by (simp add: fun_upd_idem)
  qed
qed

lemma child_fades:
  assumes spec: "lossy_spec T wx d" and wk: "working T d N n k co R v F"
    and c: "c \<in> set (tp_children T n)" and co0: "node_ok T n co0" and ops: "sys_ops sys = lossy_ops wx (tp_fs T) d"
    and run: "fetch_remote_child sys k mx (tp_children T n) c co (N(tp_addr T n \<mapsto> co0), w) = (got, co', M, w')"
  obtains N' R' v' F' where "fades T d n k ({c} - visited (state_at co k)) (N, co, R, v, F) (N', co', R', v', F')"
    and "M = N'(tp_addr T n \<mapsto> co0)"
proof (cases "c \<in> visited (state_at co k)")
  case True
  then have "co' = co" "M = N(tp_addr T n \<mapsto> co0)"
    using run by (simp_all add: fetch_remote_child_def hasVisitedNode_def visited_def)
  then show ?thesis using that [of N R v F] fades_refl [OF wk] True by simp
next
  case False
  then have C: "{c} - visited (state_at co k) = {c}" by blast
  let ?s = "state_at co k" and ?N = "N(tp_addr T n \<mapsto> co0)"
  have own: "own_ok T n ?s" and k: "k < length (co_queryStates co)" and node: "node_ok T n co"
    by (rule working_own [OF wk])+
  have open_: "c \<in> set (open_children T (visited ?s) n)" using c False by (simp add: open_children_def)
  with own have "findWorkerProgress c ?s \<noteq> None" by (simp add: own_ok_def)
  then obtain q where q: "findWorkerProgress c ?s = Some q" by blast
  have nv: "\<not> hasVisitedNode (rs_request ?s) c" using False by (simp add: hasVisitedNode_def visited_def)
  have get: "getWorkerProgress c ?s = (q, ?s)"
    using q by (simp add: getWorkerProgress_def findWorkerProgress_def um_index_def)
  have same: "on_state k (\<lambda>s. snd (getWorkerProgress c s)) co = co"
    using k get by (simp add: on_state_def state_at_def)
  from node obtain cl where cl: "co_remoteClient co = Some cl" by (auto simp: node_ok_def)
  consider "wp_completed q" | "\<not> wp_completed q" "wp_submitted q" | "\<not> wp_completed q" "\<not> wp_submitted q" by blast
  then show ?thesis
  proof cases
    case 1
    then have "co' = co" "M = ?N" using run nv get by (simp_all add: fetch_remote_child_def Let_def same)
    moreover have "fades T d n k {c} (N, co, R, v, F) (N, co, R, v, F)"
      using fades_refl [OF wk] 1 q by (auto simp: fades_def finished_def)
    ultimately show ?thesis using that [of N R v F] C by simp
  next
    case 2
    then have "fetch_from_child sys k mx c q cl co (?N, w) = (got, co', M, w')"
      using run nv get cl by (simp add: fetch_remote_child_def Let_def same)
    from child_fetch_fades [OF spec wk open_ q 2 cl co0 ops this] that show ?thesis unfolding C by blast
  next
    case 3
    obtain rid msg cl' N1 F1 where
      sub: "submitSubQuery (net_ops (tp_fs T) d) c (child_request co (rs_request ?s) (tp_children T n) mx)
         (rs_queryId ?s) cl ?N = ((True, rid, msg), cl', N1)"
      and wk1: "let co' = on_state k (putWorkerProgress c (q\<lparr>wp_remoteRequestId := rid, wp_submitted := True\<rparr>))
             (co\<lparr>co_remoteClient := Some cl'\<rparr>)
         in working T d (N1(tp_addr T n \<mapsto> co')) n k co' R v F1 \<and>
            moves T (insert n (tp_nodes T - visited ?s)) F N (N1(tp_addr T n \<mapsto> co'))"
      and F1: "F1 \<subseteq> F \<union> fresh_locs T N" and N1: "N1 (tp_addr T n) = Some co0"
      and cl': "rc_overlay cl' = rc_overlay cl" "stubs_ok cl'" and mv: "moves T {c} {} ?N N1"
      by (rule child_submitted [OF wk open_ q 3 cl co0, where mx = mx]) blast
    obtain ok rid1 info cl1 N2 w1 where lsub: "submitSubQuery (sys_ops sys) c (child_request co (rs_request ?s) (tp_children T n) mx)
         (rs_queryId ?s) cl (?N, w) = ((ok, rid1, info), cl1, N2, w1)" by (metis prod.exhaust)
    note sent = lossy_submitSubQuery [OF lsub [unfolded ops] sub]
    show ?thesis
    proof (cases ok)
      case False
      have eq: "co' = fail_child k c (q\<lparr>wp_remoteRequestId := rid1\<rparr>) (co\<lparr>co_remoteClient := Some cl'\<rparr>)" "M = N2"
        using run nv get 3 cl lsub False sent(1) by (simp_all add: fetch_remote_child_def Let_def same)
      have top: "topology_ok T" "n \<in> tp_nodes T" and net: "net_ok T N" using wk by (auto simp: working_def)
      from wk obtain p gR gw gF where parts: "parts T d (serves T d (req_at T N)) (req_at T N) n k ?s p gR gw gF"
        "R = all_rows T n ?s p gR" "v = all_work T n ?s p gw" "F = all_locs T n k ?s gF" by (rule working_parts)
      have "moves T {c} {} ?N N2" using sent(3) mv moves_refl [OF net_ok_upd [OF top net co0]] by auto
      then have mv2: "moves T {c} (gF c) ?N N2" by (rule moves_mono) auto
      have "{c} \<subseteq> tp_nodes T - visited ?s" using top c \<open>c \<notin> visited ?s\<close> by (auto simp: topology_ok_def)
      from child_fails [OF wk parts open_ cl cl' mv2 this eq(1)] obtain R' v' F' where
        "fades T d n k {c} (N, co, R, v, F) (N2(tp_addr T n \<mapsto> co'), co', R', v', F')" "N2 (tp_addr T n) = Some co0" .
      then show ?thesis using that eq(2) C by (simp add: fun_upd_idem)
    next
      case True
      let ?q = "q\<lparr>wp_remoteRequestId := rid, wp_submitted := True\<rparr>"
      define co1 where "co1 = on_state k (putWorkerProgress c ?q) (co\<lparr>co_remoteClient := Some cl'\<rparr>)"
      define M1 where "M1 = N1(tp_addr T n \<mapsto> co1)"
      have st: "steps k co co1"
        unfolding co1_def
        by (rule steps_trans [OF steps_client [OF cl] steps_put [where q = q]]) (use cl' q in auto)
      have wk1': "working T d M1 n k co1 R v F1" and mv1: "moved T n (visited ?s) N F M1 F1"
        using wk1 F1 by (simp_all add: Let_def co1_def M1_def moved_def)
      have s1: "state_at co1 k = putWorkerProgress c ?q ?s" using k by (simp add: co1_def)
      have f1: "fades T d n k {} (N, co, R, v, F) (M1, co1, R, v, F1)"
        by (rule fadesI [OF wk1' mv1 subset_mset.order_refl st k]) (use q in \<open>auto simp: finished_def s1\<close>)
      have q1: "findWorkerProgress c (state_at co1 k) = Some ?q" "\<not> wp_completed ?q" "wp_submitted ?q"
        using 3 by (simp_all add: s1)
      have open1: "c \<in> set (open_children T (visited (state_at co1 k)) n)" using open_ by (simp add: s1 visited_def)
      have cl1: "co_remoteClient co1 = Some cl'" by (simp add: co1_def)
      have M1: "M1(tp_addr T n \<mapsto> co0) = N1" by (simp add: M1_def fun_upd_idem N1)
      have "fetch_from_child sys k mx c ?q cl' co1 (M1(tp_addr T n \<mapsto> co0), w1) = (got, co', M, w')"
        using run nv get 3 cl lsub True sent(1,2) by (simp add: fetch_remote_child_def Let_def same co1_def M1 [unfolded co1_def])
      from child_fetch_fades [OF spec wk1' open1 q1 cl1 co0 ops this] obtain N' R' v' F' where
        f2: "fades T d n k {c} (M1, co1, R, v, F1) (N', co', R', v', F')" and M: "M = N'(tp_addr T n \<mapsto> co0)" .
      from that [OF _ M] fades_trans [OF f1 f2] show ?thesis by (simp add: C)
    qed
  qed
qed


lemma loop_fades:
  assumes spec: "lossy_spec T wx d" and co0: "node_ok T n co0" and ops: "sys_ops sys = lossy_ops wx (tp_fs T) d"
    and "working T d N n k co R v F" and "set cs \<subseteq> set (tp_children T n)"
    and "fetch_remote_loop sys k mx (tp_children T n) cs got co (N(tp_addr T n \<mapsto> co0), w) = (got', co', M, w')"
  shows "\<exists>N' R' v' F'. fades T d n k (set cs - visited (state_at co k)) (N, co, R, v, F) (N', co', R', v', F') \<and>
    M = N'(tp_addr T n \<mapsto> co0)"
  using assms(4-)
proof (induction cs arbitrary: got co N R v F w)
  case Nil
  then show ?case using fades_refl [OF Nil.prems(1)] by auto
next
  case (Cons c cs)
  let ?V = "visited (state_at co k)"
  obtain g co1 M1 w1 where f: "fetch_remote_child sys k mx (tp_children T n) c co (N(tp_addr T n \<mapsto> co0), w) = (g, co1, M1, w1)"
    by (metis prod_cases4)
  obtain N1 R1 v1 F1 where f1: "fades T d n k ({c} - ?V) (N, co, R, v, F) (N1, co1, R1, v1, F1)"
    and M1: "M1 = N1(tp_addr T n \<mapsto> co0)"
    by (rule child_fades [OF spec Cons.prems(1) _ co0 ops f]) (use Cons.prems(2) in simp)
  obtain wk1: "working T d N1 n k co1 R1 v1 F1" and same: "visited (state_at co1 k) = ?V" by (rule fadesE [OF f1])
  have rest: "fetch_remote_loop sys k mx (tp_children T n) cs (got \<or> g) co1 (N1(tp_addr T n \<mapsto> co0), w1) = (got', co', M, w')"
    using Cons.prems(3) unfolding fetch_remote_loop.simps f prod.case M1 .
  have sub: "set cs \<subseteq> set (tp_children T n)" using Cons.prems(2) by simp
  from Cons.IH [OF wk1 sub rest] obtain N' R' v' F' where
    f2: "fades T d n k (set cs - ?V) (N1, co1, R1, v1, F1) (N', co', R', v', F')" and M: "M = N'(tp_addr T n \<mapsto> co0)"
    unfolding same by blast
  have "{c} - ?V \<union> (set cs - ?V) = set (c # cs) - ?V" by auto
  with fades_trans [OF f1 f2] M show ?case by metis
qed

section \<open>A fetch\<close>

abbreviation others :: "topology \<Rightarrow> node_id \<Rightarrow> RequestState \<Rightarrow> node_id set" where
  "others T n s \<equiv> set (open_children T (visited s) n)"

lemma remote_fades:
  assumes spec: "lossy_spec T wx d" and co0: "node_ok T n co0" and ops: "sys_ops sys = lossy_ops wx (tp_fs T) d"
    and wk: "working T d N n k co R v F"
    and run: "fetchRemoteExecuteChunks sys k mx co (N(tp_addr T n \<mapsto> co0), w) = (got, co', M, w')"
  obtains N' R' v' F' where "fades T d n k (others T n (state_at co k)) (N, co, R, v, F) (N', co', R', v', F')"
    and "M = N'(tp_addr T n \<mapsto> co0)"
proof -
  note node = working_own(3) [OF wk]
  have C: "set (tp_children T n) - visited (state_at co k) = others T n (state_at co k)" by (auto simp: open_children_def)
  from node_ok_client [OF node] obtain cl ov where "co_remoteClient co = Some cl" "co_overlay co = Some ov"
    "getChildren ov n = tp_children T n" by metis
  then have "fetch_remote_loop sys k mx (tp_children T n) (tp_children T n) False co (N(tp_addr T n \<mapsto> co0), w) = (got, co', M, w')"
    using run node by (simp add: fetchRemoteExecuteChunks_def Let_def node_ok_def)
  from loop_fades [OF spec co0 ops wk subset_refl this] that show ?thesis unfolding C by blast
qed

lemma local_fades:
  assumes wk: "working T d N n k co R v F" and fs: "sys_fs sys = tp_fs T (tp_addr T n)"
    and run: "fetchLocalExecuteChunk sys k mx co = (got, co')"
  obtains N' v' where "fades T d n k {n} (N, co, R, v, F) (N', co', R, v', F)" and "N'(tp_addr T n \<mapsto> c) = N(tp_addr T n \<mapsto> c)"
proof -
  obtain got1 co1 v1 where l: "fetchLocalExecuteChunk sys k mx co = (got1, co1)"
    "working T d (N(tp_addr T n \<mapsto> co1)) n k co1 R v1 F"
    "moved T n (visited (state_at co k)) N F (N(tp_addr T n \<mapsto> co1)) F"
    and le: "v1 \<le> v" and less: "\<not> finished (state_at co k) n \<Longrightarrow> v1 < v"
    and prog: "\<And>m. m \<noteq> n \<Longrightarrow> findWorkerProgress m (state_at co1 k) = findWorkerProgress m (state_at co k)"
    by (rule working_local_moved [OF wk fs, where m = mx and V = "visited (state_at co k)"]) blast
  have eq: "co1 = co'" using run l(1) by simp
  have st: "steps k co co1" using steps_fetchLocal [of k co sys mx] by (simp add: l(1))
  have "fades T d n k {n} (N, co, R, v, F) (N(tp_addr T n \<mapsto> co1), co1, R, v1, F)"
    using finished_frame [OF prog] le less
    by (intro fadesI [OF l(2,3) _ st working_own(2) [OF wk]]) simp_all
  from that [OF this [unfolded eq]] show ?thesis by simp
qed

lemma both_fade:
  assumes spec: "lossy_spec T wx d" and co0: "node_ok T n co0" and ops: "sys_ops sys = lossy_ops wx (tp_fs T) d"
    and fs: "sys_fs sys = tp_fs T (tp_addr T n)" and wk: "working T d N n k co R v F"
    and run: "(if b then case fetchRemoteExecuteChunks sys k mx co (N(tp_addr T n \<mapsto> co0), w) of (r, co, e) \<Rightarrow>
                case fetchLocalExecuteChunk sys k mx co of (l, co) \<Rightarrow> (l, r, co, e)
      else case fetchLocalExecuteChunk sys k mx co of (l, co) \<Rightarrow>
           case fetchRemoteExecuteChunks sys k mx co (N(tp_addr T n \<mapsto> co0), w) of (r, co, e) \<Rightarrow> (l, r, co, e)) =
     (l, r, co', M, w')"
  obtains N' R' v' F' where "fades T d n k (insert n (others T n (state_at co k))) (N, co, R, v, F) (N', co', R', v', F')"
    and "M = N'(tp_addr T n \<mapsto> co0)"
proof (cases b)
  let ?C = "others T n (state_at co k)"
  case True
  obtain r1 co1 M1 w1 where rem: "fetchRemoteExecuteChunks sys k mx co (N(tp_addr T n \<mapsto> co0), w) = (r1, co1, M1, w1)"
    by (metis prod_cases4)
  obtain N1 R1 v1 F1 where f1: "fades T d n k ?C (N, co, R, v, F) (N1, co1, R1, v1, F1)" and M1: "M1 = N1(tp_addr T n \<mapsto> co0)"
    by (rule remote_fades [OF spec co0 ops wk rem])
  obtain wk1: "working T d N1 n k co1 R1 v1 F1" by (rule fadesE [OF f1])
  have loc: "fetchLocalExecuteChunk sys k mx co1 = (l, co')" and M: "M = M1"
    using run True by (auto simp: rem split: prod.splits)
  obtain N2 v2 where f2: "fades T d n k {n} (N1, co1, R1, v1, F1) (N2, co', R1, v2, F1)"
    and N2: "N2(tp_addr T n \<mapsto> co0) = N1(tp_addr T n \<mapsto> co0)"
    by (rule local_fades [OF wk1 fs loc, where c = co0])
  have "?C \<union> {n} = insert n ?C" by simp
  with fades_trans [OF f1 f2] have "fades T d n k (insert n ?C) (N, co, R, v, F) (N2, co', R1, v2, F1)" by metis
  from that [OF this] show ?thesis by (simp only: M M1 N2)
next
  let ?C = "others T n (state_at co k)"
  case False
  obtain l1 co1 where loc: "fetchLocalExecuteChunk sys k mx co = (l1, co1)" by fastforce
  obtain N1 v1 where f1: "fades T d n k {n} (N, co, R, v, F) (N1, co1, R, v1, F)"
    and N1: "N1(tp_addr T n \<mapsto> co0) = N(tp_addr T n \<mapsto> co0)" by (rule local_fades [OF wk fs loc, where c = co0])
  obtain wk1: "working T d N1 n k co1 R v1 F" and same: "visited (state_at co1 k) = visited (state_at co k)"
    by (rule fadesE [OF f1])
  have "fetchRemoteExecuteChunks sys k mx co1 (N1(tp_addr T n \<mapsto> co0), w) = (r, co', M, w')"
    using run False unfolding N1 by (auto simp: loc split: prod.splits)
  from remote_fades [OF spec co0 ops wk1 this, unfolded same] obtain N' R' v' F' where
    f2: "fades T d n k ?C (N1, co1, R, v1, F) (N', co', R', v', F')" and M: "M = N'(tp_addr T n \<mapsto> co0)" .
  have "{n} \<union> ?C = insert n ?C" by simp
  with fades_trans [OF f1 f2] have "fades T d n k (insert n ?C) (N, co, R, v, F) (N', co', R', v', F')" by metis
  from that [OF this M] show ?thesis .
qed

lemma quiet_fades:
  \<comment> \<open>a step that leaves the workers and what is owed alone\<close>
  assumes wk: "working T d N n k co R v F" and "working T d (N(tp_addr T n \<mapsto> co')) n k co' R v F"
    and "moved T n (visited (state_at co k)) N F (N(tp_addr T n \<mapsto> co')) F" and "steps k co co'"
    and prog: "\<And>m. findWorkerProgress m (state_at co' k) = findWorkerProgress m (state_at co k)"
  shows "fades T d n k {} (N, co, R, v, F) (N(tp_addr T n \<mapsto> co'), co', R, v, F)"
  using finished_frame [OF prog] by (intro fadesI [OF assms(2,3) _ assms(4) working_own(2) [OF wk]]) simp_all

lemma round_fades:
  assumes spec: "lossy_spec T wx d" and co0: "node_ok T n co0" and ops: "sys_ops sys = lossy_ops wx (tp_fs T) d"
    and fs: "sys_fs sys = tp_fs T (tp_addr T n)" and wk: "working T d N n k co R v F"
    and run: "fetchNextExecuteChunks sys k mx co (N(tp_addr T n \<mapsto> co0), w) = (got, co', M, w')"
  obtains N' R' v' F' where "fades T d n k (insert n (others T n (state_at co k))) (N, co, R, v, F) (N', co', R', v', F')"
    and "M = N'(tp_addr T n \<mapsto> co0)"
proof -
  let ?s = "state_at co k" and ?N0 = "N(tp_addr T n \<mapsto> co0)"
  define coc where "coc = (if rs_nextUnreadIndex ?s \<ge> length (qr_matchedTrips (rs_aggregatedResult ?s))
      then on_state k clearAggregatedRows co else co)"
  define Nc where "Nc = N(tp_addr T n \<mapsto> coc)"
  have N: "N(tp_addr T n \<mapsto> co) = N" using wk by (simp add: working_def fun_upd_idem)
  have k: "k < length (co_queryStates co)" by (rule working_own(2) [OF wk])
  have f0: "fades T d n k {} (N, co, R, v, F) (Nc, coc, R, v, F)"
  proof (cases "rs_nextUnreadIndex ?s \<ge> length (qr_matchedTrips (rs_aggregatedResult ?s))")
    case True
    have "fades T d n k {} (N, co, R, v, F)
        (N(tp_addr T n \<mapsto> on_state k clearAggregatedRows co), on_state k clearAggregatedRows co, R, v, F)"
      by (rule quiet_fades [OF wk clear_quiet [OF wk True] steps_on_state [OF good_update_simple(8)]]) (use k in simp)
    then show ?thesis using True by (simp add: coc_def Nc_def)
  next
    case False
    then show ?thesis using fades_refl [OF wk] by (simp add: coc_def Nc_def N)
  qed
  obtain wkc: "working T d Nc n k coc R v F" and same: "visited (state_at coc k) = visited ?s" by (rule fadesE [OF f0])
  let ?C = "insert n (others T n ?s)"
  have Nc0: "Nc(tp_addr T n \<mapsto> co0) = ?N0" by (simp add: Nc_def)
  obtain l r co1 M1 w1 where both: "(if shouldFetchRemoteFirst (state_at coc k)
        then case fetchRemoteExecuteChunks sys k mx coc (?N0, w) of (r, co, e) \<Rightarrow>
             case fetchLocalExecuteChunk sys k mx co of (l, co) \<Rightarrow> (l, r, co, e)
        else case fetchLocalExecuteChunk sys k mx coc of (l, co) \<Rightarrow>
             case fetchRemoteExecuteChunks sys k mx co (?N0, w) of (r, co, e) \<Rightarrow> (l, r, co, e)) = (l, r, co1, M1, w1)"
    by (rule prod_cases5)
  from both_fade [OF spec co0 ops fs wkc, where mx = mx and b = "shouldFetchRemoteFirst (state_at coc k)" and w = w,
      unfolded Nc0 same, OF this]
  obtain N1 R1 v1 F1 where f1: "fades T d n k ?C (Nc, coc, R, v, F) (N1, co1, R1, v1, F1)"
    and M1: "M1 = N1(tp_addr T n \<mapsto> co0)" .
  obtain wk1: "working T d N1 n k co1 R1 v1 F1" by (rule fadesE [OF f1])
  define co2 where "co2 = (if allWorkersCompleted (state_at (on_state k advanceFetchRound co1) k)
      then on_state k (setState COMPLETED) (on_state k advanceFetchRound co1) else on_state k advanceFetchRound co1)"
  have "fetchNextExecuteChunks sys k mx co (?N0, w) = (l \<or> r, co2, M1, w1)"
    unfolding fetchNextExecuteChunks_def Let_def coc_def [symmetric] both co2_def by simp
  then have eq: "co' = co2" "M = M1" using run by simp_all
  have st: "steps k co1 co2"
    by (auto simp: co2_def intro!: steps_trans [OF steps_on_state steps_on_state] steps_on_state good_update_simple)
  have "fades T d n k {} (N1, co1, R1, v1, F1) (N1(tp_addr T n \<mapsto> co2), co2, R1, v1, F1)"
    by (rule quiet_fades [OF wk1 end_of_round [OF wk1, folded co2_def] st])
      (use working_own(2) [OF wk1] in \<open>simp add: co2_def\<close>)
  from fades_trans [OF f0 fades_trans [OF f1 this]]
  have "fades T d n k ?C (N, co, R, v, F) (N1(tp_addr T n \<mapsto> co'), co', R1, v1, F1)" by (simp add: eq(1))
  from that [OF this] show ?thesis by (simp add: eq(2) M1)
qed

lemma window_fades:
  assumes spec: "lossy_spec T wx d" and co0: "node_ok T n co0" and ops: "sys_ops sys = lossy_ops wx (tp_fs T) d"
    and fs: "sys_fs sys = tp_fs T (tp_addr T n)" and wk: "working T d N n k co R v F"
    and run: "fetch_window sys k mx co (N(tp_addr T n \<mapsto> co0), w) = (co', M, w')"
  obtains N' R' v' F' where "working T d N' n k co' R' v' F'" and "moved T n (visited (state_at co k)) N F N' F'"
    and "M = N'(tp_addr T n \<mapsto> co0)" and "R' \<subseteq># R" and "v' \<le> v"
    and "unread (state_at co' k) = [] \<Longrightarrow> \<not> allWorkersCompleted (state_at co' k) \<Longrightarrow> v' < v"
proof -
  let ?s = "state_at co k"
  have empty: "unread ?s = [] \<longleftrightarrow> rs_nextUnreadIndex ?s \<ge> length (qr_matchedTrips (rs_aggregatedResult ?s))"
    using window_pairs [OF working_own(5) [OF wk]] working_own(1) [OF wk] by (auto simp: unread_def own_ok_def)
  show ?thesis
  proof (cases "unread ?s = [] \<and> \<not> allWorkersCompleted ?s")
    case True
    then obtain got where "fetchNextExecuteChunks sys k mx co (N(tp_addr T n \<mapsto> co0), w) = (got, co', M, w')"
      using run by (cases "fetchNextExecuteChunks sys k mx co (N(tp_addr T n \<mapsto> co0), w)") (auto simp: fetch_window_def empty)
    from round_fades [OF spec co0 ops fs wk this] obtain N' R' v' F' where
      f: "fades T d n k (insert n (others T n ?s)) (N, co, R, v, F) (N', co', R', v', F')" and M: "M = N'(tp_addr T n \<mapsto> co0)" .
    obtain m where "m \<in> insert n (others T n ?s)" "\<not> finished ?s m" using True all_finished [OF wk] by blast
    with f have "v' < v" by (auto simp: fades_def)
    then show ?thesis using f that [of N' R' v' F'] M by (auto elim!: fadesE)
  next
    case False
    then have eq: "co' = co" "M = N(tp_addr T n \<mapsto> co0)" using run by (auto simp: fetch_window_def empty)
    have "net_ok T N" using wk by (simp add: working_def)
    from that [OF wk [folded eq(1)] moved_refl [OF this] eq(2)] False show ?thesis by (simp add: eq(1))
  qed
qed

lemma fetch_fades:
  assumes spec: "lossy_spec T wx d" and co0: "node_ok T n co0" and ops: "sys_ops sys = lossy_ops wx (tp_fs T) d"
    and fs: "sys_fs sys = tp_fs T (tp_addr T n)" and wk: "working T d N n k co R v F"
    and run: "fetchChunkForRpc sys (rs_queryId (state_at co k)) mx co (N(tp_addr T n \<mapsto> co0), w) = (out, co', M, w')"
  obtains N' R' v' F' where "working T d N' n k co' R' v' F'" and "moved T n (visited (state_at co k)) N F N' F'"
    and "M = N'(tp_addr T n \<mapsto> co0)" and "mset (zip (rp_trips out) (rp_sources out)) + R' \<subseteq># R" and "rp_found out"
    and "length (rp_sources out) = length (rp_trips out)"
    and "\<forall>x \<in> set (zip (rp_trips out) (rp_sources out)). carried_row x"
    and "if rp_done out then length (rp_trips out) \<le> v else v' + max 1 (length (rp_trips out)) \<le> v"
proof -
  let ?s = "state_at co k" and ?m = "chooseAdaptiveChunkSize co mx"
  obtain co1 M1 w1 where win: "fetch_window sys k ?m co (N(tp_addr T n \<mapsto> co0), w) = (co1, M1, w1)" by (metis prod_cases3)
  obtain N1 R1 v1 F1 where wk1: "working T d N1 n k co1 R1 v1 F1" and mv1: "moved T n (visited ?s) N F N1 F1"
    and M1: "M1 = N1(tp_addr T n \<mapsto> co0)" and R1: "R1 \<subseteq># R" and le: "v1 \<le> v"
    and less: "unread (state_at co1 k) = [] \<Longrightarrow> \<not> allWorkersCompleted (state_at co1 k) \<Longrightarrow> v1 < v"
    by (rule window_fades [OF spec co0 ops fs wk win]) blast
  obtain out1 co2 R' v' where out: "fetchChunkForRpc sys (rs_queryId ?s) mx co (N(tp_addr T n \<mapsto> co0), w) = (out1, co2, M1, w1)"
    and found: "rp_found out1" and wk': "working T d (N1(tp_addr T n \<mapsto> co2)) n k co2 R' v' F1"
    and mv': "moved T n (visited ?s) N1 F1 (N1(tp_addr T n \<mapsto> co2)) F1"
    and R: "R1 = mset (zip (rp_trips out1) (rp_sources out1)) + R'" and len: "length (rp_sources out1) = length (rp_trips out1)"
    and carried: "\<forall>x \<in> set (zip (rp_trips out1) (rp_sources out1)). carried_row x" and v1: "v1 = v' + length (rp_trips out1)"
    and idle: "\<not> rp_done out1 \<Longrightarrow> rp_trips out1 = [] \<Longrightarrow> unread (state_at co1 k) = [] \<and> \<not> allWorkersCompleted (state_at co1 k)"
    by (rule working_answer [OF wk win wk1, where V = "visited ?s"]) blast
  have eq: "out = out1" "co' = co2" "M = M1" using run out by simp_all
  have "v' + max 1 (length (rp_trips out1)) \<le> v" if "\<not> rp_done out1"
  proof (cases "rp_trips out1 = []")
    case True
    then have "v1 < v" using idle [OF that] less by blast
    then show ?thesis using v1 True by simp
  next
    case False
    then have "0 < length (rp_trips out1)" by simp
    then show ?thesis using v1 le by linarith
  qed
  then have "if rp_done out1 then length (rp_trips out1) \<le> v else v' + max 1 (length (rp_trips out1)) \<le> v"
    using v1 le by simp
  with wk' moved_trans [OF mv1 mv'] R R1 found len carried show ?thesis
    by (intro that [of "N1(tp_addr T n \<mapsto> co2)" R' v' F1]) (simp_all add: eq M1 del: One_nat_def)
qed

lemma lossy_spec_all:
  assumes top: "topology_ok T"
  shows "lossy_spec T wx d"
proof (induction d)
  case 0
  then show ?case by (simp add: lossy_spec_def)
next
  case (Suc d)
  show ?case
    unfolding lossy_spec_def
  proof (intro allI impI)
    fix N w n k s R v F mx r N' w'
    assume n: "n \<in> tp_nodes T" and net: "net_ok T N" and at: "req_at T N n k = Some s"
      and sv: "serves T (Suc d) (req_at T N) n k R v F"
      and call: "op_FetchSubChunk (lossy_ops wx (tp_fs T) (Suc d)) (tp_addr T n)
        \<lparr> fq_request_id = rs_queryId s, fq_max_rows = mx \<rparr> (N, w) = (r, N', w')"
    from net n obtain co where co: "N (tp_addr T n) = Some co" and node: "node_ok T n co" by (auto simp: net_ok_def)
    have wk: "working T d N n k co R v F" using top n net co sv by (simp add: working_def)
    have s: "s = state_at co k" using at by (auto simp: req_at_node [where N = N, OF n co] split: if_splits)
    have self: "co_selfNodeId co = n" using node by (simp add: node_ok_def)
    have N: "N(tp_addr T n \<mapsto> co) = N" using co by (simp add: fun_upd_idem)
    let ?sys = "lossy_system wx (tp_fs T) d (tp_addr T n)"
    obtain f w1 where f: "wx w = (f, w1)" by fastforce
    obtain out co' M w2 where run: "fetchChunkForRpc ?sys (rs_queryId (state_at co k)) mx co (N(tp_addr T n \<mapsto> co), w1) =
        (out, co', M, w2)" by (metis prod_cases4)
    obtain N1 R' v' F' where wk': "working T d N1 n k co' R' v' F'" and mv: "moved T n (visited s) N F N1 F'"
      and M: "M = N1(tp_addr T n \<mapsto> co)" and R: "mset (zip (rp_trips out) (rp_sources out)) + R' \<subseteq># R"
      and found: "rp_found out" and len: "length (rp_sources out) = length (rp_trips out)"
      and carried: "\<forall>x \<in> set (zip (rp_trips out) (rp_sources out)). carried_row x"
      and left: "if rp_done out then length (rp_trips out) \<le> v else v' + max 1 (length (rp_trips out)) \<le> v"
      unfolding s by (rule fetch_fades [OF Suc.IH node _ _ wk run]) simp_all
    have N1: "N1(tp_addr T n \<mapsto> co') = N1" using wk' by (simp add: working_def fun_upd_idem)
    have out: "f = Request_Lost \<and> N' = N \<and> r = Inl ''unavailable'' \<or> f \<noteq> Request_Lost \<and> N' = N1 \<and>
        r = (if f = Delivered then Inr (fill_fetch_reply n out) else Inl ''deadline exceeded'')"
      using call run [unfolded N lossy_system_def] by (cases "f = Request_Lost")
        (simp_all add: lossy_call_def f co FetchSubChunk_def self s M N1 split: if_splits)
    have rows: "reply_rows n (fill_fetch_reply n out) = zip (rp_trips out) (rp_sources out)"
      by (rule reply_rows_delivered [OF len carried])
    have fill: "fr_done (fill_fetch_reply n out) = rp_done out" "length (fr_rows (fill_fetch_reply n out)) = length (rp_trips out)"
      by (simp_all add: fill_fetch_reply_def fill_rows_def)
    have sv': "serves T (Suc d) (req_at T N1) n k R' v' F'" using wk' by (simp add: working_def del: serves.simps)
    show "moves T (insert n (tp_nodes T - visited s)) F N N' \<and>
      (\<forall>reply. r = Inr reply \<longrightarrow> fr_found reply \<and> (\<forall>x \<in> set (reply_rows n reply). carried_row x) \<and>
        (\<exists>R' v' F'. serves T (Suc d) (req_at T N') n k R' v' F' \<and> F' \<subseteq> F \<union> fresh_locs T N \<and>
           mset (reply_rows n reply) + R' \<subseteq># R \<and>
           (if fr_done reply then length (fr_rows reply) \<le> v else v' + max 1 (length (fr_rows reply)) \<le> v)))"
    proof (intro conjI allI impI)
      show "moves T (insert n (tp_nodes T - visited s)) F N N'"
        using out mv moves_refl [OF net] by (auto simp: moved_def)
      fix reply assume "r = Inr reply"
      with out have eq: "N' = N1" "reply = fill_fetch_reply n out" by (auto split: if_splits)
      show "fr_found reply" using found by (simp add: eq fill_fetch_reply_def)
      show "\<forall>x \<in> set (reply_rows n reply). carried_row x" using carried by (simp add: eq rows)
      show "\<exists>R' v' F'. serves T (Suc d) (req_at T N') n k R' v' F' \<and> F' \<subseteq> F \<union> fresh_locs T N \<and>
           mset (reply_rows n reply) + R' \<subseteq># R \<and>
           (if fr_done reply then length (fr_rows reply) \<le> v else v' + max 1 (length (fr_rows reply)) \<le> v)"
        using sv' mv R left by (intro exI [of _ R'] exI [of _ v'] exI [of _ F']) (simp add: eq rows fill moved_def del: serves.simps One_nat_def)
    qed
  qed
qed


section \<open>A client's loop\<close>

text \<open>The loop of a client ends whatever is lost, and what it returns is part of what is owed.\<close>

lemma lossy_loop_ends:
  assumes top: "topology_ok T" and co0: "node_ok T n co0" and "working T d N n k co R v F" and "v < fuel"
  shows "\<exists>rows r. fetch_labelled (lossy_system wx (tp_fs T) d (tp_addr T n)) fuel (rs_queryId (state_at co k)) m co
      (N(tp_addr T n \<mapsto> co0), w) = Some (rows, r) \<and> mset rows \<subseteq># R"
  using assms(3-)
proof (induction fuel arbitrary: co N R v F w)
  case (Suc fuel)
  let ?sys = "lossy_system wx (tp_fs T) d (tp_addr T n)" and ?i = "rs_queryId (state_at co k)"
  obtain out co1 M1 w1 where run: "fetchChunkForRpc ?sys ?i m co (N(tp_addr T n \<mapsto> co0), w) = (out, co1, M1, w1)"
    by (metis prod_cases4)
  obtain N1 R1 v1 F1 where wk1: "working T d N1 n k co1 R1 v1 F1" and M1: "M1 = N1(tp_addr T n \<mapsto> co0)"
    and R: "mset (zip (rp_trips out) (rp_sources out)) + R1 \<subseteq># R"
    and left: "if rp_done out then length (rp_trips out) \<le> v else v1 + max 1 (length (rp_trips out)) \<le> v"
    by (rule fetch_fades [OF lossy_spec_all [OF top] co0 _ _ Suc.prems(1) run]) simp_all
  show ?case
  proof (cases "rp_done out")
    case True
    have "mset (zip (rp_trips out) (rp_sources out)) \<subseteq># R"
      by (rule subset_mset.order_trans [OF mset_subset_eq_add_left R])
    then show ?thesis unfolding fetch_labelled.simps run prod.case using True by simp
  next
    case False
    have find: "findRequestState co ?i = Some k" by (rule find_request [OF working_own(3,2) [OF Suc.prems(1)]])
    have "steps k co co1" using steps_fetchChunk [OF find, of ?sys m "(N(tp_addr T n \<mapsto> co0), w)"] by (simp add: run)
    then have id: "rs_queryId (state_at co1 k) = ?i" using working_own(2) [OF Suc.prems(1)] by (simp add: steps_def)
    have "v1 < fuel" using left False Suc.prems(2) by simp
    from Suc.IH [OF wk1 this, unfolded id, of w1, folded M1] obtain rs r where
      "fetch_labelled ?sys fuel ?i m co1 (M1, w1) = Some (rs, r)" and rs: "mset rs \<subseteq># R1" by blast
    then obtain co2 e2 where rest: "fetch_labelled ?sys fuel ?i m co1 (M1, w1) = Some (rs, co2, e2)" by (cases r) simp
    have "mset (zip (rp_trips out) (rp_sources out)) + mset rs \<subseteq># R"
      by (rule subset_mset.order_trans [OF _ R]) (use rs in simp)
    then show ?thesis unfolding fetch_labelled.simps run prod.case rest option.case using False by simp
  qed
qed simp

lemma lossy_query_ends:
  assumes top: "topology_ok T" "n \<in> tp_nodes T" and net: "net_ok T N" and co: "N (tp_addr T n) = Some co"
    and budget: "sq_scan_row_budget msg < 2 ^ 32" and deep: "card (tp_nodes T) \<le> Suc d"
    and sub: "SubmitQuery (lossy_system wx (tp_fs T) d (tp_addr T n)) n msg co (N, w) = (reply, co1, e1)"
  defines "V \<equiv> insert n (set (sq_visited_node_ids msg))"
  assumes fuel: "plan_work T (Suc d) V n < fuel"
  shows "\<exists>rows r. fetch_labelled (lossy_system wx (tp_fs T) d (tp_addr T n)) fuel (sr_request_id reply) m co1 e1 = Some (rows, r) \<and>
    mset rows \<subseteq># plan_rows T (Suc d) (fromProtoSubmitQueryRequest msg) V n"
proof -
  have net_sub: "SubmitQuery (net_system (tp_fs T) d (tp_addr T n)) n msg co N = (reply, co1, N)"
    and e1: "e1 = (N, w)" using sub by (simp_all add: client_accepted)
  note q = query_working [OF top net co budget net_sub deep, folded V_def]
  have "(N(tp_addr T n \<mapsto> co1))(tp_addr T n \<mapsto> co) = N" using co by (simp add: fun_upd_idem)
  with lossy_loop_ends [OF top(1) q(4) q(1) fuel, of wx m w] show ?thesis unfolding e1 q(3) by simp
qed

end
