(* ===== verification/Fault_Properties.thy ===== *)
theory Fault_Properties
  imports Network_Losses Network_Properties
begin

text \<open>
  What a client of a whole deployment can rely on when calls between the nodes are lost, before or after they
  ran: every row it is given is real and names the node it comes from, and no row is given more often than in
  a network that loses nothing.
\<close>

text \<open>
  C7: no row is ever made up or mislabelled, whatever is lost. Take any deployment, any sequence of client
  calls on its nodes, and any weather between the nodes, which may lose a call before it arrives or lose its
  reply after it ran. Then each row of each fetched chunk names a node of the deployment and is a match of
  the query of the fetched request among the rows of that node's own files.
\<close>

theorem lossy_rows_genuine:
  assumes "deployment_ok addr cfgs" and "\<forall>c \<in> set cfgs. distinct (nc_assignedFiles c)"
    and "(lossy_step (deployed addr fs cfgs) wx d)\<^sup>*\<^sup>* (started_network addr fs cfgs, w0) (N, w)"
    and "c \<in> set cfgs" and "N (addr (nc_nodeId c)) = Some co"
    and "findRequestState co (fq_request_id f) = Some k"
    and "FetchChunk (lossy_system wx fs d (addr (nc_nodeId c))) (nc_nodeId c) f co (N, w) = (reply, co', N', w')"
  shows "\<forall>r \<in> set (reply_rows (nc_nodeId c) reply). snd r \<in> set (map nc_nodeId cfgs) \<and>
     r \<in> set (node_answer addr fs cfgs (rs_request (state_at co k)) (snd r))"
proof -
  let ?T = "deployed addr fs cfgs"
  have top: "topology_ok ?T" by (rule deployed_topology_ok [OF assms(1)])
  have sel: "tp_fs ?T = fs" "tp_addr ?T = addr" "tp_nodes ?T = set (map nc_nodeId cfgs)" by (simp_all add: deployed_def)
  have n: "nc_nodeId c \<in> tp_nodes ?T" using assms(4) by (simp add: sel)
  have net: "true_net ?T N" using lossy_run_true [OF assms(3) top] started_true [OF assms(1)] by simp
  have "\<forall>r \<in> set (reply_rows (nc_nodeId c) reply). true_row ?T (rs_request (state_at co k)) r"
    by (rule true_fetch(2) [OF top n net _ _ assms(6), where N' = N' and w' = w' and co' = co' and w = w and wx = wx and d = d])
      (use assms(5,7) in \<open>simp_all add: sel\<close>)
  then show ?thesis
    by (simp add: true_row_def sel deployed_rows [OF config_files [OF assms(2)]])
qed

definition ex_weather :: "fate list \<Rightarrow> fate \<times> fate list" where
  "ex_weather w = (case w of [] \<Rightarrow> (Delivered, []) | f # w \<Rightarrow> (f, w))"

lemma lossy_rows_genuine_witness:
  "snd ` set (reply_rows ''A'' (fst (FetchChunk (lossy_system ex_weather (\<lambda>_. ex_fs) 1 (ex_duo_addr ''A'')) ''A''
       \<lparr> fq_request_id = ''q-1'', fq_max_rows = 1 \<rparr> (accepted ex_parent (fromProtoSubmitQueryRequest ex_message))
       ((started_network ex_duo_addr (\<lambda>_. ex_fs) ex_duo)(ex_duo_addr ''A'' \<mapsto> accepted ex_parent (fromProtoSubmitQueryRequest ex_message)),
        [Delivered, Reply_Lost])))) \<subseteq> {''A'', ''B''}"
proof -
  let ?N = "started_network ex_duo_addr (\<lambda>_. ex_fs) ex_duo" and ?co = "accepted ex_parent (fromProtoSubmitQueryRequest ex_message)"
  let ?sys = "lossy_system ex_weather (\<lambda>_. ex_fs) 1 (ex_duo_addr (nc_nodeId ex_parent_cfg))"
  let ?N' = "?N(ex_duo_addr (nc_nodeId ex_parent_cfg) \<mapsto> ?co)"
  let ?f = "\<lparr> fq_request_id = ''q-1'', fq_max_rows = 1 \<rparr>"
  have id: "nc_nodeId ex_parent_cfg = ''A''" by (simp add: ex_parent_cfg_def ex_cfg_def)
  have files: "\<forall>c \<in> set ex_duo. distinct (nc_assignedFiles c)"
    by (simp add: ex_duo_def ex_parent_cfg_def ex_cfg_def ex_second_def)
  have c: "ex_parent_cfg \<in> set ex_duo" by (simp add: ex_duo_def)
  have "lossy_step ex_duo_net ex_weather 1 (?N, [Delivered, Reply_Lost]) (?N', [Delivered, Reply_Lost])"
    using lossy_step.submit [where T = ex_duo_net and wx = ex_weather and d = 1 and n = "nc_nodeId ex_parent_cfg" and N = ?N
        and co = ex_parent and m = ex_message and w = "[Delivered, Reply_Lost]", OF _ _ _ client_accepted] ex_duo_start c
    by (simp add: deployed_def ex_message_def)
  then have run: "(lossy_step ex_duo_net ex_weather 1)\<^sup>*\<^sup>* (?N, [Delivered, Reply_Lost]) (?N', [Delivered, Reply_Lost])" ..
  have find: "findRequestState ?co (fq_request_id ?f) = Some 0" by code_simp
  obtain reply co' N' w' where fetch: "FetchChunk ?sys (nc_nodeId ex_parent_cfg) ?f ?co (?N', [Delivered, Reply_Lost]) =
      (reply, co', N', w')" by (metis prod_cases4)
  have "?N' (ex_duo_addr (nc_nodeId ex_parent_cfg)) = Some ?co" by simp
  from lossy_rows_genuine [OF ex_duo_ok files run c this find fetch]
  have "\<forall>r \<in> set (reply_rows (nc_nodeId ex_parent_cfg) reply). snd r \<in> set (map nc_nodeId ex_duo)" by blast
  moreover have "map nc_nodeId ex_duo = [''A'', ''B'']" by (simp add: ex_duo_def ex_parent_cfg_def ex_cfg_def ex_second_def)
  ultimately show ?thesis using fetch by (auto simp: id)
qed

text \<open>
  C6: losses only take rows away, and a query always ends. Take any deployment, any sequence of client calls
  on its nodes in any weather, and a query submitted at any node. Whatever calls between the nodes are lost
  then, before they arrive or after they ran, the client's fetches reach done within the bound that holds
  without losses, and the rows it got, with their multiplicities, are among the rows the query delivers when
  nothing is lost, the matches of each node of its plan. In particular no row comes twice because a call was
  lost or failed half way.
\<close>

theorem lossy_query_part:
  assumes "deployment_ok addr cfgs" and "\<forall>c \<in> set cfgs. distinct (nc_assignedFiles c)"
    and "(lossy_step (deployed addr fs cfgs) wx d)\<^sup>*\<^sup>* (started_network addr fs cfgs, w0) (N, w)"
    and "length cfgs \<le> Suc d" and "c \<in> set cfgs" and "N (addr (nc_nodeId c)) = Some co"
    and "sq_scan_row_budget msg < 2 ^ 32"
    and "SubmitQuery (lossy_system wx fs d (addr (nc_nodeId c))) (nc_nodeId c) msg co (N, w) = (reply, co1, e1)"
    and "plan_work (deployed addr fs cfgs) (Suc d) (insert (nc_nodeId c) (set (sq_visited_node_ids msg))) (nc_nodeId c) < fuel"
  shows "\<exists>rows r. fetch_labelled (lossy_system wx fs d (addr (nc_nodeId c))) fuel (sr_request_id reply) m co1 e1 = Some (rows, r) \<and>
    mset rows \<subseteq># mset (concat (map (node_answer addr fs cfgs (fromProtoSubmitQueryRequest msg))
      (plan (deployed addr fs cfgs) (Suc d) (insert (nc_nodeId c) (set (sq_visited_node_ids msg))) (nc_nodeId c))))"
proof -
  let ?T = "deployed addr fs cfgs"
  have top: "topology_ok ?T" by (rule deployed_topology_ok [OF assms(1)])
  have sel: "tp_fs ?T = fs" "tp_addr ?T = addr" "tp_nodes ?T = set (map nc_nodeId cfgs)" by (simp_all add: deployed_def)
  have n: "nc_nodeId c \<in> tp_nodes ?T" using assms(5) by (simp add: sel)
  have net: "net_ok ?T N" using lossy_run_true [OF assms(3) top] started_true [OF assms(1)] by (simp add: true_net_ok)
  have deep: "card (tp_nodes ?T) \<le> Suc d" using deployed_card [of addr fs cfgs] assms(4) by simp
  have rows: "rows_from ?T req v 0 = node_answer addr fs cfgs req v" for req v
    by (rule deployed_rows [OF config_files [OF assms(2)]])
  show ?thesis
    using lossy_query_ends [OF top n net _ assms(7) deep, unfolded sel, OF assms(6,8,9), of m]
    by (simp only: plan_rows_def rows)
qed

lemma lossy_query_part_witness:
  "\<exists>fuel rows r. fetch_labelled (lossy_system ex_weather (\<lambda>_. ex_fs) 1 (ex_duo_addr ''A'')) fuel ''q-1'' 1
      (accepted ex_parent (fromProtoSubmitQueryRequest ex_message))
      (started_network ex_duo_addr (\<lambda>_. ex_fs) ex_duo, [Delivered, Reply_Lost]) = Some (rows, r) \<and> length rows \<le> 4"
proof -
  let ?N = "started_network ex_duo_addr (\<lambda>_. ex_fs) ex_duo" and ?req = "fromProtoSubmitQueryRequest ex_message"
  let ?sys = "lossy_system ex_weather (\<lambda>_. ex_fs) 1 (ex_duo_addr (nc_nodeId ex_parent_cfg))" and ?w = "[Delivered, Reply_Lost]"
  have id: "nc_nodeId ex_parent_cfg = ''A''" by (simp add: ex_parent_cfg_def ex_cfg_def)
  have msg: "sq_visited_node_ids ex_message = []" "sq_scan_row_budget ex_message < 2 ^ 32" by (simp_all add: ex_message_def)
  have files: "\<forall>c \<in> set ex_duo. distinct (nc_assignedFiles c)"
    by (simp add: ex_duo_def ex_parent_cfg_def ex_cfg_def ex_second_def)
  have c: "ex_parent_cfg \<in> set ex_duo" "length ex_duo \<le> Suc 1" by (simp_all add: ex_duo_def)
  have q: "''q-'' @ show_nat (co_nextQuerySeq ex_parent) = ''q-1''" by code_simp
  have plan: "plan ex_duo_net (Suc 1) (insert (nc_nodeId ex_parent_cfg) (set (sq_visited_node_ids ex_message)))
      (nc_nodeId ex_parent_cfg) = [''A'', ''B'']"
    by (simp only: msg id list.set ex_duo_plan)
  obtain fuel where fuel: "plan_work ex_duo_net (Suc 1) (insert (nc_nodeId ex_parent_cfg) (set (sq_visited_node_ids ex_message)))
      (nc_nodeId ex_parent_cfg) < fuel" by blast
  obtain rows r where run: "fetch_labelled ?sys fuel ''q-1'' 1 (accepted ex_parent ?req) (?N, ?w) = Some (rows, r)"
    and rows: "mset rows \<subseteq># mset (concat (map (node_answer ex_duo_addr (\<lambda>_. ex_fs) ex_duo ?req) [''A'', ''B'']))"
    using lossy_query_part [where wx = ex_weather and w = ?w and m = 1,
        OF ex_duo_ok files rtranclp.rtrancl_refl c(2,1) ex_duo_start msg(2) client_accepted fuel,
        unfolded plan fillSubmitQueryReply_def SubmitReply.simps q] by blast
  have "length rows \<le> 4" using size_mset_mono [OF rows] by (simp add: ex_duo_answers)
  then show ?thesis using run unfolding id by blast
qed

end
