(* ===== verification/Legacy_Cache.thy ===== *)
theory Legacy_Cache
  imports Node_Programs
begin

text \<open>
  The prototype the repository keeps under \<open>src/basic/legacy\<close>: a cache of name and value pairs behind a gRPC
  service (\<open>basicImpl.cc\<close>, \<open>server.cc\<close>), the client class over it (\<open>wrapper.h\<close>), its demonstration program
  (\<open>client.cc\<close>) and the older main program of the node service (\<open>main.cc\<close>). The generated stub and the states
  of the channel are parameters. The promise of a pair service is a locale, and the cache an instance of it.
\<close>

section \<open>The cache service\<close>

record CachePair =
  cp_id :: nat      \<comment> \<open>\<open>uint64\<close>\<close>
  cp_name :: string
  cp_value :: string

record Ack =
  ak_id :: nat      \<comment> \<open>\<open>uint32\<close>\<close>
  ak_success :: bool

definition new_CachePair :: CachePair where
  "new_CachePair = \<lparr> cp_id = 0, cp_name = [], cp_value = [] \<rparr>"

record BasicImpl =
  bi_mNextId :: int
  bi_mCache :: "(int, CachePair) umap"

definition new_BasicImpl :: BasicImpl where
  "new_BasicImpl = \<lparr> bi_mNextId = 0, bi_mCache = [] \<rparr>"

definition basic_get :: "nat \<Rightarrow> BasicImpl \<Rightarrow> CachePair" where
  \<comment> \<open>the reply; the status is always OK. The key is a \<open>long\<close>; the id of a pair that is found is not set\<close>
  "basic_get i s =
     (case um_find (bi_mCache s) (to_signed 64 (int i)) of
        Some p \<Rightarrow> new_CachePair\<lparr>cp_name := cp_name p, cp_value := cp_value p\<rparr>
      | None \<Rightarrow> new_CachePair\<lparr>cp_id := nat (to_unsigned 64 (- 1))\<rparr>)"

definition basic_put :: "CachePair \<Rightarrow> BasicImpl \<Rightarrow> Ack \<times> BasicImpl" where
  \<comment> \<open>the acknowledgement narrows the id to 32 bits\<close>
  "basic_put request s =
     (let nextId = bi_mNextId s + 1;
          p = request\<lparr>cp_id := nat (to_unsigned 64 nextId)\<rparr>;
          key = to_signed 64 (int (cp_id p))
      in (\<lparr> ak_id = cp_id p mod 2 ^ 32, ak_success = (um_find (bi_mCache s) key = None) \<rparr>,
          \<lparr> bi_mNextId = nextId, bi_mCache = um_try_emplace key p (bi_mCache s) \<rparr>))"

definition basic_setup :: bool where
  "basic_setup = True"

datatype cache_server =
  Waiting string     \<comment> \<open>serving at an address\<close>
| Null_Server        \<comment> \<open>\<open>Wait\<close> called on the null pointer \<open>BuildAndStart\<close> returned\<close>
| Closed

definition RunServer :: "(string \<Rightarrow> bool) \<Rightarrow> cache_server" where
  \<comment> \<open>\<open>listens\<close> says whether a server can be built at an address\<close>
  "RunServer listens =
     (let server_address = ''0.0.0.0:50051'';
          good = basic_setup
      in if good then (if listens server_address then Waiting server_address else Null_Server) else Closed)"

section \<open>The client class\<close>

datatype channel_state =
  CHANNEL_IDLE | CHANNEL_CONNECTING | CHANNEL_READY | CHANNEL_TRANSIENT_FAILURE | CHANNEL_SHUTDOWN

fun wait_ready :: "(nat \<Rightarrow> channel_state) \<Rightarrow> nat \<Rightarrow> nat \<Rightarrow> channel_state \<Rightarrow> channel_state" where
  \<comment> \<open>the waiting loop: \<open>states n\<close> is what the channel answers the \<open>n\<close>th time it is asked\<close>
  "wait_ready states n tries state =
     (if state = CHANNEL_READY then state
      else case tries of 0 \<Rightarrow> state | Suc tries \<Rightarrow> wait_ready states (n + 1) tries (states n))"

definition wrapper_setup :: "(nat \<Rightarrow> channel_state) \<Rightarrow> bool" where
  "wrapper_setup states =
     (let state = wait_ready states 1 5 (states 0)
      in if state = CHANNEL_TRANSIENT_FAILURE \<or> state = CHANNEL_SHUTDOWN then False
         else if state = CHANNEL_READY then True
         else False)"

record 'e cache_stub =
  \<comment> \<open>\<open>None\<close> for a status that is not OK\<close>
  cs_ping :: "'e \<Rightarrow> bool \<times> 'e"
  cs_put :: "CachePair \<Rightarrow> 'e \<Rightarrow> Ack option \<times> 'e"
  cs_get :: "nat \<Rightarrow> 'e \<Rightarrow> CachePair option \<times> 'e"

definition wrapper_ping :: "'e cache_stub \<Rightarrow> 'e \<Rightarrow> bool \<times> 'e" where
  "wrapper_ping ops e = cs_ping ops e"

definition wrapper_put :: "'e cache_stub \<Rightarrow> string \<Rightarrow> string \<Rightarrow> 'e \<Rightarrow> (bool \<times> int) \<times> 'e" where
  \<comment> \<open>the result and the reference parameter, which is set even when the call failed\<close>
  "wrapper_put ops n v e =
     (case cs_put ops (new_CachePair\<lparr>cp_name := n, cp_value := v\<rparr>) e of
        (None, e) \<Rightarrow> ((False, 0), e)
      | (Some reply, e) \<Rightarrow> ((True, int (ak_id reply)), e))"

definition wrapper_get :: "'e cache_stub \<Rightarrow> int \<Rightarrow> 'e \<Rightarrow> (bool \<times> string \<times> string) \<times> 'e" where
  "wrapper_get ops i e =
     (case cs_get ops (nat (to_unsigned 64 i)) e of
        (None, e) \<Rightarrow> ((False, [], []), e)
      | (Some reply, e) \<Rightarrow> ((True, cp_name reply, cp_value reply), e))"

datatype cache_line =
  Test_Ping bool | Test_Put int | Put_Failed | Test_Get int string string | Get_Failed

definition cache_client :: "'e cache_stub \<Rightarrow> (nat \<Rightarrow> channel_state) \<Rightarrow> 'e \<Rightarrow> (nat \<times> cache_line list) \<times> 'e" where
  \<comment> \<open>the demonstration: exit code and what it prints\<close>
  "cache_client ops states e =
     (if \<not> wrapper_setup states then ((255, []), e)
      else case wrapper_ping ops e of (p, e) \<Rightarrow>
        case wrapper_put ops ''color'' ''red'' e of ((ok, i), e) \<Rightarrow>
        case wrapper_get ops i e of ((found, name, value), e) \<Rightarrow>
          ((0, [Test_Ping p, if ok then Test_Put i else Put_Failed,
                if found then Test_Get i name value else Get_Failed]), e))"

section \<open>The older node program\<close>

datatype legacy_end =
  Legacy_Exit nat
| Legacy_Serving NodeConfig NodeServiceImpl

definition legacy_main :: "file_system \<Rightarrow> (string \<Rightarrow> bool) \<Rightarrow> (string \<Rightarrow> bool) \<Rightarrow> string list \<Rightarrow> legacy_end" where
  \<comment> \<open>the server before it had a query service\<close>
  "legacy_main fs channel listens args =
     (case args of
        [flag, configPath] \<Rightarrow>
          if flag \<noteq> ''--config'' then Legacy_Exit 1
          else (case loadConfig fs configPath of
            Inl _ \<Rightarrow> Legacy_Exit 10
          | Inr cfg \<Rightarrow>
              case setup_peers channel (new_NodeServiceImpl cfg) of
                (False, _) \<Rightarrow> Legacy_Exit 2
              | (True, service) \<Rightarrow>
                  if \<not> listens (listenTarget cfg) then Legacy_Exit 3 else Legacy_Serving cfg service)
      | _ \<Rightarrow> Legacy_Exit 1)"

text \<open>Every end of the older program is that of the present one without the query service.\<close>

lemma legacy_main_server:
  "legacy_main fs channel listens args =
     (case server_main fs channel listens args of
        Exit n \<Rightarrow> Legacy_Exit n | Serving cfg service co \<Rightarrow> Legacy_Serving cfg service)"
  by (auto simp: legacy_main_def server_main_def Let_def split: list.split sum.split prod.split bool.split)

declare wait_ready.simps [simp del]

lemma wait_ready_iff:
  "wait_ready states n tries s = CHANNEL_READY \<longleftrightarrow> s = CHANNEL_READY \<or> (\<exists>i < tries. states (n + i) = CHANNEL_READY)"
proof (induction tries arbitrary: n s)
  case (Suc tries)
  have "(\<exists>i < Suc tries. states (n + i) = CHANNEL_READY) \<longleftrightarrow>
      states n = CHANNEL_READY \<or> (\<exists>i < tries. states (Suc n + i) = CHANNEL_READY)"
    by (subst Ex_less_Suc2) simp
  then show ?case using Suc.IH [of "Suc n" "states n"] by (subst wait_ready.simps) auto
qed (subst wait_ready.simps, simp)

lemma setup_waits: "wrapper_setup states \<longleftrightarrow> (\<exists>i \<le> 5. states i = CHANNEL_READY)"
proof -
  have "(\<exists>i \<le> (5 :: nat). states i = CHANNEL_READY) \<longleftrightarrow> (\<exists>i < Suc 5. states i = CHANNEL_READY)"
    by (simp only: less_Suc_eq_le)
  also have "\<dots> \<longleftrightarrow> states 0 = CHANNEL_READY \<or> (\<exists>i < 5. states (1 + i) = CHANNEL_READY)"
    by (subst Ex_less_Suc2) simp
  also have "\<dots> \<longleftrightarrow> wrapper_setup states"
    unfolding wrapper_setup_def Let_def using wait_ready_iff [of states 1 5 "states 0"] by auto
  finally show ?thesis ..
qed

section \<open>What a pair service promises\<close>

definition held_answer :: "(string \<times> string) list \<Rightarrow> nat \<Rightarrow> string \<times> string" where
  \<comment> \<open>the pair with a number, counted from one; empty strings for any other number\<close>
  "held_answer h i = (if 1 \<le> i \<and> i \<le> length h then h ! (i - 1) else ([], []))"

locale pair_service =
  fixes ops :: "'e cache_stub" and held :: "'e \<Rightarrow> (string \<times> string) list" and valid :: "'e \<Rightarrow> bool"
  assumes put_adds: "valid e \<Longrightarrow> Suc (length (held e)) < 2 ^ 63 \<Longrightarrow> \<exists>b e'. cs_put ops p e = (Some \<lparr> ak_id = Suc (length (held e)) mod 2 ^ 32, ak_success = b \<rparr>, e') \<and>
      valid e' \<and> held e' = held e @ [(cp_name p, cp_value p)]"
    and get_reads: "valid e \<Longrightarrow> i < 2 ^ 63 \<Longrightarrow> \<exists>reply. cs_get ops i e = (Some reply, e) \<and> (cp_name reply, cp_value reply) = held_answer (held e) i"
begin

lemma wrapper_put_adds:
  assumes "valid e" and "Suc (length (held e)) < 2 ^ 63"
  shows "\<exists>e'. wrapper_put ops n v e = ((True, int (Suc (length (held e)) mod 2 ^ 32)), e') \<and> valid e' \<and>
    held e' = held e @ [(n, v)]"
  using put_adds [OF assms, where p = "new_CachePair\<lparr>cp_name := n, cp_value := v\<rparr>"] by (auto simp: wrapper_put_def)

lemma wrapper_get_reads:
  assumes "valid e" and "0 \<le> i" and "i < 2 ^ 63"
  shows "wrapper_get ops i e = ((True, held_answer (held e) (nat i)), e)"
proof -
  have "to_unsigned 64 i = i" using assms by (intro to_unsigned_id) simp_all
  moreover have "nat i < 2 ^ 63" using assms by simp
  ultimately show ?thesis using get_reads [OF assms(1), of "nat i"] by (auto simp: wrapper_get_def)
qed

text \<open>What was put is read back under the id returned, as long as ids fit 32 bits; then the numbers start again.\<close>

lemma put_get:
  assumes "valid e" and "Suc (length (held e)) < 2 ^ 63" and "wrapper_put ops n v e = ((ok, i), e1)"
    and "valid e2" and "held e2 = held e1 @ later"
  shows "ok" and "wrapper_get ops i e2 = ((True, held_answer (held e @ (n, v) # later) (Suc (length (held e)) mod 2 ^ 32)), e2)"
    and "Suc (length (held e)) < 2 ^ 32 \<Longrightarrow> wrapper_get ops i e2 = ((True, n, v), e2)"
proof -
  have p: "ok" "i = int (Suc (length (held e)) mod 2 ^ 32)" "held e1 = held e @ [(n, v)]"
    using wrapper_put_adds [OF assms(1,2), of n v] assms(3) by auto
  show "ok" by (rule p(1))
  have "int (m mod 2 ^ 32) < 2 ^ 63" for m :: nat
    by (simp add: of_nat_mod)
  note small = this [of "Suc (length (held e))"]
  then show get: "wrapper_get ops i e2 =
      ((True, held_answer (held e @ (n, v) # later) (Suc (length (held e)) mod 2 ^ 32)), e2)"
    using wrapper_get_reads [OF assms(4), of i] p assms(5) small by (simp add: nat_int del: of_nat_Suc of_nat_mod)
  assume "Suc (length (held e)) < 2 ^ 32"
  then show "wrapper_get ops i e2 = ((True, n, v), e2)"
    unfolding get by (simp add: held_answer_def nth_append)
qed

lemma client_shows_red:
  assumes "valid e" and "Suc (length (held e)) < 2 ^ 32" and "wrapper_setup states"
    and "\<And>e. snd (cs_ping ops e) = e"
  shows "fst (cache_client ops states e) = (0, [Test_Ping (fst (cs_ping ops e)),
    Test_Put (int (Suc (length (held e)))), Test_Get (int (Suc (length (held e)))) ''color'' ''red''])"
proof -
  have m: "Suc (length (held e)) mod 2 ^ 32 = Suc (length (held e))" using assms(2) by simp
  have room: "Suc (length (held e)) < 2 ^ 63" using assms(2) by simp
  obtain e1 where put: "wrapper_put ops ''color'' ''red'' e = ((True, int (Suc (length (held e)))), e1)"
    and h: "valid e1" "held e1 = held e @ [(''color'', ''red'')]"
    using wrapper_put_adds [OF assms(1) room, unfolded m] by blast
  have get: "wrapper_get ops (int (Suc (length (held e)))) e1 = ((True, ''color'', ''red''), e1)"
    by (rule put_get(3) [OF assms(1) room put h(1), of "[]"]) (use assms(2) h in simp_all)
  have ping: "cs_ping ops e = (fst (cs_ping ops e), e)" using assms(4) [of e] by (metis prod.collapse)
  show ?thesis using assms(3)
    unfolding cache_client_def wrapper_ping_def by (subst ping) (simp only: prod.case put get, simp)
qed

end

section \<open>The cache is a pair service\<close>

definition cache_stub_of :: "BasicImpl cache_stub" where
  \<comment> \<open>a stub that reaches the service at every call\<close>
  "cache_stub_of = \<lparr> cs_ping = (\<lambda>s. (True, s)),
     cs_put = (\<lambda>p s. case basic_put p s of (a, s) \<Rightarrow> (Some a, s)),
     cs_get = (\<lambda>i s. (Some (basic_get i s), s)) \<rparr>"

definition held_pairs :: "BasicImpl \<Rightarrow> (string \<times> string) list" where
  "held_pairs s = map (\<lambda>i. case um_find (bi_mCache s) (int i) of
     None \<Rightarrow> ([], []) | Some p \<Rightarrow> (cp_name p, cp_value p)) [1..<nat (bi_mNextId s) + 1]"

definition cache_ok :: "BasicImpl \<Rightarrow> bool" where
  \<comment> \<open>the keys are the numbers handed out\<close>
  "cache_ok s \<longleftrightarrow> 0 \<le> bi_mNextId s \<and> bi_mNextId s < 2 ^ 63 \<and>
     (\<forall>k. um_find (bi_mCache s) k \<noteq> None \<longleftrightarrow> 1 \<le> k \<and> k \<le> bi_mNextId s)"

lemma held_pairs_length: "length (held_pairs s) = nat (bi_mNextId s)"
  by (simp add: held_pairs_def)

lemma new_cache_ok: "cache_ok new_BasicImpl" "held_pairs new_BasicImpl = []"
  by (simp_all add: cache_ok_def new_BasicImpl_def held_pairs_def)

lemma basic_put_ok:
  assumes ok: "cache_ok s" and room: "Suc (length (held_pairs s)) < 2 ^ 63" and put: "basic_put p s = (a, s')"
  shows "a = \<lparr> ak_id = Suc (length (held_pairs s)) mod 2 ^ 32, ak_success = True \<rparr>" and "cache_ok s'"
    and "held_pairs s' = held_pairs s @ [(cp_name p, cp_value p)]"
proof -
  define n where "n = nat (bi_mNextId s)"
  have n: "bi_mNextId s = int n" "length (held_pairs s) = n" "Suc n < 2 ^ 63"
    using ok room by (simp_all add: n_def cache_ok_def held_pairs_length)
  then have "to_unsigned 64 (int n + 1) = int n + 1" "to_signed 64 (int n + 1) = int n + 1"
    "to_signed 64 (1 + int n) = int n + 1"
    by (auto intro!: to_unsigned_id to_signed_64_id simp: to_signed_64_id)
  moreover have "nat (int n + 1) = Suc n" by simp
  moreover have fresh: "um_find (bi_mCache s) (int n + 1) = None"
    using ok n(1) by (metis add_le_same_cancel1 cache_ok_def not_one_le_zero)
  ultimately have a: "a = \<lparr> ak_id = Suc n mod 2 ^ 32, ak_success = True \<rparr>"
    and s': "s' = \<lparr> bi_mNextId = int n + 1, bi_mCache = um_put (int n + 1) (p\<lparr>cp_id := Suc n\<rparr>) (bi_mCache s) \<rparr>"
    using put by (auto simp: basic_put_def Let_def n(1) um_try_emplace_def)
  show "a = \<lparr> ak_id = Suc (length (held_pairs s)) mod 2 ^ 32, ak_success = True \<rparr>" using a n(2) by simp
  show "cache_ok s'" using ok n by (auto simp: s' cache_ok_def)
  have "nat (int n + 1) + 1 = Suc (Suc n)" by simp
  then have "held_pairs s' = map (\<lambda>i. case um_find (bi_mCache s') (int i) of
     None \<Rightarrow> ([], []) | Some p \<Rightarrow> (cp_name p, cp_value p)) ([1..<n + 1] @ [n + 1])"
    by (simp add: held_pairs_def s')
  also have "\<dots> = held_pairs s @ [(cp_name p, cp_value p)]"
    by (simp add: held_pairs_def n(1) s')
  finally show "held_pairs s' = held_pairs s @ [(cp_name p, cp_value p)]" .
qed

lemma basic_get_ok:
  assumes ok: "cache_ok s" and i: "i < 2 ^ 63"
  shows "(cp_name (basic_get i s), cp_value (basic_get i s)) = held_answer (held_pairs s) i"
proof -
  have "int i < int (2 ^ 63)" using i by (simp only: of_nat_less_iff)
  then have key: "to_signed 64 (int i) = int i" by (intro to_signed_64_id) simp_all
  have "um_find (bi_mCache s) (int i) \<noteq> None \<longleftrightarrow> 1 \<le> i \<and> i \<le> nat (bi_mNextId s)"
    using ok by (auto simp: cache_ok_def le_nat_iff)
  then show ?thesis
    by (auto simp: basic_get_def key held_answer_def held_pairs_length new_CachePair_def held_pairs_def
        simp del: upt_Suc split: option.splits)
qed

interpretation cache: pair_service cache_stub_of held_pairs cache_ok
proof unfold_locales
  fix e p assume ok: "cache_ok e" and room: "Suc (length (held_pairs e)) < 2 ^ 63"
  obtain a e' where put: "basic_put p e = (a, e')" by fastforce
  show "\<exists>b e'. cs_put cache_stub_of p e = (Some \<lparr> ak_id = Suc (length (held_pairs e)) mod 2 ^ 32, ak_success = b \<rparr>, e') \<and>
      cache_ok e' \<and> held_pairs e' = held_pairs e @ [(cp_name p, cp_value p)]"
    using basic_put_ok [OF ok room put] by (intro exI [of _ True] exI [of _ e']) (simp add: cache_stub_of_def put)
next
  fix e i assume "cache_ok e" and "i < (2 :: nat) ^ 63"
  then show "\<exists>reply. cs_get cache_stub_of i e = (Some reply, e) \<and> (cp_name reply, cp_value reply) = held_answer (held_pairs e) i"
    using basic_get_ok by (simp add: cache_stub_of_def)
qed

text \<open>
  Along a history of puts: a pair is read back under the id its put returned whatever is put later, as long as
  at most \<open>2 ^ 32 - 1\<close> pairs were put up to it; from then on the 32 bit id of the acknowledgement names an older
  pair, or none, and the call succeeds all the same.
\<close>

definition cache_after :: "CachePair list \<Rightarrow> BasicImpl \<Rightarrow> BasicImpl" where
  "cache_after ps s = fold (\<lambda>p s. snd (basic_put p s)) ps s"

lemma cache_after_ok:
  assumes "cache_ok s" and "length (held_pairs s) + length ps < 2 ^ 63"
  shows "cache_ok (cache_after ps s) \<and>
    held_pairs (cache_after ps s) = held_pairs s @ map (\<lambda>p. (cp_name p, cp_value p)) ps"
  using assms
proof (induction ps arbitrary: s)
  case (Cons p ps)
  obtain a s' where put: "basic_put p s = (a, s')" by fastforce
  have room: "Suc (length (held_pairs s)) < 2 ^ 63" using Cons.prems by simp
  note ok = basic_put_ok(2,3) [OF Cons.prems(1) room put]
  have "length (held_pairs s') + length ps < 2 ^ 63" using ok(2) Cons.prems by simp
  from Cons.IH [OF ok(1) this] show ?case using put ok(2) by (simp add: cache_after_def)
qed (simp add: cache_after_def)

lemma legacy_put_get:
  assumes "length ps + length qs + 1 < 2 ^ 63"
    and "wrapper_put cache_stub_of n v (cache_after ps new_BasicImpl) = ((ok, i), s)"
  shows "ok" and "length ps + 1 < 2 ^ 32 \<Longrightarrow> fst (wrapper_get cache_stub_of i (cache_after qs s)) = (True, n, v)"
    and "fst (wrapper_get cache_stub_of i (cache_after qs s)) = (True,
      held_answer (map (\<lambda>p. (cp_name p, cp_value p)) ps @ (n, v) # map (\<lambda>p. (cp_name p, cp_value p)) qs)
        (Suc (length ps) mod 2 ^ 32))"
proof -
  let ?s = "cache_after ps new_BasicImpl"
  have s: "cache_ok ?s" "held_pairs ?s = map (\<lambda>p. (cp_name p, cp_value p)) ps"
    using cache_after_ok [OF new_cache_ok(1), of ps] assms(1) by (simp_all add: new_cache_ok(2))
  have room: "Suc (length (held_pairs ?s)) < 2 ^ 63" using assms(1) by (simp add: s(2))
  obtain s1 where s1: "wrapper_put cache_stub_of n v ?s = ((True, int (Suc (length (held_pairs ?s)) mod 2 ^ 32)), s1)"
    "cache_ok s1" "held_pairs s1 = held_pairs ?s @ [(n, v)]"
    using cache.wrapper_put_adds [OF s(1) room] by blast
  then have same: "s1 = s" using assms(2) by simp
  have "length (held_pairs s) + length qs < 2 ^ 63" using assms(1) s1(3) s(2) same by simp
  note end_ok = cache_after_ok [OF s1(2) [unfolded same] this]
  note reads = cache.put_get [OF s(1) room assms(2) conjunct1 [OF end_ok] conjunct2 [OF end_ok]]
  show "ok" by (rule reads(1))
  show "length ps + 1 < 2 ^ 32 \<Longrightarrow> fst (wrapper_get cache_stub_of i (cache_after qs s)) = (True, n, v)"
    using reads(3) s(2) by simp
  show "fst (wrapper_get cache_stub_of i (cache_after qs s)) = (True,
      held_answer (map (\<lambda>p. (cp_name p, cp_value p)) ps @ (n, v) # map (\<lambda>p. (cp_name p, cp_value p)) qs)
        (Suc (length ps) mod 2 ^ 32))"
    using reads(2) s(2) by simp
qed

end
