(* ===== verification/Spec2Isabelle.thy ===== *)
theory Spec2Isabelle
  imports Client_Properties Node_Programs Program_Properties Overlay_Properties Data_Properties Node_Properties
    Taxi_Properties Record_Properties Bench_Properties Ledger_Properties Fault_Properties Legacy_Cache
begin

text \<open>
  A verification development for the distributed taxi trip query engine under \<open>src/basic/src\<close>.

  The program. Every node of the overlay is one server process. At its start (\<open>server/main.cpp\<close>) it
  reads a JSON configuration (\<open>common/config.cc\<close>), builds an overlay around itself
  (\<open>model/OverlayConfig.hpp\<close>), makes a worker (\<open>querycoordination/WorkerNode\<close>) and loads the CSV files
  assigned to it into a partition store (\<open>dataset/PartitionLoader\<close>, \<open>dataset/PartitionStore.hpp\<close>), which
  keeps where the rows begin, not the rows. A query arrives by gRPC at \<open>server/QueryServiceImpl\<close>, is
  converted (\<open>transport/QueryProtoConverters\<close>) and handed to \<open>querycoordination/QueryCoordinator\<close>. The
  coordinator keeps a state per request (\<open>querycoordination/RequestState\<close>), runs the local part in
  bounded windows through the local engine (\<open>query/LocalQueryEngine\<close>, parsing rows with
  \<open>dataset/PartitionCsvParser.hpp\<close>), and sends a subquery to each child that is not in the request's
  visited list, through \<open>transport/GrpcRemoteQueryClient\<close>. The caller fetches chunks until the reply
  says there are no more rows; each fetch answers with the local rows and the rows of one round over
  the children, cut to an adaptive chunk size. Beside it stand the ping and probe service
  (\<open>server/BasecampServiceImpl\<close>, \<open>transport/node_stub\<close>) and the ingest queue and dispatcher (\<open>ingest/\<close>).

  Theories and code, in the order of their dependencies:
  \<^item> \<open>Prelude\<close>: shared lemmas on lists, options, folds and sorting, the collections of simp rules;
    \<open>Cxx_Runtime\<close>: what the code uses of C and C++ (fixed width integers, \<open>from_chars\<close>, \<open>strtof\<close> on the
    bit patterns of \<open>float\<close>, \<open>timegm\<close>, path names).
  \<^item> \<open>Model_Types\<close>: the structs of \<open>model/\<close> as records, the enumerations as datatypes.
  \<^item> \<open>Overlay\<close>, \<open>Overlay_Check\<close>, \<open>Overlay_Properties\<close>: \<open>OverlayConfig\<close>; the hash maps are maps with an
    explicit list of keys in insertion order. The traversals are total functions whose termination
    measure is the number of nodes not yet visited.
  \<^item> \<open>Csv_Fields\<close>, \<open>Csv_Values\<close>, \<open>Partition_Csv\<close>: the row scanner, the field conversions and the header.
  \<^item> \<open>Partition_Store\<close>, \<open>Chunk_Source\<close>: the loader and store over a file system, which is a map from paths
    to files and directories; the locale of what the engine needs of a source of rows.
  \<^item> \<open>Local_Engine\<close>, \<open>Local_Chunks\<close>, \<open>Worker_Node\<close>: COUNT and EXECUTE with their resume points.
  \<^item> \<open>Request_State\<close>, \<open>Query_Coordinator\<close>: the state of a request and every member function of the
    coordinator, as functions from the coordinator and the outside world to a result, the new
    coordinator and the new world. \<open>Coordinator_Facts\<close>, \<open>Coordinator_Steps\<close>, \<open>Coordinator_Entry\<close> prove
    what each of them changes; \<open>steps k co co'\<close> says that only request \<open>k\<close> moved, and forward.
  \<^item> \<open>Query_Proto\<close>, \<open>Remote_Client\<close>, \<open>Query_Service\<close>: messages, conversions, the client over a stub, and
    the six handlers. \<open>Local_Delivery\<close> has the client's fetch loop and proves that it delivers.
    \<open>Service_Machine\<close> is the server as a step relation, one handler a step, with any change of the
    outside world between two steps; \<open>Service_Properties\<close> are its invariants by rule induction.
  \<^item> \<open>Node_Config\<close>, \<open>Node_Server\<close>, \<open>Ingest\<close>, \<open>Basecamp_Service\<close>: configuration, start, ingest, probes.
  \<^item> \<open>Network\<close>: nodes that call each other. A network maps addresses to coordinators, and \<open>net_ops\<close>
    is the stub by which the coordinator of one node runs the handlers of \<open>Query_Service\<close> at another;
    \<open>plan\<close> is the abstract specification, the list of the nodes a request visits. \<open>Network_Moves\<close>,
    \<open>Network_Submit\<close>, \<open>Network_Fetch\<close>, \<open>Network_Round\<close> show what a subquery, a fetch and one round over
    the children do to the rows still to come, by induction on the nesting depth; \<open>Network_Delivery\<close> adds
    the client's loop. \<open>Deployment\<close> builds the network from configurations and keeps it well formed along
    any history of calls (\<open>net_step\<close>); \<open>Visit_Plan\<close> relates plans to the paths of the overlay and holds the
    shipped overlay of nine nodes; \<open>Network_Properties\<close> states what a client gets.
  \<^item> \<open>Network_Faults\<close>: the same nodes with calls that may be lost before they arrive or after they ran
    (\<open>lossy_ops\<close>; a state of which nothing is assumed decides). The links between the requests of different
    nodes stay true along any history of clients' calls (\<open>lossy_step\<close>), so no row is made up or mislabelled.
    \<open>Network_Losses\<close>: every step of a handler is a step of \<open>fades\<close>, which lets what a request owes and the
    work left shrink only; \<open>Fault_Properties\<close> states what a client of such a network gets.
  \<^item> \<open>Coordinator_Ledger\<close>, \<open>Ledger_Properties\<close>: the books of one request at one node, with children that may
    answer anything. A stub that notes the trips arriving is an instance of the locale \<open>noting\<close>, the lemmas
    show that noting changes nothing and that what was read, received, delivered and cached balances.
  \<^item> \<open>Taxi_Csv\<close>, \<open>Taxi_Fields\<close>, \<open>Taxi_Agree\<close>: the second row parser,
    \<open>taxi_implementation/TaxiTripCSVParser\<close>, what its columns are and where it agrees with the first.
    \<open>Taxi_Dataset\<close>, \<open>Taxi_Scans\<close>: the stand-alone data set (\<open>taxi/BufferedFileReader\<close>, the predicates of
    \<open>query/\<close>, \<open>dataset/TaxiTripDataset\<close>) with its serial, collecting, per-file OpenMP and batched OpenMP
    scans. \<open>Taxi_Properties\<close> states what they promise.
  \<^item> \<open>Cxx_Numbers\<close>, \<open>Record_Parser\<close>: the number functions and the record parser of
    \<open>apps/implementationA\<close>; \<open>Record_Store\<close>: its row and column stores, their queries and the two pass
    parallel fill as a step relation; \<open>Record_Queries\<close>: the invariant of the fill for any interleaving
    of its threads and the refinement of the row store by the column store; \<open>Record_Ingest\<close>: the CSV
    reader and the ingestion of a directory. \<open>Record_Properties\<close> states what they promise.
  \<^item> \<open>Query_Client\<close>: the command line client \<open>client/query_client.cc\<close>, from its arguments to its exit code;
    \<open>Client_Delivery\<close> runs it against a network of nodes and \<open>Client_Properties\<close> states what it prints.
    \<open>Node_Programs\<close>: the server's \<open>main\<close> and \<open>client/basecamp_client.cc\<close>. \<open>Query_Programs\<close>,
    \<open>Program_Properties\<close>: the two test programs \<open>apps/localquery_main.cpp\<close> and
    \<open>apps/distributedquery_main.cpp\<close> and how their answers compare.
  \<^item> \<open>Legacy_Cache\<close>: the prototype under \<open>src/basic/legacy\<close>, a cache service, its client class over a stub, and
    the older node program, which is the present one without the query service. What a pair service promises
    is the locale \<open>pair_service\<close>, interpreted on the cache through the list of the pairs it holds.
  \<^item> \<open>Dataset_Bench\<close>: \<open>metrics/BenchmarkRunner\<close> and \<open>apps/streamingmain.cpp\<close>; \<open>Record_Bench\<close>: the benchmark of
    implementation A, its \<open>main.cpp\<close> and \<open>apps/main.cpp\<close>; \<open>Bench_Properties\<close>: their counts are exact and do
    not depend on modes and schedules. A finite \<open>double\<close> is a rational and every operation on it is the
    exact one followed by a rounding function that is a parameter.
  \<^item> \<open>Examples\<close>: concrete files, configurations and coordinators, on which the witnesses run;
    \<open>Data_Properties\<close>, \<open>Coordinator_Properties\<close>, \<open>Node_Properties\<close> and this theory state the properties.

  Threads. An OpenMP loop is a schedule: for each thread the list of the iterations it runs. A dynamic
  schedule is any partition of the iterations, a static one is the contiguous ranges of the library.
  Reductions add up what the threads counted, in any order; where threads write to shared memory (the
  fill of the result array) the model interleaves their single writes.

  What is a parameter. The generated gRPC stub (record \<open>stub_ops\<close>; in a network it is \<open>net_ops\<close>, a stub
  that delivers every call, or \<open>lossy_ops\<close>, one that may lose it, all nodes running this server), the file
  system (with the stub in the record \<open>system\<close>), and the JSON reader belong to no file under \<open>src/\<close>; the
  model takes them as arguments and the properties hold for all of them, or name what they need. So are the stubs of the
  two clients, the durations and roundings of the benchmarks, and the fields of uninitialised records.

  Fuel. The client's loops may run forever against a server that never finishes, so they take fuel
  and return \<open>None\<close> when it runs out. \<open>fetch_all\<close> needs more than twice the rows of the node (a round may
  cache rows without delivering them), \<open>drain\<close> more than the rows, a probe more than its ttl; the
  theorems prove that this much gives \<open>Some\<close>. The calls of a network nest as deep as the visiting plan,
  never deeper than there are nodes, because a node passes on whom it has visited; the depth of \<open>net_ops\<close>
  is the number of nodes less one, and \<open>plan_work\<close> bounds the fetches a client needs by twice the rows and
  the visits of the plan.

  What is not modelled. Handlers are atomic steps: the coordinator has no lock, and the races of two
  handlers running at once are outside the model (see the findings of the manifest). Deadlines appear as
  failed calls, which in \<open>lossy_ops\<close> may have run at the other side. A node that restarts forgets its
  requests and hands out their identifiers again; restarts within a history are not modelled. Measured
  times are a parameter; console output is left out but for the values a program prints. The Python server
  is not C++. Of the headers, what is left beside comments are declarations and accessors of fields.
\<close>

section \<open>Properties\<close>


lemma ex_node_rows: "length (node_rows ex_fs ex_cfg) = 3"
proof -
  have "distinct (nc_assignedFiles ex_cfg)" by (simp add: ex_cfg_def)
  then show ?thesis
    using ex_worker_rows node_rows_store [of ex_cfg ex_fs] by (simp add: worker_rows_def row_count_def)
qed


end
